(* ===== verification/Prelude.thy ===== *)
theory Prelude
  imports
    Main
    "HOL-Library.Char_ord"
    "HOL-Library.List_Lexorder"
    "HOL-Library.Product_Lexorder"
    "HOL-Library.AList"
begin

text \<open>
  The prelude of the development: what every component theory shares.

  Go strings are byte strings, here \<open>string\<close> (a list of \<open>char\<close>, a \<open>char\<close> being one byte).
  The functions of package \<open>strings\<close> the program calls (ToLower, EqualFold, TrimSpace,
  HasPrefix, HasSuffix, TrimPrefix, TrimSuffix, Contains, Index, LastIndex, Split) are defined
  by recursion, so that closed instances evaluate. Case mapping and white space are the ASCII
  ones: DNS names, zones, marker slugs and addresses are ASCII, and a byte above 127 is left
  as it is.

  Fallible code returns \<open>'e + 'a\<close> with \<open>Inl\<close> the error; \<open>rbind\<close> is Go's
  \<open>if err != nil { return err }\<close> and \<open>rmap\<close> a loop that returns at the first error.
  A Go map that is only ranged over after sorting its keys is an association list, updated
  with \<open>AList.update\<close>.
\<close>

named_theorems go_simps \<open>evaluation rules for the Go string functions\<close>

section \<open>Bytes and case mapping\<close>

definition lower_char :: "char \<Rightarrow> char" where
  "lower_char c =
     (if 65 \<le> (of_char c :: nat) \<and> (of_char c :: nat) \<le> 90
      then char_of ((of_char c :: nat) + 32) else c)"

definition to_lower :: "string \<Rightarrow> string" where
  "to_lower s = map lower_char s"

definition equal_fold :: "string \<Rightarrow> string \<Rightarrow> bool" where
  "equal_fold s t = (to_lower s = to_lower t)"

text \<open>For evaluation: a capital letter differs from the small one in one bit.\<close>

lemma lower_char_code [code]:
  "lower_char (Char b0 b1 b2 b3 b4 b5 b6 b7) =
     Char b0 b1 b2 b3 b4 (b5 \<or> (\<not> b7 \<and> b6 \<and> (b0 \<or> b1 \<or> b2 \<or> b3 \<or> b4)
       \<and> \<not> (b4 \<and> b3 \<and> (b2 \<or> (b1 \<and> b0))))) b6 b7"
  by (cases b0; cases b1; cases b2; cases b3; cases b4; cases b5; cases b6; cases b7;
      simp add: lower_char_def char_of_def bit_Suc_0_iff)

lemma lower_char_idem [simp]: "lower_char (lower_char c) = lower_char c"
  by (simp add: lower_char_def)

lemma to_lower_idem [simp]: "to_lower (to_lower s) = to_lower s"
  by (simp add: to_lower_def)

lemma to_lower_Nil [simp]: "to_lower [] = []"
  by (simp add: to_lower_def)

lemma to_lower_Cons: "to_lower (c # s) = lower_char c # to_lower s"
  by (simp add: to_lower_def)

lemma to_lower_append [simp]: "to_lower (s @ t) = to_lower s @ to_lower t"
  by (simp add: to_lower_def)

lemma to_lower_eq_Nil [simp]: "to_lower s = [] \<longleftrightarrow> s = []"
  by (simp add: to_lower_def)

lemma length_to_lower [simp]: "length (to_lower s) = length s"
  by (simp add: to_lower_def)

lemma equal_fold_refl [simp]: "equal_fold s s"
  by (simp add: equal_fold_def)

lemma equal_fold_sym: "equal_fold s t \<longleftrightarrow> equal_fold t s"
  by (auto simp: equal_fold_def)

lemma equal_fold_trans [trans]: "equal_fold s t \<Longrightarrow> equal_fold t u \<Longrightarrow> equal_fold s u"
  by (simp add: equal_fold_def)

lemma equal_fold_lower [simp]: "equal_fold (to_lower s) t \<longleftrightarrow> equal_fold s t"
  "equal_fold s (to_lower t) \<longleftrightarrow> equal_fold s t"
  by (simp_all add: equal_fold_def)

section \<open>Prefixes, suffixes, substrings\<close>

fun has_prefix :: "string \<Rightarrow> string \<Rightarrow> bool" where
  "has_prefix [] s = True"
| "has_prefix (p # ps) [] = False"
| "has_prefix (p # ps) (c # s) = (p = c \<and> has_prefix ps s)"

definition has_suffix :: "string \<Rightarrow> string \<Rightarrow> bool" where
  "has_suffix suf s = has_prefix (rev suf) (rev s)"

definition trim_prefix :: "string \<Rightarrow> string \<Rightarrow> string" where
  "trim_prefix p s = (if has_prefix p s then drop (length p) s else s)"

definition trim_suffix :: "string \<Rightarrow> string \<Rightarrow> string" where
  "trim_suffix suf s = (if has_suffix suf s then take (length s - length suf) s else s)"

fun str_index :: "string \<Rightarrow> string \<Rightarrow> nat option" where
  "str_index [] sub = (if sub = [] then Some 0 else None)"
| "str_index (c # s) sub =
     (if has_prefix sub (c # s) then Some 0 else map_option Suc (str_index s sub))"

definition str_contains :: "string \<Rightarrow> string \<Rightarrow> bool" where
  "str_contains s sub = (str_index s sub \<noteq> None)"

text \<open>\<open>strings.LastIndex\<close> of a one-byte separator.\<close>

fun last_index_char :: "string \<Rightarrow> char \<Rightarrow> nat option" where
  "last_index_char [] c = None"
| "last_index_char (x # s) c =
     (case last_index_char s c of
        Some i \<Rightarrow> Some (Suc i)
      | None \<Rightarrow> if x = c then Some 0 else None)"

text \<open>\<open>strings.Split\<close> on a one-byte separator: always at least one field.\<close>

fun split_on :: "char \<Rightarrow> string \<Rightarrow> string list" where
  "split_on c [] = [ [] ]"
| "split_on c (x # s) =
     (if x = c then [] # split_on c s
      else (case split_on c s of
              [] \<Rightarrow> [ [x] ]
            | f # fs \<Rightarrow> (x # f) # fs))"

lemma split_on_single: "c \<notin> set s \<Longrightarrow> split_on c s = [s]"
  by (induction s) auto

fun join_with :: "string \<Rightarrow> string list \<Rightarrow> string" where
  "join_with sep [] = []"
| "join_with sep [s] = s"
| "join_with sep (s # t # ts) = s @ sep @ join_with sep (t # ts)"

lemma has_prefix_iff: "has_prefix p s \<longleftrightarrow> (\<exists>t. s = p @ t)"
  by (induction p s rule: has_prefix.induct) auto

lemma has_prefix_append [simp]: "has_prefix p (p @ t)"
  by (simp add: has_prefix_iff)

lemma has_suffix_iff: "has_suffix suf s \<longleftrightarrow> (\<exists>t. s = t @ suf)"
proof
  assume "has_suffix suf s"
  then obtain t where "rev s = rev suf @ t"
    by (auto simp: has_suffix_def has_prefix_iff)
  then have "s = rev t @ suf" by (metis rev_append rev_rev_ident)
  then show "\<exists>t. s = t @ suf" by blast
qed (auto simp: has_suffix_def has_prefix_iff)

lemma has_suffix_append [simp]: "has_suffix suf (t @ suf)"
  by (auto simp: has_suffix_iff)

lemma trim_suffix_append [simp]: "trim_suffix suf (t @ suf) = t"
  by (simp add: trim_suffix_def)

lemma trim_suffix_other: "\<not> has_suffix suf s \<Longrightarrow> trim_suffix suf s = s"
  by (simp add: trim_suffix_def)

lemma trim_prefix_append [simp]: "trim_prefix p (p @ t) = t"
  by (simp add: trim_prefix_def)

lemma has_suffix_to_lower: "has_suffix suf s \<Longrightarrow> has_suffix (to_lower suf) (to_lower s)"
  by (auto simp: has_suffix_iff)

lemma str_index_bound: "str_index s sub = Some i \<Longrightarrow> i + length sub \<le> length s"
proof (induction s arbitrary: i)
  case Nil
  then show ?case by (auto split: if_splits)
next
  case (Cons c s)
  then show ?case by (auto simp: has_prefix_iff Cons_eq_append_conv split: if_splits)
qed

lemma str_index_split: "str_index s sub = Some i \<Longrightarrow> s = take i s @ sub @ drop (i + length sub) s"
proof (induction s arbitrary: i)
  case Nil
  then show ?case by (auto split: if_splits)
next
  case (Cons c s)
  show ?case
  proof (cases "has_prefix sub (c # s)")
    case True
    then obtain t where t: "c # s = sub @ t" by (auto simp: has_prefix_iff)
    from True Cons.prems have "i = 0" by simp
    with t show ?thesis by simp
  next
    case False
    with Cons.prems obtain j where "i = Suc j" "str_index s sub = Some j" by auto
    with Cons.IH [of j] show ?thesis by simp
  qed
qed

lemma last_index_char_None: "last_index_char s c = None \<longleftrightarrow> c \<notin> set s"
  by (induction s) (auto split: option.splits)

lemma last_index_char_split:
  "last_index_char s c = Some i \<Longrightarrow> s = take i s @ c # drop (Suc i) s \<and> c \<notin> set (drop (Suc i) s)"
proof (induction s arbitrary: i)
  case (Cons x s)
  then show ?case
    by (cases "last_index_char s c") (auto simp: last_index_char_None split: if_splits)
qed simp

section \<open>White space\<close>

definition is_space :: "char \<Rightarrow> bool" where
  "is_space c = ((of_char c :: nat) \<in> {9, 10, 11, 12, 13, 32})"

lemma is_space_code [code]:
  "is_space c = (c = CHR 0x20 \<or> c = CHR 0x0A \<or> c = CHR 0x09 \<or> c = CHR 0x0D \<or> c = CHR 0x0B \<or> c = CHR 0x0C)"
proof -
  have "is_space c \<longleftrightarrow> (of_char c :: nat) \<in> of_char ` {CHR 0x20, CHR 0x0A, CHR 0x09, CHR 0x0D, CHR 0x0B, CHR 0x0C}"
    by (auto simp: is_space_def)
  also have "\<dots> \<longleftrightarrow> c \<in> {CHR 0x20, CHR 0x0A, CHR 0x09, CHR 0x0D, CHR 0x0B, CHR 0x0C}"
    by (rule inj_image_mem_iff) (simp add: inj_on_def of_char_eq_iff)
  finally show ?thesis by simp
qed

definition trim_space :: "string \<Rightarrow> string" where
  "trim_space s = rev (dropWhile is_space (rev (dropWhile is_space s)))"

lemma trim_space_Nil [simp]: "trim_space [] = []"
  by (simp add: trim_space_def)

lemma trim_space_ends:
  assumes "s \<noteq> []" and "\<not> is_space (hd s)" and "\<not> is_space (last s)"
  shows "trim_space s = s"
proof -
  have "dropWhile is_space s = s"
    using assms(1,2) by (cases s) auto
  moreover have "dropWhile is_space (rev s) = rev s"
    using assms(1,3) by (cases s rule: rev_cases) auto
  ultimately show ?thesis by (simp add: trim_space_def)
qed

lemma trim_space_no_space: "\<forall>c \<in> set s. \<not> is_space c \<Longrightarrow> trim_space s = s"
  by (cases "s = []") (auto intro: trim_space_ends)

section \<open>Results\<close>

definition rbind :: "'e + 'a \<Rightarrow> ('a \<Rightarrow> 'e + 'b) \<Rightarrow> 'e + 'b" where
  "rbind r f = (case r of Inl e \<Rightarrow> Inl e | Inr a \<Rightarrow> f a)"

lemma rbind_simps [simp]: "rbind (Inl e) f = Inl e" "rbind (Inr a) f = f a"
  by (simp_all add: rbind_def)

lemma rbind_Inr: "rbind r f = Inr b \<longleftrightarrow> (\<exists>a. r = Inr a \<and> f a = Inr b)"
  by (cases r) auto

lemma rbind_Inl: "rbind r f = Inl e \<longleftrightarrow> r = Inl e \<or> (\<exists>a. r = Inr a \<and> f a = Inl e)"
  by (cases r) auto

text \<open>A loop that appends one result per element and returns at the first error.\<close>

fun rmap :: "('a \<Rightarrow> 'e + 'b) \<Rightarrow> 'a list \<Rightarrow> 'e + 'b list" where
  "rmap f [] = Inr []"
| "rmap f (x # xs) =
     (case f x of
        Inl e \<Rightarrow> Inl e
      | Inr y \<Rightarrow> (case rmap f xs of Inl e \<Rightarrow> Inl e | Inr ys \<Rightarrow> Inr (y # ys)))"

lemma rmap_Inr_iff: "rmap f xs = Inr ys \<longleftrightarrow> list_all2 (\<lambda>x y. f x = Inr y) xs ys"
proof (induction xs arbitrary: ys)
  case (Cons x xs)
  show ?case
  proof (cases "f x")
    case (Inl e)
    then show ?thesis by (cases ys) auto
  next
    case (Inr y)
    then show ?thesis
      by (cases "rmap f xs"; cases ys) (auto simp flip: Cons.IH)
  qed
qed auto

lemma rmap_Inr_length: "rmap f xs = Inr ys \<Longrightarrow> length ys = length xs"
  by (auto simp: rmap_Inr_iff dest: list_all2_lengthD)

lemma rmap_Inr_set: "rmap f xs = Inr ys \<Longrightarrow> y \<in> set ys \<Longrightarrow> \<exists>x \<in> set xs. f x = Inr y"
  by (fastforce simp: rmap_Inr_iff list_all2_conv_all_nth in_set_conv_nth)

lemma rmap_Inr_map:
  "rmap f xs = Inr ys \<Longrightarrow> (\<And>x y. x \<in> set xs \<Longrightarrow> f x = Inr y \<Longrightarrow> g y = h x) \<Longrightarrow> map g ys = map h xs"
proof (induction xs arbitrary: ys)
  case (Cons x xs)
  from Cons.prems(1) obtain y zs where "ys = y # zs" "f x = Inr y" "rmap f xs = Inr zs"
    by (auto split: sum.splits)
  with Cons.IH [of zs] Cons.prems(2) show ?case by simp
qed simp

lemma rmap_Inl: "rmap f xs = Inl e \<Longrightarrow> \<exists>x \<in> set xs. f x = Inl e"
  by (induction xs) (auto split: sum.splits)

lemma rmap_all_Inr: "(\<And>x. x \<in> set xs \<Longrightarrow> \<exists>y. f x = Inr y) \<Longrightarrow> \<exists>ys. rmap f xs = Inr ys"
  by (induction xs) (auto split: sum.splits, force)

lemma rmap_cong [fundef_cong]:
  "xs = ys \<Longrightarrow> (\<And>x. x \<in> set ys \<Longrightarrow> f x = g x) \<Longrightarrow> rmap f xs = rmap g ys"
  by (induction ys arbitrary: xs) (auto split: sum.splits)

section \<open>First occurrences, in order\<close>

text \<open>The Go idiom of a \<open>seen\<close> map and an output slice.\<close>

fun uniq_by :: "('a \<Rightarrow> 'k) \<Rightarrow> 'k list \<Rightarrow> 'a list \<Rightarrow> 'a list" where
  "uniq_by key seen [] = []"
| "uniq_by key seen (x # xs) =
     (if key x \<in> set seen then uniq_by key seen xs
      else x # uniq_by key (key x # seen) xs)"

lemma uniq_by_subset: "set (uniq_by key seen xs) \<subseteq> set xs"
  by (induction key seen xs rule: uniq_by.induct) auto

lemma uniq_by_keys: "key ` set (uniq_by key seen xs) = key ` set xs - set seen"
proof (induction key seen xs rule: uniq_by.induct)
  case (2 key seen x xs)
  then show ?case by (cases "key x \<in> set seen") auto
qed simp

lemma uniq_by_distinct: "distinct (map key (uniq_by key seen xs))"
proof (induction key seen xs rule: uniq_by.induct)
  case (2 key seen x xs)
  have "key x \<notin> key ` set (uniq_by key (key x # seen) xs)"
    by (simp add: uniq_by_keys)
  with 2 show ?case by auto
qed simp

lemma set_uniq_id: "set (uniq_by id [] xs) = set xs"
  using uniq_by_keys [of id "[]" xs] by simp

section \<open>Searching a slice\<close>

text \<open>\<open>for ... if p { return x }\<close> is the library's \<open>find\<close>.\<close>

lemma find_Some_set: "find p xs = Some x \<Longrightarrow> x \<in> set xs \<and> p x"
  by (induction xs) (auto split: if_splits)

lemma find_None_iff': "find p xs = None \<longleftrightarrow> (\<forall>x \<in> set xs. \<not> p x)"
  by (induction xs) auto

lemma find_cong': "(\<And>x. x \<in> set xs \<Longrightarrow> p x = q x) \<Longrightarrow> find p xs = find q xs"
  by (induction xs) auto

lemmas go_string_defs [go_simps] =
  lower_char_def to_lower_def equal_fold_def has_suffix_def trim_prefix_def trim_suffix_def
  str_contains_def is_space_def trim_space_def char_of_def

end
