(* ===== verification/Model.thy ===== *)
theory Model
  imports Prelude
begin

text \<open>
  The domain types of \<open>internal/model\<close> (files \<open>model.go\<close>, \<open>evidence.go\<close>,
  \<open>runtime_verify.go\<close>) and the pure functions on them.

  A Go string enumeration is a \<open>datatype\<close> with one constructor per constant; where a value
  may also come from a file or from configuration (\<open>RouteMode\<close>, \<open>Scope\<close>,
  \<open>IngressKind\<close>) a last constructor carries any other string. Structs are records, a nil
  pointer is \<open>None\<close>. The texts of error messages are not modelled: an error is the value that
  classifies it.
\<close>

section \<open>Verbs, modes and authentication policies\<close>

datatype verb = Expose | Unexpose | Rename

datatype route_mode = ModeHTTPProxy | ModeTCPPassthrough | ModeMeshGrant | ModeOther string

fun mode_string :: "route_mode \<Rightarrow> string" where
  "mode_string ModeHTTPProxy = ''http_proxy''"
| "mode_string ModeTCPPassthrough = ''tcp_passthrough''"
| "mode_string ModeMeshGrant = ''mesh_grant''"
| "mode_string (ModeOther s) = s"

definition auth_none :: string where "auth_none = ''none''"
definition auth_detected :: string where "auth_detected = ''(detected)''"
definition auth_downstream_marker :: string where "auth_downstream_marker = ''downstream''"

text \<open>\<open>ValidateAuth\<close>: \<open>True\<close> is a nil error, \<open>False\<close> the wrapped
  \<open>ErrAuthUnsupportedForMode\<close>.\<close>

definition validate_auth :: "route_mode \<Rightarrow> string \<Rightarrow> bool" where
  "validate_auth mode auth =
     (if auth = [] \<or> auth = auth_none then True
      else (case mode of
              ModeHTTPProxy \<Rightarrow> True
            | ModeTCPPassthrough \<Rightarrow> False
            | ModeMeshGrant \<Rightarrow> False
            | ModeOther _ \<Rightarrow> False))"

lemma validate_auth_iff:
  "validate_auth mode auth \<longleftrightarrow> auth = [] \<or> auth = auth_none \<or> mode = ModeHTTPProxy"
  by (auto simp: validate_auth_def split: route_mode.splits)

section \<open>Scopes and operations\<close>

datatype scope = ScopeInternal | ScopePublic | ScopeOther string

fun scope_string :: "scope \<Rightarrow> string" where
  "scope_string ScopeInternal = ''internal''"
| "scope_string ScopePublic = ''public''"
| "scope_string (ScopeOther s) = s"

record op =
  o_verb :: verb
  o_service :: string
  o_host :: string
  o_mode :: route_mode
  o_params :: "(string \<times> string) list"
  o_auth :: string
  o_to :: string
  o_edges :: "string list"
  o_scopes :: "scope list"
  o_residency :: string

text \<open>The literal \<open>model.Op{Verb: v, Service: s, Host: h}\<close>: every other field is zero.\<close>

definition mk_op :: "verb \<Rightarrow> string \<Rightarrow> string \<Rightarrow> op" where
  "mk_op v s h = \<lparr>o_verb = v, o_service = s, o_host = h, o_mode = ModeHTTPProxy, o_params = [],
     o_auth = [], o_to = [], o_edges = [], o_scopes = [], o_residency = []\<rparr>"

lemma mk_op_simps [simp]:
  "o_verb (mk_op v s h) = v" "o_service (mk_op v s h) = s" "o_host (mk_op v s h) = h"
  "o_mode (mk_op v s h) = ModeHTTPProxy" "o_params (mk_op v s h) = []"
  "o_auth (mk_op v s h) = []" "o_to (mk_op v s h) = []" "o_edges (mk_op v s h) = []"
  "o_scopes (mk_op v s h) = []" "o_residency (mk_op v s h) = []"
  by (simp_all add: mk_op_def)

definition has_auth_policy :: "op \<Rightarrow> bool" where
  "has_auth_policy o' = (o_auth o' \<noteq> [] \<and> o_auth o' \<noteq> auth_none)"

section \<open>Routes\<close>

datatype upstream_kind = ForwardToOrigin | DirectBackend

record upstream =
  u_kind :: upstream_kind
  u_mode :: route_mode
  u_address :: string
  u_tls_passthrough :: bool
  u_server_name :: string
  u_upstream_tls :: bool
  u_auth :: string

datatype ownership = OwnUnset | OwnCrenel | OwnUnmanaged | OwnForeign | OwnUnknown

definition ownership_from_marker :: "bool \<Rightarrow> ownership" where
  "ownership_from_marker has_marker = (if has_marker then OwnCrenel else OwnUnmanaged)"

definition mutable :: "ownership \<Rightarrow> bool" where
  "mutable own = (own = OwnCrenel \<or> own = OwnUnmanaged \<or> own = OwnUnset)"

lemma mutable_iff: "mutable own \<longleftrightarrow> own \<noteq> OwnForeign \<and> own \<noteq> OwnUnknown"
  by (cases own) (auto simp: mutable_def)

record chain_link =
  k_downstream_edge :: string
  k_resolved :: bool
  k_address :: string
  k_auth :: string
  k_reason :: string

record route =
  r_host :: string
  r_upstream :: upstream
  r_managed :: bool
  r_ownership :: ownership
  r_chain :: "chain_link option"

text \<open>A planned route: every metadata field is zero.\<close>

definition mk_route :: "string \<Rightarrow> upstream \<Rightarrow> route" where
  "mk_route h u = \<lparr>r_host = h, r_upstream = u, r_managed = False, r_ownership = OwnUnset,
     r_chain = None\<rparr>"

lemma mk_route_simps [simp]:
  "r_host (mk_route h u) = h" "r_upstream (mk_route h u) = u"
  "r_managed (mk_route h u) = False" "r_ownership (mk_route h u) = OwnUnset"
  "r_chain (mk_route h u) = None"
  by (simp_all add: mk_route_def)

section \<open>Acknowledgement markers\<close>

definition ack_marker_prefix :: string where "ack_marker_prefix = ''crenel-ack:''"

definition ack_reason_char :: "char \<Rightarrow> bool" where
  "ack_reason_char c =
     (let n = (of_char c :: nat)
      in (97 \<le> n \<and> n \<le> 122) \<or> (48 \<le> n \<and> n \<le> 57) \<or> n = 45)"

definition ack_host_char :: "char \<Rightarrow> bool" where
  "ack_host_char c = (ack_reason_char c \<or> c = CHR ''.'' \<or> c = CHR ''*'')"

text \<open>
  \<open>ackMarkerRE\<close> is \<open>crenel-ack:(?:([a-z0-9.*-]+):)?([a-z0-9-]+)\<close>. What follows the prefix:
  the optional host group wins when the longest run of host bytes is not empty and a colon and
  a reason byte follow (no shorter run can be followed by the colon); otherwise the reason is
  the longest run of reason bytes, which must not be empty.
\<close>

definition ack_tail :: "string \<Rightarrow> string option" where
  "ack_tail s =
     (let h = takeWhile ack_host_char s; rest = drop (length h) s;
          qualified = (case rest of
             c # rest' \<Rightarrow> if h \<noteq> [] \<and> c = CHR '':'' then takeWhile ack_reason_char rest' else []
           | [] \<Rightarrow> []);
          bare = takeWhile ack_reason_char s
      in if qualified \<noteq> [] then Some qualified
         else if bare \<noteq> [] then Some bare else None)"

text \<open>\<open>ParseAckMarker\<close>: the leftmost match in the whole string.\<close>

fun parse_ack_marker :: "string \<Rightarrow> string option" where
  "parse_ack_marker [] = None"
| "parse_ack_marker (c # s) =
     (case (if has_prefix ack_marker_prefix (c # s)
            then ack_tail (drop (length ack_marker_prefix) (c # s)) else None) of
        Some r \<Rightarrow> Some r
      | None \<Rightarrow> parse_ack_marker s)"

definition ack_marker :: "string \<Rightarrow> string" where
  "ack_marker reason = ack_marker_prefix @ reason"

definition ack_marker_for :: "string \<Rightarrow> string \<Rightarrow> string" where
  "ack_marker_for host reason = ack_marker_prefix @ to_lower host @ '':'' @ reason"

definition valid_ack_reason :: "string \<Rightarrow> bool" where
  "valid_ack_reason reason = (reason \<noteq> [] \<and> list_all ack_reason_char reason)"

lemma colon_not_host_char: "\<not> ack_host_char (CHR '':'')"
  by (simp add: ack_host_char_def ack_reason_char_def)

lemma colon_not_reason_char: "\<not> ack_reason_char (CHR '':'')"
  by (simp add: ack_reason_char_def)

lemma valid_reason_takeWhile:
  "valid_ack_reason reason \<Longrightarrow> takeWhile ack_reason_char reason = reason"
  by (auto simp: valid_ack_reason_def list_all_iff takeWhile_eq_all_conv)

lemma valid_reason_host_run:
  "valid_ack_reason reason \<Longrightarrow> takeWhile ack_host_char reason = reason"
  by (auto simp: valid_ack_reason_def list_all_iff takeWhile_eq_all_conv ack_host_char_def)

lemma ack_tail_bare: "valid_ack_reason reason \<Longrightarrow> ack_tail reason = Some reason"
  by (auto simp: ack_tail_def Let_def valid_reason_takeWhile valid_reason_host_run
      valid_ack_reason_def)

lemma ack_tail_qualified:
  assumes "valid_ack_reason reason" and "h \<noteq> []" and "list_all ack_host_char h"
  shows "ack_tail (h @ CHR '':'' # reason) = Some reason"
proof -
  have "takeWhile ack_host_char (h @ CHR '':'' # reason) = h"
    using assms(3) by (auto simp: list_all_iff takeWhile_append colon_not_host_char)
  moreover have "reason \<noteq> []"
    using assms(1) by (simp add: valid_ack_reason_def)
  ultimately show ?thesis
    using assms(2) by (simp add: ack_tail_def Let_def valid_reason_takeWhile [OF assms(1)])
qed

lemma parse_ack_marker_prefix:
  "ack_tail s = Some r \<Longrightarrow> parse_ack_marker (ack_marker_prefix @ s) = Some r"
proof -
  assume tail: "ack_tail s = Some r"
  obtain c p where p: "ack_marker_prefix = c # p" by (simp add: ack_marker_prefix_def)
  have "has_prefix ack_marker_prefix (c # p @ s)"
    using has_prefix_append [of ack_marker_prefix s] by (simp add: p)
  moreover have "drop (length ack_marker_prefix) (c # p @ s) = s"
    by (simp add: p)
  ultimately have "parse_ack_marker (c # p @ s) = Some r"
    using tail by simp
  then show ?thesis by (simp add: p)
qed

section \<open>Declared unknowns, ingress, persistence\<close>

datatype unknown_kind =
  UnknownHandler | UnknownNestedRoute | UnknownMatcher | UnknownBackend | UnknownServerBlock
| UnknownGenerator | UnknownIngress | UnknownAcknowledged

record unparsed =
  n_locator :: string
  n_kind :: unknown_kind
  n_reason :: string
  n_raw_excerpt :: string

datatype ingress_kind =
  IngressUnset | IngressPublicListener | IngressTunnel | IngressOverlay | IngressUnknown
| IngressOther string

definition external :: "ingress_kind \<Rightarrow> bool" where
  "external k = (case k of IngressTunnel \<Rightarrow> True | IngressOverlay \<Rightarrow> True
     | IngressUnknown \<Rightarrow> True | _ \<Rightarrow> False)"

datatype persistence_model =
  PersistUnset | PersistDurableConfig | PersistDurableFile | PersistResume
| PersistEphemeralAdmin | PersistUnknown

definition durable :: "persistence_model \<Rightarrow> bool" where
  "durable m = (case m of PersistDurableConfig \<Rightarrow> True | PersistDurableFile \<Rightarrow> True
     | PersistResume \<Rightarrow> True | _ \<Rightarrow> False)"

definition ephemeral_writes :: "persistence_model \<Rightarrow> bool" where
  "ephemeral_writes m = (m = PersistEphemeralAdmin \<or> m = PersistUnknown)"

definition classified :: "persistence_model \<Rightarrow> bool" where
  "classified m = (m \<noteq> PersistUnset)"

lemma persistence_trichotomy:
  "classified m \<longleftrightarrow> (durable m \<noteq> ephemeral_writes m)"
  by (cases m) (auto simp: classified_def durable_def ephemeral_writes_def)

section \<open>Live edge state and the default-deny verdict\<close>

datatype deny_state = DenyMissing | DenyEnforced | DenyUnknown

record live_edge_state =
  l_routes :: "route list"
  l_deny_present :: bool
  l_unparsed :: "unparsed list"
  l_generator :: string
  l_ingress_kind :: ingress_kind
  l_persistence :: persistence_model
  l_raw :: string

definition empty_live :: "bool \<Rightarrow> live_edge_state" where
  "empty_live deny = \<lparr>l_routes = [], l_deny_present = deny, l_unparsed = [], l_generator = [],
     l_ingress_kind = IngressUnset, l_persistence = PersistUnset, l_raw = []\<rparr>"

definition coverage :: "live_edge_state \<Rightarrow> nat \<times> nat" where
  "coverage s = (length (l_routes s), length (l_routes s) + length (l_unparsed s))"

definition fully_parsed :: "live_edge_state \<Rightarrow> bool" where
  "fully_parsed s = list_all (\<lambda>u. n_kind u = UnknownAcknowledged) (l_unparsed s)"

definition deny_verdict :: "live_edge_state \<Rightarrow> deny_state" where
  "deny_verdict s =
     (if \<not> l_deny_present s then DenyMissing
      else if \<not> fully_parsed s then DenyUnknown
      else DenyEnforced)"

text \<open>Every scan for a host takes the first route whose name matches case-insensitively.\<close>

definition route_of :: "live_edge_state \<Rightarrow> string \<Rightarrow> route option" where
  "route_of s host = find (\<lambda>r. equal_fold (r_host r) host) (l_routes s)"

definition has_host :: "live_edge_state \<Rightarrow> string \<Rightarrow> bool" where
  "has_host s host = list_ex (\<lambda>r. equal_fold (r_host r) host) (l_routes s)"

definition hosts :: "live_edge_state \<Rightarrow> string list" where
  "hosts s = sort (map r_host (l_routes s))"

definition reachable :: "live_edge_state \<Rightarrow> string \<Rightarrow> bool" where
  "reachable s host = (l_deny_present s \<and> has_host s host)"

lemma has_host_iff: "has_host s host \<longleftrightarrow> (\<exists>r \<in> set (l_routes s). equal_fold (r_host r) host)"
  by (simp add: has_host_def list_ex_iff)

lemma has_host_route_of: "has_host s host \<longleftrightarrow> (\<exists>r. route_of s host = Some r)"
  by (auto simp: has_host_iff route_of_def find_None_iff' not_None_eq [symmetric]
      simp del: not_None_eq)

lemma route_of_Some:
  "route_of s host = Some r \<Longrightarrow> r \<in> set (l_routes s) \<and> equal_fold (r_host r) host"
  by (auto simp: route_of_def dest: find_Some_set)

lemma has_host_fold: "equal_fold h h' \<Longrightarrow> has_host s h = has_host s h'"
  by (simp add: has_host_iff equal_fold_def)

lemma set_hosts: "set (hosts s) = r_host ` set (l_routes s)"
  by (simp add: hosts_def)

section \<open>DNS records\<close>

record dns_record =
  d_name :: string
  d_type :: string
  d_value :: string
  d_scope :: scope
  d_ttl :: int
  d_proxied :: bool

definition record_key :: "dns_record \<Rightarrow> string" where
  "record_key r = scope_string (d_scope r) @ ''/'' @ d_type r @ ''/'' @ to_lower (d_name r)"

lemma record_key_same_kind:
  "d_scope r = d_scope s \<Longrightarrow> d_type r = d_type s \<Longrightarrow>
   record_key r = record_key s \<longleftrightarrow> equal_fold (d_name r) (d_name s)"
  by (simp add: record_key_def equal_fold_def)

section \<open>Change sets\<close>

record edge_change =
  e_add :: "route list"
  e_remove :: "string list"
  e_deny_will_be_present :: bool

definition edge_change_empty :: "edge_change \<Rightarrow> bool" where
  "edge_change_empty e = (e_add e = [] \<and> e_remove e = [])"

text \<open>\<open>model.EdgeChange{DenyCatchAllWillBePresent: true}\<close>.\<close>

definition no_edge_change :: edge_change where
  "no_edge_change = \<lparr>e_add = [], e_remove = [], e_deny_will_be_present = True\<rparr>"

lemma no_edge_change_simps [simp]:
  "e_add no_edge_change = []" "e_remove no_edge_change = []"
  "e_deny_will_be_present no_edge_change" "edge_change_empty no_edge_change"
  by (simp_all add: no_edge_change_def edge_change_empty_def)

record dns_change =
  c_scope :: scope
  c_add :: "dns_record list"
  c_remove :: "dns_record list"
  c_managed :: "dns_record list"
  c_rendered :: string

definition dns_change_empty :: "dns_change \<Rightarrow> bool" where
  "dns_change_empty d = (c_add d = [] \<and> c_remove d = [])"

definition no_dns_change :: "scope \<Rightarrow> dns_change" where
  "no_dns_change sc = \<lparr>c_scope = sc, c_add = [], c_remove = [], c_managed = [], c_rendered = []\<rparr>"

lemma no_dns_change_simps [simp]:
  "c_scope (no_dns_change sc) = sc" "c_add (no_dns_change sc) = []"
  "c_remove (no_dns_change sc) = []" "c_managed (no_dns_change sc) = []"
  "dns_change_empty (no_dns_change sc)"
  by (simp_all add: no_dns_change_def dns_change_empty_def)

record edge_plan =
  p_edge :: string
  p_driver :: string
  p_change :: edge_change

record change_set =
  cs_op :: op
  cs_edge :: edge_change
  cs_edges :: "edge_plan list"
  cs_dns :: "dns_change list"
  cs_new_public :: "string list"

text \<open>The zero \<open>ChangeSet\<close> of an operation (\<open>model.ChangeSet{Op: op}\<close>); the zero
  \<open>EdgeChange\<close> says the deny will not be present.\<close>

definition mk_change_set :: "op \<Rightarrow> change_set" where
  "mk_change_set o' = \<lparr>cs_op = o',
     cs_edge = \<lparr>e_add = [], e_remove = [], e_deny_will_be_present = False\<rparr>,
     cs_edges = [], cs_dns = [], cs_new_public = []\<rparr>"

lemma mk_change_set_simps [simp]:
  "cs_op (mk_change_set o') = o'" "cs_edges (mk_change_set o') = []" "cs_dns (mk_change_set o') = []"
  "cs_new_public (mk_change_set o') = []" "edge_change_empty (cs_edge (mk_change_set o'))"
  by (simp_all add: mk_change_set_def edge_change_empty_def)

definition change_set_empty :: "change_set \<Rightarrow> bool" where
  "change_set_empty c =
     (if \<not> edge_change_empty (cs_edge c) then False
      else if list_ex (\<lambda>ep. \<not> edge_change_empty (p_change ep)) (cs_edges c) then False
      else if list_ex (\<lambda>d. \<not> dns_change_empty d) (cs_dns c) then False
      else True)"

lemma change_set_empty_iff:
  "change_set_empty c \<longleftrightarrow>
     edge_change_empty (cs_edge c)
     \<and> (\<forall>ep \<in> set (cs_edges c). edge_change_empty (p_change ep))
     \<and> (\<forall>d \<in> set (cs_dns c). dns_change_empty d)"
  by (auto simp: change_set_empty_def list_ex_iff)

section \<open>Evidence and runtime verification\<close>

datatype evidence_kind = EvidenceRuntime | EvidenceConfig | EvidenceDeclared

record read_evidence =
  v_kind :: evidence_kind
  v_source :: string
  v_mod_time :: "int option"

datatype runtime_status = RuntimeConfirmed | RuntimeFailed | RuntimeUnavailable

record runtime_verification =
  rv_status :: runtime_status
  rv_detail :: string

end
