(* ===== verification/Ports.thy ===== *)
theory Ports
  imports Model
begin

text \<open>
  The ports of \<open>internal/ports/ports.go\<close>. A provider is a record of its methods over an
  abstract world \<open>'w\<close> (the running proxies, resolvers and files behind the drivers); core is
  polymorphic in \<open>'w\<close> and only ever goes through these records. A read maps the world to a
  result, a mutation returns the new world with the error it reports, if any: a provider that
  reports success and changes nothing, or reports failure after changing something, is an
  ordinary value of the type. An optional capability (a type assertion in Go) is an
  \<open>option\<close>-typed field. Between two calls of one command nothing else changes the world.
\<close>

type_synonym perr = string

type_synonym 'w act = "'w \<Rightarrow> perr option \<times> 'w"

text \<open>\<open>ports.LocatorAcker\<close>.\<close>

record 'w locator_acker =
  la_ack :: "string \<Rightarrow> string \<Rightarrow> 'w act"
  la_unack :: "string \<Rightarrow> 'w act"
  la_raw :: "string \<Rightarrow> 'w \<Rightarrow> perr + string"

text \<open>\<open>ports.Acker\<close>.\<close>

record 'w acker =
  ak_ack :: "string \<Rightarrow> string \<Rightarrow> 'w act"
  ak_unack :: "string \<Rightarrow> 'w act"

text \<open>\<open>ports.EdgeProvider\<close> with its optional capabilities \<open>HealthChecker\<close>,
  \<open>Persister\<close>, \<open>DurabilityReporter\<close>, \<open>RuntimeVerifier\<close>, \<open>EvidenceReporter\<close>,
  \<open>Adopter\<close>, \<open>Acker\<close> and \<open>LocatorAcker\<close>.\<close>

record 'w edge_provider =
  ep_name :: string
  ep_read :: "'w \<Rightarrow> perr + live_edge_state"
  ep_plan :: "op \<Rightarrow> live_edge_state \<Rightarrow> perr + change_set"
  ep_apply :: "change_set \<Rightarrow> 'w act"
  ep_healthy :: "('w \<Rightarrow> perr option) option"
  ep_persist :: "'w act option"
  ep_durability :: "persistence_model option"
  ep_runtime :: "(op \<Rightarrow> edge_change \<Rightarrow> 'w \<Rightarrow> runtime_verification) option"
  ep_evidence :: "read_evidence option"
  ep_adopt :: "(string list \<Rightarrow> 'w act) option"
  ep_acker :: "'w acker option"
  ep_locator_acker :: "'w locator_acker option"

text \<open>\<open>ports.DNSProvider\<close> with its optional capabilities \<open>OwnedRecordReporter\<close>,
  \<open>CoverageReporter\<close>, \<open>ZoneReporter\<close> and \<open>ResidencyTargeter\<close>.\<close>

record 'w dns_provider =
  dp_name :: string
  dp_scope :: scope
  dp_desired :: "op \<Rightarrow> perr + dns_record list"
  dp_diff :: "op \<Rightarrow> dns_record list \<Rightarrow> 'w \<Rightarrow> perr + dns_change"
  dp_apply :: "dns_change \<Rightarrow> 'w act"
  dp_live :: "'w \<Rightarrow> perr + dns_record list"
  dp_owns_all :: "bool option"
  dp_coverage :: "('w \<Rightarrow> perr + dns_record list) option"
  dp_zone :: "string option"
  dp_residency :: "(string \<Rightarrow> perr + string) option"

section \<open>In-memory providers\<close>

text \<open>
  The simplest providers that meet the ports: each edge is a live state, each DNS provider a
  record list, held by name. They are the concrete arguments on which general theorems about
  core are evaluated; the drivers' own providers are in the driver theories.
\<close>

record mem_world =
  mw_edges :: "string \<Rightarrow> live_edge_state"
  mw_dns :: "string \<Rightarrow> dns_record list"

definition mem_edge_change :: "edge_change \<Rightarrow> live_edge_state \<Rightarrow> live_edge_state" where
  "mem_edge_change ch s =
     s\<lparr>l_routes := filter (\<lambda>r. \<not> list_ex (equal_fold (r_host r)) (e_remove ch)) (l_routes s)
         @ e_add ch\<rparr>"

definition mem_plan :: "op \<Rightarrow> live_edge_state \<Rightarrow> perr + change_set" where
  "mem_plan op live =
     Inr ((mk_change_set op)\<lparr>cs_edge := no_edge_change\<lparr>
       e_add := (if o_verb op = Expose \<and> \<not> has_host live (o_host op)
                 then [mk_route (o_host op) \<lparr>u_kind = ForwardToOrigin, u_mode = o_mode op,
                   u_address = o_to op, u_tls_passthrough = False, u_server_name = [],
                   u_upstream_tls = False, u_auth = o_auth op\<rparr>] else []),
       e_remove := (if o_verb op = Unexpose \<and> has_host live (o_host op)
                 then [o_host op] else [])\<rparr>\<rparr>)"

definition mem_edge :: "string \<Rightarrow> mem_world edge_provider" where
  "mem_edge n = \<lparr>ep_name = n, ep_read = (\<lambda>w. Inr (mw_edges w n)), ep_plan = mem_plan,
     ep_apply = (\<lambda>cs w. (None, w\<lparr>mw_edges := (mw_edges w)(n := mem_edge_change (cs_edge cs) (mw_edges w n))\<rparr>)),
     ep_healthy = None, ep_persist = None, ep_durability = None, ep_runtime = None,
     ep_evidence = None, ep_adopt = None, ep_acker = None, ep_locator_acker = None\<rparr>"

definition mem_record :: "scope \<Rightarrow> string \<Rightarrow> string \<Rightarrow> dns_record" where
  "mem_record sc host v = \<lparr>d_name = host, d_type = ''A'', d_value = v, d_scope = sc, d_ttl = 0,
     d_proxied = False\<rparr>"

definition mem_dns_diff :: "op \<Rightarrow> dns_record list \<Rightarrow> dns_record list \<Rightarrow> dns_change" where
  "mem_dns_diff op recs live =
     (let keys = map record_key live; wanted = map record_key recs
      in if o_verb op = Unexpose
         then (no_dns_change ScopeInternal)\<lparr>c_remove := filter (\<lambda>r. record_key r \<in> set wanted) live\<rparr>
         else (no_dns_change ScopeInternal)\<lparr>c_add := filter (\<lambda>r. record_key r \<notin> set keys) recs\<rparr>)"

definition mem_dns_apply :: "dns_change \<Rightarrow> dns_record list \<Rightarrow> dns_record list" where
  "mem_dns_apply ch live = filter (\<lambda>r. r \<notin> set (c_remove ch)) live @ c_add ch"

definition mem_dns :: "string \<Rightarrow> scope \<Rightarrow> string \<Rightarrow> string \<Rightarrow> mem_world dns_provider" where
  "mem_dns n sc zone v = \<lparr>dp_name = n, dp_scope = sc,
     dp_desired = (\<lambda>op. Inr [mem_record sc (o_host op) v]),
     dp_diff = (\<lambda>op recs w. Inr ((mem_dns_diff op recs (mw_dns w n))\<lparr>c_scope := sc\<rparr>)),
     dp_apply = (\<lambda>ch w. (None, w\<lparr>mw_dns := (mw_dns w)(n := mem_dns_apply ch (mw_dns w n))\<rparr>)),
     dp_live = (\<lambda>w. Inr (mw_dns w n)), dp_owns_all = None, dp_coverage = None,
     dp_zone = Some zone, dp_residency = None\<rparr>"

lemma mem_edge_simps [simp]:
  "ep_name (mem_edge n) = n" "ep_read (mem_edge n) w = Inr (mw_edges w n)"
  "ep_plan (mem_edge n) = mem_plan"
  "ep_apply (mem_edge n) cs w
     = (None, w\<lparr>mw_edges := (mw_edges w)(n := mem_edge_change (cs_edge cs) (mw_edges w n))\<rparr>)"
  "ep_healthy (mem_edge n) = None" "ep_persist (mem_edge n) = None"
  "ep_durability (mem_edge n) = None" "ep_runtime (mem_edge n) = None"
  "ep_evidence (mem_edge n) = None" "ep_adopt (mem_edge n) = None"
  "ep_acker (mem_edge n) = None" "ep_locator_acker (mem_edge n) = None"
  by (simp_all add: mem_edge_def)

lemma mem_dns_simps [simp]:
  "dp_name (mem_dns n sc zone v) = n" "dp_scope (mem_dns n sc zone v) = sc"
  "dp_desired (mem_dns n sc zone v) op = Inr [mem_record sc (o_host op) v]"
  "dp_diff (mem_dns n sc zone v) op recs w
     = Inr ((mem_dns_diff op recs (mw_dns w n))\<lparr>c_scope := sc\<rparr>)"
  "dp_apply (mem_dns n sc zone v) ch w
     = (None, w\<lparr>mw_dns := (mw_dns w)(n := mem_dns_apply ch (mw_dns w n))\<rparr>)"
  "dp_live (mem_dns n sc zone v) w = Inr (mw_dns w n)"
  "dp_owns_all (mem_dns n sc zone v) = None" "dp_coverage (mem_dns n sc zone v) = None"
  "dp_zone (mem_dns n sc zone v) = Some zone" "dp_residency (mem_dns n sc zone v) = None"
  by (simp_all add: mem_dns_def)

end
