(* ===== verification/Topology.thy ===== *)
theory Topology
  imports Ports
begin

text \<open>
  The engine and its topology: \<open>EdgeBinding\<close> and \<open>Engine\<close> of
  \<open>internal/core/engine.go\<close>, zone routing (\<open>dns_zone.go\<close>), the derivation of hosts and
  services (\<open>BuildOp\<close>, \<open>ResolveOp\<close>, \<open>serviceOf\<close>), the selection predicates of
  \<open>declarative.go\<close>, and the chain roles and depths of \<open>chain_write.go\<close>.
\<close>

section \<open>Bindings and the engine\<close>

record 'w edge_binding =
  b_name :: string
  b_provider :: "'w edge_provider"
  b_fronts :: "(string \<Rightarrow> bool) option"
  b_auth_downstream :: bool
  b_ingress_kind :: ingress_kind
  b_ingress_path :: string
  b_downstream_edge :: string
  b_downstream_address :: string
  b_downstream_scheme :: string

record 'w engine =
  g_edges :: "'w edge_binding list"
  g_dns :: "'w dns_provider list"
  g_zone :: string
  g_rollback :: bool
  g_force :: bool
  g_allow_unverified :: bool
  g_read_only :: bool
  g_target_mode :: bool
  g_declared_internal :: bool
  g_internal_scope :: "(string \<times> bool) list"

text \<open>\<open>core.NewMulti\<close>: an unnamed binding takes its provider's name; rollback is on.\<close>

definition new_multi :: "'w edge_binding list \<Rightarrow> string \<Rightarrow> 'w dns_provider list \<Rightarrow> 'w engine" where
  "new_multi edges zone dns =
     \<lparr>g_edges = map (\<lambda>b. if b_name b = [] then b\<lparr>b_name := ep_name (b_provider b)\<rparr> else b) edges,
      g_dns = dns, g_zone = zone, g_rollback = True, g_force = False,
      g_allow_unverified = False, g_read_only = False, g_target_mode = False,
      g_declared_internal = False, g_internal_scope = []\<rparr>"

definition fronts :: "'w edge_binding \<Rightarrow> string \<Rightarrow> bool" where
  "fronts b service = (case b_fronts b of None \<Rightarrow> True | Some p \<Rightarrow> p service)"

definition binding :: "'w engine \<Rightarrow> string \<Rightarrow> 'w edge_binding option" where
  "binding e name = find (\<lambda>b. b_name b = name) (g_edges e)"

definition internal_scoped :: "'w engine \<Rightarrow> string \<Rightarrow> bool" where
  "internal_scoped e service = (map_of (g_internal_scope e) service = Some True)"

definition any_fronts :: "'w engine \<Rightarrow> string \<Rightarrow> bool" where
  "any_fronts e service = list_ex (\<lambda>b. fronts b service) (g_edges e)"

lemma binding_Some: "binding e n = Some b \<Longrightarrow> b \<in> set (g_edges e) \<and> b_name b = n"
  by (auto simp: binding_def dest: find_Some_set)

lemma binding_of_member:
  assumes "distinct (map b_name (g_edges e))" and "b \<in> set (g_edges e)"
  shows "binding e (b_name b) = Some b"
proof -
  have "binding e (b_name b) \<noteq> None"
    using assms(2) by (auto simp: binding_def find_None_iff')
  then obtain b' where b': "binding e (b_name b) = Some b'" by blast
  then have "b' \<in> set (g_edges e)" "b_name b' = b_name b" by (auto dest: binding_Some)
  with assms have "b' = b" by (auto simp: distinct_map inj_on_def)
  with b' show ?thesis by simp
qed

lemma binding_None: "binding e n = None \<longleftrightarrow> n \<notin> b_name ` set (g_edges e)"
  by (auto simp: binding_def find_None_iff')

section \<open>Selection predicates\<close>

definition edge_selected :: "string list \<Rightarrow> string \<Rightarrow> bool" where
  "edge_selected names name = (names = [] \<or> name \<in> set names)"

definition scope_selected :: "scope list \<Rightarrow> scope \<Rightarrow> bool" where
  "scope_selected scopes sc = (scopes = [] \<or> sc \<in> set scopes)"

section \<open>Zone routing\<close>

definition dns_zone :: "'w dns_provider \<Rightarrow> string" where
  "dns_zone dp = (case dp_zone dp of None \<Rightarrow> [] | Some z \<Rightarrow> to_lower (trim_suffix ''.'' z))"

definition zone_covers :: "string \<Rightarrow> string \<Rightarrow> bool" where
  "zone_covers zone host =
     (if zone = [] then True
      else let h = to_lower (trim_suffix ''.'' host)
           in h = zone \<or> has_suffix (''.'' @ zone) h)"

definition dns_covers_host :: "'w dns_provider \<Rightarrow> string \<Rightarrow> bool" where
  "dns_covers_host dp host = zone_covers (dns_zone dp) host"

definition provider_zones :: "'w engine \<Rightarrow> string list" where
  "provider_zones e = uniq_by id [] (filter (\<lambda>z. z \<noteq> []) (map dns_zone (g_dns e)))"

definition explicitly_fronts :: "'w engine \<Rightarrow> string \<Rightarrow> bool" where
  "explicitly_fronts e name =
     list_ex (\<lambda>b. case b_fronts b of None \<Rightarrow> False | Some p \<Rightarrow> p name) (g_edges e)"

definition any_managed_zone_covers :: "'w engine \<Rightarrow> string \<Rightarrow> bool" where
  "any_managed_zone_covers e host = list_ex (\<lambda>dp. dns_covers_host dp host) (g_dns e)"

lemma set_provider_zones: "set (provider_zones e) = {z \<in> dns_zone ` set (g_dns e). z \<noteq> []}"
  by (auto simp: provider_zones_def set_uniq_id)

lemma distinct_provider_zones: "distinct (provider_zones e)"
  using uniq_by_distinct [of id] by (simp add: provider_zones_def)

lemma zone_covers_apex: "to_lower zone = zone \<Longrightarrow> \<not> has_suffix ''.'' zone \<Longrightarrow> zone_covers zone zone"
  by (simp add: zone_covers_def trim_suffix_other)

lemma zone_covers_sub:
  assumes "to_lower zone = zone" and "\<not> has_suffix ''.'' zone" and "zone \<noteq> []"
  shows "zone_covers zone (s @ ''.'' @ zone)"
proof -
  have "has_suffix ''.'' t \<longleftrightarrow> t \<noteq> [] \<and> last t = CHR ''.''" for t
    by (cases t rule: rev_cases) (auto simp: has_suffix_def)
  with assms(2,3) have "\<not> has_suffix ''.'' (s @ ''.'' @ zone)" by simp
  then have "to_lower (trim_suffix ''.'' (s @ ''.'' @ zone)) = (to_lower (s @ ''.'')) @ zone"
    using assms(1) by (simp add: trim_suffix_other to_lower_Cons)
  moreover have "to_lower ''.'' = ''.''" by (simp add: to_lower_def lower_char_def)
  ultimately show ?thesis
    using assms(3) by (auto simp: zone_covers_def Let_def has_suffix_iff)
qed

section \<open>Hosts and services\<close>

definition has_dot :: "string \<Rightarrow> bool" where
  "has_dot s = (CHR ''.'' \<in> set s)"

definition build_op :: "'w engine \<Rightarrow> verb \<Rightarrow> string \<Rightarrow> op" where
  "build_op e v service0 =
     (let service = trim_space service0;
          host = (if \<not> has_dot service \<and> g_zone e \<noteq> [] then service @ ''.'' @ g_zone e else service)
      in mk_op v service host)"

text \<open>\<open>ResolveOp\<close>; \<open>Inl\<close> carries the candidate hosts of the ambiguity error.\<close>

definition resolve_op :: "'w engine \<Rightarrow> verb \<Rightarrow> string \<Rightarrow> string list + op" where
  "resolve_op e v service0 =
     (let service = trim_space service0
      in if has_dot service then Inr (build_op e v service)
         else
           let default_evidence = g_zone e \<noteq> [] \<and>
                 (explicitly_fronts e service \<or> explicitly_fronts e (service @ ''.'' @ g_zone e));
               non_default = map (\<lambda>z. service @ ''.'' @ z)
                 (filter (\<lambda>z. \<not> equal_fold z (g_zone e) \<and> explicitly_fronts e (service @ ''.'' @ z))
                   (provider_zones e));
               cands = (if default_evidence then [service @ ''.'' @ g_zone e] else []) @ non_default
           in (if length cands \<ge> 2 then Inl cands
               else if length cands = 1 \<and> \<not> default_evidence
                    then Inr (mk_op v (hd cands) (hd cands))
               else Inr (build_op e v service)))"

text \<open>\<open>serviceOf\<close>: strip the default zone, else a provider's zone under which some edge
  keys the bare name.\<close>

definition strip_zone :: "'w engine \<Rightarrow> string \<Rightarrow> string \<Rightarrow> string option" where
  "strip_zone e host z =
     (if equal_fold z (g_zone e) then None
      else let s = trim_suffix (''.'' @ z) (to_lower host)
           in if s \<noteq> to_lower host \<and> explicitly_fronts e (take (length s) host)
              then Some (take (length s) host) else None)"

fun first_stripped :: "'w engine \<Rightarrow> string \<Rightarrow> string list \<Rightarrow> string" where
  "first_stripped e host [] = host"
| "first_stripped e host (z # zs) =
     (case strip_zone e host z of Some s \<Rightarrow> s | None \<Rightarrow> first_stripped e host zs)"

definition service_of :: "'w engine \<Rightarrow> string \<Rightarrow> string" where
  "service_of e host =
     (let s = trim_suffix (''.'' @ g_zone e) host
      in if g_zone e \<noteq> [] \<and> s \<noteq> host then s
         else first_stripped e host (provider_zones e))"

definition internal_scoped_host :: "'w engine \<Rightarrow> string \<Rightarrow> bool" where
  "internal_scoped_host e host = internal_scoped e (service_of e host)"

lemma service_of_default_zone:
  assumes "g_zone e \<noteq> []"
  shows "service_of e (s @ ''.'' @ g_zone e) = s"
proof -
  have "trim_suffix (''.'' @ g_zone e) (s @ ''.'' @ g_zone e) = s"
    by (rule trim_suffix_append)
  with assms show ?thesis by (simp add: service_of_def Let_def)
qed

section \<open>Chain roles\<close>

datatype chain_role = RoleNone | RoleTerminal | RoleForward

definition is_chain_front :: "'w edge_binding \<Rightarrow> bool" where
  "is_chain_front b = (b_downstream_edge b \<noteq> [])"

text \<open>Not-yet-visited bindings, plus one while the start is outside the topology.\<close>

definition unvisited :: "'w engine \<Rightarrow> string list \<Rightarrow> 'w edge_binding \<Rightarrow> nat" where
  "unvisited e visited b =
     length (filter (\<lambda>b. b_name b \<notin> set visited) (g_edges e))
     + (if b_name b \<in> b_name ` set (g_edges e) then 0 else 1)"

lemma length_filter_less_strict:
  assumes "x \<in> set xs" and "p x" and "\<not> q x" and "\<And>y. q y \<Longrightarrow> p y"
  shows "length (filter q xs) < length (filter p xs)"
  using assms(1)
proof (induction xs)
  case (Cons y ys)
  have le: "length (filter q zs) \<le> length (filter p zs)" for zs
    by (induction zs) (auto dest: assms(4))
  show ?case
  proof (cases "y = x")
    case True
    with assms(2,3) le [of ys] show ?thesis by (simp add: less_Suc_eq_le)
  next
    case False
    with Cons show ?thesis by (auto dest: assms(4))
  qed
qed simp

lemma unvisited_less:
  assumes "b_name b \<notin> set visited" and "binding e (b_downstream_edge b) = Some d"
  shows "unvisited e (b_name b # visited) d < unvisited e visited b"
proof -
  have d: "b_name d \<in> b_name ` set (g_edges e)"
    using assms(2) by (auto dest: binding_Some)
  show ?thesis
  proof (cases "b_name b \<in> b_name ` set (g_edges e)")
    case True
    then obtain b' where b': "b' \<in> set (g_edges e)" "b_name b' = b_name b" by auto
    have "length (filter (\<lambda>c. b_name c \<notin> set (b_name b # visited)) (g_edges e))
          < length (filter (\<lambda>c. b_name c \<notin> set visited) (g_edges e))"
      using b' assms(1) by (intro length_filter_less_strict [where x = b']) auto
    with d True show ?thesis by (simp add: unvisited_def)
  next
    case False
    have "filter (\<lambda>c. b_name c \<notin> set (b_name b # visited)) (g_edges e)
          = filter (\<lambda>c. b_name c \<notin> set visited) (g_edges e)"
    proof (rule filter_cong [OF refl])
      fix c assume "c \<in> set (g_edges e)"
      with False have "b_name c \<noteq> b_name b" by (metis image_eqI)
      then show "(b_name c \<notin> set (b_name b # visited)) = (b_name c \<notin> set visited)" by simp
    qed
    with d False show ?thesis by (simp add: unvisited_def)
  qed
qed

function downstream_participates :: "'w engine \<Rightarrow> 'w edge_binding \<Rightarrow> string \<Rightarrow> string list \<Rightarrow> bool" where
  "downstream_participates e b service visited =
     (if b_downstream_edge b = [] \<or> b_name b \<in> set visited then False
      else (case binding e (b_downstream_edge b) of
              None \<Rightarrow> False
            | Some d \<Rightarrow>
                if fronts d service then True
                else downstream_participates e d service (b_name b # visited)))"
  by pat_completeness auto
termination
  by (relation "measure (\<lambda>(e, b, service, visited). unvisited e visited b)")
    (auto intro: unvisited_less)

declare downstream_participates.simps [simp del]

definition role_for :: "'w engine \<Rightarrow> 'w edge_binding \<Rightarrow> string \<Rightarrow> chain_role" where
  "role_for e b service =
     (if fronts b service then RoleTerminal
      else if internal_scoped e service then RoleNone
      else if is_chain_front b \<and> downstream_participates e b service [] then RoleForward
      else RoleNone)"

lemma role_for_terminal [simp]: "role_for e b s = RoleTerminal \<longleftrightarrow> fronts b s"
  by (simp add: role_for_def)

lemma role_for_internal: "internal_scoped e s \<Longrightarrow> role_for e b s \<noteq> RoleForward"
  by (simp add: role_for_def)

lemma role_for_forward_front: "role_for e b s = RoleForward \<Longrightarrow> is_chain_front b \<and> \<not> fronts b s"
  by (auto simp: role_for_def split: if_splits)

section \<open>Chain depth\<close>

type_synonym depths = "string \<rightharpoonup> nat"

text \<open>One step of the relaxation, for one binding: whether it changed the map, and the map.\<close>

definition relax_edge :: "'w edge_binding \<Rightarrow> depths \<Rightarrow> depths \<times> bool" where
  "relax_edge b depth =
     (if b_downstream_edge b = [] then (depth, False)
      else (case depth (b_downstream_edge b) of
              None \<Rightarrow> (depth, False)
            | Some old \<Rightarrow>
                let d = (case depth (b_name b) of None \<Rightarrow> 0 | Some k \<Rightarrow> k) + 1
                in if d > old then (depth(b_downstream_edge b \<mapsto> d), True) else (depth, False)))"

fun relax_pass :: "'w edge_binding list \<Rightarrow> depths \<Rightarrow> depths \<times> bool" where
  "relax_pass [] depth = (depth, False)"
| "relax_pass (b # bs) depth =
     (let (depth', changed) = relax_edge b depth; (depth'', changed') = relax_pass bs depth'
      in (depth'', changed \<or> changed'))"

fun relax_loop :: "nat \<Rightarrow> 'w edge_binding list \<Rightarrow> depths \<Rightarrow> depths" where
  "relax_loop 0 bs depth = depth"
| "relax_loop (Suc n) bs depth =
     (let (depth', changed) = relax_pass bs depth
      in if changed then relax_loop n bs depth' else depth')"

definition chain_depth :: "'w engine \<Rightarrow> depths" where
  "chain_depth e =
     relax_loop (length (g_edges e)) (g_edges e)
       (map_of (map (\<lambda>b. (b_name b, 0)) (g_edges e)))"

text \<open>
  The topology is acyclic when some numbering of the names grows along every downstream
  pointer that stays inside it. A pointer is violated while the edge it names is not deeper
  than its front: after \<open>k\<close> passes every violated pointer starts at depth \<open>k\<close> or more, and no
  depth exceeds the number of smaller names, so after one pass per edge none is left.
\<close>

definition violated :: "depths \<Rightarrow> 'w edge_binding \<Rightarrow> bool" where
  "violated D b =
     (b_downstream_edge b \<noteq> [] \<and>
      (case (D (b_name b), D (b_downstream_edge b)) of
         (Some x, Some y) \<Rightarrow> y \<le> x | _ \<Rightarrow> False))"

definition depth_bounded :: "(string \<Rightarrow> nat) \<Rightarrow> depths \<Rightarrow> bool" where
  "depth_bounded r D = (\<forall>v x. D v = Some x \<longrightarrow> x \<le> r v)"

definition grows_along :: "(string \<Rightarrow> nat) \<Rightarrow> 'w edge_binding list \<Rightarrow> bool" where
  "grows_along r bs =
     (\<forall>b \<in> set bs. b_downstream_edge b \<in> b_name ` set bs \<and> b_downstream_edge b \<noteq> []
        \<longrightarrow> r (b_name b) < r (b_downstream_edge b))"

text \<open>One relaxation keeps the domain and the bound, repairs its own pointer and leaves any
  other violated pointer at depth \<open>k + 1\<close> if it was not violated before.\<close>

lemma relax_edge_step:
  assumes eq: "relax_edge b D = (D', ch)" and dom: "dom D = b_name ` set bs" and b: "b \<in> set bs"
    and bnd: "depth_bounded r D" and grow: "grows_along r bs"
  shows "dom D' = dom D" and "depth_bounded r D'" and "\<not> violated D' b"
    and "\<And>v x. D v = Some x \<Longrightarrow> \<exists>y. D' v = Some y \<and> x \<le> y"
    and "\<not> ch \<Longrightarrow> D' = D"
    and "\<And>c. violated D' c \<Longrightarrow> violated D c \<or>
          (\<exists>x y. D (b_name b) = Some x \<and> violated D b \<and> D' (b_name c) = Some y \<and> Suc x \<le> y)"
proof -
  from b dom obtain x where x: "D (b_name b) = Some x" by (metis domD image_eqI)
  show "dom D' = dom D"
    using eq x by (auto simp: relax_edge_def Let_def split: if_splits option.splits)
  show "\<not> ch \<Longrightarrow> D' = D"
    using eq x by (auto simp: relax_edge_def Let_def split: if_splits option.splits)
  show "\<exists>y. D' v = Some y \<and> w \<le> y" if "D v = Some w" for v w
    using eq x that by (auto simp: relax_edge_def Let_def split: if_splits option.splits)
  have rb: "r (b_name b) < r (b_downstream_edge b)"
    if "b_downstream_edge b \<noteq> []" "D (b_downstream_edge b) = Some y" for y
  proof -
    have "b_downstream_edge b \<in> b_name ` set bs" using that(2) dom by blast
    with grow b that(1) show ?thesis by (simp add: grows_along_def)
  qed
  have ne: "b_name b \<noteq> b_downstream_edge b"
    if "b_downstream_edge b \<noteq> []" "D (b_downstream_edge b) = Some y" for y
    using rb [OF that] by auto
  have xr: "x \<le> r (b_name b)" using bnd x by (simp add: depth_bounded_def)
  show "depth_bounded r D'"
    using eq x bnd xr rb
    by (fastforce simp: relax_edge_def Let_def depth_bounded_def split: if_splits option.splits)
  show "\<not> violated D' b"
    using eq x ne
    by (auto simp: relax_edge_def violated_def Let_def split: if_splits option.splits)
  show "violated D c \<or> (\<exists>x y. D (b_name b) = Some x \<and> violated D b
          \<and> D' (b_name c) = Some y \<and> Suc x \<le> y)" if "violated D' c" for c
    using eq x that
    by (auto simp: relax_edge_def violated_def Let_def split: if_splits option.splits)
qed

definition deep :: "nat \<Rightarrow> depths \<Rightarrow> 'w edge_binding \<Rightarrow> bool" where
  "deep k D c = (violated D c \<longrightarrow> (case D (b_name c) of None \<Rightarrow> False | Some y \<Rightarrow> k \<le> y))"

lemma deep_mono: "deep (Suc k) D c \<Longrightarrow> deep k D c"
  by (auto simp: deep_def split: option.splits)

lemma deep_step:
  assumes eq: "relax_edge b D = (D', ch)" and dom: "dom D = b_name ` set bs" and b: "b \<in> set bs"
    and bnd: "depth_bounded r D" and grow: "grows_along r bs"
    and db: "deep k D b" and dc: "deep j D c" and j: "j \<le> Suc k"
  shows "deep j D' c"
  unfolding deep_def
proof
  note step = relax_edge_step [OF eq dom b bnd grow]
  assume "violated D' c"
  from step(6) [OF this]
  show "case D' (b_name c) of None \<Rightarrow> False | Some y \<Rightarrow> j \<le> y"
  proof
    assume "violated D c"
    with dc obtain y where "D (b_name c) = Some y" "j \<le> y"
      by (auto simp: deep_def split: option.splits)
    with step(4) show ?thesis by fastforce
  next
    assume "\<exists>x y. D (b_name b) = Some x \<and> violated D b \<and> D' (b_name c) = Some y \<and> Suc x \<le> y"
    with db j show ?thesis by (auto simp: deep_def split: option.splits)
  qed
qed

lemma relax_pass_step:
  assumes "relax_pass S D = (D', ch)" and "set S \<subseteq> set bs" and "dom D = b_name ` set bs"
    and "depth_bounded r D" and "grows_along r bs"
    and "\<forall>c \<in> set S. deep k D c" and "\<forall>c \<in> P. deep (Suc k) D c"
  shows "dom D' = dom D \<and> depth_bounded r D' \<and> (\<forall>c \<in> P \<union> set S. deep (Suc k) D' c)
         \<and> (\<not> ch \<longrightarrow> D' = D \<and> (\<forall>c \<in> set S. \<not> violated D c))"
  using assms
proof (induction S arbitrary: D D' ch P)
  case (Cons b S)
  obtain D1 c1 where e1: "relax_edge b D = (D1, c1)" by (cases "relax_edge b D")
  obtain D2 c2 where e2: "relax_pass S D1 = (D2, c2)" by (cases "relax_pass S D1")
  have r: "D' = D2" "ch = (c1 \<or> c2)" using Cons.prems(1) e1 e2 by auto
  have b: "b \<in> set bs" "deep k D b" using Cons.prems by auto
  note step = relax_edge_step [OF e1 Cons.prems(3) b(1) Cons.prems(4,5)]
  note dstep = deep_step [OF e1 Cons.prems(3) b(1) Cons.prems(4,5) b(2)]
  have S: "\<forall>c \<in> set S. deep k D1 c" using Cons.prems(6) by (auto intro: dstep)
  have P: "\<forall>c \<in> insert b P. deep (Suc k) D1 c"
    using Cons.prems(7) step(3) by (auto intro: dstep simp: deep_def [of _ _ b])
  have "dom D1 = b_name ` set bs" using step(1) Cons.prems(3) by simp
  with Cons.IH [OF e2 _ _ step(2) Cons.prems(5) S P] Cons.prems(2)
  have "dom D2 = dom D1 \<and> depth_bounded r D2 \<and> (\<forall>c \<in> insert b P \<union> set S. deep (Suc k) D2 c)
        \<and> (\<not> c2 \<longrightarrow> D2 = D1 \<and> (\<forall>c \<in> set S. \<not> violated D1 c))"
    by simp
  with r step(1,3,5) show ?case by auto
qed auto

text \<open>After \<open>n\<close> more passes the pointers that are still violated are at depth \<open>k + n\<close>.\<close>

lemma relax_loop_deep:
  assumes "dom D = b_name ` set bs" and "depth_bounded r D" and "grows_along r bs"
    and "\<forall>c \<in> set bs. deep k D c"
  shows "dom (relax_loop n bs D) = dom D \<and> depth_bounded r (relax_loop n bs D)
         \<and> (\<forall>c \<in> set bs. deep (k + n) (relax_loop n bs D) c)"
  using assms
proof (induction n arbitrary: k D)
  case (Suc n)
  obtain D1 ch where e: "relax_pass bs D = (D1, ch)" by (cases "relax_pass bs D")
  have p: "dom D1 = dom D \<and> depth_bounded r D1 \<and> (\<forall>c \<in> {} \<union> set bs. deep (Suc k) D1 c)
           \<and> (\<not> ch \<longrightarrow> D1 = D \<and> (\<forall>c \<in> set bs. \<not> violated D c))"
    using Suc.prems e by (intro relax_pass_step) auto
  show ?case
  proof (cases ch)
    case True
    with p e Suc.prems Suc.IH [of D1 "Suc k"] show ?thesis by simp
  next
    case False
    with p e show ?thesis by (auto simp: deep_def)
  qed
qed auto

text \<open>The number of smaller names is a numbering with values below the number of edges.\<close>

lemma card_smaller_grows:
  assumes "grows_along rk bs"
  shows "grows_along (\<lambda>v. card {u \<in> b_name ` set bs. rk u < rk v}) bs"
  unfolding grows_along_def
proof (intro ballI impI)
  fix b assume b: "b \<in> set bs"
    and d: "b_downstream_edge b \<in> b_name ` set bs \<and> b_downstream_edge b \<noteq> []"
  with assms have lt: "rk (b_name b) < rk (b_downstream_edge b)" by (simp add: grows_along_def)
  have "{u \<in> b_name ` set bs. rk u < rk (b_name b)}
        \<subset> {u \<in> b_name ` set bs. rk u < rk (b_downstream_edge b)}"
    using lt b by force
  then show "card {u \<in> b_name ` set bs. rk u < rk (b_name b)}
             < card {u \<in> b_name ` set bs. rk u < rk (b_downstream_edge b)}"
    by (intro psubset_card_mono) auto
qed

lemma card_smaller_bound:
  assumes "b \<in> set bs"
  shows "card {u \<in> b_name ` set bs. rk u < (rk (b_name b) :: nat)} < length bs"
proof -
  have "card {u \<in> b_name ` set bs. rk u < rk (b_name b)} < card (b_name ` set bs)"
    using assms by (intro psubset_card_mono) auto
  also have "\<dots> \<le> length bs"
    using card_image_le [of "set bs" b_name] card_length [of bs] by simp
  finally show ?thesis .
qed

lemma chain_depth_no_violation:
  assumes grow: "grows_along rk (g_edges e)"
  shows "dom (chain_depth e) = b_name ` set (g_edges e)
         \<and> (\<forall>b \<in> set (g_edges e). \<not> violated (chain_depth e) b)"
proof -
  let ?bs = "g_edges e" and ?r = "\<lambda>v. card {u \<in> b_name ` set (g_edges e). rk u < rk v}"
  let ?D = "map_of (map (\<lambda>b. (b_name b, 0 :: nat)) ?bs)"
  have dom: "dom ?D = b_name ` set ?bs" by (simp add: dom_map_of_conv_image_fst image_image)
  have zero: "D = ?D \<Longrightarrow> D v = Some x \<Longrightarrow> x = 0" for D v x
    by (auto dest!: map_of_SomeD)
  have bnd: "depth_bounded ?r ?D" using zero by (fastforce simp: depth_bounded_def)
  have "\<forall>c \<in> set ?bs. deep 0 ?D c" by (auto simp: deep_def violated_def split: option.splits)
  with dom bnd card_smaller_grows [OF grow]
  have res: "dom (chain_depth e) = b_name ` set ?bs" "depth_bounded ?r (chain_depth e)"
    "\<forall>c \<in> set ?bs. deep (length ?bs) (chain_depth e) c"
    using relax_loop_deep [of ?D ?bs ?r 0 "length ?bs"] by (simp_all add: chain_depth_def)
  have "\<not> violated (chain_depth e) b" if b: "b \<in> set ?bs" for b
  proof
    assume "violated (chain_depth e) b"
    with res(3) b obtain y where "chain_depth e (b_name b) = Some y" "length ?bs \<le> y"
      by (auto simp: deep_def split: option.splits)
    with res(2) have "length ?bs \<le> ?r (b_name b)" by (fastforce simp: depth_bounded_def)
    with card_smaller_bound [OF b, of rk] show False by simp
  qed
  with res(1) show ?thesis by blast
qed

section \<open>Reaching a fronting edge\<close>

text \<open>The chain of downstream pointers, as a relation on the topology's bindings.\<close>

inductive leads_to :: "'w engine \<Rightarrow> 'w edge_binding \<Rightarrow> 'w edge_binding \<Rightarrow> bool" for e where
  step: "b_downstream_edge b \<noteq> [] \<Longrightarrow> binding e (b_downstream_edge b) = Some d \<Longrightarrow> leads_to e b d"
| hop: "b_downstream_edge b \<noteq> [] \<Longrightarrow> binding e (b_downstream_edge b) = Some d \<Longrightarrow>
        leads_to e d c \<Longrightarrow> leads_to e b c"

inductive_cases leads_to_elim: "leads_to e b c"

lemma downstream_participates_sound:
  "downstream_participates e b service visited \<Longrightarrow> \<exists>d. leads_to e b d \<and> fronts d service"
proof (induction e b service visited rule: downstream_participates.induct)
  case (1 e b service visited)
  from 1(2) obtain d where d: "b_downstream_edge b \<noteq> []" "b_name b \<notin> set visited"
    "binding e (b_downstream_edge b) = Some d"
    "fronts d service \<or> downstream_participates e d service (b_name b # visited)"
    by (subst (asm) downstream_participates.simps) (auto split: if_splits option.splits)
  show ?case
  proof (cases "fronts d service")
    case True
    with d show ?thesis by (auto intro: leads_to.step)
  next
    case False
    with d 1(1) [of d] obtain c where "leads_to e d c" "fronts c service" by auto
    with d(1,3) show ?thesis by (auto intro: leads_to.hop)
  qed
qed

text \<open>The walk is deterministic, so it can be followed by the number of hops; the visited set
  only stops it on a name it has already left.\<close>

fun hops :: "'w engine \<Rightarrow> nat \<Rightarrow> 'w edge_binding \<Rightarrow> 'w edge_binding option" where
  "hops e 0 b = Some b"
| "hops e (Suc n) b =
     (if b_downstream_edge b = [] then None
      else (case binding e (b_downstream_edge b) of None \<Rightarrow> None | Some d \<Rightarrow> hops e n d))"

lemma leads_to_hops: "leads_to e b c \<Longrightarrow> \<exists>n. hops e (Suc n) b = Some c"
proof (induction rule: leads_to.induct)
  case (step b d)
  then show ?case by (intro exI [of _ 0]) simp
next
  case (hop b d c)
  then obtain n where "hops e (Suc n) d = Some c" by blast
  with hop.hyps(1,2) show ?case by (intro exI [of _ "Suc n"]) simp
qed

lemma hops_leads_to: "hops e (Suc n) b = Some c \<Longrightarrow> leads_to e b c"
proof (induction n arbitrary: b)
  case 0
  then show ?case by (auto split: if_splits option.splits intro: leads_to.step)
next
  case (Suc n)
  then show ?case
    by (auto split: if_splits option.splits intro: leads_to.hop simp del: hops.simps(2)
        simp: hops.simps(2) [of e "Suc n"])
qed

lemma hops_add: "hops e (m + n) b = (case hops e m b of None \<Rightarrow> None | Some c \<Rightarrow> hops e n c)"
  by (induction m arbitrary: b) (auto split: option.splits)

lemma hops_member: "hops e (Suc n) b = Some c \<Longrightarrow> binding e (b_name c) = Some c"
proof (induction n arbitrary: b)
  case 0
  then have "binding e (b_downstream_edge b) = Some c" by (auto split: if_splits option.splits)
  with binding_Some [OF this] show ?case by simp
next
  case (Suc n)
  then show ?case
    by (auto split: if_splits option.splits simp del: hops.simps(2)
        simp: hops.simps(2) [of e "Suc n"])
qed

lemma downstream_participates_hops:
  assumes "hops e (Suc n) b = Some d" and "fronts d service"
    and "\<And>i c. i \<le> n \<Longrightarrow> hops e i b = Some c \<Longrightarrow> b_name c \<notin> set visited"
    and "\<And>i j c c'. i < j \<Longrightarrow> j \<le> n \<Longrightarrow> hops e i b = Some c \<Longrightarrow> hops e j b = Some c'
           \<Longrightarrow> b_name c \<noteq> b_name c'"
  shows "downstream_participates e b service visited"
  using assms
proof (induction n arbitrary: b visited)
  case 0
  have "b_name b \<notin> set visited" using 0(3) [of 0 b] by simp
  with 0(1,2) show ?case
    by (subst downstream_participates.simps) (auto split: if_splits option.splits)
next
  case (Suc n)
  have nv: "b_name b \<notin> set visited" using Suc.prems(3) [of 0 b] by simp
  obtain m where m: "b_downstream_edge b \<noteq> []" "binding e (b_downstream_edge b) = Some m"
    "hops e (Suc n) m = Some d"
    using Suc.prems(1) by (auto split: if_splits option.splits simp del: hops.simps(2)
        simp: hops.simps(2) [of e "Suc n"])
  have shift: "hops e (Suc i) b = hops e i m" for i using m(1,2) by simp
  have "downstream_participates e m service (b_name b # visited)"
  proof (rule Suc.IH [OF m(3) Suc.prems(2)])
    fix i c assume i: "i \<le> n" and c: "hops e i m = Some c"
    have "b_name c \<notin> set visited" using Suc.prems(3) [of "Suc i" c] i c shift by simp
    moreover have "b_name c \<noteq> b_name b"
      using Suc.prems(4) [of 0 "Suc i" b c] i c shift by simp
    ultimately show "b_name c \<notin> set (b_name b # visited)" by simp
  next
    fix i j c c' assume "i < j" "j \<le> n" "hops e i m = Some c" "hops e j m = Some c'"
    then show "b_name c \<noteq> b_name c'"
      using Suc.prems(4) [of "Suc i" "Suc j" c c'] shift by simp
  qed
  with m nv show ?case by (subst downstream_participates.simps) simp
qed

lemma downstream_participates_complete:
  assumes self: "binding e (b_name b) = Some b" and "leads_to e b d" and "fronts d service"
  shows "downstream_participates e b service []"
proof -
  let ?P = "\<lambda>n. \<exists>d. hops e (Suc n) b = Some d \<and> fronts d service"
  from assms(2,3) leads_to_hops have "\<exists>n. ?P n" by blast
  define n where "n = (LEAST n. ?P n)"
  have "?P n" unfolding n_def using \<open>\<exists>n. ?P n\<close> by (rule LeastI_ex)
  then obtain d' where d': "hops e (Suc n) b = Some d'" "fronts d' service" by blast
  have least: "\<not> ?P m" if "m < n" for m using that not_less_Least n_def by blast
  have named: "binding e (b_name c) = Some c" if "hops e i b = Some c" for i c
    using that self hops_member by (cases i) auto
  show ?thesis
  proof (rule downstream_participates_hops [OF d'])
    fix i j c c' assume ij: "i < j" "j \<le> n" "hops e i b = Some c" "hops e j b = Some c'"
    show "b_name c \<noteq> b_name c'"
    proof
      assume eq: "b_name c = b_name c'"
      have "Some c = binding e (b_name c)" by (rule named [OF ij(3), symmetric])
      also have "\<dots> = binding e (b_name c')" by (simp only: eq)
      also have "\<dots> = Some c'" by (rule named [OF ij(4)])
      finally have same: "c = c'" by (rule option.inject [THEN iffD1])
      let ?m = "i + (n - j)"
      have "hops e (i + (Suc n - j)) b = hops e (j + (Suc n - j)) b"
        unfolding hops_add using ij(3,4) same by (simp only: option.case)
      moreover have "i + (Suc n - j) = Suc ?m" "j + (Suc n - j) = Suc n" using ij by auto
      ultimately have "hops e (Suc ?m) b = hops e (Suc n) b" by (simp only:)
      with d' have "?P ?m" by (simp only:) blast
      have "?m < n" using ij(1,2) by arith
      from least [OF this] \<open>?P ?m\<close> show False by (rule notE)
    qed
  qed simp
qed

section \<open>Properties of the topology\<close>

definition two_hop_engine :: "mem_world engine" where
  "two_hop_engine = new_multi
     [ \<lparr>b_name = ''home'', b_provider = mem_edge ''home'', b_fronts = Some (\<lambda>s. s = ''g''),
        b_auth_downstream = False, b_ingress_kind = IngressUnset, b_ingress_path = [],
        b_downstream_edge = [], b_downstream_address = [], b_downstream_scheme = []\<rparr>,
       \<lparr>b_name = ''mid'', b_provider = mem_edge ''mid'', b_fronts = Some (\<lambda>s. False),
        b_auth_downstream = False, b_ingress_kind = IngressUnset, b_ingress_path = [],
        b_downstream_edge = ''home'', b_downstream_address = ''h:443'',
        b_downstream_scheme = []\<rparr>,
       \<lparr>b_name = ''vps'', b_provider = mem_edge ''vps'', b_fronts = Some (\<lambda>s. False),
        b_auth_downstream = False, b_ingress_kind = IngressUnset, b_ingress_path = [],
        b_downstream_edge = ''mid'', b_downstream_address = ''m:80'',
        b_downstream_scheme = []\<rparr> ]
     ''ex''
     [ mem_dns ''ag'' ScopeInternal ''ex'' ''h'' ]"

text \<open>C34. Chain depths order every acyclic topology: a downstream edge that is in the topology
  is strictly deeper than the front that forwards to it, however the bindings are listed.\<close>

theorem chain_depth_downstream_deeper:
  assumes "grows_along rk (g_edges e)" and "b \<in> set (g_edges e)"
    and "b_downstream_edge b \<noteq> []" and "b_downstream_edge b \<in> b_name ` set (g_edges e)"
  shows "\<exists>x y. chain_depth e (b_name b) = Some x
           \<and> chain_depth e (b_downstream_edge b) = Some y \<and> x < y"
proof -
  note nv = chain_depth_no_violation [OF assms(1)]
  with assms(2,4) obtain x y where xy: "chain_depth e (b_name b) = Some x"
    "chain_depth e (b_downstream_edge b) = Some y"
    by (metis domD image_eqI)
  with nv assms(2,3) have "\<not> y \<le> x" by (auto simp: violated_def)
  with xy show ?thesis by auto
qed

lemma chain_depth_downstream_deeper_witness:
  "\<exists>x y. chain_depth two_hop_engine ''vps'' = Some x \<and> chain_depth two_hop_engine ''mid'' = Some y
     \<and> x < y"
  using chain_depth_downstream_deeper [of "\<lambda>n. if n = ''vps'' then 0 else if n = ''mid'' then 1 else 2"
      two_hop_engine "g_edges two_hop_engine ! 2"]
  by (simp add: two_hop_engine_def new_multi_def grows_along_def)

text \<open>An edge forwards a service exactly when it does not serve it itself, the service is
  not internal-only, and following its downstream pointers reaches an edge that serves it; the
  walk ends on every topology, cycles included.\<close>

theorem role_for_forward_iff:
  assumes "distinct (map b_name (g_edges e))" and "b \<in> set (g_edges e)"
  shows "role_for e b service = RoleForward \<longleftrightarrow>
     \<not> fronts b service \<and> \<not> internal_scoped e service
     \<and> (\<exists>d. leads_to e b d \<and> fronts d service)"
proof -
  have "downstream_participates e b service [] \<longleftrightarrow> (\<exists>d. leads_to e b d \<and> fronts d service)"
    using downstream_participates_sound
      downstream_participates_complete [OF binding_of_member [OF assms]] by blast
  moreover have "leads_to e b d \<Longrightarrow> is_chain_front b" for d
    by (auto simp: is_chain_front_def elim: leads_to_elim)
  ultimately show ?thesis by (auto simp: role_for_def)
qed

lemma role_for_forward_iff_witness:
  "role_for two_hop_engine (g_edges two_hop_engine ! 2) ''g'' = RoleForward"
proof -
  let ?e = two_hop_engine
  have "leads_to ?e (g_edges ?e ! 2) (g_edges ?e ! 0)"
    by (rule hops_leads_to [of _ 1]) (simp add: two_hop_engine_def new_multi_def binding_def)
  moreover have "fronts (g_edges ?e ! 0) ''g''" "\<not> fronts (g_edges ?e ! 2) ''g''"
    by (simp_all add: two_hop_engine_def new_multi_def fronts_def)
  moreover have "\<not> internal_scoped ?e ''g''"
    by (simp add: two_hop_engine_def new_multi_def internal_scoped_def)
  moreover have "distinct (map b_name (g_edges ?e))" "g_edges ?e ! 2 \<in> set (g_edges ?e)"
    by (simp_all add: two_hop_engine_def new_multi_def)
  ultimately show ?thesis using role_for_forward_iff by blast
qed

text \<open>The host an operation derives from a bare service name is mapped back to that
  service by the audit and gate lookups, when the engine has a default zone.\<close>

theorem build_op_service_of:
  assumes "g_zone e \<noteq> []" and "\<not> has_dot (trim_space s)"
  shows "service_of e (o_host (build_op e v s)) = trim_space s"
  using assms service_of_default_zone [OF assms(1)] by (simp add: build_op_def Let_def)

lemma build_op_service_of_witness:
  "service_of two_hop_engine (o_host (build_op two_hop_engine Expose ''g'')) = trim_space ''g''"
  by (rule build_op_service_of)
    (simp_all add: two_hop_engine_def new_multi_def has_dot_def trim_space_def is_space_def)

end
