(* ===== verification/Chain.thy ===== *)
theory Chain
  imports Topology
begin

text \<open>
  Following a chain at read time: \<open>internal/core/chain.go\<close> (\<open>readAll\<close>,
  \<open>buildChainContext\<close>, \<open>chainForward\<close>, \<open>wildcardForwardCoverage\<close>, \<open>resolveChain\<close>,
  \<open>effectiveAuth\<close>, \<open>dialHost\<close>) and the one wildcard rule of \<open>audit.go\<close>
  (\<open>isWildcardName\<close>, \<open>wildcardPatternCovers\<close>). The reason text of an unresolved link is a
  value that says which branch produced it.
\<close>

section \<open>Wildcards\<close>

definition is_wildcard_name :: "string \<Rightarrow> bool" where
  "is_wildcard_name name = (CHR ''*'' \<in> set name)"

definition wildcard_pattern_covers :: "string \<Rightarrow> string \<Rightarrow> bool" where
  "wildcard_pattern_covers pattern host =
     (let p = to_lower pattern
      in if \<not> has_prefix ''*.'' p then False
         else let suffix = drop 1 p; h = to_lower host
              in has_suffix suffix h \<and> length h > length suffix)"

definition wildcard_route_covering :: "route list \<Rightarrow> string \<Rightarrow> route option" where
  "wildcard_route_covering routes host =
     find (\<lambda>r. is_wildcard_name (r_host r) \<and> wildcard_pattern_covers (r_host r) host) routes"

lemma wildcard_pattern_covers_iff:
  "wildcard_pattern_covers pattern host \<longleftrightarrow>
     (\<exists>zone sub. to_lower pattern = ''*.'' @ zone \<and> sub \<noteq> [] \<and> to_lower host = sub @ ''.'' @ zone)"
proof
  assume cov: "wildcard_pattern_covers pattern host"
  then obtain zone where z: "to_lower pattern = ''*.'' @ zone"
    by (auto simp: wildcard_pattern_covers_def Let_def has_prefix_iff split: if_splits)
  with cov have h: "has_suffix (''.'' @ zone) (to_lower host)"
    and len: "length (to_lower host) > length (''.'' @ zone)"
    by (auto simp: wildcard_pattern_covers_def Let_def)
  from h obtain sub where s: "to_lower host = sub @ ''.'' @ zone"
    by (auto simp: has_suffix_iff)
  with len have "sub \<noteq> []" by auto
  with z s show "\<exists>zone sub. to_lower pattern = ''*.'' @ zone \<and> sub \<noteq> []
      \<and> to_lower host = sub @ ''.'' @ zone" by blast
next
  assume "\<exists>zone sub. to_lower pattern = ''*.'' @ zone \<and> sub \<noteq> []
      \<and> to_lower host = sub @ ''.'' @ zone"
  then obtain zone sub where zs: "to_lower pattern = ''*.'' @ zone" "sub \<noteq> []"
    "to_lower host = sub @ ''.'' @ zone" by blast
  from zs(3) have "length host = length sub + 1 + length zone"
    using length_to_lower [of host] by simp
  with zs show "wildcard_pattern_covers pattern host"
    by (auto simp: wildcard_pattern_covers_def Let_def has_suffix_iff)
qed

lemma wildcard_covers_fold: "equal_fold h h' \<Longrightarrow> wildcard_pattern_covers p h = wildcard_pattern_covers p h'"
  by (simp add: wildcard_pattern_covers_iff equal_fold_def)

section \<open>Dial addresses\<close>

text \<open>Host part of \<open>net.SplitHostPort\<close>; \<open>None\<close> is its error.\<close>

definition split_host_port :: "string \<Rightarrow> string option" where
  "split_host_port s =
     (case last_index_char s (CHR '':'') of
        None \<Rightarrow> None
      | Some i \<Rightarrow>
          if has_prefix ''['' s then
            (case str_index s '']'' of
               None \<Rightarrow> None
             | Some k \<Rightarrow>
                 if k + 1 = length s then None
                 else if k + 1 = i then
                   (if CHR ''['' \<in> set (drop 1 s) then None
                    else if CHR '']'' \<in> set (drop (k + 1) s) then None
                    else Some (drop 1 (take k s)))
                 else None)
          else if CHR '':'' \<in> set (take i s) then None
          else if CHR ''['' \<in> set s then None
          else if CHR '']'' \<in> set s then None
          else Some (take i s))"

definition dial_host :: "string \<Rightarrow> string" where
  "dial_host addr =
     (let a = trim_space addr;
          a = (case str_index a ''://'' of None \<Rightarrow> a | Some i \<Rightarrow> drop (i + 3) a);
          a = trim_suffix ''/'' a
      in to_lower (case split_host_port a of Some h \<Rightarrow> h | None \<Rightarrow> a))"

section \<open>Reading the topology\<close>

record edge_read =
  er_live :: live_edge_state
  er_err :: "perr option"

definition chain_targets :: "'w engine \<Rightarrow> string set" where
  "chain_targets e = set (filter (\<lambda>n. n \<noteq> []) (map b_downstream_edge (g_edges e)))"

text \<open>The map of the reads, by name; the zero live state stands in for a failed read. The first
  error of an edge that is no chain target aborts, with the edge's name.\<close>

fun read_edges :: "'w engine \<Rightarrow> 'w \<Rightarrow> 'w edge_binding list \<Rightarrow> (string \<times> edge_read) list
    \<Rightarrow> (string \<times> perr) + (string \<times> edge_read) list" where
  "read_edges e w [] m = Inr m"
| "read_edges e w (b # bs) m =
     (case ep_read (b_provider b) w of
        Inl err \<Rightarrow>
          if b_name b \<notin> chain_targets e then Inl (b_name b, err)
          else read_edges e w bs
                 (AList.update (b_name b) \<lparr>er_live = empty_live False, er_err = Some err\<rparr> m)
      | Inr live \<Rightarrow>
          read_edges e w bs (AList.update (b_name b) \<lparr>er_live = live, er_err = None\<rparr> m))"

definition read_all :: "'w engine \<Rightarrow> 'w \<Rightarrow> (string \<times> perr) + (string \<times> edge_read) list" where
  "read_all e w = read_edges e w (g_edges e) []"

record edge_index =
  ix_hosts :: "(string \<times> route) list"
  ix_err :: "perr option"

type_synonym chain_context = "(string \<times> edge_index) list"

definition index_routes :: "route list \<Rightarrow> (string \<times> route) list" where
  "index_routes rs = fold (\<lambda>r m. AList.update (to_lower (r_host r)) r m) rs []"

definition build_chain_context :: "(string \<times> edge_read) list \<Rightarrow> chain_context" where
  "build_chain_context reads =
     map (\<lambda>(n, rd). (n, \<lparr>ix_hosts = index_routes (l_routes (er_live rd)), ix_err = er_err rd\<rparr>)) reads"

section \<open>Chain forwards\<close>

definition chain_forward :: "'w edge_binding \<Rightarrow> route \<Rightarrow> bool" where
  "chain_forward b r =
     (if \<not> is_chain_front b \<or> u_mode (r_upstream r) = ModeMeshGrant then False
      else if b_downstream_address b = [] then True
      else dial_host (u_address (r_upstream r)) = dial_host (b_downstream_address b))"

definition wildcard_forward_coverage :: "chain_context \<Rightarrow> 'w edge_binding \<Rightarrow> route \<Rightarrow> string list" where
  "wildcard_forward_coverage cc b r =
     (if \<not> is_wildcard_name (r_host r) \<or> \<not> chain_forward b r then []
      else (case map_of cc (b_downstream_edge b) of
              None \<Rightarrow> []
            | Some idx \<Rightarrow>
                if ix_err idx \<noteq> None then []
                else sort (filter (wildcard_pattern_covers (r_host r)) (map fst (ix_hosts idx)))))"

definition mk_link :: "string \<Rightarrow> string \<Rightarrow> chain_link" where
  "mk_link d reason = \<lparr>k_downstream_edge = d, k_resolved = False, k_address = [], k_auth = [],
     k_reason = reason\<rparr>"

definition resolve_chain :: "chain_context \<Rightarrow> 'w edge_binding \<Rightarrow> route \<Rightarrow> chain_link option" where
  "resolve_chain cc b r =
     (if \<not> chain_forward b r then None
      else Some (case map_of cc (b_downstream_edge b) of
         None \<Rightarrow> mk_link (b_downstream_edge b) ''not configured''
       | Some idx \<Rightarrow>
           if ix_err idx \<noteq> None then mk_link (b_downstream_edge b) ''not readable''
           else (case map_of (ix_hosts idx) (to_lower (r_host r)) of
                   Some dr \<Rightarrow> \<lparr>k_downstream_edge = b_downstream_edge b, k_resolved = True,
                     k_address = u_address (r_upstream dr), k_auth = u_auth (r_upstream dr),
                     k_reason = []\<rparr>
                 | None \<Rightarrow>
                     if wildcard_forward_coverage cc b r \<noteq> []
                     then mk_link (b_downstream_edge b) ''wildcard relay''
                     else mk_link (b_downstream_edge b) ''dangling forward'')))"

definition effective_auth :: "chain_context \<Rightarrow> 'w edge_binding \<Rightarrow> route \<Rightarrow> string" where
  "effective_auth cc b r =
     (if u_auth (r_upstream r) \<noteq> [] then u_auth (r_upstream r)
      else if u_mode (r_upstream r) = ModeMeshGrant then []
      else (case resolve_chain cc b r of
              Some link \<Rightarrow> if k_resolved link then k_auth link else auth_downstream_marker
            | None \<Rightarrow> if b_auth_downstream b then auth_downstream_marker else []))"

section \<open>Lemmas\<close>

lemma index_routes_snoc:
  "index_routes (rs @ [r]) = AList.update (to_lower (r_host r)) r (index_routes rs)"
  by (simp add: index_routes_def)

text \<open>The index keeps the last route of a name.\<close>

lemma map_of_index_routes:
  "map_of (index_routes rs) h = find (\<lambda>r. to_lower (r_host r) = h) (rev rs)"
proof (induction rs rule: rev_induct)
  case Nil
  then show ?case by (simp add: index_routes_def)
next
  case (snoc r rs)
  then show ?case by (auto simp: index_routes_snoc update_conv')
qed

lemma keys_index_routes: "set (map fst (index_routes rs)) = to_lower ` r_host ` set rs"
proof (induction rs rule: rev_induct)
  case Nil
  then show ?case by (simp add: index_routes_def)
next
  case (snoc r rs)
  have "fst ` set (AList.update k v al) = insert k (fst ` set al)"
    for k :: string and v :: route and al
    by (induction al) auto
  with snoc show ?case by (simp add: index_routes_snoc)
qed

definition read_of :: "'w \<Rightarrow> 'w edge_binding \<Rightarrow> edge_read" where
  "read_of w b =
     (case ep_read (b_provider b) w of
        Inl err \<Rightarrow> \<lparr>er_live = empty_live False, er_err = Some err\<rparr>
      | Inr live \<Rightarrow> \<lparr>er_live = live, er_err = None\<rparr>)"

lemma read_edges_Inr:
  "read_edges e w bs m = Inr m' \<Longrightarrow>
     m' = fold (\<lambda>b. AList.update (b_name b) (read_of w b)) bs m
     \<and> (\<forall>b \<in> set bs. \<forall>err. ep_read (b_provider b) w = Inl err \<longrightarrow> b_name b \<in> chain_targets e)"
  by (induction e w bs m rule: read_edges.induct)
    (auto simp: read_of_def split: sum.splits if_splits)

lemma map_of_fold_update:
  "distinct (map b_name bs) \<Longrightarrow>
     map_of (fold (\<lambda>b. AList.update (b_name b) (f b)) bs m) n =
       (case find (\<lambda>b. b_name b = n) bs of Some b \<Rightarrow> Some (f b) | None \<Rightarrow> map_of m n)"
proof (induction bs arbitrary: m)
  case (Cons b bs)
  show ?case
  proof (cases "b_name b = n")
    case True
    with Cons.prems have "find (\<lambda>b. b_name b = n) bs = None"
      by (force simp: find_None_iff' image_iff)
    with Cons True show ?thesis by (simp add: update_conv')
  next
    case False
    with Cons show ?thesis by (simp add: update_conv' split: option.splits)
  qed
qed simp

lemma read_all_lookup:
  assumes "read_all e w = Inr m" and "distinct (map b_name (g_edges e))"
  shows "map_of m n = map_option (read_of w) (binding e n)"
proof -
  have "m = fold (\<lambda>b. AList.update (b_name b) (read_of w b)) (g_edges e) []"
    using read_edges_Inr [OF assms(1) [unfolded read_all_def]] by blast
  then show ?thesis
    by (simp add: map_of_fold_update [OF assms(2)] binding_def split: option.splits)
qed

lemma map_of_build_chain_context:
  "map_of (build_chain_context reads) n =
     map_option (\<lambda>rd. \<lparr>ix_hosts = index_routes (l_routes (er_live rd)), ix_err = er_err rd\<rparr>)
       (map_of reads n)"
  by (induction reads) (auto simp: build_chain_context_def)

lemma context_of_readable:
  assumes "read_all e w = Inr m" and "distinct (map b_name (g_edges e))"
    and "binding e n = Some d" and "ep_read (b_provider d) w = Inr live"
  shows "map_of (build_chain_context m) n
     = Some \<lparr>ix_hosts = index_routes (l_routes live), ix_err = None\<rparr>"
  using assms by (simp add: map_of_build_chain_context read_all_lookup read_of_def)

lemma resolve_chain_resolved:
  "resolve_chain cc b r = Some link \<Longrightarrow> k_resolved link \<Longrightarrow>
     chain_forward b r \<and>
     (\<exists>idx dr. map_of cc (b_downstream_edge b) = Some idx \<and> ix_err idx = None
        \<and> map_of (ix_hosts idx) (to_lower (r_host r)) = Some dr
        \<and> k_address link = u_address (r_upstream dr) \<and> k_auth link = u_auth (r_upstream dr))"
  by (auto simp: resolve_chain_def mk_link_def split: if_splits option.splits)

lemma last_index_char_append:
  "c \<notin> set t \<Longrightarrow> last_index_char (s @ c # t) c = Some (length s)"
  by (induction s) (auto simp: last_index_char_None split: option.splits)

lemma split_host_port_join:
  assumes "CHR '':'' \<notin> set h" and "CHR ''['' \<notin> set h" and "CHR '']'' \<notin> set h"
    and "CHR '':'' \<notin> set p" and "CHR ''['' \<notin> set p" and "CHR '']'' \<notin> set p"
  shows "split_host_port (h @ CHR '':'' # p) = Some h"
proof -
  have "\<not> has_prefix ''['' (h @ CHR '':'' # p)"
    using assms(2) by (cases h) auto
  with assms show ?thesis
    by (simp add: split_host_port_def last_index_char_append)
qed

lemma split_host_port_bare: "CHR '':'' \<notin> set h \<Longrightarrow> split_host_port h = None"
proof -
  assume "CHR '':'' \<notin> set h"
  then have "last_index_char h (CHR '':'') = None" by (simp add: last_index_char_None)
  then show ?thesis unfolding split_host_port_def by (simp only: option.case)
qed

definition plain_host :: "string \<Rightarrow> bool" where
  "plain_host h = (h \<noteq> [] \<and> list_all (\<lambda>c. \<not> is_space c \<and> c \<notin> set ''/:[]'') h)"

lemma str_index_slashes: "CHR ''/'' \<notin> set s \<Longrightarrow> str_index s ''://'' = None"
proof (induction s)
  case (Cons c s)
  have "\<not> has_prefix ''://'' (c # s)"
    using Cons.prems by (auto simp: has_prefix_iff Cons_eq_append_conv)
  with Cons show ?case by simp
qed simp

lemma dial_host_plain:
  assumes "list_all (\<lambda>c. \<not> is_space c \<and> c \<noteq> CHR ''/'') a"
  shows "dial_host a = to_lower (case split_host_port a of Some h \<Rightarrow> h | None \<Rightarrow> a)"
proof -
  have "trim_space a = a"
    using assms by (intro trim_space_no_space) (auto simp: list_all_iff)
  moreover have "str_index a ''://'' = None"
    using assms by (intro str_index_slashes) (auto simp: list_all_iff)
  moreover have "trim_suffix ''/'' a = a"
    using assms by (intro trim_suffix_other) (auto simp: has_suffix_iff)
  ultimately show ?thesis
    unfolding dial_host_def Let_def by (simp only: option.case)
qed

lemma colon_no_space: "\<not> is_space (CHR '':'')"
  by (simp add: is_space_def)

lemma digit_plain: "\<forall>c \<in> set ''0123456789''. \<not> is_space c \<and> c \<notin> set ''/:[]''"
  by code_simp

lemma digits_plain:
  assumes "list_all (\<lambda>c. c \<in> set ''0123456789'') p"
  shows "list_all (\<lambda>c. \<not> is_space c \<and> c \<notin> set ''/:[]'') p"
  using assms by (rule list.pred_mono_strong) (rule digit_plain [THEN bspec])

section \<open>Properties of chain reading\<close>

text \<open>Matching a front's backend to its configured downstream ignores the port and the case:
  a plain host with a port dials the same host as the bare name in any case.\<close>

theorem dial_host_port_insensitive:
  assumes "plain_host h" and "list_all (\<lambda>c. c \<in> set ''0123456789'') p"
  shows "dial_host (h @ '':'' @ p) = to_lower h \<and> dial_host h = to_lower h"
proof -
  have h: "list_all (\<lambda>c. \<not> is_space c \<and> c \<noteq> CHR ''/'') h" "CHR '':'' \<notin> set h"
    "CHR ''['' \<notin> set h" "CHR '']'' \<notin> set h"
    using assms(1) by (auto simp: plain_host_def list_all_iff)
  have p: "list_all (\<lambda>c. \<not> is_space c \<and> c \<noteq> CHR ''/'') p" "CHR '':'' \<notin> set p"
    "CHR ''['' \<notin> set p" "CHR '']'' \<notin> set p"
    using digits_plain [OF assms(2)] by (auto simp: list_all_iff)
  have "list_all (\<lambda>c. \<not> is_space c \<and> c \<noteq> CHR ''/'') (h @ '':'' @ p)"
    using h(1) p(1) colon_no_space by simp
  from dial_host_plain [OF this] split_host_port_join [OF h(2-4) p(2-4)]
  have "dial_host (h @ '':'' @ p) = to_lower h" by simp
  moreover from dial_host_plain [OF h(1)] split_host_port_bare [OF h(2)]
  have "dial_host h = to_lower h" by simp
  ultimately show ?thesis by simp
qed

lemma dial_host_port_insensitive_witness:
  "dial_host (''Home.lan'' @ '':'' @ ''443'') = to_lower ''Home.lan''"
  using dial_host_port_insensitive [of "''Home.lan''" "''443''"]
  by (simp add: plain_host_def is_space_def)

text \<open>Following a chain reports the authentication that is really enforced: where the
  downstream edge was read and routes the host, a front route with no policy of its own has
  exactly the downstream route's policy, and none when the downstream has none, whatever the
  binding asserts.\<close>

theorem effective_auth_observed:
  assumes "read_all e w = Inr reads" and "distinct (map b_name (g_edges e))"
    and "binding e (b_downstream_edge b) = Some d" and "ep_read (b_provider d) w = Inr live"
    and "find (\<lambda>q. to_lower (r_host q) = to_lower (r_host r)) (rev (l_routes live)) = Some dr"
    and "chain_forward b r" and "u_auth (r_upstream r) = []"
  shows "effective_auth (build_chain_context reads) b r = u_auth (r_upstream dr)"
proof -
  have "map_of (build_chain_context reads) (b_downstream_edge b)
        = Some \<lparr>ix_hosts = index_routes (l_routes live), ix_err = None\<rparr>"
    by (rule context_of_readable [OF assms(1-4)])
  moreover have "u_mode (r_upstream r) \<noteq> ModeMeshGrant"
    using assms(6) by (auto simp: chain_forward_def split: if_splits)
  ultimately show ?thesis
    using assms(5-7) by (simp add: effective_auth_def resolve_chain_def map_of_index_routes)
qed

definition chain_world :: mem_world where
  "chain_world = \<lparr>mw_edges = (\<lambda>n. if n = ''home''
       then (empty_live True)\<lparr>l_routes := [mk_route ''G.ex'' \<lparr>u_kind = DirectBackend,
         u_mode = ModeHTTPProxy, u_address = ''o:3000'', u_tls_passthrough = False,
         u_server_name = [], u_upstream_tls = False, u_auth = ''authelia''\<rparr>]\<rparr>
       else (empty_live True)\<lparr>l_routes := [mk_route ''g.ex'' \<lparr>u_kind = DirectBackend,
         u_mode = ModeHTTPProxy, u_address = ''h:443'', u_tls_passthrough = False,
         u_server_name = [], u_upstream_tls = True, u_auth = []\<rparr>]\<rparr>), mw_dns = (\<lambda>_. [])\<rparr>"

lemma effective_auth_observed_witness:
  "\<exists>reads. read_all two_hop_engine chain_world = Inr reads
     \<and> effective_auth (build_chain_context reads) (g_edges two_hop_engine ! 1)
         (l_routes (mw_edges chain_world ''mid'') ! 0) = ''authelia''"
proof -
  let ?e = two_hop_engine and ?live = "mw_edges chain_world ''home''"
  note defs = two_hop_engine_def new_multi_def
  obtain reads where reads: "read_all ?e chain_world = Inr reads"
    by (simp add: defs read_all_def)
  have f: "find (\<lambda>q. to_lower (r_host q) = to_lower ''g.ex'') (rev (l_routes ?live))
        = Some (l_routes ?live ! 0)"
    by code_simp
  have "effective_auth (build_chain_context reads) (g_edges ?e ! 1)
         (l_routes (mw_edges chain_world ''mid'') ! 0) = u_auth (r_upstream (l_routes ?live ! 0))"
    by (rule effective_auth_observed [OF reads, where d = "g_edges ?e ! 0" and live = ?live])
      (use f in \<open>simp_all add: defs binding_def chain_world_def chain_forward_def is_chain_front_def\<close>)
  with reads show ?thesis by (simp add: chain_world_def)
qed

text \<open>The wildcard rule: a star label over a zone covers exactly the names strictly below the zone, never
  the apex, ignoring case; any other shape covers nothing.\<close>

theorem wildcard_covers_exactly_below_zone:
  "wildcard_pattern_covers pattern host \<longleftrightarrow>
     (\<exists>zone sub. to_lower pattern = ''*.'' @ zone \<and> sub \<noteq> [] \<and> to_lower host = sub @ ''.'' @ zone)"
  by (rule wildcard_pattern_covers_iff)

end
