(* ===== verification/Planning.thy ===== *)
theory Planning
  imports Chain
begin

text \<open>
  The read-only half of the engine: \<open>Plan\<close> and \<open>computeNewPublic\<close> of
  \<open>internal/core/engine.go\<close>, the synthesised chain forwards of \<open>chain_write.go\<close>
  (\<open>forwardDial\<close>, \<open>forwardRoute\<close>, \<open>downstreamUsesTLS\<close>, \<open>planForward\<close>) and the
  residency gate of \<open>residency.go\<close>. The loops that collect one plan per participant and
  return at the first error are \<open>rmap\<close> over the participants.
\<close>

section \<open>Errors of the core\<close>

datatype core_err =
    ErrReadOnly
  | ErrAuthUnsupportedForMode
  | ErrInternalScopePublic string
  | ErrReadEdge string perr
  | ErrEdgePlan string perr
  | ErrForwardPlan string
  | ErrNoEdgeFronts "string list" string
  | ErrResidency string string
  | ErrDNSDesired string perr
  | ErrDNSDiff string perr
  | ErrDNSLive string perr
  | ErrGateRead string perr
  | ErrGateGenerator string string
  | ErrGateForeign string string
  | ErrGateUnknown string string
  | ErrConfirm perr
  | ErrSnapshot string perr
  | ErrApplyStep string perr
  | ErrVerifyFailed "string list"
  | ErrApplyBlocked "string list"
  | ErrUnverifiedWrite "string list"
  | ErrRenameEmpty
  | ErrRenameSame
  | ErrRenameExists string string
  | ErrRenameAuthDetected string string
  | ErrRenameNotExposed string
  | ErrUnknownEdge string
  | ErrUnknownService string
  | ErrNoOrigin string
  | ErrNotSupported string
  | ErrDuplicate string
  | ErrProvider string perr

section \<open>Chain forwards\<close>

definition forward_dial :: "'w edge_binding \<Rightarrow> core_err + string" where
  "forward_dial b =
     (if b_downstream_address b = [] then Inl (ErrForwardPlan (b_name b))
      else Inr (b_downstream_address b))"

definition dial_is_tls_port :: "string \<Rightarrow> bool" where
  "dial_is_tls_port dial =
     (case last_index_char dial (CHR '':'') of
        None \<Rightarrow> False
      | Some i \<Rightarrow> drop (i + 1) dial = ''443'')"

definition downstream_uses_tls :: "'w edge_binding \<Rightarrow> string \<Rightarrow> bool" where
  "downstream_uses_tls b dial =
     (let s = to_lower (trim_space (b_downstream_scheme b))
      in if s = ''https'' then True
         else if s = ''http'' then False
         else dial_is_tls_port dial)"

definition forward_route :: "'w edge_binding \<Rightarrow> string \<Rightarrow> core_err + route" where
  "forward_route b host =
     rbind (forward_dial b) (\<lambda>dial.
       Inr (mk_route host \<lparr>u_kind = DirectBackend, u_mode = ModeHTTPProxy, u_address = dial,
         u_tls_passthrough = False, u_server_name = host,
         u_upstream_tls = downstream_uses_tls b dial, u_auth = []\<rparr>))"

definition plan_forward :: "'w edge_binding \<Rightarrow> op \<Rightarrow> live_edge_state \<Rightarrow> core_err + edge_change" where
  "plan_forward b op live =
     (case o_verb op of
        Expose \<Rightarrow>
          if has_host live (o_host op) then Inr no_edge_change
          else rbind (forward_route b (o_host op)) (\<lambda>r. Inr (no_edge_change\<lparr>e_add := [r]\<rparr>))
      | Unexpose \<Rightarrow>
          if has_host live (o_host op) then Inr (no_edge_change\<lparr>e_remove := [o_host op]\<rparr>)
          else Inr no_edge_change
      | Rename \<Rightarrow> Inr no_edge_change)"

section \<open>Residency\<close>

definition residency_supported :: "'w dns_provider \<Rightarrow> string \<Rightarrow> bool" where
  "residency_supported dp class =
     (if class = [] \<or> dp_scope dp \<noteq> ScopeInternal then True
      else dp_residency dp \<noteq> None)"

section \<open>New public hosts\<close>

definition has_public_dns :: "'w engine \<Rightarrow> bool" where
  "has_public_dns e = list_ex (\<lambda>dp. dp_scope dp = ScopePublic) (g_dns e)"

definition public_names :: "dns_change list \<Rightarrow> string list" where
  "public_names ds = concat (map (\<lambda>d. if c_scope d = ScopePublic then map d_name (c_add d) else []) ds)"

definition route_names :: "edge_plan list \<Rightarrow> string list" where
  "route_names eps =
     concat (map (\<lambda>ep. map r_host (filter (\<lambda>r. u_mode (r_upstream r) \<noteq> ModeMeshGrant)
       (e_add (p_change ep)))) eps)"

definition compute_new_public :: "'w engine \<Rightarrow> op \<Rightarrow> change_set \<Rightarrow> string list" where
  "compute_new_public e op cs =
     (if o_verb op \<noteq> Expose then []
      else uniq_by id [] (filter (\<lambda>h. h \<noteq> [])
        (if has_public_dns e then public_names (cs_dns cs) else route_names (cs_edges cs))))"

section \<open>Plan\<close>

definition participants :: "'w engine \<Rightarrow> op \<Rightarrow> 'w edge_binding list" where
  "participants e op =
     filter (\<lambda>b. edge_selected (o_edges op) (b_name b) \<and> role_for e b (o_service op) \<noteq> RoleNone)
       (g_edges e)"

definition plan_edge :: "'w engine \<Rightarrow> op \<Rightarrow> 'w \<Rightarrow> 'w edge_binding \<Rightarrow> core_err + edge_plan" where
  "plan_edge e op w b =
     (case ep_read (b_provider b) w of
        Inl err \<Rightarrow> Inl (ErrReadEdge (b_name b) err)
      | Inr live \<Rightarrow>
          rbind (case role_for e b (o_service op) of
                   RoleTerminal \<Rightarrow>
                     (case ep_plan (b_provider b) op live of
                        Inl err \<Rightarrow> Inl (ErrEdgePlan (b_name b) err)
                      | Inr sub \<Rightarrow> Inr (cs_edge sub))
                 | RoleForward \<Rightarrow> plan_forward b op live
                 | RoleNone \<Rightarrow> Inr \<lparr>e_add = [], e_remove = [], e_deny_will_be_present = False\<rparr>)
            (\<lambda>ec. Inr \<lparr>p_edge = b_name b, p_driver = ep_name (b_provider b), p_change = ec\<rparr>))"

definition dns_skipped :: "'w engine \<Rightarrow> op \<Rightarrow> 'w dns_provider \<Rightarrow> bool" where
  "dns_skipped e op dp =
     (\<not> scope_selected (o_scopes op) (dp_scope dp) \<or> \<not> dns_covers_host dp (o_host op)
      \<or> (dp_scope dp = ScopePublic \<and> internal_scoped e (o_service op)))"

definition plan_dns :: "'w engine \<Rightarrow> op \<Rightarrow> 'w \<Rightarrow> 'w dns_provider \<Rightarrow> core_err + dns_change" where
  "plan_dns e op w dp =
     (if dns_skipped e op dp then Inr (no_dns_change (dp_scope dp))
      else if \<not> residency_supported dp (o_residency op)
           then Inl (ErrResidency (dp_name dp) (o_residency op))
      else (case dp_desired dp op of
              Inl err \<Rightarrow> Inl (ErrDNSDesired (dp_name dp) err)
            | Inr desired \<Rightarrow>
                (case dp_diff dp op desired w of
                   Inl err \<Rightarrow> Inl (ErrDNSDiff (dp_name dp) err)
                 | Inr change \<Rightarrow> Inr change)))"

definition plan :: "'w engine \<Rightarrow> op \<Rightarrow> 'w \<Rightarrow> core_err + change_set" where
  "plan e op w =
     (if \<not> validate_auth (o_mode op) (o_auth op) then Inl ErrAuthUnsupportedForMode
      else if internal_scoped e (o_service op) \<and> ScopePublic \<in> set (o_scopes op)
           then Inl (ErrInternalScopePublic (o_service op))
      else rbind (rmap (plan_edge e op w) (participants e op)) (\<lambda>eps.
        if o_verb op = Expose \<and> participants e op = []
        then Inl (ErrNoEdgeFronts (o_edges op) (o_service op))
        else rbind (rmap (plan_dns e op w) (g_dns e)) (\<lambda>ds.
          let cs = (mk_change_set op)\<lparr>cs_edges := eps, cs_dns := ds\<rparr>
          in Inr (cs\<lparr>cs_new_public := compute_new_public e op cs\<rparr>))))"

section \<open>Lemmas\<close>

lemma compute_new_public_update [simp]:
  "compute_new_public e op (cs\<lparr>cs_new_public := x\<rparr>) = compute_new_public e op cs"
  by (simp add: compute_new_public_def)

lemma plan_Inr:
  assumes "plan e op w = Inr cs"
  shows "validate_auth (o_mode op) (o_auth op)
     \<and> \<not> (internal_scoped e (o_service op) \<and> ScopePublic \<in> set (o_scopes op))
     \<and> rmap (plan_edge e op w) (participants e op) = Inr (cs_edges cs)
     \<and> rmap (plan_dns e op w) (g_dns e) = Inr (cs_dns cs)
     \<and> cs_op cs = op \<and> edge_change_empty (cs_edge cs)
     \<and> cs_new_public cs = compute_new_public e op cs"
proof -
  have v: "validate_auth (o_mode op) (o_auth op)"
    "\<not> (internal_scoped e (o_service op) \<and> ScopePublic \<in> set (o_scopes op))"
    using assms by (auto simp: plan_def split: if_splits)
  with assms obtain eps where eps: "rmap (plan_edge e op w) (participants e op) = Inr eps"
    by (cases "rmap (plan_edge e op w) (participants e op)") (auto simp: plan_def)
  with v assms obtain ds where ds: "rmap (plan_dns e op w) (g_dns e) = Inr ds"
    by (cases "rmap (plan_dns e op w) (g_dns e)") (auto simp: plan_def split: if_splits)
  let ?cs = "(mk_change_set op)\<lparr>cs_edges := eps, cs_dns := ds\<rparr>"
  have "cs = ?cs\<lparr>cs_new_public := compute_new_public e op ?cs\<rparr>"
    using assms v eps ds by (auto simp: plan_def Let_def split: if_splits)
  with v eps ds show ?thesis by simp
qed

lemma mem_public_names:
  "h \<in> set (public_names ds) \<longleftrightarrow>
     (\<exists>d \<in> set ds. c_scope d = ScopePublic \<and> (\<exists>rc \<in> set (c_add d). d_name rc = h))"
  by (auto simp: public_names_def split: if_splits)

lemma mem_route_names:
  "h \<in> set (route_names eps) \<longleftrightarrow>
     (\<exists>ep \<in> set eps. \<exists>r \<in> set (e_add (p_change ep)). u_mode (r_upstream r) \<noteq> ModeMeshGrant
        \<and> r_host r = h)"
  by (auto simp: route_names_def)

lemma mem_compute_new_public:
  "h \<in> set (compute_new_public e op cs) \<longleftrightarrow> o_verb op = Expose \<and> h \<noteq> []
     \<and> (if has_public_dns e then h \<in> set (public_names (cs_dns cs))
        else h \<in> set (route_names (cs_edges cs)))"
  by (auto simp: compute_new_public_def set_uniq_id)

lemmas plan_parts = plan_Inr [THEN conjunct1] plan_Inr [THEN conjunct2, THEN conjunct2, THEN conjunct1]
  plan_Inr [THEN conjunct2, THEN conjunct2, THEN conjunct2, THEN conjunct1]
  plan_Inr [THEN conjunct2, THEN conjunct2, THEN conjunct2, THEN conjunct2, THEN conjunct1]

lemma plan_edge_name: "plan_edge e op w b = Inr ep \<Longrightarrow> p_edge ep = b_name b \<and> p_driver ep = ep_name (b_provider b)"
  by (auto simp: plan_edge_def rbind_Inr split: sum.splits)

lemma plan_edges_of:
  "plan e op w = Inr cs \<Longrightarrow> ep \<in> set (cs_edges cs) \<Longrightarrow>
     \<exists>b \<in> set (participants e op). plan_edge e op w b = Inr ep"
  by (drule plan_parts(2)) (rule rmap_Inr_set)

lemma plan_edge_names: "plan e op w = Inr cs \<Longrightarrow> map p_edge (cs_edges cs) = map b_name (participants e op)"
  by (drule plan_parts(2)) (auto elim!: rmap_Inr_map dest: plan_edge_name)

lemma plan_dns_nth:
  "plan e op w = Inr cs \<Longrightarrow> i < length (g_dns e) \<Longrightarrow> plan_dns e op w (g_dns e ! i) = Inr (cs_dns cs ! i)"
  by (drule plan_parts(3)) (simp add: rmap_Inr_iff list_all2_conv_all_nth)

lemma plan_dns_length: "plan e op w = Inr cs \<Longrightarrow> length (cs_dns cs) = length (g_dns e)"
  by (drule plan_parts(3)) (simp add: rmap_Inr_length)

lemma participant_role:
  "b \<in> set (participants e op) \<Longrightarrow> b \<in> set (g_edges e) \<and> edge_selected (o_edges op) (b_name b)
     \<and> (role_for e b (o_service op) = RoleTerminal \<or> role_for e b (o_service op) = RoleForward)"
  by (cases "role_for e b (o_service op)") (auto simp: participants_def)

lemma plan_forward_add:
  "plan_forward b op live = Inr ec \<Longrightarrow> r \<in> set (e_add ec) \<Longrightarrow>
     e_add ec = [r] \<and> o_verb op = Expose \<and> \<not> has_host live (o_host op)
     \<and> b_downstream_address b \<noteq> []
     \<and> r_host r = o_host op \<and> u_auth (r_upstream r) = []
     \<and> u_address (r_upstream r) = b_downstream_address b
     \<and> u_mode (r_upstream r) = ModeHTTPProxy
     \<and> u_upstream_tls (r_upstream r) = downstream_uses_tls b (b_downstream_address b)"
  by (auto simp: plan_forward_def forward_route_def forward_dial_def rbind_Inr
      split: verb.splits if_splits)

section \<open>Properties of planning\<close>

text \<open>C33. A service declared internal-only gets no public reach out of a plan: no chain front
  forwards it (every planned edge serves it itself) and no public-scope provider is asked for
  anything, in its slot of the plan or as a newly public name.\<close>

theorem plan_internal_scope:
  assumes "plan e op w = Inr cs" and "internal_scoped e (o_service op)"
  shows "(\<forall>ep \<in> set (cs_edges cs). \<exists>b \<in> set (g_edges e). b_name b = p_edge ep \<and> fronts b (o_service op))
    \<and> (\<forall>i < length (g_dns e). dp_scope (g_dns e ! i) = ScopePublic
         \<longrightarrow> cs_dns cs ! i = no_dns_change ScopePublic)"
proof (intro conjI ballI allI impI)
  fix ep assume "ep \<in> set (cs_edges cs)"
  then obtain b where b: "b \<in> set (participants e op)" "plan_edge e op w b = Inr ep"
    using plan_edges_of [OF assms(1)] by blast
  have "role_for e b (o_service op) = RoleTerminal"
    using participant_role [OF b(1)] role_for_internal [OF assms(2), of b] by auto
  with b participant_role [OF b(1)] plan_edge_name [OF b(2)]
  show "\<exists>b \<in> set (g_edges e). b_name b = p_edge ep \<and> fronts b (o_service op)" by auto
next
  fix i assume i: "i < length (g_dns e)" "dp_scope (g_dns e ! i) = ScopePublic"
  with plan_dns_nth [OF assms(1) i(1)] assms(2) show "cs_dns cs ! i = no_dns_change ScopePublic"
    by (auto simp: plan_dns_def dns_skipped_def)
qed

definition planning_op :: op where
  "planning_op = (mk_op Expose ''g'' ''g.ex'')\<lparr>o_to := ''o:3000''\<rparr>"

definition empty_world :: mem_world where
  "empty_world = \<lparr>mw_edges = (\<lambda>_. empty_live True), mw_dns = (\<lambda>_. [])\<rparr>"

definition scoped_engine :: "mem_world engine" where
  "scoped_engine = two_hop_engine\<lparr>g_internal_scope := [(''g'', True)],
     g_dns := g_dns two_hop_engine @ [mem_dns ''cf'' ScopePublic ''ex'' ''p'']\<rparr>"

lemmas planning_defs = two_hop_engine_def new_multi_def scoped_engine_def planning_op_def
  empty_world_def empty_live_def

lemma covers_example: "zone_covers ''ex'' ''g.ex''"
  by (simp add: zone_covers_def Let_def trim_suffix_def has_suffix_def to_lower_def
      lower_char_def)

lemma example_zone: "dns_zone (mem_dns n sc ''ex'' v) = ''ex''"
  by (simp add: dns_zone_def trim_suffix_def has_suffix_def to_lower_def lower_char_def)

lemma scoped_plan_exists: "\<exists>cs. plan scoped_engine planning_op empty_world = Inr cs"
  by (simp add: planning_defs plan_def validate_auth_def internal_scoped_def participants_def
      edge_selected_def role_for_def fronts_def plan_edge_def mem_plan_def plan_dns_def
      dns_skipped_def scope_selected_def dns_covers_host_def example_zone covers_example
      residency_supported_def Let_def)

lemma plan_internal_scope_witness:
  "\<exists>cs. plan scoped_engine planning_op empty_world = Inr cs
     \<and> cs_dns cs ! 1 = no_dns_change ScopePublic"
proof -
  obtain cs where cs: "plan scoped_engine planning_op empty_world = Inr cs"
    using scoped_plan_exists by blast
  have "cs_dns cs ! 1 = no_dns_change ScopePublic"
    using plan_internal_scope [OF cs] by (simp add: planning_defs internal_scoped_def)
  with cs show ?thesis by blast
qed

text \<open>A plan has one DNS change per provider, in provider order, and the slot of a provider
  that is not appointed or whose zone does not cover the host is empty: no provider is ever
  asked for a record outside its zone.\<close>

theorem plan_dns_slots:
  assumes "plan e op w = Inr cs"
  shows "length (cs_dns cs) = length (g_dns e)
    \<and> (\<forall>i < length (g_dns e).
         (\<not> scope_selected (o_scopes op) (dp_scope (g_dns e ! i))
          \<or> \<not> dns_covers_host (g_dns e ! i) (o_host op)
          \<longrightarrow> cs_dns cs ! i = no_dns_change (dp_scope (g_dns e ! i)))
         \<and> (cs_dns cs ! i = no_dns_change (dp_scope (g_dns e ! i))
            \<or> (\<exists>recs. dp_desired (g_dns e ! i) op = Inr recs
                 \<and> dp_diff (g_dns e ! i) op recs w = Inr (cs_dns cs ! i))))"
proof (intro conjI allI)
  show "length (cs_dns cs) = length (g_dns e)" by (rule plan_dns_length [OF assms])
next
  fix i
  show "i < length (g_dns e) \<longrightarrow>
         (\<not> scope_selected (o_scopes op) (dp_scope (g_dns e ! i))
          \<or> \<not> dns_covers_host (g_dns e ! i) (o_host op)
          \<longrightarrow> cs_dns cs ! i = no_dns_change (dp_scope (g_dns e ! i)))
         \<and> (cs_dns cs ! i = no_dns_change (dp_scope (g_dns e ! i))
            \<or> (\<exists>recs. dp_desired (g_dns e ! i) op = Inr recs
                 \<and> dp_diff (g_dns e ! i) op recs w = Inr (cs_dns cs ! i)))"
    using plan_dns_nth [OF assms, of i]
    by (auto simp: plan_dns_def dns_skipped_def split: if_splits sum.splits)
qed

lemma plan_dns_slots_witness:
  "\<exists>cs. plan scoped_engine planning_op empty_world = Inr cs \<and> length (cs_dns cs) = 2"
proof -
  obtain cs where cs: "plan scoped_engine planning_op empty_world = Inr cs"
    using scoped_plan_exists by blast
  with plan_dns_slots [OF cs] show ?thesis by (simp add: planning_defs)
qed

text \<open>A chain front gets exactly the forward that reaches its downstream edge: its planned
  change adds at most one route, for the operation's host, dialling the configured downstream
  address over TLS exactly when the downstream uses it, with no authentication policy of its
  own; an edge that already holds the host is left alone.\<close>

theorem plan_forward_change:
  assumes "plan e op w = Inr cs" and "ep \<in> set (cs_edges cs)" and "b \<in> set (g_edges e)"
    and "b_name b = p_edge ep" and "distinct (map b_name (g_edges e))"
    and "role_for e b (o_service op) = RoleForward" and "r \<in> set (e_add (p_change ep))"
  shows "o_verb op = Expose \<and> e_add (p_change ep) = [r] \<and> r_host r = o_host op
    \<and> u_address (r_upstream r) = b_downstream_address b \<and> b_downstream_address b \<noteq> []
    \<and> u_auth (r_upstream r) = []
    \<and> u_upstream_tls (r_upstream r) = downstream_uses_tls b (b_downstream_address b)
    \<and> (\<exists>live. ep_read (b_provider b) w = Inr live \<and> \<not> has_host live (o_host op))"
proof -
  obtain b' where b': "b' \<in> set (participants e op)" "plan_edge e op w b' = Inr ep"
    using plan_edges_of [OF assms(1,2)] by blast
  then have "b_name b' = b_name b" using assms(4) plan_edge_name by fastforce
  with participant_role [OF b'(1)] assms(3,5) have "b' = b"
    by (auto simp: distinct_map inj_on_def)
  with b'(2) assms(6) obtain live where
    live: "ep_read (b_provider b) w = Inr live" "plan_forward b op live = Inr (p_change ep)"
    by (auto simp: plan_edge_def rbind_Inr split: sum.splits)
  with plan_forward_add [OF live(2) assms(7)] live(1) show ?thesis by simp
qed

lemma two_hop_plan_exists:
  "\<exists>cs. plan two_hop_engine planning_op empty_world = Inr cs \<and> length (cs_edges cs) = 3
     \<and> p_edge (cs_edges cs ! 2) = ''vps'' \<and> length (e_add (p_change (cs_edges cs ! 2))) = 1"
  by (simp add: planning_defs plan_def validate_auth_def internal_scoped_def participants_def
      edge_selected_def role_for_def fronts_def plan_edge_def mem_plan_def plan_dns_def
      dns_skipped_def scope_selected_def dns_covers_host_def example_zone covers_example
      residency_supported_def Let_def is_chain_front_def downstream_participates.simps
      binding_def plan_forward_def has_host_def forward_route_def forward_dial_def)

lemma plan_forward_change_witness:
  "\<exists>cs. plan two_hop_engine planning_op empty_world = Inr cs
     \<and> u_address (r_upstream (e_add (p_change (cs_edges cs ! 2)) ! 0)) = ''m:80''"
proof -
  let ?b = "g_edges two_hop_engine ! 2"
  obtain cs where cs: "plan two_hop_engine planning_op empty_world = Inr cs"
    "length (cs_edges cs) = 3" "p_edge (cs_edges cs ! 2) = ''vps''"
    "length (e_add (p_change (cs_edges cs ! 2))) = 1"
    using two_hop_plan_exists by blast
  have "u_address (r_upstream (e_add (p_change (cs_edges cs ! 2)) ! 0)) = b_downstream_address ?b"
    by (rule plan_forward_change [OF cs(1), where ep = "cs_edges cs ! 2" and b = ?b,
        THEN conjunct2, THEN conjunct2, THEN conjunct2, THEN conjunct1])
      (use cs in \<open>simp_all add: planning_defs role_for_def fronts_def internal_scoped_def
        is_chain_front_def downstream_participates.simps binding_def\<close>)
  with cs(1) show ?thesis by (auto simp: planning_defs)
qed

text \<open>The confirmation sees what becomes public: with a public provider configured, an
  expose reports exactly the non-empty names that gain a public record, each once; without one,
  exactly the hosts that gain a data-plane route on some edge, mesh grants excluded; anything
  but an expose reports nothing.\<close>

theorem plan_new_public:
  assumes "plan e op w = Inr cs"
  shows "distinct (cs_new_public cs) \<and>
    (\<forall>h. h \<in> set (cs_new_public cs) \<longleftrightarrow> o_verb op = Expose \<and> h \<noteq> []
      \<and> (if \<exists>dp \<in> set (g_dns e). dp_scope dp = ScopePublic
          then \<exists>d \<in> set (cs_dns cs). c_scope d = ScopePublic \<and> (\<exists>rc \<in> set (c_add d). d_name rc = h)
          else \<exists>ep \<in> set (cs_edges cs). \<exists>r \<in> set (e_add (p_change ep)).
                 u_mode (r_upstream r) \<noteq> ModeMeshGrant \<and> r_host r = h))"
proof -
  have n: "cs_new_public cs = compute_new_public e op cs"
    using plan_Inr [OF assms] by blast
  have "distinct (cs_new_public cs)"
    unfolding n compute_new_public_def
    using uniq_by_distinct [of id "[]", simplified] by auto
  moreover have "has_public_dns e \<longleftrightarrow> (\<exists>dp \<in> set (g_dns e). dp_scope dp = ScopePublic)"
    by (simp add: has_public_dns_def list_ex_iff)
  ultimately show ?thesis
    unfolding n mem_compute_new_public mem_public_names mem_route_names by simp
qed

lemma plan_new_public_witness:
  "\<exists>cs. plan two_hop_engine planning_op empty_world = Inr cs \<and> distinct (cs_new_public cs)"
proof -
  obtain cs where cs: "plan two_hop_engine planning_op empty_world = Inr cs"
    using two_hop_plan_exists by blast
  with plan_new_public [OF cs] show ?thesis by blast
qed

end
