(* ===== verification/Gate.thy ===== *)
theory Gate
  imports Planning
begin

text \<open>
  The gates before a write: the ownership gate of \<open>internal/core/gate.go\<close>
  (\<open>gateOwnership\<close>, \<open>gateChainOwnership\<close>, \<open>touchedHosts\<close>, \<open>ownershipOf\<close>,
  \<open>ownershipByHost\<close>) and the read-only gate of \<open>readonly.go\<close>. A gate is \<open>None\<close> when it
  passes and the refusal otherwise; it only reads.
\<close>

section \<open>The read-only gate\<close>

definition gate_read_only :: "'w engine \<Rightarrow> core_err option" where
  "gate_read_only e = (if \<not> g_read_only e then None else Some ErrReadOnly)"

section \<open>Owners\<close>

definition touched_hosts :: "edge_change \<Rightarrow> string list" where
  "touched_hosts ec = sort (remdups (map r_host (e_add ec) @ e_remove ec))"

definition ownership_of :: "live_edge_state \<Rightarrow> string \<Rightarrow> ownership" where
  "ownership_of live host =
     (case route_of live host of Some r \<Rightarrow> r_ownership r | None \<Rightarrow> OwnUnset)"

text \<open>The map by host keeps the last route of a name.\<close>

definition ownership_by_host :: "live_edge_state \<Rightarrow> string \<Rightarrow> ownership option" where
  "ownership_by_host live h = map_option r_ownership (map_of (index_routes (l_routes live)) h)"

lemma set_touched_hosts: "set (touched_hosts ec) = r_host ` set (e_add ec) \<union> set (e_remove ec)"
  by (simp add: touched_hosts_def)

section \<open>The ownership gate\<close>

definition gate_host :: "'w engine \<Rightarrow> string \<Rightarrow> live_edge_state \<Rightarrow> string \<Rightarrow> core_err option" where
  "gate_host e edge live host =
     (case ownership_by_host live (to_lower host) of
        None \<Rightarrow> None
      | Some OwnForeign \<Rightarrow> Some (ErrGateForeign host edge)
      | Some OwnUnknown \<Rightarrow> if \<not> g_force e then Some (ErrGateUnknown host edge) else None
      | Some _ \<Rightarrow> None)"

text \<open>The first refusal of a list of checks.\<close>

fun first_error :: "('a \<Rightarrow> 'e option) \<Rightarrow> 'a list \<Rightarrow> 'e option" where
  "first_error f [] = None"
| "first_error f (x # xs) = (case f x of Some e \<Rightarrow> Some e | None \<Rightarrow> first_error f xs)"

lemma first_error_None: "first_error f xs = None \<longleftrightarrow> (\<forall>x \<in> set xs. f x = None)"
  by (induction xs) (auto split: option.splits)

lemma first_error_Some: "first_error f xs = Some e \<Longrightarrow> \<exists>x \<in> set xs. f x = Some e"
  by (induction xs) (auto split: option.splits)

definition gate_edge :: "'w engine \<Rightarrow> 'w \<Rightarrow> edge_plan \<Rightarrow> core_err option" where
  "gate_edge e w ep =
     (if edge_change_empty (p_change ep) then None
      else (case binding e (p_edge ep) of
              None \<Rightarrow> None
            | Some b \<Rightarrow>
                (case ep_read (b_provider b) w of
                   Inl err \<Rightarrow> Some (ErrGateRead (p_edge ep) err)
                 | Inr live \<Rightarrow>
                     if l_generator live \<noteq> [] then Some (ErrGateGenerator (p_edge ep) (l_generator live))
                     else first_error (gate_host e (p_edge ep) live) (touched_hosts (p_change ep)))))"

definition chain_parts :: "'w engine \<Rightarrow> string \<Rightarrow> 'w edge_binding list" where
  "chain_parts e service = filter (\<lambda>b. role_for e b service \<noteq> RoleNone) (g_edges e)"

definition gate_chain_part :: "'w engine \<Rightarrow> op \<Rightarrow> 'w \<Rightarrow> 'w edge_binding \<Rightarrow> core_err option" where
  "gate_chain_part e op w b =
     (case ep_read (b_provider b) w of
        Inl err \<Rightarrow> Some (ErrGateRead (b_name b) err)
      | Inr live \<Rightarrow>
          if l_generator live \<noteq> [] then Some (ErrGateGenerator (b_name b) (l_generator live))
          else (case ownership_of live (o_host op) of
                  OwnForeign \<Rightarrow> Some (ErrGateForeign (o_host op) (b_name b))
                | OwnUnknown \<Rightarrow>
                    if \<not> g_force e then Some (ErrGateUnknown (o_host op) (b_name b)) else None
                | _ \<Rightarrow> None))"

definition gate_chain_ownership :: "'w engine \<Rightarrow> op \<Rightarrow> 'w \<Rightarrow> core_err option" where
  "gate_chain_ownership e op w =
     (if o_host op = [] then None
      else if \<not> list_ex (\<lambda>b. role_for e b (o_service op) = RoleForward) (g_edges e) then None
      else first_error (gate_chain_part e op w) (chain_parts e (o_service op)))"

definition gate_ownership :: "'w engine \<Rightarrow> change_set \<Rightarrow> 'w \<Rightarrow> core_err option" where
  "gate_ownership e cs w =
     (case gate_chain_ownership e (cs_op cs) w of
        Some err \<Rightarrow> Some err
      | None \<Rightarrow> first_error (gate_edge e w) (cs_edges cs))"

section \<open>Lemmas\<close>

lemma gate_host_None:
  "gate_host e edge live host = None \<longleftrightarrow>
     (\<forall>own. ownership_by_host live (to_lower host) = Some own
        \<longrightarrow> own \<noteq> OwnForeign \<and> (own = OwnUnknown \<longrightarrow> g_force e))"
  by (auto simp: gate_host_def split: option.splits ownership.splits)

lemma gate_edge_None:
  assumes "gate_edge e w ep = None" and "\<not> edge_change_empty (p_change ep)"
    and "binding e (p_edge ep) = Some b"
  shows "\<exists>live. ep_read (b_provider b) w = Inr live \<and> l_generator live = []
     \<and> (\<forall>h \<in> set (touched_hosts (p_change ep)). gate_host e (p_edge ep) live h = None)"
  using assms by (auto simp: gate_edge_def first_error_None split: sum.splits if_splits)

lemma ownership_by_host_unique:
  assumes "r \<in> set (l_routes live)" and "equal_fold (r_host r) h"
    and "\<And>q. q \<in> set (l_routes live) \<Longrightarrow> equal_fold (r_host q) h \<Longrightarrow> r_ownership q = r_ownership r"
  shows "ownership_by_host live (to_lower h) = Some (r_ownership r)"
proof -
  let ?p = "\<lambda>q. to_lower (r_host q) = to_lower h"
  have "find ?p (rev (l_routes live)) \<noteq> None"
    using assms(1,2) by (auto simp: find_None_iff' equal_fold_def)
  then obtain q where q: "find ?p (rev (l_routes live)) = Some q" by blast
  then have "q \<in> set (l_routes live)" "equal_fold (r_host q) h"
    using find_Some_set [OF q] by (auto simp: equal_fold_def)
  with assms(3) q show ?thesis by (simp add: ownership_by_host_def map_of_index_routes)
qed

section \<open>Properties of the gate\<close>

text \<open>C35. What the gate lets through: it passes a change set only when every edge it changes is
  readable and not owned by a generator, and no host it adds or removes there is a route all of
  whose entries belong to another tool; a route of unknown ownership passes only under force.\<close>

theorem gate_ownership_passes:
  assumes "gate_ownership e cs w = None" and "ep \<in> set (cs_edges cs)"
    and "\<not> edge_change_empty (p_change ep)" and "binding e (p_edge ep) = Some b"
  shows "\<exists>live. ep_read (b_provider b) w = Inr live \<and> l_generator live = []
    \<and> (\<forall>h \<in> r_host ` set (e_add (p_change ep)) \<union> set (e_remove (p_change ep)). \<forall>own.
         (\<exists>r \<in> set (l_routes live). equal_fold (r_host r) h) \<and>
         (\<forall>r \<in> set (l_routes live). equal_fold (r_host r) h \<longrightarrow> r_ownership r = own)
         \<longrightarrow> own \<noteq> OwnForeign \<and> (own = OwnUnknown \<longrightarrow> g_force e))"
proof -
  have "gate_edge e w ep = None"
    using assms(1,2) by (auto simp: gate_ownership_def first_error_None split: option.splits)
  from gate_edge_None [OF this assms(3,4)] obtain live where
    live: "ep_read (b_provider b) w = Inr live" "l_generator live = []"
      "\<forall>h \<in> set (touched_hosts (p_change ep)). gate_host e (p_edge ep) live h = None" by blast
  have "own \<noteq> OwnForeign \<and> (own = OwnUnknown \<longrightarrow> g_force e)"
    if h: "h \<in> r_host ` set (e_add (p_change ep)) \<union> set (e_remove (p_change ep))"
      and r: "r \<in> set (l_routes live)" "equal_fold (r_host r) h"
      and all: "\<forall>r \<in> set (l_routes live). equal_fold (r_host r) h \<longrightarrow> r_ownership r = own" for h r own
  proof -
    have "ownership_by_host live (to_lower h) = Some own"
      using ownership_by_host_unique [OF r] all r by auto
    moreover have "gate_host e (p_edge ep) live h = None"
      using live(3) h by (simp add: set_touched_hosts)
    ultimately show ?thesis by (simp add: gate_host_None)
  qed
  with live(1,2) show ?thesis by blast
qed

definition gate_change :: "string \<Rightarrow> change_set" where
  "gate_change h = (mk_change_set (mk_op Unexpose ''g'' h))\<lparr>cs_edges :=
     [\<lparr>p_edge = ''home'', p_driver = ''home'', p_change = no_edge_change\<lparr>e_remove := [h]\<rparr>\<rparr>]\<rparr>"

definition owned_world :: "ownership list \<Rightarrow> mem_world" where
  "owned_world owns = \<lparr>mw_edges = (\<lambda>_. (empty_live True)\<lparr>l_routes :=
     map (\<lambda>own. (mk_route ''g.ex'' \<lparr>u_kind = DirectBackend, u_mode = ModeHTTPProxy,
       u_address = ''o:3000'', u_tls_passthrough = False, u_server_name = [],
       u_upstream_tls = False, u_auth = []\<rparr>)\<lparr>r_ownership := own\<rparr>) owns\<rparr>), mw_dns = (\<lambda>_. [])\<rparr>"

definition one_edge_engine :: "mem_world engine" where
  "one_edge_engine = new_multi [g_edges two_hop_engine ! 0] ''ex'' []"

lemmas gate_defs = gate_change_def owned_world_def one_edge_engine_def planning_defs
  gate_ownership_def gate_chain_ownership_def gate_edge_def gate_host_def ownership_by_host_def
  touched_hosts_def index_routes_def mk_change_set_def edge_change_empty_def no_edge_change_def
  binding_def role_for_def is_chain_front_def

lemma gate_ownership_passes_witness:
  "\<exists>live. ep_read (mem_edge ''home'') (owned_world [OwnCrenel]) = Inr live \<and> l_generator live = []"
proof -
  have "gate_ownership one_edge_engine (gate_change ''g.ex'') (owned_world [OwnCrenel]) = None"
    by (simp add: gate_defs)
  from gate_ownership_passes [OF this, of "cs_edges (gate_change ''g.ex'') ! 0"
      "g_edges one_edge_engine ! 0"]
  show ?thesis by (simp add: gate_defs)
qed

text \<open>The gate reads one route per name, the last: when another tool's route is listed before
  a route of crenel's for the same host, the gate lets the removal of the host through, and the
  edge's single-owner reading in the chain gate would have refused it.\<close>

theorem gate_duplicate_host_evades:
  "gate_ownership one_edge_engine (gate_change ''g.ex'')
     (owned_world [OwnForeign, OwnCrenel]) = None
   \<and> ownership_of (mw_edges (owned_world [OwnForeign, OwnCrenel]) ''home'') ''g.ex'' = OwnForeign
   \<and> gate_ownership one_edge_engine (gate_change ''g.ex'')
     (owned_world [OwnCrenel, OwnForeign]) = Some (ErrGateForeign ''g.ex'' ''home'')"
  by (simp add: gate_defs ownership_of_def route_of_def)

text \<open>A write through a chain is refused whole when any participant cannot be read, is owned
  by a generator, or holds the host for another tool, even where that participant has nothing
  to change.\<close>

theorem gate_chain_all_participants:
  assumes "gate_ownership e cs w = None" and "o_host (cs_op cs) \<noteq> []"
    and "\<exists>f \<in> set (g_edges e). role_for e f (o_service (cs_op cs)) = RoleForward"
    and "b \<in> set (g_edges e)" and "role_for e b (o_service (cs_op cs)) \<noteq> RoleNone"
  shows "\<exists>live. ep_read (b_provider b) w = Inr live \<and> l_generator live = []
     \<and> ownership_of live (o_host (cs_op cs)) \<noteq> OwnForeign
     \<and> (ownership_of live (o_host (cs_op cs)) = OwnUnknown \<longrightarrow> g_force e)"
proof -
  have "gate_chain_part e (cs_op cs) w b = None"
    using assms
    by (auto simp: gate_ownership_def gate_chain_ownership_def first_error_None chain_parts_def
        list_ex_iff split: option.splits if_splits)
  then show ?thesis
    by (auto simp: gate_chain_part_def split: sum.splits if_splits ownership.splits)
qed

lemma gate_chain_all_participants_witness:
  "\<exists>live. ep_read (mem_edge ''mid'') (owned_world [OwnCrenel]) = Inr live
     \<and> ownership_of live ''g.ex'' \<noteq> OwnForeign"
proof -
  let ?e = two_hop_engine and ?cs = "gate_change ''g.ex''"
  have roles: "role_for ?e (g_edges ?e ! 1) ''g'' = RoleForward"
    by (simp add: planning_defs role_for_def fronts_def internal_scoped_def is_chain_front_def
        downstream_participates.simps binding_def)
  have mem: "g_edges ?e ! 1 \<in> set (g_edges ?e)" by (simp add: planning_defs)
  have pass: "gate_ownership ?e ?cs (owned_world [OwnCrenel]) = None"
    by (simp add: gate_defs fronts_def internal_scoped_def downstream_participates.simps
        chain_parts_def gate_chain_part_def ownership_of_def route_of_def)
  have o: "o_host (cs_op ?cs) = ''g.ex''" "o_service (cs_op ?cs) = ''g''"
    by (simp_all add: gate_change_def mk_change_set_def)
  have "b_provider (g_edges ?e ! 1) = mem_edge ''mid''" by (simp add: planning_defs)
  with gate_chain_all_participants [OF pass, of "g_edges ?e ! 1"] roles mem o show ?thesis by auto
qed

end
