(* ===== verification/Txn.thy ===== *)
theory Txn
  imports Gate "HOL-Library.Multiset"
begin

text \<open>
  The write transaction of \<open>internal/core/apply.go\<close>: the ordered steps (\<open>applyStep\<close>,
  \<open>dnsRank\<close>, \<open>buildSteps\<close>), running them, the compensating rollback with its wedge probe
  (\<open>rollback\<close>, \<open>probeEdge\<close>, \<open>invertEdge\<close>, \<open>invertDNS\<close>) and the durable persist after
  success (\<open>persistEdges\<close>). A step's closures \<open>do\<close> and \<open>undo\<close> are actions on the world;
  the wedge cache, keyed by the provider pointer, is keyed by the edge's name.
\<close>

section \<open>Exposure ranks\<close>

datatype exposure_rank = RankEdge | RankInternalDNS | RankPublicDNS

fun rank_index :: "exposure_rank \<Rightarrow> nat" where
  "rank_index RankEdge = 0"
| "rank_index RankInternalDNS = 1"
| "rank_index RankPublicDNS = 2"

lemma rank_index_inject: "rank_index r = rank_index s \<longleftrightarrow> r = s"
  by (cases r; cases s) auto

instantiation exposure_rank :: linorder
begin

definition less_eq_exposure_rank :: "exposure_rank \<Rightarrow> exposure_rank \<Rightarrow> bool" where
  "less_eq_exposure_rank r s = (rank_index r \<le> rank_index s)"

definition less_exposure_rank :: "exposure_rank \<Rightarrow> exposure_rank \<Rightarrow> bool" where
  "less_exposure_rank r s = (rank_index r < rank_index s)"

instance
  by standard (auto simp: less_eq_exposure_rank_def less_exposure_rank_def
      simp flip: rank_index_inject)

end

definition dns_rank :: "scope \<Rightarrow> exposure_rank" where
  "dns_rank sc = (if sc = ScopePublic then RankPublicDNS else RankInternalDNS)"

section \<open>Steps\<close>

record 'w apply_step =
  s_name :: string
  s_rank :: exposure_rank
  s_depth :: nat
  s_edge :: "(string \<times> 'w edge_provider) option"
  s_do :: "'w act"
  s_undo :: "'w act"

definition invert_edge :: "edge_change \<Rightarrow> live_edge_state \<Rightarrow> edge_change" where
  "invert_edge ec snapshot =
     no_edge_change\<lparr>e_remove := map r_host (e_add ec),
       e_add := concat (map (\<lambda>h. case find (\<lambda>sr. r_host sr = h) (l_routes snapshot) of
         Some sr \<Rightarrow> [sr] | None \<Rightarrow> []) (e_remove ec))\<rparr>"

text \<open>An edge change with the state it was planned on, as the transaction keeps them.\<close>

type_synonym edge_job = "edge_change \<times> live_edge_state"

definition job_inverse :: "edge_job \<Rightarrow> edge_job" where
  "job_inverse c = (invert_edge (fst c) (snd c), snd c)"

definition invert_dns :: "dns_change \<Rightarrow> dns_change" where
  "invert_dns dc = \<lparr>c_scope = c_scope dc, c_add = c_remove dc, c_remove = c_add dc,
     c_managed = c_managed dc, c_rendered = []\<rparr>"

text \<open>The label \<open>edge[<name>\<middot>driver]\<close>; the separator is the two bytes of U+00B7.\<close>

definition edge_step_label :: "string \<Rightarrow> string \<Rightarrow> string" where
  "edge_step_label edge driver = ''edge['' @ edge @ [CHR 0xC2, CHR 0xB7] @ driver @ '']''"

definition dns_label :: "'w dns_provider \<Rightarrow> string" where
  "dns_label dp = dp_name dp @ ''/'' @ scope_string (dp_scope dp)"

definition edge_step :: "'w engine \<Rightarrow> op \<Rightarrow> (string \<Rightarrow> live_edge_state) \<Rightarrow> edge_plan \<Rightarrow> 'w apply_step list" where
  "edge_step e op snaps ep =
     (if edge_change_empty (p_change ep) then []
      else (case binding e (p_edge ep) of
              None \<Rightarrow> []
            | Some b \<Rightarrow>
                [\<lparr>s_name = edge_step_label (p_edge ep) (p_driver ep), s_rank = RankEdge,
                  s_depth = (case chain_depth e (p_edge ep) of Some d \<Rightarrow> d | None \<Rightarrow> 0),
                  s_edge = Some (p_edge ep, b_provider b),
                  s_do = ep_apply (b_provider b) ((mk_change_set op)\<lparr>cs_edge := p_change ep\<rparr>),
                  s_undo = ep_apply (b_provider b)
                    ((mk_change_set op)\<lparr>cs_edge := invert_edge (p_change ep) (snaps (p_edge ep))\<rparr>)\<rparr>]))"

fun dns_steps :: "'w dns_provider list \<Rightarrow> dns_change list \<Rightarrow> 'w apply_step list" where
  "dns_steps (dp # dps) (d # ds) =
     (if dns_change_empty d then []
      else [\<lparr>s_name = dns_label dp, s_rank = dns_rank (dp_scope dp), s_depth = 0, s_edge = None,
             s_do = dp_apply dp d, s_undo = dp_apply dp (invert_dns d)\<rparr>]) @ dns_steps dps ds"
| "dns_steps _ _ = []"

text \<open>The stable sort: rising rank and falling depth on an expose, the opposite otherwise.\<close>

definition step_key :: "bool \<Rightarrow> 'w apply_step \<Rightarrow> int \<times> int" where
  "step_key ascending s =
     (if ascending then (int (rank_index (s_rank s)), - int (s_depth s))
      else (- int (rank_index (s_rank s)), int (s_depth s)))"

definition unsorted_steps :: "'w engine \<Rightarrow> op \<Rightarrow> change_set \<Rightarrow> (string \<Rightarrow> live_edge_state)
    \<Rightarrow> 'w apply_step list" where
  "unsorted_steps e op cs snaps =
     concat (map (edge_step e op snaps) (cs_edges cs)) @ dns_steps (g_dns e) (cs_dns cs)"

definition build_steps :: "'w engine \<Rightarrow> op \<Rightarrow> change_set \<Rightarrow> (string \<Rightarrow> live_edge_state)
    \<Rightarrow> 'w apply_step list" where
  "build_steps e op cs snaps =
     sort_key (step_key (o_verb op = Expose)) (unsorted_steps e op cs snaps)"

section \<open>Running the steps\<close>

record 'w compensator =
  cp_name :: string
  cp_undo :: "'w act"
  cp_edge :: "(string \<times> 'w edge_provider) option"

definition compensate :: "'w apply_step \<Rightarrow> 'w compensator" where
  "compensate s = \<lparr>cp_name = s_name s, cp_undo = s_undo s, cp_edge = s_edge s\<rparr>"

lemma compensate_simps [simp]:
  "cp_name (compensate s) = s_name s" "cp_undo (compensate s) = s_undo s"
  "cp_edge (compensate s) = s_edge s"
  by (simp_all add: compensate_def)

text \<open>The steps in order until the first error; the failing step is not among the applied.\<close>

fun run_steps :: "'w apply_step list \<Rightarrow> 'w compensator list \<Rightarrow> 'w
    \<Rightarrow> ('w apply_step \<times> perr) option \<times> 'w compensator list \<times> 'w" where
  "run_steps [] applied w = (None, applied, w)"
| "run_steps (s # ss) applied w =
     (case s_do s w of
        (Some err, w') \<Rightarrow> (Some (s, err), applied, w')
      | (None, w') \<Rightarrow> run_steps ss (applied @ [compensate s]) w')"

section \<open>Rollback\<close>

datatype rollback_error = RollbackSkipped string | RollbackFailed string perr

datatype persist_warning =
    PersistFailed string string perr
  | PersistEphemeral string string persistence_model

record txn_outcome =
  t_rolled_back :: bool
  t_rollback_errors :: "rollback_error list"
  t_edge_unresponsive :: bool
  t_recovery_hint :: bool
  t_persist_warnings :: "persist_warning list"

definition no_outcome :: txn_outcome where
  "no_outcome = \<lparr>t_rolled_back = False, t_rollback_errors = [], t_edge_unresponsive = False,
     t_recovery_hint = False, t_persist_warnings = []\<rparr>"

definition probe_edge :: "'w edge_provider \<Rightarrow> 'w \<Rightarrow> txn_outcome \<Rightarrow> bool \<times> txn_outcome" where
  "probe_edge prov w rep =
     (case ep_healthy prov of
        None \<Rightarrow> (False, rep)
      | Some healthy \<Rightarrow>
          (case healthy w of
             None \<Rightarrow> (False, rep)
           | Some _ \<Rightarrow> (True, rep\<lparr>t_edge_unresponsive := True, t_recovery_hint := True\<rparr>)))"

definition is_wedged :: "string \<times> 'w edge_provider \<Rightarrow> 'w \<Rightarrow> (string \<times> bool) list \<Rightarrow> txn_outcome
    \<Rightarrow> bool \<times> (string \<times> bool) list \<times> txn_outcome" where
  "is_wedged ed w cache rep =
     (case map_of cache (fst ed) of
        Some v \<Rightarrow> (v, cache, rep)
      | None \<Rightarrow> let (v, rep') = probe_edge (snd ed) w rep in (v, (fst ed, v) # cache, rep'))"

text \<open>The loop of \<open>rollback\<close>, over the compensators already in reverse order.\<close>

fun undo_all :: "'w compensator list \<Rightarrow> (string \<times> bool) list \<Rightarrow> txn_outcome \<Rightarrow> 'w
    \<Rightarrow> txn_outcome \<times> 'w" where
  "undo_all [] cache rep w = (rep, w)"
| "undo_all (c # cs) cache rep w =
     (let (skip, cache', rep') =
            (case cp_edge c of None \<Rightarrow> (False, cache, rep) | Some ed \<Rightarrow> is_wedged ed w cache rep)
      in if skip
         then undo_all cs cache'
                (rep'\<lparr>t_rollback_errors := t_rollback_errors rep' @ [RollbackSkipped (cp_name c)]\<rparr>) w
         else (case cp_undo c w of
                 (None, w') \<Rightarrow> undo_all cs cache' rep' w'
               | (Some err, w') \<Rightarrow>
                   undo_all cs cache'
                     (rep'\<lparr>t_rollback_errors := t_rollback_errors rep' @ [RollbackFailed (cp_name c) err]\<rparr>) w'))"

definition rollback :: "'w engine \<Rightarrow> 'w compensator list \<Rightarrow> txn_outcome \<Rightarrow> 'w \<Rightarrow> txn_outcome \<times> 'w" where
  "rollback e applied rep w =
     (if \<not> g_rollback e \<or> applied = [] then (rep, w)
      else undo_all (rev applied) [] (rep\<lparr>t_rolled_back := True\<rparr>) w)"

section \<open>Persisting\<close>

definition persist_one :: "'w engine \<Rightarrow> edge_plan \<Rightarrow> txn_outcome \<times> 'w \<Rightarrow> txn_outcome \<times> 'w" where
  "persist_one e ep st =
     (case binding e (p_edge ep) of
        None \<Rightarrow> st
      | Some b \<Rightarrow>
          let (rep, w) = st; name = ep_name (b_provider b);
              (rep', w') = (case ep_persist (b_provider b) of
                 None \<Rightarrow> (rep, w)
               | Some act \<Rightarrow>
                   (case act w of
                      (None, w') \<Rightarrow> (rep, w')
                    | (Some err, w') \<Rightarrow>
                        (rep\<lparr>t_persist_warnings := t_persist_warnings rep @ [PersistFailed (p_edge ep) name err]\<rparr>, w')))
          in (case ep_durability (b_provider b) of
                None \<Rightarrow> (rep', w')
              | Some m \<Rightarrow>
                  if \<not> edge_change_empty (p_change ep) \<and> ephemeral_writes m
                  then (rep'\<lparr>t_persist_warnings := t_persist_warnings rep' @ [PersistEphemeral (p_edge ep) name m]\<rparr>, w')
                  else (rep', w')))"

definition persist_edges :: "'w engine \<Rightarrow> edge_plan list \<Rightarrow> txn_outcome \<Rightarrow> 'w \<Rightarrow> txn_outcome \<times> 'w" where
  "persist_edges e edges rep w = fold (persist_one e) (uniq_by p_edge [] edges) (rep, w)"

section \<open>Ordering lemmas\<close>

lemma mset_build_steps: "mset (build_steps e op cs snaps) = mset (unsorted_steps e op cs snaps)"
  by (simp add: build_steps_def)

lemma set_build_steps: "set (build_steps e op cs snaps) = set (unsorted_steps e op cs snaps)"
  by (simp add: build_steps_def)

lemma build_steps_sorted:
  "sorted (map (step_key (o_verb op = Expose)) (build_steps e op cs snaps))"
  by (simp add: build_steps_def)

lemma step_key_le:
  "step_key asc s \<le> step_key asc t \<longleftrightarrow>
     (if asc then s_rank s < s_rank t \<or> (s_rank s = s_rank t \<and> s_depth t \<le> s_depth s)
      else s_rank t < s_rank s \<or> (s_rank s = s_rank t \<and> s_depth s \<le> s_depth t))"
  by (auto simp: step_key_def less_eq_prod_simp less_exposure_rank_def simp flip: rank_index_inject)

lemma dns_steps_set:
  "s \<in> set (dns_steps dps ds) \<Longrightarrow>
     \<exists>i. i < length dps \<and> i < length ds \<and> \<not> dns_change_empty (ds ! i) \<and> s_edge s = None
       \<and> s_rank s = dns_rank (dp_scope (dps ! i)) \<and> s_name s = dns_label (dps ! i)
       \<and> s_do s = dp_apply (dps ! i) (ds ! i) \<and> s_undo s = dp_apply (dps ! i) (invert_dns (ds ! i))"
proof (induction dps ds rule: dns_steps.induct)
  case (1 dp dps d ds)
  show ?case
  proof (cases "s \<in> set (dns_steps dps ds)")
    case True
    with 1 obtain i where "i < length dps" "i < length ds" "\<not> dns_change_empty (ds ! i)"
      "s_edge s = None" "s_rank s = dns_rank (dp_scope (dps ! i))" "s_name s = dns_label (dps ! i)"
      "s_do s = dp_apply (dps ! i) (ds ! i)" "s_undo s = dp_apply (dps ! i) (invert_dns (ds ! i))"
      by blast
    then show ?thesis by (intro exI [of _ "Suc i"]) simp
  next
    case False
    with 1(2) show ?thesis by (intro exI [of _ 0]) (auto split: if_splits)
  qed
qed auto

lemma edge_step_set:
  "s \<in> set (edge_step e op snaps ep) \<Longrightarrow>
     \<exists>b. binding e (p_edge ep) = Some b \<and> \<not> edge_change_empty (p_change ep)
       \<and> s_edge s = Some (p_edge ep, b_provider b) \<and> s_rank s = RankEdge
       \<and> s_depth s = (case chain_depth e (p_edge ep) of Some d \<Rightarrow> d | None \<Rightarrow> 0)
       \<and> s_do s = ep_apply (b_provider b) ((mk_change_set op)\<lparr>cs_edge := p_change ep\<rparr>)
       \<and> s_undo s = ep_apply (b_provider b)
            ((mk_change_set op)\<lparr>cs_edge := invert_edge (p_change ep) (snaps (p_edge ep))\<rparr>)"
  by (cases "binding e (p_edge ep)"; simp add: edge_step_def split: if_splits)

section \<open>Execution\<close>

inductive exec :: "'w apply_step list \<Rightarrow> 'w \<Rightarrow> 'w \<Rightarrow> bool" where
  exec_Nil: "exec [] w w"
| exec_Cons: "s_do s w = (None, w1) \<Longrightarrow> exec ss w1 w2 \<Longrightarrow> exec (s # ss) w w2"

inductive_simps exec_simps [simp]: "exec [] w w'" "exec (s # ss) w w'"

lemma exec_append: "exec (ss @ ts) w w' \<longleftrightarrow> (\<exists>m. exec ss w m \<and> exec ts m w')"
  by (induction ss arbitrary: w) auto

lemma exec_deterministic: "exec ss w w1 \<Longrightarrow> exec ss w w2 \<Longrightarrow> w1 = w2"
  by (induction ss arbitrary: w) auto

lemma run_steps_done:
  "run_steps ss applied w = (None, applied', w') \<Longrightarrow>
     applied' = applied @ map compensate ss \<and> exec ss w w'"
  by (induction ss applied w rule: run_steps.induct) (auto split: prod.splits option.splits)

lemma run_steps_exec: "exec ss w w' \<Longrightarrow> run_steps ss applied w = (None, applied @ map compensate ss, w')"
  by (induction ss arbitrary: w applied) auto

lemma run_steps_failed:
  "run_steps ss applied w = (Some (s, err), applied', w') \<Longrightarrow>
     \<exists>pre post m. ss = pre @ s # post \<and> applied' = applied @ map compensate pre
       \<and> exec pre w m \<and> s_do s m = (Some err, w')"
proof (induction ss applied w rule: run_steps.induct)
  case (2 t ss applied w)
  show ?case
  proof (cases "s_do t w")
    case (Pair r w1)
    show ?thesis
    proof (cases r)
      case None
      with Pair 2 obtain pre post m where "ss = pre @ s # post"
        "applied' = (applied @ [compensate t]) @ map compensate pre" "exec pre w1 m"
        "s_do s m = (Some err, w')" by auto
      with Pair None show ?thesis
        by (intro exI [of _ "t # pre"] exI [of _ post] exI [of _ m]) simp
    next
      case (Some e')
      with Pair 2(2) have "t = s" "applied' = applied" "w1 = w'" "e' = err" by auto
      with Pair Some show ?thesis
        by (intro exI [of _ "[]"] exI [of _ ss] exI [of _ w]) simp
    qed
  qed
qed simp

text \<open>The loop of the rollback only adds errors.\<close>

lemma is_wedged_errors: "is_wedged ed w cache rep = (b, cache', rep') \<Longrightarrow> t_rollback_errors rep' = t_rollback_errors rep"
  by (auto simp: is_wedged_def probe_edge_def split: option.splits prod.splits)

lemma undo_all_errors:
  "undo_all cs cache rep w = (rep', w') \<Longrightarrow> \<exists>es. t_rollback_errors rep' = t_rollback_errors rep @ es"
proof (induction cs cache rep w rule: undo_all.induct)
  case (2 c cs cache rep w)
  obtain skip cache1 rep1 where turn: "(case cp_edge c of None \<Rightarrow> (False, cache, rep) | Some ed \<Rightarrow> is_wedged ed w cache rep)
      = (skip, cache1, rep1)" by (metis prod_cases3)
  then have same: "t_rollback_errors rep1 = t_rollback_errors rep"
    by (auto split: option.splits dest: is_wedged_errors)
  show ?case
  proof (cases skip)
    case True
    with 2(1) [OF turn [symmetric] refl refl True] 2(4) turn same show ?thesis by auto
  next
    case False
    obtain r w1 where u: "cp_undo c w = (r, w1)" by fastforce
    show ?thesis
    proof (cases r)
      case None
      with False 2(2) [OF turn [symmetric] refl refl False u [symmetric] None] 2(4) turn same u show ?thesis by auto
    next
      case (Some err)
      with False 2(3) [OF turn [symmetric] refl refl False u [symmetric] Some] 2(4) turn same u show ?thesis by auto
    qed
  qed
qed simp

section \<open>The contract of a compensating step\<close>

text \<open>
  What the rollback relies on, seen through an observation of the world: a step that fails changes
  nothing, an undo that goes through takes back what its step did, and a step made to fit the world
  still fits it after the steps it is independent of. In a calm world, where no call is going to
  fail by accident, the undo goes through. The edges of the steps answer the health probe.
\<close>

locale step_contract =
  fixes obs :: "'w \<Rightarrow> 'o"
    and fits :: "'w apply_step \<Rightarrow> 'w \<Rightarrow> bool"
    and indep :: "'w apply_step \<Rightarrow> 'w apply_step \<Rightarrow> bool"
    and calm :: "'w \<Rightarrow> bool"
  assumes clean_failure: "fits s w \<Longrightarrow> s_do s w = (Some err, w') \<Longrightarrow> obs w' = obs w"
    and compensates: "fits s w \<Longrightarrow> s_do s w = (None, w') \<Longrightarrow> obs v = obs w' \<Longrightarrow>
           s_undo s v = (None, v') \<Longrightarrow> obs v' = obs w"
    and undo_works: "fits s w \<Longrightarrow> s_do s w = (None, w') \<Longrightarrow> obs v = obs w' \<Longrightarrow> calm v \<Longrightarrow>
           \<exists>v'. s_undo s v = (None, v') \<and> calm v'"
    and calm_kept: "fits s w \<Longrightarrow> calm w \<Longrightarrow> s_do s w = (r, w') \<Longrightarrow> calm w'"
    and frame: "fits t w \<Longrightarrow> indep s t \<Longrightarrow> fits s w \<Longrightarrow> s_do s w = (None, w') \<Longrightarrow> fits t w'"
    and responsive: "fits s w \<Longrightarrow> s_edge s = Some ed \<Longrightarrow> ep_healthy (snd ed) = Some h \<Longrightarrow> h v = None"
begin

lemma fits_exec:
  "exec ss w w' \<Longrightarrow> \<forall>s \<in> set ss. fits s w \<Longrightarrow> sorted_wrt indep ss \<Longrightarrow>
     fits t w \<Longrightarrow> \<forall>s \<in> set ss. indep s t \<Longrightarrow> fits t w'"
proof (induction ss arbitrary: w)
  case (Cons a ss)
  from Cons.prems(1) obtain w1 where w1: "s_do a w = (None, w1)" "exec ss w1 w'" by auto
  have "fits u w1" if "fits u w" "indep a u" for u
    using frame [OF that] Cons.prems(2) w1(1) by simp
  with Cons.IH [OF w1(2)] Cons.prems show ?case by simp
qed simp

lemma calm_exec:
  "exec ss w w' \<Longrightarrow> \<forall>s \<in> set ss. fits s w \<Longrightarrow> sorted_wrt indep ss \<Longrightarrow> calm w \<Longrightarrow> calm w'"
proof (induction ss arbitrary: w)
  case (Cons a ss)
  from Cons.prems(1) obtain w1 where w1: "s_do a w = (None, w1)" "exec ss w1 w'" by auto
  have "fits u w1" if "u \<in> set ss" for u
    using frame [of u w a] that Cons.prems(2,3) w1(1) by simp
  moreover have "calm w1" using calm_kept [OF _ Cons.prems(4) w1(1)] Cons.prems(2) by simp
  ultimately show ?case using Cons.IH [OF w1(2)] Cons.prems(3) by simp
qed simp

lemma not_wedged:
  assumes "fits s w" and "s_edge s = Some ed" and "\<forall>(n, v) \<in> set cache. \<not> v"
  shows "\<exists>cache'. is_wedged ed u cache rep = (False, cache', rep) \<and> (\<forall>(n, v) \<in> set cache'. \<not> v)"
proof -
  have responded: "\<And>h. ep_healthy (snd ed) = Some h \<Longrightarrow> h u = None"
    by (rule responsive [OF assms(1,2)])
  show ?thesis
  using assms responded
  by (auto simp: is_wedged_def probe_edge_def split: option.splits dest: map_of_SomeD)
qed

text \<open>One turn of the loop: the undo of a step that fits is called.\<close>

lemma undo_turn:
  assumes "fits s w" and "\<forall>(n, x) \<in> set cache. \<not> x"
  shows "\<exists>cache'. (\<forall>(n, x) \<in> set cache'. \<not> x) \<and>
     undo_all (compensate s # cs) cache rep v =
       (case s_undo s v of
          (None, v') \<Rightarrow> undo_all cs cache' rep v'
        | (Some err, v') \<Rightarrow> undo_all cs cache'
            (rep\<lparr>t_rollback_errors := t_rollback_errors rep @ [RollbackFailed (s_name s) err]\<rparr>) v')"
proof (cases "s_edge s")
  case None
  then show ?thesis by (intro exI [of _ cache]) (use assms(2) in \<open>auto split: prod.split option.split\<close>)
next
  case (Some ed)
  from not_wedged [OF assms(1) Some assms(2)] obtain cache' where
    "is_wedged ed v cache rep = (False, cache', rep)" "\<forall>(n, x) \<in> set cache'. \<not> x" by blast
  with Some show ?thesis by (intro exI [of _ cache']) (auto split: prod.split option.split)
qed

lemma undo_restores:
  assumes "exec ss w m" and "\<forall>s \<in> set ss. fits s w" and "sorted_wrt indep ss"
    and "obs v = obs m" and "\<forall>(n, x) \<in> set cache. \<not> x"
    and "undo_all (rev (map compensate ss)) cache rep v = (rep', v')"
    and "calm v \<or> t_rollback_errors rep' = []"
  shows "obs v' = obs w \<and> (calm v \<longrightarrow> t_rollback_errors rep' = t_rollback_errors rep)"
  using assms
proof (induction ss arbitrary: m v cache rep rule: rev_induct)
  case (snoc s ss)
  then obtain m1 where m1: "exec ss w m1" "s_do s m1 = (None, m)"
    by (auto simp: exec_append)
  have fit: "fits s m1"
    using fits_exec [OF m1(1)] snoc.prems(2,3) by (simp add: sorted_wrt_append)
  from undo_turn [OF fit snoc.prems(5), of "rev (map compensate ss)" rep v] obtain cache' where
    c: "\<forall>(n, x) \<in> set cache'. \<not> x" "undo_all (rev (map compensate (ss @ [s]))) cache rep v =
       (case s_undo s v of
          (None, v1) \<Rightarrow> undo_all (rev (map compensate ss)) cache' rep v1
        | (Some err, v1) \<Rightarrow> undo_all (rev (map compensate ss)) cache'
            (rep\<lparr>t_rollback_errors := t_rollback_errors rep @ [RollbackFailed (s_name s) err]\<rparr>) v1)"
    by (simp del: undo_all.simps) blast
  have IH: ?case if "s_undo s v = (None, v1)" "calm v \<longrightarrow> calm v1" for v1
  proof -
    have "obs v1 = obs m1" using compensates [OF fit m1(2) snoc.prems(4) that(1)] .
    moreover have "undo_all (rev (map compensate ss)) cache' rep v1 = (rep', v')"
      using c(2) that(1) snoc.prems(6) by simp
    ultimately show ?thesis
      using snoc.IH [OF m1(1) _ _ _ c(1), of v1 rep] snoc.prems(2,3,7) that(2)
      by (auto simp: sorted_wrt_append)
  qed
  show ?case
  proof (cases "calm v")
    case True
    with undo_works [OF fit m1(2) snoc.prems(4)] IH show ?thesis by blast
  next
    case False
    have "\<exists>v1. s_undo s v = (None, v1)"
    proof (rule ccontr)
      assume "\<not> ?thesis"
      then obtain err v1 where "s_undo s v = (Some err, v1)" by (cases "s_undo s v"; cases "fst (s_undo s v)") auto
      with c(2) snoc.prems(6) have "undo_all (rev (map compensate ss)) cache'
          (rep\<lparr>t_rollback_errors := t_rollback_errors rep @ [RollbackFailed (s_name s) err]\<rparr>) v1 = (rep', v')"
        by simp
      from undo_all_errors [OF this] snoc.prems(7) False show False by auto
    qed
    with False IH show ?thesis by blast
  qed
qed auto

lemma rollback_restores:
  assumes "exec ss w m" and "\<forall>s \<in> set ss. fits s w" and "sorted_wrt indep ss" and "g_rollback e"
    and "obs v = obs m" and "rollback e (map compensate ss) rep v = (rep', v')" and "t_rollback_errors rep = []"
    and "calm v \<or> t_rollback_errors rep' = []"
  shows "obs v' = obs w \<and> t_rollback_errors rep' = []"
proof (cases "ss = []")
  case True
  with assms show ?thesis by (simp add: rollback_def)
next
  case False
  with assms(4,6) have "undo_all (rev (map compensate ss)) [] (rep\<lparr>t_rolled_back := True\<rparr>) v = (rep', v')"
    by (simp add: rollback_def)
  from undo_restores [OF assms(1-3,5) _ this] assms(7,8) show ?thesis by auto
qed

lemma rollback_after_failure:
  assumes "run_steps ss [] w = (Some (s, err), applied, w1)" and "\<forall>s \<in> set ss. fits s w"
    and "sorted_wrt indep ss" and "g_rollback e" and "rollback e applied rep w1 = (rep', w')"
    and "t_rollback_errors rep = []" and "calm w \<or> t_rollback_errors rep' = []"
  shows "obs w' = obs w \<and> t_rollback_errors rep' = []"
proof -
  obtain pre post m where r: "ss = pre @ s # post" "applied = map compensate pre"
    "exec pre w m" "s_do s m = (Some err, w1)"
    using run_steps_failed [OF assms(1)] by auto
  have pre: "\<forall>s \<in> set pre. fits s w" "sorted_wrt indep pre"
    using assms(2,3) r(1) by (simp_all add: sorted_wrt_append)
  have fit: "fits s m"
    using fits_exec [OF r(3)] assms(2,3) r(1) by (simp add: sorted_wrt_append)
  have "calm w \<longrightarrow> calm w1" using calm_exec [OF r(3) pre] calm_kept [OF fit _ r(4)] by blast
  with rollback_restores [OF r(3) pre assms(4) clean_failure [OF fit r(4)]] assms(5-7) r(2)
  show ?thesis by blast
qed

lemma rollback_after_success:
  assumes "run_steps ss [] w = (None, applied, w1)" and "\<forall>s \<in> set ss. fits s w"
    and "sorted_wrt indep ss" and "g_rollback e" and "rollback e applied rep w1 = (rep', w')"
    and "t_rollback_errors rep = []" and "calm w \<or> t_rollback_errors rep' = []"
  shows "obs w' = obs w \<and> t_rollback_errors rep' = []"
proof -
  have r: "applied = map compensate ss" "exec ss w w1"
    using run_steps_done [OF assms(1)] by auto
  with rollback_restores [OF r(2) assms(2-4) refl] calm_exec [OF r(2) assms(2,3)] assms(5-7)
  show ?thesis by blast
qed

end

section \<open>Properties of the ordering and of the inverses\<close>

text \<open>C4. The write order is the exposure order: an expose applies the steps in rising rank
  (edges, internal DNS, public DNS) and, among edges, deepest first; anything else the other way
  round. No step is lost, added or repeated, and steps of equal rank and depth keep the order of
  the plan.\<close>

theorem build_steps_exposure_order:
  "mset (build_steps e op cs snaps) = mset (unsorted_steps e op cs snaps)
   \<and> (\<forall>i j. i < j \<and> j < length (build_steps e op cs snaps) \<longrightarrow>
        (let s = build_steps e op cs snaps ! i; t = build_steps e op cs snaps ! j
         in if o_verb op = Expose
            then s_rank s < s_rank t \<or> (s_rank s = s_rank t \<and> s_depth t \<le> s_depth s)
            else s_rank t < s_rank s \<or> (s_rank s = s_rank t \<and> s_depth s \<le> s_depth t)))
   \<and> filter (\<lambda>s. s_rank s = r \<and> s_depth s = d) (build_steps e op cs snaps)
     = filter (\<lambda>s. s_rank s = r \<and> s_depth s = d) (unsorted_steps e op cs snaps)"
proof (intro conjI allI impI)
  fix i j assume ij: "i < j \<and> j < length (build_steps e op cs snaps)"
  with build_steps_sorted [of op e cs snaps]
  have "step_key (o_verb op = Expose) (build_steps e op cs snaps ! i)
        \<le> step_key (o_verb op = Expose) (build_steps e op cs snaps ! j)"
    by (simp add: sorted_iff_nth_mono_less)
  then show "let s = build_steps e op cs snaps ! i; t = build_steps e op cs snaps ! j
         in if o_verb op = Expose
            then s_rank s < s_rank t \<or> (s_rank s = s_rank t \<and> s_depth t \<le> s_depth s)
            else s_rank t < s_rank s \<or> (s_rank s = s_rank t \<and> s_depth s \<le> s_depth t)"
    by (simp only: Let_def step_key_le)
next
  let ?k = "if o_verb op = Expose then (int (rank_index r), - int d) else (- int (rank_index r), int d)"
  have "step_key (o_verb op = Expose) s = ?k \<longleftrightarrow> s_rank s = r \<and> s_depth s = d" for s :: "'a apply_step"
    by (auto simp: step_key_def rank_index_inject)
  then show "filter (\<lambda>s. s_rank s = r \<and> s_depth s = d) (build_steps e op cs snaps)
     = filter (\<lambda>s. s_rank s = r \<and> s_depth s = d) (unsorted_steps e op cs snaps)"
    using sort_key_stable [of "step_key (o_verb op = Expose)" ?k "unsorted_steps e op cs snaps"]
    by (simp add: build_steps_def eq_commute)
qed (rule mset_build_steps)

text \<open>C5. On an acyclic chain the edge that serves is always written before the edge that
  forwards to it on an expose, and after it otherwise: traffic is never sent to an edge that does
  not hold the route yet.\<close>

theorem downstream_before_front:
  assumes "grows_along rk (g_edges e)" and "distinct (map b_name (g_edges e))"
    and "b \<in> set (g_edges e)" and "b_downstream_edge b \<noteq> []"
    and "i < length (build_steps e op cs snaps)" and "j < length (build_steps e op cs snaps)"
    and "s_edge (build_steps e op cs snaps ! i) = Some (b_name b, p)"
    and "s_edge (build_steps e op cs snaps ! j) = Some (b_downstream_edge b, q)"
  shows "if o_verb op = Expose then j < i else i < j"
proof -
  let ?st = "build_steps e op cs snaps"
  have step: "\<exists>ep :: edge_plan. binding e (p_edge ep) \<noteq> None \<and> n = p_edge ep \<and> s_rank s = RankEdge
      \<and> s_depth s = (case chain_depth e (p_edge ep) of Some d \<Rightarrow> d | None \<Rightarrow> 0)"
    if "s \<in> set ?st" "s_edge s = Some (n, pr)" for s n pr
  proof -
    from that(1) have "s \<in> set (dns_steps (g_dns e) (cs_dns cs))
        \<or> (\<exists>ep \<in> set (cs_edges cs). s \<in> set (edge_step e op snaps ep))"
      by (auto simp: set_build_steps unsorted_steps_def)
    then show ?thesis
    proof
      assume "s \<in> set (dns_steps (g_dns e) (cs_dns cs))"
      from dns_steps_set [OF this] that(2) show ?thesis by auto
    next
      assume "\<exists>ep \<in> set (cs_edges cs). s \<in> set (edge_step e op snaps ep)"
      then obtain ep where "s \<in> set (edge_step e op snaps ep)" by blast
      from edge_step_set [OF this] obtain b where b: "binding e (p_edge ep) = Some b"
        "s_edge s = Some (p_edge ep, b_provider b)" "s_rank s = RankEdge"
        "s_depth s = (case chain_depth e (p_edge ep) of Some d \<Rightarrow> d | None \<Rightarrow> 0)" by blast
      with that(2) have "binding e (p_edge ep) \<noteq> None \<and> n = p_edge ep \<and> s_rank s = RankEdge
        \<and> s_depth s = (case chain_depth e (p_edge ep) of Some d \<Rightarrow> d | None \<Rightarrow> 0)" by simp
      then show ?thesis by blast
    qed
  qed
  have mem: "?st ! i \<in> set ?st" "?st ! j \<in> set ?st" using assms(5,6) by simp_all
  from step [OF mem(1) assms(7)] step [OF mem(2) assms(8)]
  have ranks: "s_rank (?st ! i) = RankEdge" "s_rank (?st ! j) = RankEdge"
    and depths: "s_depth (?st ! i) = (case chain_depth e (b_name b) of Some d \<Rightarrow> d | None \<Rightarrow> 0)"
      "s_depth (?st ! j) = (case chain_depth e (b_downstream_edge b) of Some d \<Rightarrow> d | None \<Rightarrow> 0)"
    and "binding e (b_downstream_edge b) \<noteq> None"
    by auto
  then have "b_downstream_edge b \<in> b_name ` set (g_edges e)" by (simp add: binding_None)
  with assms(1,3,4) have d: "dom (chain_depth e) = b_name ` set (g_edges e)"
    "\<not> violated (chain_depth e) b" "b_downstream_edge b \<in> dom (chain_depth e)"
    "b_name b \<in> dom (chain_depth e)"
    using chain_depth_no_violation [OF assms(1)] by auto
  then obtain x y where "chain_depth e (b_name b) = Some x"
    "chain_depth e (b_downstream_edge b) = Some y" by blast
  with assms(4) depths d(2) have lt: "s_depth (?st ! i) < s_depth (?st ! j)"
    by (simp add: violated_def)
  have "sorted (map (step_key (o_verb op = Expose)) ?st)" by (rule build_steps_sorted)
  then have ord: "m < n \<Longrightarrow> n < length ?st \<Longrightarrow>
      step_key (o_verb op = Expose) (?st ! m) \<le> step_key (o_verb op = Expose) (?st ! n)" for m n
    by (simp add: sorted_iff_nth_mono_less)
  show ?thesis
    using ord [of i j] ord [of j i] assms(5,6) lt ranks
    by (cases i j rule: linorder_cases; cases "o_verb op = Expose") (auto simp: step_key_le)
qed

definition two_edge_change :: change_set where
  "two_edge_change = (mk_change_set planning_op)\<lparr>cs_edges :=
     [\<lparr>p_edge = ''vps'', p_driver = ''vps'', p_change = no_edge_change\<lparr>e_remove := [''a'']\<rparr>\<rparr>,
      \<lparr>p_edge = ''mid'', p_driver = ''mid'', p_change = no_edge_change\<lparr>e_remove := [''a'']\<rparr>\<rparr>]\<rparr>"

definition no_snaps :: "string \<Rightarrow> live_edge_state" where
  "no_snaps = (\<lambda>_. empty_live False)"

lemma build_steps_exposure_order_witness:
  "length (build_steps two_hop_engine planning_op two_edge_change no_snaps) = 2
   \<and> s_depth (build_steps two_hop_engine planning_op two_edge_change no_snaps ! 1)
     \<le> s_depth (build_steps two_hop_engine planning_op two_edge_change no_snaps ! 0)"
proof -
  let ?steps = "build_steps two_hop_engine planning_op two_edge_change no_snaps"
  have len: "length ?steps = 2"
    by (simp add: build_steps_def unsorted_steps_def two_edge_change_def mk_change_set_def
        edge_step_def edge_change_empty_def binding_def planning_defs)
  have "\<forall>s \<in> set ?steps. s_rank s = RankEdge"
    by (simp add: set_build_steps unsorted_steps_def two_edge_change_def mk_change_set_def
        edge_step_def edge_change_empty_def binding_def planning_defs)
  with len have "s_rank (?steps ! 0) = RankEdge" "s_rank (?steps ! 1) = RankEdge" by simp_all
  moreover have "let s = ?steps ! 0; t = ?steps ! 1
     in if o_verb planning_op = Expose
        then s_rank s < s_rank t \<or> (s_rank s = s_rank t \<and> s_depth t \<le> s_depth s)
        else s_rank t < s_rank s \<or> (s_rank s = s_rank t \<and> s_depth s \<le> s_depth t)"
    using build_steps_exposure_order [of two_hop_engine planning_op two_edge_change no_snaps RankEdge 0] len
    by simp
  ultimately show ?thesis using len by (simp add: planning_op_def Let_def)
qed

lemma two_edge_steps:
  "\<exists>s \<in> set (build_steps two_hop_engine planning_op two_edge_change no_snaps). \<exists>p. s_edge s = Some (''vps'', p)"
  "\<exists>s \<in> set (build_steps two_hop_engine planning_op two_edge_change no_snaps). \<exists>p. s_edge s = Some (''mid'', p)"
  by (simp_all add: set_build_steps unsorted_steps_def two_edge_change_def mk_change_set_def
      edge_step_def edge_change_empty_def binding_def planning_defs)

lemma downstream_before_front_witness:
  "\<exists>i j p q. j < i
     \<and> s_edge (build_steps two_hop_engine planning_op two_edge_change no_snaps ! i) = Some (''vps'', p)
     \<and> s_edge (build_steps two_hop_engine planning_op two_edge_change no_snaps ! j) = Some (''mid'', q)"
proof -
  let ?e = two_hop_engine and ?st = "build_steps two_hop_engine planning_op two_edge_change no_snaps"
  obtain i p where i: "i < length ?st" "s_edge (?st ! i) = Some (''vps'', p)"
    using two_edge_steps(1) by (metis in_set_conv_nth)
  obtain j q where j: "j < length ?st" "s_edge (?st ! j) = Some (''mid'', q)"
    using two_edge_steps(2) by (metis in_set_conv_nth)
  have "if o_verb planning_op = Expose then j < i else i < j"
    by (rule downstream_before_front [of "\<lambda>n. if n = ''vps'' then 0 else if n = ''mid'' then 1 else 2"
        ?e "g_edges ?e ! 2" i planning_op two_edge_change no_snaps j p q])
      (use i j in \<open>simp_all add: two_hop_engine_def new_multi_def grows_along_def\<close>)
  with i j show ?thesis by (auto simp: planning_op_def)
qed

text \<open>The inverse of a removal looks the route up by its exact spelling, while every other
  lookup ignores case: a removal that names an existing route in another case is taken back by
  nothing, so its rollback leaves the route gone.\<close>

theorem invert_edge_other_case_restores_nothing:
  assumes "has_host snapshot h" and "h \<notin> r_host ` set (l_routes snapshot)"
    and "e_remove ec = [h]"
  shows "e_add (invert_edge ec snapshot) = []"
proof -
  have "find (\<lambda>sr. r_host sr = h) (l_routes snapshot) = None"
    using assms(2) by (auto simp: find_None_iff')
  with assms(3) show ?thesis by (simp add: invert_edge_def)
qed

lemma invert_edge_other_case_restores_nothing_witness:
  "e_add (invert_edge (no_edge_change\<lparr>e_remove := [''G.ex'']\<rparr>)
     (mw_edges (owned_world [OwnCrenel]) ''home'')) = []"
proof (rule invert_edge_other_case_restores_nothing)
  show "has_host (mw_edges (owned_world [OwnCrenel]) ''home'') ''G.ex''"
    by code_simp
qed (simp_all add: owned_world_def)

end
