(* ===== verification/Verify.thy ===== *)
theory Verify
  imports Txn
begin

text \<open>
  The read-back verification of \<open>internal/core/apply.go\<close> (\<open>verify\<close>, \<open>verifyEdgeAuth\<close>,
  \<open>verifyEdgeForwardTLS\<close>, \<open>verifyEdgeHost\<close>, \<open>verifyEdgeRename\<close>, \<open>verifyDNS\<close>,
  \<open>normalizeAuthPresence\<close>) with the predicates on its results from \<open>report.go\<close> and
  \<open>authOf\<close> of \<open>reconcile.go\<close>. The detail text of a result is a value that names its branch.
\<close>

section \<open>Results\<close>

datatype verify_detail =
    DReReadFailed perr
  | DDenyMissing
  | DReachable string
  | DNotReachable string
  | DNoLongerExposed string
  | DStillExposed string
  | DUnknownVerb
  | DRenamedToMissing string
  | DRenamedFromPresent string
  | DRenamed string string
  | DAuthAbsent string
  | DAuthMismatch string string string
  | DTLSAbsent string
  | DTLSMismatch string
  | DRuntimeFailed string
  | DScopeNotAppointed
  | DOutsideZone
  | DRecordMissing string
  | DRecordValue string string string
  | DRecordsPresent
  | DRecordStillPresent string
  | DRecordsAbsent
  | DConsistent
  | DModeMismatch string route_mode "route_mode option"

record verify_result =
  vr_provider :: string
  vr_ok :: bool
  vr_detail :: verify_detail
  vr_runtime_checked :: bool
  vr_runtime :: "runtime_status option"
  vr_runtime_detail :: string

definition mk_result :: "string \<Rightarrow> bool \<Rightarrow> verify_detail \<Rightarrow> verify_result" where
  "mk_result p ok d = \<lparr>vr_provider = p, vr_ok = ok, vr_detail = d, vr_runtime_checked = False,
     vr_runtime = None, vr_runtime_detail = []\<rparr>"

lemma mk_result_simps [simp]:
  "vr_provider (mk_result p ok d) = p" "vr_ok (mk_result p ok d) = ok"
  "vr_detail (mk_result p ok d) = d" "\<not> vr_runtime_checked (mk_result p ok d)"
  by (simp_all add: mk_result_def)

definition runtime_unconfirmed :: "verify_result \<Rightarrow> bool" where
  "runtime_unconfirmed v = (vr_runtime_checked v \<and> vr_runtime v = Some RuntimeUnavailable)"

definition fully_verified :: "verify_result list \<Rightarrow> bool" where
  "fully_verified vs = (\<not> list_ex (\<lambda>v. \<not> vr_ok v \<or> runtime_unconfirmed v) vs)"

definition runtime_unconfirmed_results :: "verify_result list \<Rightarrow> verify_result list" where
  "runtime_unconfirmed_results vs = filter runtime_unconfirmed vs"

definition verified :: "verify_result list \<Rightarrow> bool" where
  "verified vs = (\<not> list_ex (\<lambda>v. \<not> vr_ok v) vs)"

lemma verified_iff: "verified vs \<longleftrightarrow> (\<forall>v \<in> set vs. vr_ok v)"
  by (auto simp: verified_def list_ex_iff)

lemma fully_verified_iff:
  "fully_verified vs \<longleftrightarrow> verified vs \<and> runtime_unconfirmed_results vs = []"
  by (auto simp: fully_verified_def verified_def runtime_unconfirmed_results_def list_ex_iff
      filter_empty_conv)

section \<open>Edge read-back\<close>

definition auth_of :: "live_edge_state \<Rightarrow> string \<Rightarrow> string option" where
  "auth_of live host = map_option (\<lambda>r. u_auth (r_upstream r)) (route_of live host)"

definition upstream_tls_of :: "live_edge_state \<Rightarrow> string \<Rightarrow> bool option" where
  "upstream_tls_of live host = map_option (\<lambda>r. u_upstream_tls (r_upstream r)) (route_of live host)"

definition normalize_auth_presence :: "string \<Rightarrow> string" where
  "normalize_auth_presence a = (if a = auth_none then [] else a)"

fun verify_edge_auth :: "live_edge_state \<Rightarrow> route list \<Rightarrow> verify_detail option" where
  "verify_edge_auth live [] = None"
| "verify_edge_auth live (want # added) =
     (if u_mode (r_upstream want) = ModeMeshGrant then verify_edge_auth live added
      else (case auth_of live (r_host want) of
              None \<Rightarrow> Some (DAuthAbsent (r_host want))
            | Some got \<Rightarrow>
                if normalize_auth_presence got \<noteq> normalize_auth_presence (u_auth (r_upstream want))
                then Some (DAuthMismatch (r_host want) (u_auth (r_upstream want)) got)
                else verify_edge_auth live added))"

fun verify_edge_forward_tls :: "live_edge_state \<Rightarrow> route list \<Rightarrow> verify_detail option" where
  "verify_edge_forward_tls live [] = None"
| "verify_edge_forward_tls live (want # added) =
     (if \<not> u_upstream_tls (r_upstream want) then verify_edge_forward_tls live added
      else (case upstream_tls_of live (r_host want) of
              None \<Rightarrow> Some (DTLSAbsent (r_host want))
            | Some got \<Rightarrow>
                if \<not> got then Some (DTLSMismatch (r_host want))
                else verify_edge_forward_tls live added))"

definition verify_edge_host :: "string \<Rightarrow> live_edge_state \<Rightarrow> op \<Rightarrow> verify_result" where
  "verify_edge_host provider live op =
     (case o_verb op of
        Expose \<Rightarrow>
          if reachable live (o_host op) then mk_result provider True (DReachable (o_host op))
          else mk_result provider False (DNotReachable (o_host op))
      | Unexpose \<Rightarrow>
          if \<not> has_host live (o_host op) then mk_result provider True (DNoLongerExposed (o_host op))
          else mk_result provider False (DStillExposed (o_host op))
      | Rename \<Rightarrow> mk_result provider False DUnknownVerb)"

definition verify_edge_rename :: "string \<Rightarrow> live_edge_state \<Rightarrow> edge_change \<Rightarrow> verify_result" where
  "verify_edge_rename provider live ec =
     (case find (\<lambda>r. \<not> reachable live (r_host r)) (e_add ec) of
        Some r \<Rightarrow> mk_result provider False (DRenamedToMissing (r_host r))
      | None \<Rightarrow>
          (case find (has_host live) (e_remove ec) of
             Some h \<Rightarrow> mk_result provider False (DRenamedFromPresent h)
           | None \<Rightarrow>
               mk_result provider True
                 (DRenamed (case e_remove ec of [] \<Rightarrow> [] | h # _ \<Rightarrow> h)
                           (case e_add ec of [] \<Rightarrow> [] | r # _ \<Rightarrow> r_host r))))"

text \<open>The default branch of the edge loop: host, then authentication, then upstream TLS, then the
  running daemon.\<close>

definition verify_edge_live :: "string \<Rightarrow> 'w edge_provider \<Rightarrow> op \<Rightarrow> edge_change \<Rightarrow> live_edge_state
    \<Rightarrow> 'w \<Rightarrow> verify_result" where
  "verify_edge_live label prov op ec live w =
     (let res = (if o_verb op = Rename then verify_edge_rename label live ec
                 else verify_edge_host label live op);
          res = (if vr_ok res then
                   (case verify_edge_auth live (e_add ec) of
                      None \<Rightarrow> res | Some d \<Rightarrow> mk_result label False d) else res);
          res = (if vr_ok res then
                   (case verify_edge_forward_tls live (e_add ec) of
                      None \<Rightarrow> res | Some d \<Rightarrow> mk_result label False d) else res)
      in if vr_ok res then
           (case ep_runtime prov of
              None \<Rightarrow> res
            | Some rt \<Rightarrow>
                let v = rt op ec w;
                    res = res\<lparr>vr_runtime_checked := True, vr_runtime := Some (rv_status v),
                              vr_runtime_detail := rv_detail v\<rparr>
                in if rv_status v = RuntimeFailed
                   then res\<lparr>vr_ok := False, vr_detail := DRuntimeFailed (rv_detail v)\<rparr> else res)
         else res)"

definition verify_edge :: "'w engine \<Rightarrow> op \<Rightarrow> 'w \<Rightarrow> edge_plan \<Rightarrow> verify_result list" where
  "verify_edge e op w ep =
     (case binding e (p_edge ep) of
        None \<Rightarrow> []
      | Some b \<Rightarrow>
          let label = edge_step_label (p_edge ep) (p_driver ep)
          in [case ep_read (b_provider b) w of
                Inl err \<Rightarrow> mk_result label False (DReReadFailed err)
              | Inr live \<Rightarrow>
                  if \<not> l_deny_present live then mk_result label False DDenyMissing
                  else verify_edge_live label (b_provider b) op (p_change ep) live w])"

section \<open>DNS read-back\<close>

definition live_by_key :: "dns_record list \<Rightarrow> string \<Rightarrow> dns_record option" where
  "live_by_key live = map_of (rev (map (\<lambda>r. (record_key r, r)) live))"

fun missing_record :: "(string \<Rightarrow> dns_record option) \<Rightarrow> dns_record list \<Rightarrow> verify_detail option" where
  "missing_record live [] = None"
| "missing_record live (d # ds) =
     (case live (record_key d) of
        None \<Rightarrow> Some (DRecordMissing (record_key d))
      | Some cur \<Rightarrow>
          if \<not> equal_fold (trim_space (d_value cur)) (trim_space (d_value d))
          then Some (DRecordValue (record_key d) (d_value cur) (d_value d))
          else missing_record live ds)"

definition verify_dns :: "string \<Rightarrow> op \<Rightarrow> dns_record list \<Rightarrow> dns_record list \<Rightarrow> verify_result" where
  "verify_dns provider op desired live =
     (case o_verb op of
        Expose \<Rightarrow>
          (case missing_record (live_by_key live) desired of
             Some d \<Rightarrow> mk_result provider False d
           | None \<Rightarrow> mk_result provider True DRecordsPresent)
      | Unexpose \<Rightarrow>
          (case find (\<lambda>d. live_by_key live (record_key d) \<noteq> None) desired of
             Some d \<Rightarrow> mk_result provider False (DRecordStillPresent (record_key d))
           | None \<Rightarrow> mk_result provider True DRecordsAbsent)
      | Rename \<Rightarrow> mk_result provider False DUnknownVerb)"

definition verify_provider :: "op \<Rightarrow> 'w \<Rightarrow> 'w dns_provider \<Rightarrow> verify_result" where
  "verify_provider op w dp =
     (if \<not> scope_selected (o_scopes op) (dp_scope dp)
      then mk_result (dns_label dp) True DScopeNotAppointed
      else if \<not> dns_covers_host dp (o_host op) then mk_result (dns_label dp) True DOutsideZone
      else (case dp_live dp w of
              Inl err \<Rightarrow> mk_result (dns_label dp) False (DReReadFailed err)
            | Inr recs \<Rightarrow>
                verify_dns (dns_label dp) op
                  (case dp_desired dp op of Inl _ \<Rightarrow> [] | Inr ds \<Rightarrow> ds) recs))"

definition verify :: "'w engine \<Rightarrow> op \<Rightarrow> change_set \<Rightarrow> 'w \<Rightarrow> verify_result list" where
  "verify e op cs w =
     concat (map (verify_edge e op w) (cs_edges cs)) @ map (verify_provider op w) (g_dns e)"

section \<open>Lemmas\<close>

lemma live_by_key_Some: "live_by_key live k = Some r \<Longrightarrow> r \<in> set live \<and> record_key r = k"
  by (auto simp: live_by_key_def dest!: map_of_SomeD)

lemma live_by_key_None: "live_by_key live k = None \<longleftrightarrow> k \<notin> record_key ` set live"
proof -
  have "live_by_key live k = None \<longleftrightarrow> k \<notin> fst ` set (rev (map (\<lambda>r. (record_key r, r)) live))"
    unfolding live_by_key_def by (rule map_of_eq_None_iff)
  then show ?thesis by (simp add: image_image)
qed

lemma missing_record_None:
  "missing_record live ds = None \<longleftrightarrow>
     (\<forall>d \<in> set ds. \<exists>cur. live (record_key d) = Some cur
        \<and> equal_fold (trim_space (d_value cur)) (trim_space (d_value d)))"
  by (induction ds) (auto split: option.splits)

lemma verify_edge_auth_None:
  "verify_edge_auth live added = None \<longleftrightarrow>
     (\<forall>want \<in> set added. u_mode (r_upstream want) \<noteq> ModeMeshGrant \<longrightarrow>
        (\<exists>got. auth_of live (r_host want) = Some got
           \<and> normalize_auth_presence got = normalize_auth_presence (u_auth (r_upstream want))))"
  by (induction added) (auto split: option.splits)

lemma verify_edge_forward_tls_None:
  "verify_edge_forward_tls live added = None \<longleftrightarrow>
     (\<forall>want \<in> set added. u_upstream_tls (r_upstream want) \<longrightarrow>
        upstream_tls_of live (r_host want) = Some True)"
  by (induction added) (auto split: option.splits)

lemma verify_edge_live_ok:
  assumes "vr_ok (verify_edge_live label prov op ec live w)"
  shows "vr_ok (if o_verb op = Rename then verify_edge_rename label live ec
                else verify_edge_host label live op)
    \<and> verify_edge_auth live (e_add ec) = None \<and> verify_edge_forward_tls live (e_add ec) = None
    \<and> (\<forall>rt. ep_runtime prov = Some rt \<longrightarrow> rv_status (rt op ec w) \<noteq> RuntimeFailed)"
  using assms
  by (auto simp: verify_edge_live_def Let_def split: if_splits option.splits)

lemma verify_edge_live_runtime:
  assumes "vr_ok (verify_edge_live label prov op ec live w)" and "ep_runtime prov = Some rt"
    and "\<not> runtime_unconfirmed (verify_edge_live label prov op ec live w)"
  shows "rv_status (rt op ec w) = RuntimeConfirmed"
proof -
  have "rv_status (rt op ec w) \<noteq> RuntimeUnavailable"
    using assms
    by (auto simp: verify_edge_live_def Let_def runtime_unconfirmed_def
        split: if_splits option.splits)
  moreover have "rv_status (rt op ec w) \<noteq> RuntimeFailed"
    using verify_edge_live_ok [OF assms(1)] assms(2) by blast
  ultimately show ?thesis by (cases "rv_status (rt op ec w)") auto
qed

lemma verify_edge_mem:
  assumes "ep \<in> set (cs_edges cs)" and "binding e (p_edge ep) = Some b"
  shows "\<exists>v \<in> set (verify e op cs w). verify_edge e op w ep = [v]"
proof -
  obtain v where "verify_edge e op w ep = [v]"
    using assms(2) by (simp add: verify_edge_def Let_def)
  moreover from this assms(1) have "v \<in> (\<Union>x \<in> set (cs_edges cs). set (verify_edge e op w x))"
    by (intro UN_I [of ep]) simp_all
  ultimately show ?thesis by (auto simp: verify_def)
qed

lemma verified_edge:
  assumes "verified (verify e op cs w)" and "ep \<in> set (cs_edges cs)"
    and "binding e (p_edge ep) = Some b"
  shows "\<exists>live. ep_read (b_provider b) w = Inr live \<and> l_deny_present live
     \<and> vr_ok (verify_edge_live (edge_step_label (p_edge ep) (p_driver ep)) (b_provider b) op
               (p_change ep) live w)"
proof -
  obtain v where "v \<in> set (verify e op cs w)" "verify_edge e op w ep = [v]"
    using verify_edge_mem [OF assms(2,3)] by blast
  with assms(1,3) have "verify_edge e op w ep = [v] \<and> vr_ok v" by (simp add: verified_iff)
  then show ?thesis
    using assms(3) by (auto simp: verify_edge_def Let_def split: sum.splits if_splits)
qed

lemma verified_provider:
  "verified (verify e op cs w) \<Longrightarrow> dp \<in> set (g_dns e) \<Longrightarrow> vr_ok (verify_provider op w dp)"
proof -
  assume v: "verified (verify e op cs w)" and "dp \<in> set (g_dns e)"
  then have "verify_provider op w dp \<in> set (verify e op cs w)" unfolding verify_def by auto
  with v show ?thesis unfolding verified_iff by blast
qed

end
