(* ===== verification/Apply.thy ===== *)
theory Apply
  imports Verify
begin

text \<open>
  The imperative writes: \<open>Apply\<close>, \<open>applyPlanned\<close> and \<open>gateRuntimeVerify\<close> of
  \<open>internal/core/apply.go\<close>, \<open>Resume\<close> of \<open>resume.go\<close>, \<open>Rename\<close> and \<open>PlanRename\<close> of
  \<open>rename.go\<close>. A command maps the world to its error, its report and the new world; the
  confirmation callback sees the change set and only that. \<open>transact\<close> is the part that the
  imperative, reconcile and declarative writes have in common: run the steps, roll back on a
  failed step, verify, roll back on a failed or unconfirmed verification.
\<close>

section \<open>The transaction\<close>

definition gate_runtime_verify :: "'w engine \<Rightarrow> verify_result list \<Rightarrow> 'w compensator list \<Rightarrow> txn_outcome
    \<Rightarrow> 'w \<Rightarrow> core_err option \<times> txn_outcome \<times> 'w" where
  "gate_runtime_verify e vs applied out w =
     (if g_allow_unverified e then (None, out, w)
      else if runtime_unconfirmed_results vs = [] then (None, out, w)
      else let (out', w') = rollback e applied out w
           in (Some (ErrUnverifiedWrite (map vr_provider (runtime_unconfirmed_results vs))), out', w'))"

record txn_result =
  x_err :: "core_err option"
  x_applied :: bool
  x_verify :: "verify_result list"
  x_out :: txn_outcome

definition transact :: "'w engine \<Rightarrow> 'w apply_step list \<Rightarrow> ('w \<Rightarrow> verify_result list) \<Rightarrow> edge_plan list
    \<Rightarrow> 'w \<Rightarrow> txn_result \<times> 'w" where
  "transact e steps vf edges w =
     (case run_steps steps [] w of
        (Some (s, err), applied, w1) \<Rightarrow>
          let out = (case s_edge s of
                None \<Rightarrow> no_outcome | Some ed \<Rightarrow> snd (probe_edge (snd ed) w1 no_outcome));
              (out', w2) = rollback e applied out w1
          in (\<lparr>x_err = Some (ErrApplyStep (s_name s) err), x_applied = False, x_verify = [], x_out = out'\<rparr>, w2)
      | (None, applied, w1) \<Rightarrow>
          let vs = vf w1
          in if \<not> verified vs then
               let (out', w2) = rollback e applied no_outcome w1
               in (\<lparr>x_err = Some (ErrVerifyFailed (map vr_provider (filter (\<lambda>v. \<not> vr_ok v) vs))),
                    x_applied = True, x_verify = vs, x_out = out'\<rparr>, w2)
             else
               (case gate_runtime_verify e vs applied no_outcome w1 of
                  (Some err, out', w2) \<Rightarrow>
                    (\<lparr>x_err = Some err, x_applied = True, x_verify = vs, x_out = out'\<rparr>, w2)
                | (None, out', w2) \<Rightarrow>
                    let (out'', w3) = persist_edges e edges out' w2
                    in (\<lparr>x_err = None, x_applied = True, x_verify = vs, x_out = out''\<rparr>, w3)))"

section \<open>Apply\<close>

record apply_report =
  ar_op :: op
  ar_applied :: bool
  ar_noop :: bool
  ar_verify :: "verify_result list"
  ar_new_public :: "string list"
  ar_out :: txn_outcome

definition mk_report :: "op \<Rightarrow> apply_report" where
  "mk_report op = \<lparr>ar_op = op, ar_applied = False, ar_noop = False, ar_verify = [],
     ar_new_public = [], ar_out = no_outcome\<rparr>"

type_synonym confirm = "change_set \<Rightarrow> perr + bool"

fun snapshots :: "'w engine \<Rightarrow> 'w \<Rightarrow> edge_plan list \<Rightarrow> (string \<Rightarrow> live_edge_state)
    \<Rightarrow> core_err + (string \<Rightarrow> live_edge_state)" where
  "snapshots e w [] m = Inr m"
| "snapshots e w (ep # eps) m =
     (case binding e (p_edge ep) of
        None \<Rightarrow> snapshots e w eps m
      | Some b \<Rightarrow>
          (case ep_read (b_provider b) w of
             Inl err \<Rightarrow> Inl (ErrSnapshot (p_edge ep) err)
           | Inr snap \<Rightarrow> snapshots e w eps (m(p_edge ep := snap))))"

definition apply_planned :: "'w engine \<Rightarrow> op \<Rightarrow> change_set \<Rightarrow> confirm \<Rightarrow> 'w
    \<Rightarrow> core_err option \<times> apply_report \<times> 'w" where
  "apply_planned e op cs confirm w =
     (let rep = (mk_report op)\<lparr>ar_new_public := cs_new_public cs\<rparr>
      in if change_set_empty cs then (None, rep\<lparr>ar_noop := True\<rparr>, w)
         else (case gate_ownership e cs w of
                 Some err \<Rightarrow> (Some err, rep, w)
               | None \<Rightarrow>
                   (case confirm cs of
                      Inl err \<Rightarrow> (Some (ErrConfirm err), rep, w)
                    | Inr ok \<Rightarrow>
                        if \<not> ok then (None, rep, w)
                        else (case snapshots e w (cs_edges cs) (\<lambda>_. empty_live False) of
                                Inl err \<Rightarrow> (Some err, rep, w)
                              | Inr snaps \<Rightarrow>
                                  let (x, w') = transact e (build_steps e op cs snaps)
                                        (verify e op cs) (cs_edges cs) w
                                  in (x_err x, rep\<lparr>ar_applied := x_applied x, ar_verify := x_verify x,
                                                   ar_out := x_out x\<rparr>, w')))))"

definition apply_op :: "'w engine \<Rightarrow> op \<Rightarrow> confirm \<Rightarrow> 'w \<Rightarrow> core_err option \<times> apply_report \<times> 'w" where
  "apply_op e op confirm w =
     (case gate_read_only e of
        Some err \<Rightarrow> (Some err, mk_report op, w)
      | None \<Rightarrow>
          (case plan e op w of
             Inl err \<Rightarrow> (Some err, mk_report op, w)
           | Inr cs \<Rightarrow> apply_planned e op cs confirm w))"

section \<open>Resume\<close>

record resume_report =
  re_op :: op
  re_already :: "string list"
  re_pending :: "string list"
  re_nothing :: bool
  re_apply :: apply_report

definition resume_split :: "'w engine \<Rightarrow> change_set \<Rightarrow> string list \<times> string list" where
  "resume_split e cs =
     (let edges = map (\<lambda>ep. (edge_change_empty (p_change ep), edge_step_label (p_edge ep) (p_driver ep)))
            (cs_edges cs);
          dns = map (\<lambda>(i, dp). (\<not> (i < length (cs_dns cs) \<and> \<not> dns_change_empty (cs_dns cs ! i)), dns_label dp))
            (enumerate 0 (g_dns e))
      in (map snd (filter fst (edges @ dns)), map snd (filter (\<lambda>x. \<not> fst x) (edges @ dns))))"

definition resume :: "'w engine \<Rightarrow> op \<Rightarrow> confirm \<Rightarrow> 'w \<Rightarrow> core_err option \<times> resume_report \<times> 'w" where
  "resume e op confirm w =
     (let rr = \<lparr>re_op = op, re_already = [], re_pending = [], re_nothing = False, re_apply = mk_report op\<rparr>
      in case gate_read_only e of
           Some err \<Rightarrow> (Some err, rr, w)
         | None \<Rightarrow>
             (case plan e op w of
                Inl err \<Rightarrow> (Some err, rr, w)
              | Inr cs \<Rightarrow>
                  let (already, pending) = resume_split e cs;
                      rr = rr\<lparr>re_already := already, re_pending := pending\<rparr>
                  in if change_set_empty cs then (None, rr\<lparr>re_nothing := True\<rparr>, w)
                     else let (err, rep, w') = apply_planned e op cs confirm w
                          in (err, rr\<lparr>re_apply := rep\<rparr>, w')))"

section \<open>Rename\<close>

definition rename_op :: "string \<Rightarrow> op" where
  "rename_op new_host = mk_op Rename [] new_host"

text \<open>One edge of \<open>PlanRename\<close>: \<open>None\<close> when it does not hold the old host.\<close>

definition rename_edge :: "'w \<Rightarrow> string \<Rightarrow> string \<Rightarrow> 'w edge_binding \<Rightarrow> core_err + edge_plan option" where
  "rename_edge w old new b =
     (case ep_read (b_provider b) w of
        Inl err \<Rightarrow> Inl (ErrReadEdge (b_name b) err)
      | Inr live \<Rightarrow>
          (case route_of live old of
             None \<Rightarrow> Inr None
           | Some src \<Rightarrow>
               if has_host live new then Inl (ErrRenameExists new (b_name b))
               else if u_auth (r_upstream src) = auth_detected
                    then Inl (ErrRenameAuthDetected old (b_name b))
               else Inr (Some \<lparr>p_edge = b_name b, p_driver = ep_name (b_provider b),
                      p_change = no_edge_change\<lparr>
                        e_add := [mk_route new ((r_upstream src)\<lparr>u_server_name := new\<rparr>)],
                        e_remove := [r_host src]\<rparr>\<rparr>)))"

definition plan_rename :: "'w engine \<Rightarrow> string \<Rightarrow> string \<Rightarrow> 'w \<Rightarrow> core_err + change_set" where
  "plan_rename e old0 new0 w =
     (let old = trim_space old0; new = trim_space new0
      in if old = [] \<or> new = [] then Inl ErrRenameEmpty
         else if equal_fold old new then Inl ErrRenameSame
         else rbind (rmap (rename_edge w old new) (g_edges e)) (\<lambda>eps.
                let edges = concat (map (\<lambda>x. case x of None \<Rightarrow> [] | Some ep \<Rightarrow> [ep]) eps)
                in if edges = [] then Inl (ErrRenameNotExposed old)
                   else Inr ((mk_change_set (rename_op new))\<lparr>cs_edges := edges, cs_new_public := [new]\<rparr>)))"

definition rename :: "'w engine \<Rightarrow> string \<Rightarrow> string \<Rightarrow> confirm \<Rightarrow> 'w
    \<Rightarrow> core_err option \<times> apply_report \<times> 'w" where
  "rename e old new confirm w =
     (case gate_read_only e of
        Some err \<Rightarrow> (Some err, mk_report (rename_op (trim_space new)), w)
      | None \<Rightarrow>
          (case plan_rename e old new w of
             Inl err \<Rightarrow> (Some err, mk_report (rename_op (trim_space new)), w)
           | Inr cs \<Rightarrow> apply_planned e (cs_op cs) cs confirm w))"

section \<open>Lemmas\<close>

lemma gate_runtime_verify_None:
  "gate_runtime_verify e vs applied out w = (None, out', w') \<Longrightarrow>
     out' = out \<and> w' = w \<and> (g_allow_unverified e \<or> runtime_unconfirmed_results vs = [])"
  by (auto simp: gate_runtime_verify_def Let_def split: if_splits prod.splits)

lemma transact_success:
  assumes "transact e steps vf edges w = (x, w')" and "x_err x = None"
  shows "\<exists>w1. exec steps w w1 \<and> x_verify x = vf w1 \<and> verified (vf w1)
     \<and> (g_allow_unverified e \<or> runtime_unconfirmed_results (vf w1) = [])
     \<and> (x_out x, w') = persist_edges e edges no_outcome w1 \<and> x_applied x"
proof (cases "run_steps steps [] w")
  case (fields r applied w1)
  show ?thesis
  proof (cases r)
    case (Some se)
    with assms fields show ?thesis
      by (cases se) (auto simp: transact_def Let_def split: prod.splits)
  next
    case None
    have v: "verified (vf w1)"
      using assms fields None by (auto simp: transact_def Let_def split_beta split: if_splits)
    have ok: "g_allow_unverified e \<or> runtime_unconfirmed_results (vf w1) = []"
      using assms fields None v
      by (auto simp: transact_def Let_def split_beta gate_runtime_verify_def split: if_splits)
    then have g: "gate_runtime_verify e (vf w1) applied no_outcome w1 = (None, no_outcome, w1)"
      by (auto simp: gate_runtime_verify_def)
    have t: "transact e steps vf edges w = (\<lparr>x_err = None, x_applied = True, x_verify = vf w1,
        x_out = fst (persist_edges e edges no_outcome w1)\<rparr>, snd (persist_edges e edges no_outcome w1))"
      using fields None v g by (simp add: transact_def Let_def split_beta)
    have "exec steps w w1" 
      using run_steps_done [of steps "[]" w applied w1] fields None by simp
    with v ok assms(1) [unfolded t] show ?thesis by (intro exI [of _ w1]) auto
  qed
qed

lemma apply_planned_cases:
  assumes "apply_planned e op cs confirm w = (err, rep, w')"
  shows "w' = w \<and> \<not> ar_applied rep \<and> ar_out rep = no_outcome \<or>
    (\<exists>snaps x. \<not> change_set_empty cs \<and> gate_ownership e cs w = None \<and> confirm cs = Inr True
       \<and> snapshots e w (cs_edges cs) (\<lambda>_. empty_live False) = Inr snaps
       \<and> transact e (build_steps e op cs snaps) (verify e op cs) (cs_edges cs) w = (x, w')
       \<and> err = x_err x \<and> ar_applied rep = x_applied x \<and> ar_verify rep = x_verify x
       \<and> ar_out rep = x_out x)"
  using assms
  by (auto simp: apply_planned_def Let_def mk_report_def split: if_splits option.splits sum.splits prod.splits)

lemma apply_op_cases:
  "apply_op e op confirm w = (err, rep, w') \<Longrightarrow>
     w' = w \<and> \<not> ar_applied rep \<and> ar_out rep = no_outcome \<or>
     (\<exists>cs. \<not> g_read_only e \<and> plan e op w = Inr cs
        \<and> apply_planned e op cs confirm w = (err, rep, w'))"
  by (auto simp: apply_op_def gate_read_only_def mk_report_def split: if_splits sum.splits)

text \<open>What a successful write leaves, at the world \<open>w1\<close> it verified (persisting only follows).\<close>

lemma apply_planned_success:
  assumes "apply_planned e op cs confirm w = (None, rep, w')" and "ar_applied rep"
  shows "\<exists>w1 snaps. confirm cs = Inr True \<and> gate_ownership e cs w = None
    \<and> exec (build_steps e op cs snaps) w w1 \<and> verified (verify e op cs w1)
    \<and> (g_allow_unverified e \<or> runtime_unconfirmed_results (verify e op cs w1) = [])
    \<and> w' = snd (persist_edges e (cs_edges cs) no_outcome w1) \<and> ar_verify rep = verify e op cs w1"
proof -
  from apply_planned_cases [OF assms(1)] assms(2) obtain snaps x where
    c: "gate_ownership e cs w = None" "confirm cs = Inr True"
      "transact e (build_steps e op cs snaps) (verify e op cs) (cs_edges cs) w = (x, w')"
      "x_err x = None" "ar_verify rep = x_verify x" by auto
  from transact_success [OF c(3,4)] obtain w1 where w1: "exec (build_steps e op cs snaps) w w1"
    "x_verify x = verify e op cs w1" "verified (verify e op cs w1)"
    "g_allow_unverified e \<or> runtime_unconfirmed_results (verify e op cs w1) = []"
    "(x_out x, w') = persist_edges e (cs_edges cs) no_outcome w1" by blast
  have "w' = snd (persist_edges e (cs_edges cs) no_outcome w1)"
    using arg_cong [OF w1(5), of snd] by simp
  with c w1 show ?thesis by (intro exI [of _ w1] exI [of _ snaps]) simp
qed

lemma apply_op_success:
  assumes "apply_op e op confirm w = (None, rep, w')" and "ar_applied rep"
  shows "\<exists>cs. plan e op w = Inr cs \<and> apply_planned e op cs confirm w = (None, rep, w')"
  using apply_op_cases [OF assms(1)] assms(2) by blast

lemma verified_edge_facts:
  assumes "verified (verify e op cs w)" and "ep \<in> set (cs_edges cs)"
    and "binding e (p_edge ep) = Some b"
    and "g_allow_unverified e \<or> runtime_unconfirmed_results (verify e op cs w) = []"
  shows "\<exists>live. ep_read (b_provider b) w = Inr live \<and> l_deny_present live
    \<and> (o_verb op = Expose \<longrightarrow> has_host live (o_host op))
    \<and> (o_verb op = Unexpose \<longrightarrow> \<not> has_host live (o_host op))
    \<and> verify_edge_auth live (e_add (p_change ep)) = None
    \<and> verify_edge_forward_tls live (e_add (p_change ep)) = None
    \<and> (\<forall>rt. ep_runtime (b_provider b) = Some rt \<and> \<not> g_allow_unverified e
         \<longrightarrow> rv_status (rt op (p_change ep) w) = RuntimeConfirmed)"
proof -
  let ?l = "edge_step_label (p_edge ep) (p_driver ep)"
  from verified_edge [OF assms(1-3)] obtain live where
    live: "ep_read (b_provider b) w = Inr live" "l_deny_present live"
      "vr_ok (verify_edge_live ?l (b_provider b) op (p_change ep) live w)" by blast
  note ok = verify_edge_live_ok [OF live(3)]
  obtain v where v: "v \<in> set (verify e op cs w)" "verify_edge e op w ep = [v]"
    using verify_edge_mem [OF assms(2,3)] by blast
  then have "v = verify_edge_live ?l (b_provider b) op (p_change ep) live w"
    using assms(3) live by (simp add: verify_edge_def Let_def)
  with v(1) assms(4) have unc: "g_allow_unverified e
      \<or> \<not> runtime_unconfirmed (verify_edge_live ?l (b_provider b) op (p_change ep) live w)"
    by (auto simp: runtime_unconfirmed_results_def filter_empty_conv)
  have "o_verb op = Expose \<Longrightarrow> has_host live (o_host op)"
    "o_verb op = Unexpose \<Longrightarrow> \<not> has_host live (o_host op)"
    using ok by (auto simp: verify_edge_host_def reachable_def split: if_splits)
  with live(1,2) ok unc verify_edge_live_runtime [OF live(3)] show ?thesis by blast
qed

context step_contract
begin

text \<open>Under the contract a transaction that reports an error, and no failed undo, has taken back
  everything it did; in a calm world no undo fails.\<close>

lemma transact_restores:
  assumes "transact e steps vf edges w = (x, w')" and "x_err x \<noteq> None"
    and "\<forall>s \<in> set steps. fits s w" and "sorted_wrt indep steps" and "g_rollback e"
    and "calm w \<or> t_rollback_errors (x_out x) = []"
  shows "obs w' = obs w \<and> t_rollback_errors (x_out x) = []"
proof (cases "run_steps steps [] w")
  case (fields r applied w1)
  show ?thesis
  proof (cases r)
    case (Some se)
    obtain s err where se: "se = (s, err)" by (cases se)
    let ?out = "case s_edge s of None \<Rightarrow> no_outcome | Some ed \<Rightarrow> snd (probe_edge (snd ed) w1 no_outcome)"
    have "t_rollback_errors ?out = []"
      by (auto simp: probe_edge_def no_outcome_def split: option.splits)
    moreover have "rollback e applied ?out w1 = (x_out x, w')"
      using assms(1) fields Some se by (auto simp: transact_def Let_def split: prod.splits)
    ultimately show ?thesis
      using rollback_after_failure [OF _ assms(3-5)] fields Some se assms(6) by blast
  next
    case None
    have clean: "t_rollback_errors no_outcome = []" by (simp add: no_outcome_def)
    have "rollback e applied no_outcome w1 = (x_out x, w')"
      using assms(1,2) fields None
      by (auto simp: transact_def Let_def gate_runtime_verify_def split: prod.splits if_splits)
    with rollback_after_success [OF _ assms(3-5) _ clean] fields None assms(6) show ?thesis by blast
  qed
qed

lemma apply_planned_restores:
  assumes "apply_planned e op cs confirm w = (Some err, rep, w')" and "g_rollback e"
    and "\<And>snaps. snapshots e w (cs_edges cs) (\<lambda>_. empty_live False) = Inr snaps \<Longrightarrow>
           (\<forall>s \<in> set (build_steps e op cs snaps). fits s w)
           \<and> sorted_wrt indep (build_steps e op cs snaps)"
    and "calm w \<or> t_rollback_errors (ar_out rep) = []"
  shows "obs w' = obs w \<and> t_rollback_errors (ar_out rep) = []"
proof (cases "w' = w \<and> ar_out rep = no_outcome")
  case False
  with apply_planned_cases [OF assms(1)] obtain snaps x where
    x: "snapshots e w (cs_edges cs) (\<lambda>_. empty_live False) = Inr snaps"
      "transact e (build_steps e op cs snaps) (verify e op cs) (cs_edges cs) w = (x, w')"
      "Some err = x_err x" "ar_out rep = x_out x" by blast
  from x(3) have "x_err x \<noteq> None" by (metis option.distinct(1))
  from transact_restores [OF x(2) this] assms(3) [OF x(1)] assms(2,4) x(4) show ?thesis by simp
qed (simp add: no_outcome_def)

end

section \<open>Properties of the imperative writes\<close>

text \<open>C36. A write changes nothing unless it was let through: a read-only engine, a failing plan, an
  ownership refusal, or a confirmation that fails or declines leaves the world exactly as it was
  and applies nothing; an empty plan is not even shown for confirmation.\<close>

theorem apply_op_untouched:
  assumes "apply_op e op confirm w = (err, rep, w')"
    and "g_read_only e \<or> (\<exists>pe. plan e op w = Inl pe)
      \<or> (\<exists>cs. plan e op w = Inr cs
           \<and> (change_set_empty cs \<or> gate_ownership e cs w \<noteq> None \<or> confirm cs \<noteq> Inr True))"
  shows "w' = w \<and> \<not> ar_applied rep \<and> (g_read_only e \<longrightarrow> err = Some ErrReadOnly)"
proof -
  have "w' = w \<and> \<not> ar_applied rep \<and> ar_out rep = no_outcome"
    using apply_op_cases [OF assms(1)]
  proof
    assume "\<exists>cs. \<not> g_read_only e \<and> plan e op w = Inr cs
        \<and> apply_planned e op cs confirm w = (err, rep, w')"
    then obtain cs where cs: "\<not> g_read_only e" "plan e op w = Inr cs"
      "apply_planned e op cs confirm w = (err, rep, w')" by blast
    with assms(2) have "change_set_empty cs \<or> gate_ownership e cs w \<noteq> None \<or> confirm cs \<noteq> Inr True"
      by auto
    with apply_planned_cases [OF cs(3)] show ?thesis by blast
  qed
  moreover have "g_read_only e \<Longrightarrow> err = Some ErrReadOnly"
    using assms(1) by (simp add: apply_op_def gate_read_only_def)
  ultimately show ?thesis by blast
qed

lemma apply_op_untouched_witness:
  "\<exists>err rep. apply_op (two_hop_engine\<lparr>g_read_only := True\<rparr>) planning_op (\<lambda>_. Inr True) empty_world
     = (err, rep, empty_world) \<and> err = Some ErrReadOnly"
proof -
  let ?e = "two_hop_engine\<lparr>g_read_only := True\<rparr>"
  obtain err rep w' where a: "apply_op ?e planning_op (\<lambda>_. Inr True) empty_world = (err, rep, w')"
    by (cases "apply_op ?e planning_op (\<lambda>_. Inr True) empty_world")
  from apply_op_untouched [OF a] have "w' = empty_world \<and> err = Some ErrReadOnly" by simp
  with a show ?thesis by blast
qed

text \<open>C2. A write that reports success has been read back: at the moment of verification every
  planned edge was readable, kept its default deny, and carried (expose) or no longer carried
  (unexpose) the host; every added route had the intended authentication and upstream TLS; and a
  driver that can ask its running daemon had it confirmed, unless the operator accepted an
  unconfirmed write.\<close>

theorem apply_success_edges:
  assumes "apply_op e op confirm w = (None, rep, w')" and "ar_applied rep"
  shows "\<exists>cs w1. plan e op w = Inr cs \<and> w' = snd (persist_edges e (cs_edges cs) no_outcome w1)
    \<and> (\<forall>ep \<in> set (cs_edges cs). \<forall>b. binding e (p_edge ep) = Some b \<longrightarrow>
        (\<exists>live. ep_read (b_provider b) w1 = Inr live \<and> l_deny_present live
          \<and> (o_verb op = Expose \<longrightarrow> has_host live (o_host op))
          \<and> (o_verb op = Unexpose \<longrightarrow> \<not> has_host live (o_host op))
          \<and> (\<forall>want \<in> set (e_add (p_change ep)). u_mode (r_upstream want) \<noteq> ModeMeshGrant \<longrightarrow>
               (\<exists>got. auth_of live (r_host want) = Some got
                  \<and> normalize_auth_presence got = normalize_auth_presence (u_auth (r_upstream want))))
          \<and> (\<forall>want \<in> set (e_add (p_change ep)). u_upstream_tls (r_upstream want) \<longrightarrow>
               upstream_tls_of live (r_host want) = Some True)
          \<and> (\<forall>rt. ep_runtime (b_provider b) = Some rt \<and> \<not> g_allow_unverified e \<longrightarrow>
               rv_status (rt op (p_change ep) w1) = RuntimeConfirmed)))"
proof -
  from apply_op_success [OF assms] obtain cs where
    cs: "plan e op w = Inr cs" "apply_planned e op cs confirm w = (None, rep, w')" by blast
  from apply_planned_success [OF cs(2) assms(2)] obtain w1 where
    w1: "verified (verify e op cs w1)"
      "g_allow_unverified e \<or> runtime_unconfirmed_results (verify e op cs w1) = []"
      "w' = snd (persist_edges e (cs_edges cs) no_outcome w1)" by blast
  note facts = verified_edge_facts [OF w1(1) _ _ w1(2), unfolded verify_edge_auth_None
      verify_edge_forward_tls_None]
  show ?thesis using cs(1) w1(3) facts by blast
qed

definition yes :: confirm where "yes cs = Inr True"

definition one_edge_dns_engine :: "mem_world engine" where
  "one_edge_dns_engine = new_multi [g_edges two_hop_engine ! 0] ''ex''
     [mem_dns ''ag'' ScopeInternal ''ex'' ''h'',
      mem_dns ''cf'' ScopePublic ''ex'' ''p'']"

lemma demo_apply:
  "case apply_op one_edge_dns_engine planning_op yes empty_world of
     (err, rep, _) \<Rightarrow> err = None \<and> ar_applied rep"
  by code_simp

lemma demo_apply_result:
  "\<exists>rep w'. apply_op one_edge_dns_engine planning_op yes empty_world = (None, rep, w') \<and> ar_applied rep"
  using demo_apply by (auto split: prod.splits)

lemma apply_success_edges_witness:
  "\<exists>rep w'. apply_op one_edge_dns_engine planning_op yes empty_world = (None, rep, w')
     \<and> (\<exists>cs w1. plan one_edge_dns_engine planning_op empty_world = Inr cs
          \<and> w' = snd (persist_edges one_edge_dns_engine (cs_edges cs) no_outcome w1))"
proof -
  obtain rep w' where a: "apply_op one_edge_dns_engine planning_op yes empty_world = (None, rep, w')"
    "ar_applied rep" using demo_apply_result by blast
  from apply_success_edges [OF a] a(1) show ?thesis by blast
qed

text \<open>C3. A write that reports success has been read back in DNS too: every provider that is
  appointed and whose zone covers the host was readable, and held every desired record with the
  desired value (expose) or none of them (unexpose).\<close>

theorem apply_success_dns:
  assumes "apply_op e op confirm w = (None, rep, w')" and "ar_applied rep"
  shows "\<exists>cs w1. plan e op w = Inr cs \<and> w' = snd (persist_edges e (cs_edges cs) no_outcome w1)
    \<and> (\<forall>dp \<in> set (g_dns e). \<forall>ds. scope_selected (o_scopes op) (dp_scope dp)
         \<and> dns_covers_host dp (o_host op) \<and> dp_desired dp op = Inr ds \<longrightarrow>
         (\<exists>recs. dp_live dp w1 = Inr recs
           \<and> (o_verb op = Expose \<longrightarrow> (\<forall>d \<in> set ds. \<exists>r \<in> set recs. record_key r = record_key d
                \<and> equal_fold (trim_space (d_value r)) (trim_space (d_value d))))
           \<and> (o_verb op = Unexpose \<longrightarrow> (\<forall>d \<in> set ds. \<forall>r \<in> set recs. record_key r \<noteq> record_key d))))"
proof -
  from apply_op_success [OF assms] obtain cs where
    cs: "plan e op w = Inr cs" "apply_planned e op cs confirm w = (None, rep, w')" by blast
  from apply_planned_success [OF cs(2) assms(2)] obtain w1 where
    w1: "verified (verify e op cs w1)"
      "w' = snd (persist_edges e (cs_edges cs) no_outcome w1)" by blast
  have "\<exists>recs. dp_live dp w1 = Inr recs
       \<and> (o_verb op = Expose \<longrightarrow> (\<forall>d \<in> set ds. \<exists>r \<in> set recs. record_key r = record_key d
            \<and> equal_fold (trim_space (d_value r)) (trim_space (d_value d))))
       \<and> (o_verb op = Unexpose \<longrightarrow> (\<forall>d \<in> set ds. \<forall>r \<in> set recs. record_key r \<noteq> record_key d))"
    if dp: "dp \<in> set (g_dns e)" and sel: "scope_selected (o_scopes op) (dp_scope dp)"
      "dns_covers_host dp (o_host op)" and ds: "dp_desired dp op = Inr ds" for dp ds
  proof -
    have ok: "vr_ok (verify_provider op w1 dp)" by (rule verified_provider [OF w1(1) dp])
    with sel obtain recs where recs: "dp_live dp w1 = Inr recs"
      "vr_ok (verify_dns (dns_label dp) op ds recs)"
      using ds by (auto simp: verify_provider_def split: sum.splits)
    have "\<exists>r \<in> set recs. record_key r = record_key d
            \<and> equal_fold (trim_space (d_value r)) (trim_space (d_value d))"
      if "o_verb op = Expose" "d \<in> set ds" for d
    proof -
      from recs(2) that(1) have "missing_record (live_by_key recs) ds = None"
        by (auto simp: verify_dns_def split: option.splits)
      with that(2) obtain cur where "live_by_key recs (record_key d) = Some cur"
        "equal_fold (trim_space (d_value cur)) (trim_space (d_value d))"
        by (auto simp: missing_record_None)
      with live_by_key_Some show ?thesis by blast
    qed
    moreover have "record_key r \<noteq> record_key d"
      if "o_verb op = Unexpose" "d \<in> set ds" "r \<in> set recs" for d r
    proof -
      from recs(2) that(1) have "find (\<lambda>d. live_by_key recs (record_key d) \<noteq> None) ds = None"
        by (auto simp: verify_dns_def split: option.splits)
      with that(2) have "live_by_key recs (record_key d) = None" by (simp add: find_None_iff')
      with that(3) show ?thesis by (metis image_eqI live_by_key_None)
    qed
    ultimately show ?thesis using recs(1) by blast
  qed
  with cs(1) w1(2) show ?thesis by blast
qed

lemma apply_success_dns_witness:
  "\<exists>rep w'. apply_op one_edge_dns_engine planning_op yes empty_world = (None, rep, w')
     \<and> (\<exists>cs. plan one_edge_dns_engine planning_op empty_world = Inr cs)"
proof -
  obtain rep w' where a: "apply_op one_edge_dns_engine planning_op yes empty_world = (None, rep, w')"
    "ar_applied rep" using demo_apply_result by blast
  from apply_success_dns [OF a] a(1) show ?thesis by blast
qed

text \<open>Exposing an internal-only service never succeeds where a public provider covers its
  host: the plan leaves that provider alone, as declared, but the verification skips it only for
  the appointment and the zone and so demands the public record, finds it missing and takes the
  whole write back.\<close>

theorem internal_scope_expose_fails_verification:
  "case apply_op (one_edge_dns_engine\<lparr>g_internal_scope := [(''g'', True)]\<rparr>) planning_op yes empty_world of
     (err, rep, w') \<Rightarrow> err = Some (ErrVerifyFailed [''cf/public''])
       \<and> t_rolled_back (ar_out rep)
       \<and> l_routes (mw_edges w' ''home'') = [] \<and> mw_dns w' ''ag'' = []"
  by code_simp

lemma mset_partition_labels:
  "mset (map snd (filter fst xs) @ map snd (filter (\<lambda>x. \<not> fst x) xs)) = mset (map snd xs)"
  by (induction xs) auto

text \<open>C37. Resuming is applying: on an engine that may write, a resume returns the error and the
  world of an apply of the same operation, lists each planned edge and each DNS provider exactly
  once as already done or pending, and reports nothing to do exactly when nothing is pending.\<close>

theorem resume_is_apply:
  assumes "resume e op confirm w = (err, rr, w')" and "\<not> g_read_only e"
    and "plan e op w = Inr cs"
  shows "(\<exists>rep. apply_op e op confirm w = (err, rep, w'))
    \<and> mset (re_already rr @ re_pending rr)
      = mset (map (\<lambda>ep. edge_step_label (p_edge ep) (p_driver ep)) (cs_edges cs) @ map dns_label (g_dns e))
    \<and> (re_nothing rr \<longleftrightarrow> re_pending rr = [])"
proof -
  let ?es = "map (\<lambda>ep. (edge_change_empty (p_change ep), edge_step_label (p_edge ep) (p_driver ep))) (cs_edges cs)"
  let ?ds = "map (\<lambda>(i, dp). (\<not> (i < length (cs_dns cs) \<and> \<not> dns_change_empty (cs_dns cs ! i)), dns_label dp))
            (enumerate 0 (g_dns e))"
  let ?xs = "?es @ ?ds"
  have parts: "re_already rr = map snd (filter fst ?xs)" "re_pending rr = map snd (filter (\<lambda>x. \<not> fst x) ?xs)"
    "re_nothing rr = change_set_empty cs"
    using assms
    by (auto simp: resume_def gate_read_only_def resume_split_def Let_def split: if_splits prod.splits)
  have ds: "map snd ?ds = map dns_label (g_dns e)"
    by (simp add: list_eq_iff_nth_eq nth_enumerate_eq)
  have es: "map snd ?es = map (\<lambda>ep. edge_step_label (p_edge ep) (p_driver ep)) (cs_edges cs)"
    by simp
  have "mset (re_already rr @ re_pending rr) = mset (map snd ?xs)"
    unfolding parts by (rule mset_partition_labels)
  then have m: "mset (re_already rr @ re_pending rr)
      = mset (map (\<lambda>ep. edge_step_label (p_edge ep) (p_driver ep)) (cs_edges cs) @ map dns_label (g_dns e))"
    unfolding map_append es ds .
  have len: "length (cs_dns cs) = length (g_dns e)" by (rule plan_dns_length [OF assms(3)])
  have "(\<forall>x \<in> set ?ds. fst x) \<longleftrightarrow> (\<forall>d \<in> set (cs_dns cs). dns_change_empty d)"
    using len by (simp add: all_set_conv_all_nth nth_enumerate_eq)
  moreover have "edge_change_empty (cs_edge cs)" using plan_Inr [OF assms(3)] by blast
  ultimately have n: "re_nothing rr \<longleftrightarrow> re_pending rr = []"
    using parts by (simp add: change_set_empty_iff filter_empty_conv ball_Un)
  have "\<exists>rep. apply_op e op confirm w = (err, rep, w')"
    using assms
    by (auto simp: resume_def apply_op_def gate_read_only_def Let_def apply_planned_def
        split: if_splits prod.splits)
  with m n show ?thesis by blast
qed

lemma resume_is_apply_witness:
  "\<exists>err rr w'. resume one_edge_dns_engine planning_op yes empty_world = (err, rr, w')
     \<and> length (re_already rr @ re_pending rr) = 3"
proof -
  obtain err rr w' where r: "resume one_edge_dns_engine planning_op yes empty_world = (err, rr, w')"
    by (cases "resume one_edge_dns_engine planning_op yes empty_world")
  have ro: "\<not> g_read_only one_edge_dns_engine" by (simp add: one_edge_dns_engine_def new_multi_def)
  obtain rep v where a: "apply_op one_edge_dns_engine planning_op yes empty_world = (None, rep, v)"
    "ar_applied rep" using demo_apply_result by blast
  from apply_op_success [OF a] obtain cs where cs: "plan one_edge_dns_engine planning_op empty_world = Inr cs"
    by blast
  have "length (cs_edges cs) = length (participants one_edge_dns_engine planning_op)"
    using arg_cong [OF plan_edge_names [OF cs], of length] by simp
  moreover have "length (participants one_edge_dns_engine planning_op) = 1"
    by (simp add: participants_def one_edge_dns_engine_def planning_defs edge_selected_def
        role_for_def fronts_def)
  moreover have "size (mset (re_already rr @ re_pending rr))
      = length (cs_edges cs) + length (g_dns one_edge_dns_engine)"
    using resume_is_apply [OF r ro cs] by simp
  moreover have "length (g_dns one_edge_dns_engine) = 2"
    by (simp add: one_edge_dns_engine_def new_multi_def)
  ultimately have "length (re_already rr @ re_pending rr) = 3"
    by (metis size_mset one_plus_numeral semiring_norm(3))
  with r show ?thesis by blast
qed

lemma rename_edge_Inr:
  "rename_edge w old new b = Inr (Some ep) \<Longrightarrow>
     \<exists>live src. ep_read (b_provider b) w = Inr live \<and> route_of live old = Some src
       \<and> \<not> has_host live new \<and> u_auth (r_upstream src) \<noteq> auth_detected \<and> p_edge ep = b_name b
       \<and> p_change ep = no_edge_change\<lparr>e_add := [mk_route new ((r_upstream src)\<lparr>u_server_name := new\<rparr>)],
           e_remove := [r_host src]\<rparr>"
  by (auto simp: rename_edge_def split: sum.splits option.splits if_splits)

lemma plan_rename_Inr:
  "plan_rename e old new w = Inr cs \<Longrightarrow>
     \<exists>eps. rmap (rename_edge w (trim_space old) (trim_space new)) (g_edges e) = Inr eps
       \<and> cs_edges cs = concat (map (\<lambda>x. case x of None \<Rightarrow> [] | Some ep \<Rightarrow> [ep]) eps)
       \<and> cs_edges cs \<noteq> [] \<and> cs_op cs = rename_op (trim_space new) \<and> cs_dns cs = []
       \<and> cs_new_public cs = [trim_space new] \<and> \<not> equal_fold (trim_space old) (trim_space new)"
  by (auto simp: plan_rename_def Let_def rbind_Inr split: if_splits)

text \<open>A planned rename moves each route as it is: on every edge it touches it removes exactly
  the route that answered the old host and adds the same upstream, same authentication included,
  under the new host; it never overwrites a route of the new name and never moves a route whose
  authentication it could not reproduce.\<close>

theorem plan_rename_moves_route:
  assumes "plan_rename e old new w = Inr cs" and "ep \<in> set (cs_edges cs)"
  shows "\<exists>b \<in> set (g_edges e). \<exists>live src. b_name b = p_edge ep \<and> ep_read (b_provider b) w = Inr live
    \<and> route_of live (trim_space old) = Some src \<and> \<not> has_host live (trim_space new)
    \<and> u_auth (r_upstream src) \<noteq> auth_detected
    \<and> e_remove (p_change ep) = [r_host src]
    \<and> e_add (p_change ep) = [mk_route (trim_space new)
         ((r_upstream src)\<lparr>u_server_name := trim_space new\<rparr>)]"
proof -
  from plan_rename_Inr [OF assms(1)] assms(2) obtain eps where
    eps: "rmap (rename_edge w (trim_space old) (trim_space new)) (g_edges e) = Inr eps" "Some ep \<in> set eps"
    by (auto split: option.splits)
  from rmap_Inr_set [OF eps] obtain b where b: "b \<in> set (g_edges e)"
    "rename_edge w (trim_space old) (trim_space new) b = Inr (Some ep)" by blast
  from b(1) rename_edge_Inr [OF b(2)] show ?thesis by force
qed

lemma plan_rename_moves_route_witness:
  "\<exists>cs. plan_rename one_edge_engine ''g.ex'' ''s.ex'' (owned_world [OwnCrenel]) = Inr cs
     \<and> (\<forall>ep \<in> set (cs_edges cs). e_remove (p_change ep) = [''g.ex''])"
proof -
  let ?w = "owned_world [OwnCrenel]"
  have "\<exists>cs. plan_rename one_edge_engine ''g.ex'' ''s.ex'' ?w = Inr cs"
    by (cases "plan_rename one_edge_engine ''g.ex'' ''s.ex'' ?w")
      (auto dest: arg_cong [of _ _ "case_sum (\<lambda>_. False) (\<lambda>_. True)"] intro: FalseE, code_simp)
  then obtain cs where cs: "plan_rename one_edge_engine ''g.ex'' ''s.ex'' ?w = Inr cs"
    by blast
  have "e_remove (p_change ep) = [''g.ex'']" if "ep \<in> set (cs_edges cs)" for ep
  proof -
    from plan_rename_moves_route [OF cs that] obtain b live src where
      b: "b \<in> set (g_edges one_edge_engine)" "ep_read (b_provider b) ?w = Inr live"
        "route_of live (trim_space ''g.ex'') = Some src"
        "e_remove (p_change ep) = [r_host src]" by blast
    then have "live = mw_edges ?w ''home''"
      by (simp add: one_edge_engine_def new_multi_def two_hop_engine_def)
    with b(3) have "src \<in> set (l_routes (mw_edges ?w ''home''))" using route_of_Some by blast
    with b(4) show ?thesis by (simp add: owned_world_def)
  qed
  with cs show ?thesis by blast
qed

text \<open>A rename never succeeds under a DNS provider whose zone covers the new host: the plan
  asks nothing of DNS, but the verification has no case for a rename there and fails, so the
  applied rename is reported as an error and taken back.\<close>

theorem rename_fails_with_covering_dns:
  assumes "rename e old new confirm w = (err, rep, w')" and "dp \<in> set (g_dns e)"
    and "dns_covers_host dp (trim_space new)" and "ar_applied rep"
  shows "err \<noteq> None"
proof
  assume none: "err = None"
  have "\<exists>cs. plan_rename e old new w = Inr cs
      \<and> apply_planned e (cs_op cs) cs confirm w = (None, rep, w')"
    using assms(1,4) none
    by (auto simp: rename_def gate_read_only_def mk_report_def split: if_splits sum.splits)
  then obtain cs where cs: "plan_rename e old new w = Inr cs"
    "apply_planned e (cs_op cs) cs confirm w = (None, rep, w')" by blast
  from plan_rename_Inr [OF cs(1)] have op: "cs_op cs = rename_op (trim_space new)" by blast
  from apply_planned_success [OF cs(2) assms(4)] obtain w1 where
    "verified (verify e (cs_op cs) cs w1)" by blast
  then have "vr_ok (verify_provider (cs_op cs) w1 dp)" by (rule verified_provider [OF _ assms(2)])
  then show False
    using assms(3)
    by (auto simp: op rename_op_def verify_provider_def verify_dns_def scope_selected_def
        split: sum.splits)
qed

lemma rename_fails_with_covering_dns_witness:
  "\<exists>err rep w'. rename one_edge_dns_engine ''g.ex'' ''s.ex'' yes
      (owned_world [OwnCrenel]) = (err, rep, w') \<and> ar_applied rep \<and> err \<noteq> None"
proof -
  let ?r = "rename one_edge_dns_engine ''g.ex'' ''s.ex'' yes (owned_world [OwnCrenel])"
  have ap: "ar_applied (fst (snd ?r))" by code_simp
  have cov: "dns_covers_host (g_dns one_edge_dns_engine ! 0) (trim_space ''s.ex'')" by code_simp
  have mem: "g_dns one_edge_dns_engine ! 0 \<in> set (g_dns one_edge_dns_engine)"
    by (simp add: one_edge_dns_engine_def new_multi_def)
  obtain err rep w' where r: "?r = (err, rep, w')" by (cases ?r)
  with ap have "ar_applied rep" by simp
  with rename_fails_with_covering_dns [OF r mem cov] r show ?thesis by blast
qed

end
