(* ===== verification/Reconcile.thy ===== *)
theory Reconcile
  imports Apply
begin

text \<open>
  Drift detection and repair: \<open>internal/core/reconcile.go\<close> (\<open>planReconcile\<close>,
  \<open>DetectDrift\<close>, \<open>Reconcile\<close>, \<open>verifyReconcile\<close>, \<open>canonicalRoute\<close>) and
  \<open>dns_coverage.go\<close>. The canonical state is the set of managed hosts exposed on any edge; the
  Go maps that are ranged over in sorted order are association lists by lower-case host. The
  zero \<open>Op\<close> of the planned change has an empty host, which is all that is read of it.
\<close>

section \<open>Canonical state\<close>

record canonical_state =
  cn_host :: "(string \<times> string) list"
  cn_mode :: "(string \<times> route_mode) list"
  cn_auth :: "(string \<times> string) list"
  cn_terminal :: "string list"

definition no_canon :: canonical_state where
  "no_canon = \<lparr>cn_host = [], cn_mode = [], cn_auth = [], cn_terminal = []\<rparr>"

definition canon_route :: "'w engine \<Rightarrow> 'w edge_binding \<Rightarrow> route \<Rightarrow> canonical_state \<Rightarrow> canonical_state" where
  "canon_route e b r c =
     (let svc = service_of e (r_host r)
      in if \<not> any_fronts e svc then c
         else
           let key = to_lower (r_host r);
               c = c\<lparr>cn_host := AList.update key (r_host r) (cn_host c)\<rparr>;
               terminal = (role_for e b svc = RoleTerminal)
           in if terminal \<and> key \<notin> set (cn_terminal c) then
                c\<lparr>cn_mode := AList.update key (u_mode (r_upstream r)) (cn_mode c),
                  cn_auth := AList.update key (u_auth (r_upstream r)) (cn_auth c),
                  cn_terminal := key # cn_terminal c\<rparr>
              else if key \<notin> set (cn_terminal c) then
                (if map_of (cn_mode c) key = None then
                   c\<lparr>cn_mode := AList.update key (u_mode (r_upstream r)) (cn_mode c),
                     cn_auth := AList.update key (u_auth (r_upstream r)) (cn_auth c)\<rparr>
                 else c)
              else c)"

type_synonym 'w edge_view = "'w edge_binding \<times> live_edge_state"

definition read_view :: "'w \<Rightarrow> 'w edge_binding \<Rightarrow> core_err + 'w edge_view" where
  "read_view w b =
     (case ep_read (b_provider b) w of
        Inl err \<Rightarrow> Inl (ErrReadEdge (b_name b) err)
      | Inr live \<Rightarrow> Inr (b, live))"

definition canon_of :: "'w engine \<Rightarrow> 'w edge_view list \<Rightarrow> canonical_state" where
  "canon_of e views =
     fold (\<lambda>(b, live). fold (canon_route e b) (l_routes live)) views no_canon"

definition canon_keys :: "canonical_state \<Rightarrow> string list" where
  "canon_keys c = sort (map fst (cn_host c))"

definition canon_host :: "canonical_state \<Rightarrow> string \<Rightarrow> string" where
  "canon_host c key = (case map_of (cn_host c) key of Some h \<Rightarrow> h | None \<Rightarrow> [])"

definition canon_mode :: "canonical_state \<Rightarrow> string \<Rightarrow> route_mode" where
  "canon_mode c key = (case map_of (cn_mode c) key of Some m \<Rightarrow> m | None \<Rightarrow> ModeHTTPProxy)"

definition canon_auth :: "canonical_state \<Rightarrow> string \<Rightarrow> string" where
  "canon_auth c key = (case map_of (cn_auth c) key of Some a \<Rightarrow> a | None \<Rightarrow> [])"

section \<open>Edge drift\<close>

datatype drift_kind =
  DriftMissingRoute | DriftModeMismatch | DriftMissingDNS | DriftStaleDNS | DriftValueDNS

record drift =
  f_kind :: drift_kind
  f_host :: string
  f_target :: string

definition mode_of :: "live_edge_state \<Rightarrow> string \<Rightarrow> route_mode option" where
  "mode_of live host = map_option (\<lambda>r. u_mode (r_upstream r)) (route_of live host)"

definition canonical_route :: "'w edge_binding \<Rightarrow> string \<Rightarrow> string \<Rightarrow> route_mode \<Rightarrow> string
    \<Rightarrow> core_err + route" where
  "canonical_route b service host mode auth =
     (let op = (mk_op Expose service host)\<lparr>o_mode := mode, o_auth := auth\<rparr>
      in case ep_plan (b_provider b) op (empty_live True) of
           Inl err \<Rightarrow> Inl (ErrEdgePlan (b_name b) err)
         | Inr cs \<Rightarrow>
             (case e_add (cs_edge cs) of
                [r] \<Rightarrow> Inr r
              | _ \<Rightarrow> Inl (ErrEdgePlan (b_name b) ''want 1'')))"

definition canonical_chain_route :: "'w edge_binding \<Rightarrow> chain_role \<Rightarrow> string \<Rightarrow> string \<Rightarrow> route_mode
    \<Rightarrow> string \<Rightarrow> core_err + route" where
  "canonical_chain_route b role service host mode auth =
     (if role = RoleForward then forward_route b host
      else canonical_route b service host mode auth)"

text \<open>One host on one edge: what it adds to the edge's change and to the drift.\<close>

definition reconcile_host :: "'w engine \<Rightarrow> 'w edge_view \<Rightarrow> canonical_state \<Rightarrow> string
    \<Rightarrow> core_err + (route list \<times> string list \<times> drift list)" where
  "reconcile_host e v c key =
     (let (b, live) = v; host = canon_host c key; svc = service_of e host; role = role_for e b svc;
          mode = canon_mode c key; auth = canon_auth c key
      in if role = RoleNone then Inr ([], [], [])
         else (case mode_of live host of
                 None \<Rightarrow>
                   if role = RoleForward
                      \<and> (case wildcard_route_covering (l_routes live) host of
                           Some q \<Rightarrow> chain_forward b q | None \<Rightarrow> False)
                   then Inr ([], [], [])
                   else rbind (canonical_chain_route b role svc host mode auth) (\<lambda>r.
                     Inr ([r], [], [\<lparr>f_kind = DriftMissingRoute, f_host = host, f_target = b_name b\<rparr>]))
               | Some cur \<Rightarrow>
                   if cur \<noteq> mode then
                     rbind (canonical_chain_route b role svc host mode auth) (\<lambda>r.
                       Inr ([r], [host], [\<lparr>f_kind = DriftModeMismatch, f_host = host, f_target = b_name b\<rparr>]))
                   else Inr ([], [], [])))"

definition reconcile_edge :: "'w engine \<Rightarrow> canonical_state \<Rightarrow> 'w edge_view
    \<Rightarrow> core_err + (edge_plan list \<times> drift list)" where
  "reconcile_edge e c v =
     rbind (rmap (reconcile_host e v c) (canon_keys c)) (\<lambda>hs.
       let ec = no_edge_change\<lparr>e_add := concat (map fst hs), e_remove := concat (map (fst \<circ> snd) hs)\<rparr>;
           drifts = concat (map (snd \<circ> snd) hs)
       in Inr (if edge_change_empty ec then []
               else [\<lparr>p_edge = b_name (fst v), p_driver = ep_name (b_provider (fst v)), p_change = ec\<rparr>],
               drifts))"

section \<open>DNS drift\<close>

definition same_dns_value :: "string \<Rightarrow> string \<Rightarrow> bool" where
  "same_dns_value a b = equal_fold (trim_space a) (trim_space b)"

definition exact_coverage_match :: "string list \<Rightarrow> string \<Rightarrow> bool" where
  "exact_coverage_match vals desired = list_ex (\<lambda>v. same_dns_value v desired) vals"

definition dns_coverage_records :: "'w dns_provider \<Rightarrow> dns_record list \<Rightarrow> 'w \<Rightarrow> core_err + dns_record list" where
  "dns_coverage_records dp owned w =
     (case dp_coverage dp of
        None \<Rightarrow> Inr owned
      | Some cov \<Rightarrow>
          (case cov w of Inl err \<Rightarrow> Inl (ErrDNSLive (dp_name dp) err) | Inr recs \<Rightarrow> Inr recs))"

definition wildcard_covering :: "dns_record list \<Rightarrow> string \<Rightarrow> dns_record option" where
  "wildcard_covering ws host = find (\<lambda>v. wildcard_pattern_covers (to_lower (d_name v)) host) ws"

text \<open>One desired record of one host.\<close>

definition reconcile_record :: "'w dns_provider \<Rightarrow> dns_record list \<Rightarrow> dns_record list \<Rightarrow> string \<Rightarrow> dns_record
    \<Rightarrow> dns_record list \<times> drift list" where
  "reconcile_record dp recs cov host rc =
     (let missing = ([rc], [\<lparr>f_kind = DriftMissingDNS, f_host = host, f_target = dns_label dp\<rparr>])
      in if record_key rc \<notin> record_key ` set recs then
           (if exact_coverage_match (map d_value (filter (\<lambda>q. record_key q = record_key rc) cov)) (d_value rc)
            then ([], [])
            else (case wildcard_covering (filter (\<lambda>q. is_wildcard_name (d_name q)) cov) (d_name rc) of
                    Some q \<Rightarrow> if same_dns_value (d_value q) (d_value rc) then ([], []) else missing
                  | None \<Rightarrow> missing))
         else if dp_owns_all dp = Some True then
           (case live_by_key recs (record_key rc) of
              Some cur \<Rightarrow>
                if \<not> same_dns_value (d_value cur) (d_value rc)
                then ([rc], [\<lparr>f_kind = DriftValueDNS, f_host = host, f_target = dns_label dp\<rparr>])
                else ([], [])
            | None \<Rightarrow> ([], []))
         else ([], []))"

text \<open>The records desired for one host, or none where the provider does not take it.\<close>

definition desired_for_host :: "'w engine \<Rightarrow> canonical_state \<Rightarrow> 'w dns_provider \<Rightarrow> string
    \<Rightarrow> core_err + dns_record list" where
  "desired_for_host e c dp key =
     (let host = canon_host c key
      in if \<not> dns_covers_host dp host then Inr []
         else if dp_scope dp = ScopePublic \<and> internal_scoped e (service_of e host) then Inr []
         else (case dp_desired dp (mk_op Expose (service_of e host) host) of
                 Inl err \<Rightarrow> Inl (ErrDNSDesired (dp_name dp) err)
               | Inr ds \<Rightarrow> Inr ds))"

definition stale_records :: "'w engine \<Rightarrow> canonical_state \<Rightarrow> dns_record list \<Rightarrow> dns_record list \<Rightarrow> dns_record list" where
  "stale_records e c desired recs =
     filter (\<lambda>r. \<not> is_wildcard_name (d_name r) \<and> any_fronts e (service_of e (d_name r))
       \<and> canon_host c (to_lower (d_name r)) = [] \<and> record_key r \<notin> record_key ` set desired) recs"

definition reconcile_dns :: "'w engine \<Rightarrow> canonical_state \<Rightarrow> 'w \<Rightarrow> 'w dns_provider
    \<Rightarrow> core_err + (dns_change \<times> drift list)" where
  "reconcile_dns e c w dp =
     (case dp_live dp w of
        Inl err \<Rightarrow> Inl (ErrDNSLive (dp_name dp) err)
      | Inr recs \<Rightarrow>
          rbind (dns_coverage_records dp recs w) (\<lambda>cov.
          rbind (rmap (desired_for_host e c dp) (canon_keys c)) (\<lambda>dss.
            let per = concat (map (\<lambda>(key, ds). map (reconcile_record dp recs cov (canon_host c key)) ds)
                  (zip (canon_keys c) dss));
                stale = stale_records e c (concat dss) recs
            in Inr ((no_dns_change (dp_scope dp))\<lparr>c_add := concat (map fst per), c_remove := stale,
                      c_managed := concat dss\<rparr>,
                    concat (map snd per)
                    @ map (\<lambda>r. \<lparr>f_kind = DriftStaleDNS, f_host = d_name r, f_target = dns_label dp\<rparr>) stale))))"

section \<open>The plan\<close>

record reconcile_plan =
  rp_drift :: "drift list"
  rp_change :: change_set

definition zero_op :: op where
  "zero_op = mk_op Expose [] []"

definition plan_reconcile :: "'w engine \<Rightarrow> 'w \<Rightarrow> core_err + (reconcile_plan \<times> canonical_state)" where
  "plan_reconcile e w =
     rbind (rmap (read_view w) (g_edges e)) (\<lambda>views.
       let c = canon_of e views
       in rbind (rmap (reconcile_edge e c) views) (\<lambda>es.
          rbind (rmap (reconcile_dns e c w) (g_dns e)) (\<lambda>ds.
            Inr (\<lparr>rp_drift = concat (map snd es) @ concat (map snd ds),
                  rp_change = (mk_change_set zero_op)\<lparr>cs_edges := concat (map fst es), cs_dns := map fst ds\<rparr>\<rparr>, c))))"

definition detect_drift :: "'w engine \<Rightarrow> 'w \<Rightarrow> core_err + reconcile_plan" where
  "detect_drift e w = rbind (plan_reconcile e w) (\<lambda>pc. Inr (fst pc))"

section \<open>Verification\<close>

definition added_routes_for_edge :: "change_set \<Rightarrow> string \<Rightarrow> route list" where
  "added_routes_for_edge cs edge =
     (case find (\<lambda>ep. p_edge ep = edge) (cs_edges cs) of Some ep \<Rightarrow> e_add (p_change ep) | None \<Rightarrow> [])"

fun canon_violation :: "'w engine \<Rightarrow> 'w edge_binding \<Rightarrow> live_edge_state \<Rightarrow> canonical_state \<Rightarrow> string list
    \<Rightarrow> verify_detail option" where
  "canon_violation e b live c [] = None"
| "canon_violation e b live c (key # keys) =
     (let host = canon_host c key; role = role_for e b (service_of e host)
      in if role = RoleNone then canon_violation e b live c keys
         else if role = RoleForward \<and> \<not> reachable live host
              \<and> (case wildcard_route_covering (l_routes live) host of
                   Some q \<Rightarrow> chain_forward b q | None \<Rightarrow> False)
         then canon_violation e b live c keys
         else if \<not> reachable live host then Some (DNotReachable host)
         else if mode_of live host \<noteq> Some (canon_mode c key)
         then Some (DModeMismatch host (canon_mode c key) (mode_of live host))
         else canon_violation e b live c keys)"

definition auth_violation :: "live_edge_state \<Rightarrow> route list \<Rightarrow> verify_detail option" where
  "auth_violation live added =
     (case find (\<lambda>want. auth_of live (r_host want) \<noteq> Some (u_auth (r_upstream want))) added of
        Some want \<Rightarrow> Some (DAuthMismatch (r_host want) (u_auth (r_upstream want))
          (case auth_of live (r_host want) of Some a \<Rightarrow> a | None \<Rightarrow> []))
      | None \<Rightarrow> None)"

definition verify_reconcile_edge :: "'w engine \<Rightarrow> canonical_state \<Rightarrow> change_set \<Rightarrow> 'w \<Rightarrow> 'w edge_binding
    \<Rightarrow> verify_result" where
  "verify_reconcile_edge e c cs w b =
     (let label = edge_step_label (b_name b) (ep_name (b_provider b))
      in case ep_read (b_provider b) w of
           Inl err \<Rightarrow> mk_result label False (DReReadFailed err)
         | Inr live \<Rightarrow>
             if \<not> l_deny_present live then mk_result label False DDenyMissing
             else (case canon_violation e b live c (canon_keys c) of
                     Some d \<Rightarrow> mk_result label False d
                   | None \<Rightarrow>
                       (case auth_violation live (added_routes_for_edge cs (b_name b)) of
                          Some d \<Rightarrow> mk_result label False d
                        | None \<Rightarrow> mk_result label True DConsistent)))"

definition verify_reconcile_dns :: "change_set \<Rightarrow> 'w \<Rightarrow> nat \<times> 'w dns_provider \<Rightarrow> verify_result" where
  "verify_reconcile_dns cs w idp =
     (let (i, dp) = idp; label = dns_label dp
      in case dp_live dp w of
           Inl err \<Rightarrow> mk_result label False (DReReadFailed err)
         | Inr recs \<Rightarrow>
             if i < length (cs_dns cs) then
               (case find (\<lambda>a. record_key a \<notin> record_key ` set recs) (c_add (cs_dns cs ! i)) of
                  Some a \<Rightarrow> mk_result label False (DRecordMissing (record_key a))
                | None \<Rightarrow>
                    (case find (\<lambda>r. record_key r \<in> record_key ` set recs) (c_remove (cs_dns cs ! i)) of
                       Some r \<Rightarrow> mk_result label False (DRecordStillPresent (record_key r))
                     | None \<Rightarrow> mk_result label True DConsistent))
             else mk_result label True DConsistent)"

definition verify_reconcile :: "'w engine \<Rightarrow> canonical_state \<Rightarrow> change_set \<Rightarrow> 'w \<Rightarrow> verify_result list" where
  "verify_reconcile e c cs w =
     map (verify_reconcile_edge e c cs w) (g_edges e)
     @ map (verify_reconcile_dns cs w) (enumerate 0 (g_dns e))"

section \<open>Reconcile\<close>

record reconcile_report =
  rr_plan :: "reconcile_plan option"
  rr_converged :: bool
  rr_applied :: bool
  rr_verify :: "verify_result list"
  rr_out :: txn_outcome

definition reconcile :: "'w engine \<Rightarrow> (reconcile_plan \<Rightarrow> perr + bool) \<Rightarrow> 'w
    \<Rightarrow> core_err option \<times> reconcile_report \<times> 'w" where
  "reconcile e confirm w =
     (let rep = \<lparr>rr_plan = None, rr_converged = False, rr_applied = False, rr_verify = [], rr_out = no_outcome\<rparr>
      in case gate_read_only e of
           Some err \<Rightarrow> (Some err, rep, w)
         | None \<Rightarrow>
       (case plan_reconcile e w of
          Inl err \<Rightarrow> (Some err, rep, w)
        | Inr (pl, c) \<Rightarrow>
            let rep = rep\<lparr>rr_plan := Some pl\<rparr>
            in if rp_drift pl = [] then (None, rep\<lparr>rr_converged := True\<rparr>, w)
               else (case gate_ownership e (rp_change pl) w of
                       Some err \<Rightarrow> (Some err, rep, w)
                     | None \<Rightarrow>
                 (case confirm pl of
                    Inl err \<Rightarrow> (Some (ErrConfirm err), rep, w)
                  | Inr ok \<Rightarrow>
                      if \<not> ok then (None, rep, w)
                      else (case snapshots e w (cs_edges (rp_change pl)) (\<lambda>_. empty_live False) of
                              Inl err \<Rightarrow> (Some err, rep, w)
                            | Inr snaps \<Rightarrow>
                                let (x, w') = transact e (build_steps e zero_op (rp_change pl) snaps)
                                      (verify_reconcile e c (rp_change pl)) (cs_edges (rp_change pl)) w
                                in (x_err x, rep\<lparr>rr_applied := x_applied x, rr_verify := x_verify x,
                                                 rr_out := x_out x\<rparr>, w'))))))"

section \<open>Lemmas\<close>

lemma canon_of_snoc: "canon_of e (vs @ [v]) = fold (canon_route e (fst v)) (l_routes (snd v)) (canon_of e vs)"
  by (simp add: canon_of_def split_beta)

definition canon_inv :: "'w engine \<Rightarrow> route set \<Rightarrow> canonical_state \<Rightarrow> bool" where
  "canon_inv e R c =
     ((\<forall>k h. map_of (cn_host c) k = Some h \<longrightarrow>
         (\<exists>r \<in> R. r_host r = h \<and> k = to_lower h \<and> any_fronts e (service_of e h)))
      \<and> (\<forall>r \<in> R. any_fronts e (service_of e (r_host r)) \<longrightarrow> map_of (cn_host c) (to_lower (r_host r)) \<noteq> None))"

lemma canon_route_hosts:
  "cn_host (canon_route e b r c) =
     (if any_fronts e (service_of e (r_host r)) then AList.update (to_lower (r_host r)) (r_host r) (cn_host c)
      else cn_host c)"
  by (auto simp: canon_route_def Let_def)

lemma canon_inv_route: "canon_inv e R c \<Longrightarrow> canon_inv e (insert r R) (canon_route e b r c)"
  by (auto simp: canon_inv_def canon_route_hosts update_conv' split: if_splits)

lemma canon_inv_routes: "canon_inv e R c \<Longrightarrow> canon_inv e (R \<union> set rs) (fold (canon_route e b) rs c)"
proof (induction rs arbitrary: R c)
  case (Cons r rs)
  from Cons.IH [OF canon_inv_route [OF Cons.prems]] show ?case by simp
qed simp

lemma canon_inv_of: "canon_inv e (\<Union>v \<in> set views. set (l_routes (snd v))) (canon_of e views)"
proof (induction views rule: rev_induct)
  case Nil
  then show ?case by (simp add: canon_inv_def canon_of_def no_canon_def)
next
  case (snoc v vs)
  from canon_inv_routes [OF snoc] show ?case by (simp add: canon_of_snoc Un_commute)
qed

lemma canon_keys_set: "set (canon_keys c) = fst ` set (cn_host c)"
  by (simp add: canon_keys_def)

text \<open>A key of the canonical state is the lower-case name of a managed host exposed on an edge.\<close>

lemma canon_key_host:
  assumes "c = canon_of e views" and "key \<in> set (canon_keys c)"
  shows "key = to_lower (canon_host c key) \<and> any_fronts e (service_of e (canon_host c key))
    \<and> (\<exists>v \<in> set views. \<exists>r \<in> set (l_routes (snd v)). r_host r = canon_host c key)"
proof -
  from assms(2) obtain h where h: "map_of (cn_host c) key = Some h"
    by (metis canon_keys_set map_of_eq_None_iff not_Some_eq)
  with canon_inv_of [of e views] assms(1) show ?thesis
    by (auto simp: canon_inv_def canon_host_def)
qed

lemma canon_host_None:
  assumes "c = canon_of e views" and "canon_host c (to_lower n) = []"
    and "any_fronts e (service_of e n)" and "n \<noteq> []"
    and "v \<in> set views" and "r \<in> set (l_routes (snd v))"
  shows "r_host r \<noteq> n"
proof
  assume n: "r_host r = n"
  have inv: "canon_inv e (\<Union>v \<in> set views. set (l_routes (snd v))) c"
    using canon_inv_of assms(1) by blast
  with n assms(3,5,6) obtain h where h: "map_of (cn_host c) (to_lower n) = Some h"
    unfolding canon_inv_def by blast
  with inv have "to_lower n = to_lower h" unfolding canon_inv_def by blast
  with assms(4) have "h \<noteq> []" by (metis to_lower_eq_Nil)
  with h assms(2) show False by (simp add: canon_host_def)
qed

lemma read_view_at: "read_view w b = Inr v \<longleftrightarrow> (\<exists>live. v = (b, live) \<and> ep_read (b_provider b) w = Inr live)"
  by (auto simp: read_view_def split: sum.splits)

lemma read_view_Inr:
  "rmap (read_view w) bs = Inr views \<Longrightarrow>
     map fst views = bs \<and> (\<forall>v \<in> set views. ep_read (b_provider (fst v)) w = Inr (snd v))"
proof (induction bs arbitrary: views)
  case (Cons b bs)
  then obtain live vs where "views = (b, live) # vs" "ep_read (b_provider b) w = Inr live"
    "rmap (read_view w) bs = Inr vs"
    by (auto simp: read_view_at split: sum.splits)
  with Cons.IH [of vs] show ?case by simp
qed simp

lemma plan_reconcile_Inr:
  assumes "plan_reconcile e w = Inr (pl, c)"
  shows "\<exists>views es ds. rmap (read_view w) (g_edges e) = Inr views \<and> c = canon_of e views
    \<and> rmap (reconcile_edge e c) views = Inr es \<and> rmap (reconcile_dns e c w) (g_dns e) = Inr ds
    \<and> rp_drift pl = concat (map snd es) @ concat (map snd ds)
    \<and> cs_edges (rp_change pl) = concat (map fst es) \<and> cs_dns (rp_change pl) = map fst ds
    \<and> edge_change_empty (cs_edge (rp_change pl))"
  using assms by (auto simp: plan_reconcile_def rbind_Inr Let_def)

lemma reconcile_host_Inr:
  assumes "reconcile_host e (b, live) c key = Inr (adds, rems, ds)"
  shows "(adds = [] \<and> rems = [] \<and> ds = []) \<or>
    (\<exists>r. adds = [r] \<and> role_for e b (service_of e (canon_host c key)) \<noteq> RoleNone
       \<and> canonical_chain_route b (role_for e b (service_of e (canon_host c key)))
           (service_of e (canon_host c key)) (canon_host c key) (canon_mode c key) (canon_auth c key) = Inr r
       \<and> ds \<noteq> []
       \<and> ((rems = [] \<and> mode_of live (canon_host c key) = None)
          \<or> (rems = [canon_host c key] \<and> mode_of live (canon_host c key) \<noteq> None
             \<and> mode_of live (canon_host c key) \<noteq> Some (canon_mode c key))))"
  using assms
  by (auto simp: reconcile_host_def Let_def rbind_Inr split: if_splits option.splits)

definition record_plans :: "'w dns_provider \<Rightarrow> canonical_state \<Rightarrow> dns_record list \<Rightarrow> dns_record list
    \<Rightarrow> dns_record list list \<Rightarrow> (dns_record list \<times> drift list) list" where
  "record_plans dp c recs cov dss =
     concat (map (\<lambda>(key, ds). map (reconcile_record dp recs cov (canon_host c key)) ds)
       (zip (canon_keys c) dss))"

lemma reconcile_dns_Inr:
  assumes "reconcile_dns e c w dp = Inr (ch, drifts)"
  shows "\<exists>recs cov dss. dp_live dp w = Inr recs \<and> dns_coverage_records dp recs w = Inr cov
    \<and> rmap (desired_for_host e c dp) (canon_keys c) = Inr dss
    \<and> c_scope ch = dp_scope dp \<and> c_add ch = concat (map fst (record_plans dp c recs cov dss))
    \<and> c_remove ch = stale_records e c (concat dss) recs \<and> c_managed ch = concat dss
    \<and> drifts = concat (map snd (record_plans dp c recs cov dss))
        @ map (\<lambda>r. \<lparr>f_kind = DriftStaleDNS, f_host = d_name r, f_target = dns_label dp\<rparr>)
            (stale_records e c (concat dss) recs)"
  using assms
  by (auto simp: reconcile_dns_def rbind_Inr Let_def record_plans_def split: sum.splits)

lemma reconcile_record_drift:
  "snd (reconcile_record dp recs cov h rc) = [] \<longleftrightarrow> fst (reconcile_record dp recs cov h rc) = []"
  by (auto simp: reconcile_record_def Let_def split: option.splits)

lemma reconcile_record_add: "set (fst (reconcile_record dp recs cov h rc)) \<subseteq> {rc}"
  by (auto simp: reconcile_record_def Let_def split: option.splits)

lemma record_plans_drift:
  "(\<forall>x \<in> set (record_plans dp c recs cov dss). snd x = []) \<longleftrightarrow>
   (\<forall>x \<in> set (record_plans dp c recs cov dss). fst x = [])"
proof -
  have "snd x = [] \<longleftrightarrow> fst x = []" if "x \<in> set (record_plans dp c recs cov dss)" for x
    using that by (auto simp: record_plans_def reconcile_record_drift)
  then show ?thesis by blast
qed

section \<open>Properties of reconciliation\<close>

text \<open>C9. Reconciliation converges by the plan's own account: no drift is reported exactly when the
  planned change is empty, so a converged run changes nothing and a drifted run changes
  something.\<close>

theorem reconcile_drift_iff_change:
  assumes "plan_reconcile e w = Inr (pl, c)"
  shows "rp_drift pl = [] \<longleftrightarrow> change_set_empty (rp_change pl)"
proof -
  from plan_reconcile_Inr [OF assms] obtain views es ds where
    p: "rmap (reconcile_edge e c) views = Inr es" "rmap (reconcile_dns e c w) (g_dns e) = Inr ds"
      "rp_drift pl = concat (map snd es) @ concat (map snd ds)"
      "cs_edges (rp_change pl) = concat (map fst es)" "cs_dns (rp_change pl) = map fst ds"
      "edge_change_empty (cs_edge (rp_change pl))" by blast
  have edge: "snd x = [] \<longleftrightarrow> fst x = []" "ep \<in> set (fst x) \<Longrightarrow> \<not> edge_change_empty (p_change ep)"
    if "x \<in> set es" for x ep
  proof -
    from rmap_Inr_set [OF p(1) that] obtain v where "reconcile_edge e c v = Inr x" by blast
    then obtain hs where hs: "rmap (reconcile_host e v c) (canon_keys c) = Inr hs"
      "x = (let ec = no_edge_change\<lparr>e_add := concat (map fst hs), e_remove := concat (map (fst \<circ> snd) hs)\<rparr>
            in (if edge_change_empty ec then []
                else [\<lparr>p_edge = b_name (fst v), p_driver = ep_name (b_provider (fst v)), p_change = ec\<rparr>],
                concat (map (snd \<circ> snd) hs)))"
      by (auto simp: reconcile_edge_def rbind_Inr Let_def)
    have "(snd (snd h) = [] \<longleftrightarrow> fst h = [] \<and> fst (snd h) = [])" if "h \<in> set hs" for h
    proof -
      from rmap_Inr_set [OF hs(1) that] obtain key where "reconcile_host e v c key = Inr h" by blast
      then show ?thesis
        using reconcile_host_Inr [of e "fst v" "snd v" c key "fst h" "fst (snd h)" "snd (snd h)"] by auto
    qed
    then have "(\<forall>h \<in> set hs. snd (snd h) = []) \<longleftrightarrow>
        (\<forall>h \<in> set hs. fst h = []) \<and> (\<forall>h \<in> set hs. fst (snd h) = [])" by blast
    then show "snd x = [] \<longleftrightarrow> fst x = []" "ep \<in> set (fst x) \<Longrightarrow> \<not> edge_change_empty (p_change ep)"
      unfolding hs(2) by (auto simp: Let_def edge_change_empty_def split: if_splits)
  qed
  have dns: "snd x = [] \<longleftrightarrow> dns_change_empty (fst x)" if "x \<in> set ds" for x
  proof -
    obtain ch dr where x: "x = (ch, dr)" by (cases x)
    from rmap_Inr_set [OF p(2) that] obtain dp where "reconcile_dns e c w dp = Inr (ch, dr)"
      unfolding x by blast
    from reconcile_dns_Inr [OF this] obtain recs cov dss where r:
      "c_add ch = concat (map fst (record_plans dp c recs cov dss))"
      "c_remove ch = stale_records e c (concat dss) recs"
      "dr = concat (map snd (record_plans dp c recs cov dss))
        @ map (\<lambda>r. \<lparr>f_kind = DriftStaleDNS, f_host = d_name r, f_target = dns_label dp\<rparr>)
            (stale_records e c (concat dss) recs)" by blast
    have "dr = [] \<longleftrightarrow> c_add ch = [] \<and> c_remove ch = []"
      unfolding r using record_plans_drift [of dp c recs cov dss] by simp
    then show ?thesis by (simp add: x dns_change_empty_def)
  qed
  have "change_set_empty (rp_change pl) \<longleftrightarrow> (\<forall>x \<in> set es. fst x = []) \<and> (\<forall>x \<in> set ds. dns_change_empty (fst x))"
    using p(4-6) edge(2) by (force simp: change_set_empty_iff)
  then show ?thesis using p(3) edge(1) dns by auto
qed

lemma reconcile_demo_plan:
  "\<exists>pl c. plan_reconcile one_edge_dns_engine (owned_world [OwnCrenel]) = Inr (pl, c) \<and> rp_drift pl \<noteq> []"
proof -
  have "case plan_reconcile one_edge_dns_engine (owned_world [OwnCrenel]) of
      Inl _ \<Rightarrow> False | Inr (pl, _) \<Rightarrow> rp_drift pl \<noteq> []"
    by code_simp
  then show ?thesis by (auto split: sum.splits)
qed

lemma reconcile_drift_iff_change_witness:
  "\<exists>pl c. plan_reconcile one_edge_dns_engine (owned_world [OwnCrenel]) = Inr (pl, c)
     \<and> \<not> change_set_empty (rp_change pl)"
proof -
  obtain pl c where p: "plan_reconcile one_edge_dns_engine (owned_world [OwnCrenel]) = Inr (pl, c)"
    "rp_drift pl \<noteq> []" using reconcile_demo_plan by blast
  with reconcile_drift_iff_change [OF p(1)] show ?thesis by blast
qed

lemma desired_for_hosts_mem:
  assumes "rmap (desired_for_host e c dp) (canon_keys c) = Inr dss" and "rc \<in> set (concat dss)"
  shows "\<exists>key \<in> set (canon_keys c). \<exists>ds. desired_for_host e c dp key = Inr ds \<and> rc \<in> set ds"
proof -
  from assms(2) obtain ds where "ds \<in> set dss" "rc \<in> set ds" by auto
  with rmap_Inr_set [OF assms(1) this(1)] show ?thesis by blast
qed

lemma record_plans_adds:
  "set (concat (map fst (record_plans dp c recs cov dss))) \<subseteq> set (concat dss)"
proof
  fix x assume "x \<in> set (concat (map fst (record_plans dp c recs cov dss)))"
  then obtain key ds rc where k: "(key, ds) \<in> set (zip (canon_keys c) dss)" "rc \<in> set ds"
    "x \<in> set (fst (reconcile_record dp recs cov (canon_host c key) rc))"
    by (auto simp: record_plans_def) (metis fst_conv)
  from k(3) reconcile_record_add [of dp recs cov "canon_host c key" rc] have "x = rc" by blast
  with k(1,2) show "x \<in> set (concat dss)" by (auto dest: set_zip_rightD)
qed

text \<open>A host some edge exposes in a world.\<close>

definition exposed_on :: "'w engine \<Rightarrow> 'w \<Rightarrow> string \<Rightarrow> bool" where
  "exposed_on e w h =
     list_ex (\<lambda>b. case ep_read (b_provider b) w of Inl _ \<Rightarrow> False
       | Inr live \<Rightarrow> h \<in> r_host ` set (l_routes live)) (g_edges e)"

lemma exposed_on_view:
  assumes "rmap (read_view w) (g_edges e) = Inr views"
  shows "exposed_on e w h \<longleftrightarrow> (\<exists>v \<in> set views. h \<in> r_host ` set (l_routes (snd v)))"
proof -
  note v = read_view_Inr [OF assms]
  have "exposed_on e w h \<longleftrightarrow> (\<exists>v \<in> set views. case ep_read (b_provider (fst v)) w of Inl _ \<Rightarrow> False
       | Inr live \<Rightarrow> h \<in> r_host ` set (l_routes live))"
    unfolding exposed_on_def list_ex_iff by (subst v [THEN conjunct1, symmetric]) simp
  also have "\<dots> \<longleftrightarrow> (\<exists>v \<in> set views. h \<in> r_host ` set (l_routes (snd v)))"
    using v by simp
  finally show ?thesis .
qed

lemma canon_key_exposed:
  assumes "rmap (read_view w) (g_edges e) = Inr views" and "c = canon_of e views"
    and "key \<in> set (canon_keys c)"
  shows "exposed_on e w (canon_host c key) \<and> any_fronts e (service_of e (canon_host c key))"
proof -
  from canon_key_host [OF assms(2,3)] obtain v r where v: "v \<in> set views" "r \<in> set (l_routes (snd v))"
    "r_host r = canon_host c key" "any_fronts e (service_of e (canon_host c key))" by blast
  from v(2) have "r_host r \<in> r_host ` set (l_routes (snd v))" by (rule imageI)
  with v show ?thesis unfolding exposed_on_view [OF assms(1)] by auto
qed

text \<open>C10. What reconciliation does in DNS. A record it adds is one the provider itself desires for a host
  that some edge exposes, of a service that some edge fronts, which lies in the provider's zone, never at
  a public provider for an internal-only service. A record it removes is live at the provider, no
  wildcard, and named for a service that some edge fronts and a host that no edge exposes: of a
  removal neither the zone nor the scope is checked, nor who made the record (see
  reconcile_removes_any_unexposed).\<close>

theorem reconcile_dns_boundary:
  assumes "plan_reconcile e w = Inr (pl, c)" and "i < length (g_dns e)"
  shows "i < length (cs_dns (rp_change pl))
    \<and> (\<forall>rc \<in> set (c_add (cs_dns (rp_change pl) ! i)). \<exists>h ds.
         exposed_on e w h \<and> any_fronts e (service_of e h) \<and> dns_covers_host (g_dns e ! i) h
         \<and> \<not> (dp_scope (g_dns e ! i) = ScopePublic \<and> internal_scoped_host e h)
         \<and> dp_desired (g_dns e ! i) (mk_op Expose (service_of e h) h) = Inr ds \<and> rc \<in> set ds)
    \<and> (\<forall>rc \<in> set (c_remove (cs_dns (rp_change pl) ! i)).
         (\<exists>recs. dp_live (g_dns e ! i) w = Inr recs \<and> rc \<in> set recs)
         \<and> \<not> is_wildcard_name (d_name rc) \<and> any_fronts e (service_of e (d_name rc))
         \<and> (d_name rc \<noteq> [] \<longrightarrow> \<not> exposed_on e w (d_name rc)))"
proof -
  from plan_reconcile_Inr [OF assms(1)] obtain views ds where
    p: "rmap (read_view w) (g_edges e) = Inr views" "c = canon_of e views"
      "rmap (reconcile_dns e c w) (g_dns e) = Inr ds" "cs_dns (rp_change pl) = map fst ds" by blast
  have len: "length ds = length (g_dns e)" using p(3) by (rule rmap_Inr_length)
  with p(3) assms(2) have "reconcile_dns e c w (g_dns e ! i) = Inr (ds ! i)"
    by (simp add: rmap_Inr_iff list_all2_conv_all_nth)
  then obtain recs cov dss where r: "dp_live (g_dns e ! i) w = Inr recs"
    "rmap (desired_for_host e c (g_dns e ! i)) (canon_keys c) = Inr dss"
    "c_add (fst (ds ! i)) = concat (map fst (record_plans (g_dns e ! i) c recs cov dss))"
    "c_remove (fst (ds ! i)) = stale_records e c (concat dss) recs"
    using reconcile_dns_Inr [of e c w "g_dns e ! i" "fst (ds ! i)" "snd (ds ! i)"] by auto
  have ch: "cs_dns (rp_change pl) ! i = fst (ds ! i)" using p(4) len assms(2) by simp
  show ?thesis
    unfolding ch
  proof (intro conjI ballI)
    show "i < length (cs_dns (rp_change pl))" using len p(4) assms(2) by simp
  next
    fix rc assume "rc \<in> set (c_add (fst (ds ! i)))"
    then have "rc \<in> set (concat dss)" using record_plans_adds unfolding r(3) by blast
    from desired_for_hosts_mem [OF r(2) this] obtain key dk where
      key: "key \<in> set (canon_keys c)" "desired_for_host e c (g_dns e ! i) key = Inr dk" "rc \<in> set dk" by blast
    have "dns_covers_host (g_dns e ! i) (canon_host c key)
        \<and> \<not> (dp_scope (g_dns e ! i) = ScopePublic \<and> internal_scoped_host e (canon_host c key))
        \<and> dp_desired (g_dns e ! i) (mk_op Expose (service_of e (canon_host c key)) (canon_host c key)) = Inr dk"
      using key(2,3)
      by (auto simp: desired_for_host_def internal_scoped_host_def Let_def split: if_splits sum.splits)
    with canon_key_exposed [OF p(1,2) key(1)] key(3)
    show "\<exists>h ds. exposed_on e w h \<and> any_fronts e (service_of e h) \<and> dns_covers_host (g_dns e ! i) h
         \<and> \<not> (dp_scope (g_dns e ! i) = ScopePublic \<and> internal_scoped_host e h)
         \<and> dp_desired (g_dns e ! i) (mk_op Expose (service_of e h) h) = Inr ds \<and> rc \<in> set ds" by blast
  next
    fix rc assume "rc \<in> set (c_remove (fst (ds ! i)))"
    then have s: "rc \<in> set recs" "\<not> is_wildcard_name (d_name rc)" "any_fronts e (service_of e (d_name rc))"
      "canon_host c (to_lower (d_name rc)) = []"
      unfolding r(4) by (auto simp: stale_records_def)
    show "\<exists>recs. dp_live (g_dns e ! i) w = Inr recs \<and> rc \<in> set recs" using r(1) s(1) by blast
    show "\<not> is_wildcard_name (d_name rc)" "any_fronts e (service_of e (d_name rc))" by (rule s)+
    show "d_name rc \<noteq> [] \<longrightarrow> \<not> exposed_on e w (d_name rc)"
    proof
      assume ne: "d_name rc \<noteq> []"
      have "d_name rc \<notin> r_host ` set (l_routes (snd v))" if "v \<in> set views" for v
        using canon_host_None [OF p(2) s(4,3) ne that] by (metis imageE)
      then show "\<not> exposed_on e w (d_name rc)" unfolding exposed_on_view [OF p(1)] by blast
    qed
  qed
qed

lemma reconcile_dns_boundary_witness:
  "\<exists>pl c. plan_reconcile one_edge_dns_engine (owned_world [OwnCrenel]) = Inr (pl, c)
     \<and> 1 < length (cs_dns (rp_change pl))"
proof -
  obtain pl c where p: "plan_reconcile one_edge_dns_engine (owned_world [OwnCrenel]) = Inr (pl, c)"
    using reconcile_demo_plan by blast
  have "1 < length (g_dns one_edge_dns_engine)" by (simp add: one_edge_dns_engine_def new_multi_def)
  from reconcile_dns_boundary [OF p this] p show ?thesis by blast
qed

text \<open>Where no edge restricts the services it fronts, a record of any type and zone whose name is exposed on no
  edge counts as managed, and reconciling removes it.\<close>

definition foreign_mail_record :: dns_record where
  "foreign_mail_record = \<lparr>d_name = ''other.org'', d_type = ''MX'', d_value = ''10 mx.other.org'', d_scope = ScopePublic,
     d_ttl = 0, d_proxied = False\<rparr>"

definition open_front_engine :: "mem_world engine" where
  "open_front_engine = new_multi [(g_edges two_hop_engine ! 0)\<lparr>b_fronts := None\<rparr>] ''ex'' (g_dns one_edge_dns_engine)"

lemma reconcile_removes_any_unexposed:
  "case plan_reconcile open_front_engine ((owned_world [OwnCrenel])\<lparr>mw_dns := (\<lambda>_. [foreign_mail_record])\<rparr>) of
     Inl _ \<Rightarrow> False
   | Inr (pl, _) \<Rightarrow> map c_remove (cs_dns (rp_change pl)) = [[foreign_mail_record], [foreign_mail_record]]"
  by code_simp

lemma reconcile_edge_plans:
  assumes "rmap (reconcile_edge e c) views = Inr es" and "ep \<in> set (concat (map fst es))"
  shows "\<exists>v \<in> set views. \<exists>hs. rmap (reconcile_host e v c) (canon_keys c) = Inr hs
    \<and> p_edge ep = b_name (fst v)
    \<and> e_add (p_change ep) = concat (map fst hs) \<and> e_remove (p_change ep) = concat (map (fst \<circ> snd) hs)"
proof -
  from assms(2) obtain x where x: "x \<in> set es" "ep \<in> set (fst x)" by auto
  from rmap_Inr_set [OF assms(1) x(1)] obtain v where v: "v \<in> set views" "reconcile_edge e c v = Inr x" by blast
  then obtain hs where hs: "rmap (reconcile_host e v c) (canon_keys c) = Inr hs"
    "fst x = (let ec = no_edge_change\<lparr>e_add := concat (map fst hs), e_remove := concat (map (fst \<circ> snd) hs)\<rparr>
       in if edge_change_empty ec then []
          else [\<lparr>p_edge = b_name (fst v), p_driver = ep_name (b_provider (fst v)), p_change = ec\<rparr>])"
    by (auto simp: reconcile_edge_def rbind_Inr Let_def)
  with x(2) v(1) show ?thesis by (intro bexI [of _ v] exI [of _ hs]) (auto simp: Let_def split: if_splits)
qed

text \<open>Reconciliation never takes a route away: a host it removes from an edge is a managed host
  that is exposed, that the edge serves or forwards, and whose live route there has the wrong mode;
  the same change adds the canonical route of that host back.\<close>

theorem reconcile_only_rerenders:
  assumes "plan_reconcile e w = Inr (pl, c)" and "ep \<in> set (cs_edges (rp_change pl))"
    and "h \<in> set (e_remove (p_change ep))"
  shows "exposed_on e w h \<and> any_fronts e (service_of e h)
    \<and> (\<exists>b \<in> set (g_edges e). \<exists>live cur r mode auth. b_name b = p_edge ep
         \<and> ep_read (b_provider b) w = Inr live \<and> mode_of live h = Some cur \<and> cur \<noteq> mode
         \<and> role_for e b (service_of e h) \<noteq> RoleNone
         \<and> canonical_chain_route b (role_for e b (service_of e h)) (service_of e h) h mode auth = Inr r
         \<and> r \<in> set (e_add (p_change ep)))"
proof -
  from plan_reconcile_Inr [OF assms(1)] obtain views es where
    p: "rmap (read_view w) (g_edges e) = Inr views" "c = canon_of e views"
      "rmap (reconcile_edge e c) views = Inr es" "cs_edges (rp_change pl) = concat (map fst es)" by blast
  from reconcile_edge_plans [OF p(3)] assms(2) p(4) obtain v hs where
    v: "v \<in> set views" "rmap (reconcile_host e v c) (canon_keys c) = Inr hs" "p_edge ep = b_name (fst v)"
      "e_add (p_change ep) = concat (map fst hs)" "e_remove (p_change ep) = concat (map (fst \<circ> snd) hs)"
    by metis
  from assms(3) v(5) obtain x where x: "x \<in> set hs" "h \<in> set (fst (snd x))" by auto
  from rmap_Inr_set [OF v(2) x(1)] obtain key where
    key: "key \<in> set (canon_keys c)" "reconcile_host e v c key = Inr x" by blast
  have "reconcile_host e (fst v, snd v) c key = Inr (fst x, fst (snd x), snd (snd x))" using key(2) by simp
  from reconcile_host_Inr [OF this] x(2) obtain r where r: "fst x = [r]" "h = canon_host c key"
    "role_for e (fst v) (service_of e (canon_host c key)) \<noteq> RoleNone"
    "canonical_chain_route (fst v) (role_for e (fst v) (service_of e (canon_host c key)))
       (service_of e (canon_host c key)) (canon_host c key) (canon_mode c key) (canon_auth c key) = Inr r"
    "mode_of (snd v) h \<noteq> None" "mode_of (snd v) h \<noteq> Some (canon_mode c key)" by auto
  then obtain cur where cur: "mode_of (snd v) h = Some cur" "cur \<noteq> canon_mode c key" by auto
  have "r \<in> set (e_add (p_change ep))" using v(4) x(1) r(1) by force
  moreover have "fst v \<in> set (g_edges e)" "ep_read (b_provider (fst v)) w = Inr (snd v)"
    using read_view_Inr [OF p(1)] v(1) by (metis image_eqI list.set_map) (metis read_view_Inr p(1) v(1))
  ultimately show ?thesis
    using canon_key_exposed [OF p(1,2) key(1)] r(2-4) cur v(3) by metis
qed

definition mode_drift_engine :: "mem_world engine" where
  "mode_drift_engine = new_multi
     [g_edges two_hop_engine ! 0, (g_edges two_hop_engine ! 0)\<lparr>b_name := ''lan'', b_provider := mem_edge ''lan''\<rparr>]
     ''ex'' []"

definition mode_drift_world :: mem_world where
  "mode_drift_world = \<lparr>mw_edges = (\<lambda>n. (empty_live True)\<lparr>l_routes :=
     [mk_route ''g.ex'' \<lparr>u_kind = DirectBackend,
        u_mode = (if n = ''home'' then ModeHTTPProxy else ModeTCPPassthrough),
        u_address = ''o:3000'', u_tls_passthrough = False, u_server_name = [],
        u_upstream_tls = False, u_auth = []\<rparr>]\<rparr>), mw_dns = (\<lambda>_. [])\<rparr>"

lemma reconcile_only_rerenders_witness:
  "\<exists>pl c ep. plan_reconcile mode_drift_engine mode_drift_world = Inr (pl, c)
     \<and> ep \<in> set (cs_edges (rp_change pl)) \<and> exposed_on mode_drift_engine mode_drift_world ''g.ex''"
proof -
  have "case plan_reconcile mode_drift_engine mode_drift_world of Inl _ \<Rightarrow> False
      | Inr (pl, _) \<Rightarrow> list_ex (\<lambda>ep. list_ex (\<lambda>h. h = ''g.ex'') (e_remove (p_change ep)))
          (cs_edges (rp_change pl))"
    by code_simp
  then obtain pl c ep where p: "plan_reconcile mode_drift_engine mode_drift_world = Inr (pl, c)"
    "ep \<in> set (cs_edges (rp_change pl))" "''g.ex'' \<in> set (e_remove (p_change ep))"
    by (auto simp: list_ex_iff split: sum.splits)
  from reconcile_only_rerenders [OF p] p(1,2) show ?thesis by blast
qed

lemma canon_violation_None:
  assumes "canon_violation e b live c keys = None" and "key \<in> set keys"
    and "role_for e b (service_of e (canon_host c key)) \<noteq> RoleNone"
  shows "(reachable live (canon_host c key) \<and> mode_of live (canon_host c key) = Some (canon_mode c key))
    \<or> (role_for e b (service_of e (canon_host c key)) = RoleForward
       \<and> (\<exists>q. wildcard_route_covering (l_routes live) (canon_host c key) = Some q \<and> chain_forward b q))"
  using assms
  by (induction e b live c keys rule: canon_violation.induct)
    (auto simp: Let_def split: if_splits option.splits)

lemma reconcile_cases:
  assumes "reconcile e confirm w = (err, rep, w')"
  shows "w' = w \<and> \<not> rr_applied rep \<or>
    (\<exists>pl c snaps x. \<not> g_read_only e \<and> plan_reconcile e w = Inr (pl, c) \<and> rp_drift pl \<noteq> []
       \<and> gate_ownership e (rp_change pl) w = None \<and> confirm pl = Inr True
       \<and> snapshots e w (cs_edges (rp_change pl)) (\<lambda>_. empty_live False) = Inr snaps
       \<and> transact e (build_steps e zero_op (rp_change pl) snaps) (verify_reconcile e c (rp_change pl))
           (cs_edges (rp_change pl)) w = (x, w')
       \<and> err = x_err x \<and> rr_applied rep = x_applied x \<and> rr_verify rep = x_verify x
       \<and> rr_out rep = x_out x)"
proof (cases "plan_reconcile e w")
  case (Inl pe)
  with assms show ?thesis
    by (auto simp: reconcile_def Let_def split: option.splits)
next
  case (Inr pc)
  obtain pl c where pc: "pc = (pl, c)" by (cases pc)
  show ?thesis
  proof (cases "g_read_only e \<or> rp_drift pl = [] \<or> gate_ownership e (rp_change pl) w \<noteq> None
      \<or> confirm pl \<noteq> Inr True")
    case True
    then have "w' = w \<and> \<not> rr_applied rep"
      using assms Inr pc
      by (auto simp: reconcile_def Let_def gate_read_only_def split: if_splits option.splits sum.splits)
    then show ?thesis ..
  next
    case False
    show ?thesis
    proof (cases "snapshots e w (cs_edges (rp_change pl)) (\<lambda>_. empty_live False)")
      case Inl': (Inl se)
      with assms Inr pc False show ?thesis
        by (auto simp: reconcile_def Let_def gate_read_only_def)
    next
      case Inr': (Inr snaps)
      obtain x v where x: "transact e (build_steps e zero_op (rp_change pl) snaps)
          (verify_reconcile e c (rp_change pl)) (cs_edges (rp_change pl)) w = (x, v)" by fastforce
      with assms Inr pc False Inr' show ?thesis
        by (auto simp: reconcile_def Let_def gate_read_only_def)
    qed
  qed
qed

text \<open>C8. A reconcile that reports success left every edge readable, with its default deny, and with
  every managed exposed host it serves or forwards present there in the canonical mode, or carried
  by a wildcard route to its downstream.\<close>

theorem reconcile_success:
  assumes "reconcile e confirm w = (None, rep, w')" and "rr_applied rep"
  shows "\<exists>pl c w1. plan_reconcile e w = Inr (pl, c) \<and> confirm pl = Inr True
    \<and> w' = snd (persist_edges e (cs_edges (rp_change pl)) no_outcome w1)
    \<and> (\<forall>b \<in> set (g_edges e). \<exists>live. ep_read (b_provider b) w1 = Inr live \<and> l_deny_present live
         \<and> (\<forall>key \<in> set (canon_keys c). role_for e b (service_of e (canon_host c key)) \<noteq> RoleNone \<longrightarrow>
              (has_host live (canon_host c key) \<and> mode_of live (canon_host c key) = Some (canon_mode c key))
              \<or> (\<exists>q. wildcard_route_covering (l_routes live) (canon_host c key) = Some q \<and> chain_forward b q)))"
proof -
  have "\<exists>pl c snaps x. plan_reconcile e w = Inr (pl, c) \<and> confirm pl = Inr True
      \<and> transact e (build_steps e zero_op (rp_change pl) snaps) (verify_reconcile e c (rp_change pl))
          (cs_edges (rp_change pl)) w = (x, w') \<and> x_err x = None"
    using reconcile_cases [OF assms(1)] assms(2) by metis
  then obtain pl c snaps x where
    r: "plan_reconcile e w = Inr (pl, c)" "confirm pl = Inr True"
      "transact e (build_steps e zero_op (rp_change pl) snaps) (verify_reconcile e c (rp_change pl))
          (cs_edges (rp_change pl)) w = (x, w')" "x_err x = None" by blast
  from transact_success [OF r(3,4)] obtain w1 where
    w1: "verified (verify_reconcile e c (rp_change pl) w1)"
      "(x_out x, w') = persist_edges e (cs_edges (rp_change pl)) no_outcome w1" by blast
  have edge: "\<exists>live. ep_read (b_provider b) w1 = Inr live \<and> l_deny_present live
         \<and> canon_violation e b live c (canon_keys c) = None" if b: "b \<in> set (g_edges e)" for b
  proof -
    have "verify_reconcile_edge e c (rp_change pl) w1 b \<in> set (verify_reconcile e c (rp_change pl) w1)"
      using b unfolding verify_reconcile_def by simp
    with w1(1) have "vr_ok (verify_reconcile_edge e c (rp_change pl) w1 b)"
      unfolding verified_iff by blast
    then show ?thesis
      by (auto simp: verify_reconcile_edge_def Let_def split: sum.splits if_splits option.splits)
  qed
  have "\<exists>live. ep_read (b_provider b) w1 = Inr live \<and> l_deny_present live
         \<and> (\<forall>key \<in> set (canon_keys c). role_for e b (service_of e (canon_host c key)) \<noteq> RoleNone \<longrightarrow>
              (has_host live (canon_host c key) \<and> mode_of live (canon_host c key) = Some (canon_mode c key))
              \<or> (\<exists>q. wildcard_route_covering (l_routes live) (canon_host c key) = Some q \<and> chain_forward b q))"
    if b: "b \<in> set (g_edges e)" for b
  proof -
    from edge [OF b] obtain live where l: "ep_read (b_provider b) w1 = Inr live" "l_deny_present live"
      "canon_violation e b live c (canon_keys c) = None" by blast
    with canon_violation_None [OF l(3)] show ?thesis unfolding reachable_def by blast
  qed
  moreover have "w' = snd (persist_edges e (cs_edges (rp_change pl)) no_outcome w1)"
    using arg_cong [OF w1(2), of snd] by simp
  ultimately show ?thesis using r(1,2) by blast
qed

lemma reconcile_success_witness:
  "\<exists>rep w'. reconcile mode_drift_engine (\<lambda>_. Inr True) mode_drift_world = (None, rep, w')
     \<and> (\<exists>pl c. plan_reconcile mode_drift_engine mode_drift_world = Inr (pl, c))"
proof -
  have "case reconcile mode_drift_engine (\<lambda>_. Inr True) mode_drift_world of
      (err, rep, _) \<Rightarrow> err = None \<and> rr_applied rep"
    by code_simp
  then obtain rep w' where r: "reconcile mode_drift_engine (\<lambda>_. Inr True) mode_drift_world = (None, rep, w')"
    "rr_applied rep" by (auto split: prod.splits)
  from reconcile_success [OF r] r(1) show ?thesis by blast
qed

text \<open>A provider that owns its records and whose writes report success without effect.\<close>

definition deaf_dns :: "mem_world dns_provider" where
  "deaf_dns = (mem_dns ''ag'' ScopeInternal ''ex'' ''h'')\<lparr>
     dp_owns_all := Some True, dp_apply := (\<lambda>_ w. (None, w))\<rparr>"

definition wrong_target_world :: mem_world where
  "wrong_target_world = (owned_world [OwnCrenel])\<lparr>mw_dns :=
     (\<lambda>_. [mem_record ScopeInternal ''g.ex'' ''x''])\<rparr>"

text \<open>The repair of a wrong DNS target is not read back: the verification of a reconcile looks
  up added records by name and type only, so a provider that accepts the repair and changes
  nothing is reported as success while the drift is still there.\<close>

theorem reconcile_value_drift_unverified:
  "case reconcile (one_edge_engine\<lparr>g_dns := [deaf_dns]\<rparr>) (\<lambda>_. Inr True) wrong_target_world of
     (err, rep, w') \<Rightarrow> err = None \<and> rr_applied rep \<and> verified (rr_verify rep)
       \<and> (case detect_drift (one_edge_engine\<lparr>g_dns := [deaf_dns]\<rparr>) w' of
            Inl _ \<Rightarrow> False | Inr pl \<Rightarrow> map f_kind (rp_drift pl) = [DriftValueDNS])"
  by code_simp

context step_contract
begin

lemma reconcile_restores:
  assumes "reconcile e confirm w = (Some err, rep, w')" and "g_rollback e"
    and "\<And>pl c snaps. plan_reconcile e w = Inr (pl, c) \<Longrightarrow>
           snapshots e w (cs_edges (rp_change pl)) (\<lambda>_. empty_live False) = Inr snaps \<Longrightarrow>
           (\<forall>s \<in> set (build_steps e zero_op (rp_change pl) snaps). fits s w)
           \<and> sorted_wrt indep (build_steps e zero_op (rp_change pl) snaps)"
    and "calm w \<or> t_rollback_errors (rr_out rep) = []"
  shows "obs w' = obs w"
proof (cases "w' = w")
  case False
  with reconcile_cases [OF assms(1)] obtain pl c snaps x where
    x: "plan_reconcile e w = Inr (pl, c)"
      "snapshots e w (cs_edges (rp_change pl)) (\<lambda>_. empty_live False) = Inr snaps"
      "transact e (build_steps e zero_op (rp_change pl) snaps) (verify_reconcile e c (rp_change pl))
          (cs_edges (rp_change pl)) w = (x, w')" "Some err = x_err x" "rr_out rep = x_out x" by metis
  from x(4) have "x_err x \<noteq> None" by (metis option.distinct(1))
  from transact_restores [OF x(3) this] assms(3) [OF x(1,2)] assms(2,4) x(5) show ?thesis by simp
qed simp

end

end
