(* ===== verification/Adoption.thy ===== *)
theory Adoption
  imports Reconcile
begin

text \<open>
  Taking over existing routes: \<open>internal/core/import.go\<close> (\<open>planImport\<close>,
  \<open>DetectImport\<close>, \<open>Import\<close>, \<open>verifyImport\<close>, \<open>desiredAddr\<close>, \<open>managedRoute\<close>) and
  \<open>adoptInline\<close> of \<open>declarative.go\<close>. Adoption only stamps ownership markers; the reason text
  of a conflict is a value. Edges are looked up by their binding where the code goes through a
  map by name.
\<close>

section \<open>The import plan\<close>

record adopt_candidate =
  ac_edge :: string
  ac_driver :: string
  ac_host :: string
  ac_service :: string
  ac_address :: string
  ac_mode :: route_mode

datatype conflict_reason =
    OriginMismatch | DriverUnsupported | ForeignManaged | OwnershipUnknown | Unresolvable | ExistsUnmanaged

record import_conflict =
  ic_edge :: string
  ic_driver :: string
  ic_host :: string
  ic_service :: string
  ic_reason :: conflict_reason

record import_plan =
  ip_adopt :: "adopt_candidate list"
  ip_conflicts :: "import_conflict list"
  ip_already :: "string list"

text \<open>\<open>desiredAddr\<close>: what the driver would write for the service; \<open>None\<close> is its error.\<close>

definition desired_addr :: "'w edge_binding \<Rightarrow> string \<Rightarrow> string \<Rightarrow> string option" where
  "desired_addr b service host =
     (case ep_plan (b_provider b) (mk_op Expose service host) (empty_live True) of
        Inl _ \<Rightarrow> None
      | Inr cs \<Rightarrow>
          (case e_add (cs_edge cs) of [r] \<Rightarrow> Some (u_address (r_upstream r)) | _ \<Rightarrow> None))"

definition managed_route :: "live_edge_state \<Rightarrow> string \<Rightarrow> bool" where
  "managed_route live host = (case route_of live host of Some r \<Rightarrow> r_managed r | None \<Rightarrow> False)"

datatype import_item =
    ItemSkip | ItemManaged string | ItemConflict import_conflict | ItemAdopt adopt_candidate

definition conflict_on :: "'w edge_binding \<Rightarrow> string \<Rightarrow> string \<Rightarrow> conflict_reason \<Rightarrow> import_conflict" where
  "conflict_on b host svc reason = \<lparr>ic_edge = b_name b, ic_driver = ep_name (b_provider b),
     ic_host = host, ic_service = svc, ic_reason = reason\<rparr>"

definition import_route :: "'w engine \<Rightarrow> 'w edge_binding \<Rightarrow> route \<Rightarrow> import_item" where
  "import_route e b r =
     (let svc = service_of e (r_host r); conflict = (\<lambda>why. ItemConflict (conflict_on b (r_host r) svc why))
      in if \<not> fronts b svc then ItemSkip
         else if r_managed r then ItemManaged (r_host r)
         else if r_ownership r = OwnForeign then conflict ForeignManaged
         else if r_ownership r = OwnUnknown then conflict OwnershipUnknown
         else (case desired_addr b svc (r_host r) of
                 None \<Rightarrow> ItemSkip
               | Some want \<Rightarrow>
                   if ep_adopt (b_provider b) = None then conflict DriverUnsupported
                   else if u_address (r_upstream r) \<noteq> want then conflict OriginMismatch
                   else ItemAdopt \<lparr>ac_edge = b_name b, ac_driver = ep_name (b_provider b),
                     ac_host = r_host r, ac_service = svc, ac_address = u_address (r_upstream r),
                     ac_mode = u_mode (r_upstream r)\<rparr>))"

definition import_items :: "'w engine \<Rightarrow> 'w edge_view list \<Rightarrow> import_item list" where
  "import_items e views = concat (map (\<lambda>(b, live). map (import_route e b) (l_routes live)) views)"

definition adopts :: "import_item list \<Rightarrow> adopt_candidate list" where
  "adopts items = concat (map (\<lambda>x. case x of ItemAdopt c \<Rightarrow> [c] | _ \<Rightarrow> []) items)"

definition plan_import :: "'w engine \<Rightarrow> 'w \<Rightarrow> core_err + import_plan" where
  "plan_import e w =
     rbind (rmap (read_view w) (g_edges e)) (\<lambda>views.
       let items = import_items e views
       in Inr \<lparr>ip_adopt = adopts items,
               ip_conflicts = concat (map (\<lambda>x. case x of ItemConflict c \<Rightarrow> [c] | _ \<Rightarrow> []) items),
               ip_already = sort (concat (map (\<lambda>x. case x of ItemManaged h \<Rightarrow> [h] | _ \<Rightarrow> []) items))\<rparr>)"

section \<open>Adopting\<close>

definition hosts_by_edge :: "adopt_candidate list \<Rightarrow> string \<Rightarrow> string list" where
  "hosts_by_edge cands edge = map ac_host (filter (\<lambda>c. ac_edge c = edge) cands)"

fun adopt_inline :: "'w edge_binding list \<Rightarrow> adopt_candidate list \<Rightarrow> 'w \<Rightarrow> core_err option \<times> 'w" where
  "adopt_inline [] cands w = (None, w)"
| "adopt_inline (b # bs) cands w =
     (let hs = hosts_by_edge cands (b_name b)
      in if hs = [] then adopt_inline bs cands w
         else (case ep_adopt (b_provider b) of
                 None \<Rightarrow> (Some (ErrNotSupported (b_name b)), w)
               | Some act \<Rightarrow>
                   (case act hs w of
                      (Some err, w') \<Rightarrow> (Some (ErrProvider (b_name b) err), w')
                    | (None, w') \<Rightarrow> adopt_inline bs cands w')))"

section \<open>Verification and the command\<close>

fun adopted_violation :: "live_edge_state \<Rightarrow> string list \<Rightarrow> verify_detail option" where
  "adopted_violation live [] = None"
| "adopted_violation live (h # hs) =
     (if \<not> managed_route live h then Some (DStillExposed h)
      else if \<not> reachable live h then Some (DNotReachable h)
      else adopted_violation live hs)"

definition verify_import_edge :: "adopt_candidate list \<Rightarrow> 'w \<Rightarrow> 'w edge_binding \<Rightarrow> verify_result list" where
  "verify_import_edge cands w b =
     (let hs = hosts_by_edge cands (b_name b); label = edge_step_label (b_name b) (ep_name (b_provider b))
      in if hs = [] then []
         else [case ep_read (b_provider b) w of
                 Inl err \<Rightarrow> mk_result label False (DReReadFailed err)
               | Inr live \<Rightarrow>
                   if \<not> l_deny_present live then mk_result label False DDenyMissing
                   else (case adopted_violation live hs of
                           Some d \<Rightarrow> mk_result label False d
                         | None \<Rightarrow> mk_result label True DConsistent)])"

definition verify_import :: "'w engine \<Rightarrow> adopt_candidate list \<Rightarrow> 'w \<Rightarrow> verify_result list" where
  "verify_import e cands w = concat (map (verify_import_edge cands w) (g_edges e))"

record import_report =
  im_plan :: "import_plan option"
  im_adopted :: bool
  im_verify :: "verify_result list"

definition import_cmd :: "'w engine \<Rightarrow> (import_plan \<Rightarrow> perr + bool) \<Rightarrow> 'w
    \<Rightarrow> core_err option \<times> import_report \<times> 'w" where
  "import_cmd e confirm w =
     (let rep = \<lparr>im_plan = None, im_adopted = False, im_verify = []\<rparr>
      in case gate_read_only e of
           Some err \<Rightarrow> (Some err, rep, w)
         | None \<Rightarrow>
       (case plan_import e w of
          Inl err \<Rightarrow> (Some err, rep, w)
        | Inr pl \<Rightarrow>
            let rep = rep\<lparr>im_plan := Some pl\<rparr>
            in if ip_adopt pl = [] then (None, rep, w)
               else (case confirm pl of
                       Inl err \<Rightarrow> (Some (ErrConfirm err), rep, w)
                     | Inr ok \<Rightarrow>
                         if \<not> ok then (None, rep, w)
                         else (case adopt_inline (g_edges e) (ip_adopt pl) w of
                                 (Some err, w') \<Rightarrow> (Some err, rep, w')
                               | (None, w') \<Rightarrow>
                                   let vs = verify_import e (ip_adopt pl) w';
                                       rep = rep\<lparr>im_adopted := True, im_verify := vs\<rparr>
                                   in if \<not> verified vs
                                      then (Some (ErrVerifyFailed (map vr_provider (filter (\<lambda>v. \<not> vr_ok v) vs))), rep, w')
                                      else (None, rep, w')))))"

section \<open>Lemmas\<close>

lemma import_route_adopt:
  "import_route e b r = ItemAdopt cand \<Longrightarrow>
     fronts b (service_of e (r_host r)) \<and> \<not> r_managed r \<and> mutable (r_ownership r)
     \<and> desired_addr b (service_of e (r_host r)) (r_host r) = Some (u_address (r_upstream r))
     \<and> ep_adopt (b_provider b) \<noteq> None \<and> ac_edge cand = b_name b \<and> ac_host cand = r_host r
     \<and> ac_address cand = u_address (r_upstream r)"
  by (auto simp: import_route_def Let_def mutable_iff split: if_splits option.splits)

lemma set_adopts: "cand \<in> set (adopts items) \<longleftrightarrow> ItemAdopt cand \<in> set items"
  by (force simp: adopts_def split: import_item.splits)

lemma plan_import_Inr:
  "plan_import e w = Inr pl \<Longrightarrow>
     \<exists>views. rmap (read_view w) (g_edges e) = Inr views \<and> ip_adopt pl = adopts (import_items e views)"
  by (auto simp: plan_import_def rbind_Inr Let_def)

lemma adopted_violation_None:
  "adopted_violation live hs = None \<longleftrightarrow> (\<forall>h \<in> set hs. managed_route live h \<and> reachable live h)"
  by (induction hs) auto

section \<open>Properties of adoption\<close>

text \<open>Import only offers what is safe to take over: an adoption candidate is a live route of an
  edge that fronts the service and can stamp markers, it is not managed yet, its owner is neither
  another tool nor unknown, and its backend is exactly what crenel would have written for it.\<close>

theorem import_adopts_only_matching:
  assumes "plan_import e w = Inr pl" and "cand \<in> set (ip_adopt pl)"
  shows "\<exists>b \<in> set (g_edges e). \<exists>live. \<exists>r \<in> set (l_routes live).
    ep_read (b_provider b) w = Inr live \<and> ac_edge cand = b_name b \<and> ac_host cand = r_host r
    \<and> fronts b (service_of e (r_host r)) \<and> ep_adopt (b_provider b) \<noteq> None
    \<and> \<not> r_managed r \<and> mutable (r_ownership r)
    \<and> desired_addr b (service_of e (r_host r)) (r_host r) = Some (u_address (r_upstream r))"
proof -
  from plan_import_Inr [OF assms(1)] assms(2) obtain views where
    v: "rmap (read_view w) (g_edges e) = Inr views" "ItemAdopt cand \<in> set (import_items e views)"
    by (auto simp: set_adopts)
  from v(2) obtain b live r where r: "(b, live) \<in> set views" "r \<in> set (l_routes live)"
    "import_route e b r = ItemAdopt cand"
    by (auto simp: import_items_def)
  note views = read_view_Inr [OF v(1)]
  have "fst (b, live) \<in> fst ` set views" using r(1) by (rule imageI)
  with views have "b \<in> set (g_edges e)" by (metis fst_conv list.set_map)
  moreover have "ep_read (b_provider b) w = Inr live" using views r(1) by auto
  ultimately show ?thesis using r(2) import_route_adopt [OF r(3)] by blast
qed

definition adopting_edge :: "mem_world edge_provider" where
  "adopting_edge = (mem_edge ''home'')\<lparr>ep_plan := (\<lambda>op live. mem_plan (op\<lparr>o_to := ''o:3000''\<rparr>) live),
     ep_adopt := Some (\<lambda>hs w. (None, w\<lparr>mw_edges := (\<lambda>n. let s = mw_edges w n in s\<lparr>l_routes :=
       map (\<lambda>r. if r_host r \<in> set hs then r\<lparr>r_managed := True, r_ownership := OwnCrenel\<rparr> else r) (l_routes s)\<rparr>)\<rparr>))\<rparr>"

definition adopting_engine :: "mem_world engine" where
  "adopting_engine = new_multi [(g_edges two_hop_engine ! 0)\<lparr>b_provider := adopting_edge\<rparr>] ''ex'' []"

lemma adopting_plan:
  "\<exists>pl. plan_import adopting_engine (owned_world [OwnUnmanaged]) = Inr pl \<and> length (ip_adopt pl) = 1"
proof -
  have "case plan_import adopting_engine (owned_world [OwnUnmanaged]) of
      Inl _ \<Rightarrow> False | Inr pl \<Rightarrow> length (ip_adopt pl) = 1"
    by code_simp
  then show ?thesis by (auto split: sum.splits)
qed

lemma import_adopts_only_matching_witness:
  "\<exists>pl cand. plan_import adopting_engine (owned_world [OwnUnmanaged]) = Inr pl \<and> cand \<in> set (ip_adopt pl)
     \<and> ac_host cand = ''g.ex''"
proof -
  obtain pl where pl: "plan_import adopting_engine (owned_world [OwnUnmanaged]) = Inr pl"
    "length (ip_adopt pl) = 1" using adopting_plan by blast
  then have mem: "ip_adopt pl ! 0 \<in> set (ip_adopt pl)" by simp
  from import_adopts_only_matching [OF pl(1) mem] obtain b live r where
    "b \<in> set (g_edges adopting_engine)" "r \<in> set (l_routes live)"
    "ep_read (b_provider b) (owned_world [OwnUnmanaged]) = Inr live" "ac_host (ip_adopt pl ! 0) = r_host r"
    by blast
  then have "ac_host (ip_adopt pl ! 0) = ''g.ex''"
    by (auto simp: adopting_engine_def new_multi_def two_hop_engine_def adopting_edge_def owned_world_def)
  with pl(1) mem show ?thesis by blast
qed

text \<open>An import that reports success has been read back: every edge it adopted on was readable,
  kept its default deny, and shows every adopted host as managed and still reachable.\<close>

theorem import_success:
  assumes "import_cmd e confirm w = (None, rep, w')" and "im_adopted rep"
    and "im_plan rep = Some pl" and "b \<in> set (g_edges e)" and "cand \<in> set (ip_adopt pl)"
    and "ac_edge cand = b_name b"
  shows "\<exists>live. ep_read (b_provider b) w' = Inr live \<and> l_deny_present live
    \<and> managed_route live (ac_host cand) \<and> reachable live (ac_host cand)"
proof -
  have "verified (verify_import e (ip_adopt pl) w')"
    using assms(1-3)
    by (auto simp: import_cmd_def Let_def split: option.splits sum.splits if_splits prod.splits)
  moreover have h: "ac_host cand \<in> set (hosts_by_edge (ip_adopt pl) (b_name b))"
    using assms(5,6) by (auto simp: hosts_by_edge_def)
  then have ne: "hosts_by_edge (ip_adopt pl) (b_name b) \<noteq> []" by auto
  obtain v where v: "verify_import_edge (ip_adopt pl) w' b = [v]"
    using ne by (simp add: verify_import_edge_def Let_def)
  then have "v \<in> (\<Union>x \<in> set (g_edges e). set (verify_import_edge (ip_adopt pl) w' x))"
    using assms(4) by (intro UN_I [of b]) simp_all
  ultimately have "vr_ok v" unfolding verified_iff verify_import_def by auto
  with v ne obtain live where "ep_read (b_provider b) w' = Inr live" "l_deny_present live"
    "adopted_violation live (hosts_by_edge (ip_adopt pl) (b_name b)) = None"
    by (auto simp: verify_import_edge_def Let_def split: sum.splits if_splits option.splits)
  with h show ?thesis by (auto simp: adopted_violation_None)
qed

lemma import_success_witness:
  "\<exists>rep w'. import_cmd adopting_engine (\<lambda>_. Inr True) (owned_world [OwnUnmanaged]) = (None, rep, w')
     \<and> (\<exists>live. ep_read adopting_edge w' = Inr live \<and> l_deny_present live)"
proof -
  have "case import_cmd adopting_engine (\<lambda>_. Inr True) (owned_world [OwnUnmanaged]) of
      (err, rep, _) \<Rightarrow> err = None \<and> im_adopted rep \<and> (case im_plan rep of None \<Rightarrow> False
        | Some pl \<Rightarrow> map ac_edge (ip_adopt pl) = [''home''])"
    by code_simp
  then obtain rep w' pl where r:
    "import_cmd adopting_engine (\<lambda>_. Inr True) (owned_world [OwnUnmanaged]) = (None, rep, w')"
    "im_adopted rep" "im_plan rep = Some pl" "map ac_edge (ip_adopt pl) = [''home'']"
    by (auto split: prod.splits option.splits)
  let ?b = "g_edges adopting_engine ! 0"
  have b: "?b \<in> set (g_edges adopting_engine)" "b_name ?b = ''home''" "b_provider ?b = adopting_edge"
    by (simp_all add: adopting_engine_def new_multi_def two_hop_engine_def)
  from r(4) obtain cand where "cand \<in> set (ip_adopt pl)" "ac_edge cand = ''home''" by (cases "ip_adopt pl") auto
  with import_success [OF r(1-3) b(1), of cand] b r(1) show ?thesis by auto
qed

end
