(* ===== verification/Declarative.thy ===== *)
theory Declarative
  imports Adoption
begin

text \<open>
  The desired-state writes: \<open>internal/core/declarative.go\<close> (\<open>planDeclarative\<close>,
  \<open>ApplyDeclarative\<close>, \<open>declarativeNewPublic\<close>, \<open>verifyDeclarative\<close>). The maps by edge name
  of the code (\<open>lives\<close>, \<open>edgeChanges\<close>) are read through the binding: names are unique in a
  topology. What one exposure asks of one edge is a \<open>decl_item\<close>; the loop over exposures and
  target edges collects them in order and returns at the first error.
\<close>

section \<open>Exposures\<close>

record exposure =
  x_host :: string
  x_service :: string
  x_mode :: route_mode
  x_auth :: string
  x_edges :: "string list"
  x_scopes :: "scope list"
  x_residency :: string

record decl_options =
  do_adopt :: bool
  do_prune :: bool

record decl_plan =
  dl_change :: change_set
  dl_new_public :: "string list"
  dl_adopt :: "adopt_candidate list"
  dl_prune :: "string list"
  dl_blocked :: "import_conflict list"

definition decl_plan_empty :: "decl_plan \<Rightarrow> bool" where
  "decl_plan_empty p = (change_set_empty (dl_change p) \<and> dl_adopt p = [] \<and> dl_prune p = [])"

definition exposure_host :: "'w engine \<Rightarrow> exposure \<Rightarrow> string" where
  "exposure_host e ex = (if x_host ex \<noteq> [] then x_host ex else o_host (build_op e Expose (x_service ex)))"

definition target_edges :: "'w edge_view list \<Rightarrow> exposure \<Rightarrow> 'w edge_view list" where
  "target_edges views ex =
     filter (\<lambda>(b, live). edge_selected (x_edges ex) (b_name b) \<and> fronts b (x_service ex)) views"

definition scope_wanted :: "exposure \<Rightarrow> scope \<Rightarrow> bool" where
  "scope_wanted ex sc = scope_selected (x_scopes ex) sc"

definition addr_of :: "live_edge_state \<Rightarrow> string \<Rightarrow> string" where
  "addr_of live host = (case route_of live host of Some r \<Rightarrow> u_address (r_upstream r) | None \<Rightarrow> [])"

section \<open>Planning the edges\<close>

datatype decl_item =
    DeclSatisfied
  | DeclBlocked import_conflict
  | DeclAdopt adopt_candidate
  | DeclAdd string "route list"

definition exposure_op :: "'w engine \<Rightarrow> exposure \<Rightarrow> op" where
  "exposure_op e ex = (mk_op Expose (x_service ex) (exposure_host e ex))\<lparr>o_mode := x_mode ex, o_auth := x_auth ex\<rparr>"

definition plan_exposure_edge :: "'w engine \<Rightarrow> decl_options \<Rightarrow> exposure \<Rightarrow> 'w edge_view \<Rightarrow> core_err + decl_item" where
  "plan_exposure_edge e opts ex v =
     (let (b, live) = v; host = exposure_host e ex; svc = x_service ex;
          blocked = (\<lambda>why. Inr (DeclBlocked (conflict_on b host svc why)))
      in if has_host live host then
           (if managed_route live host then Inr DeclSatisfied
            else if ownership_of live host = OwnForeign then blocked ForeignManaged
            else if ownership_of live host = OwnUnknown then blocked OwnershipUnknown
            else (case desired_addr b svc host of
                    None \<Rightarrow> blocked Unresolvable
                  | Some want \<Rightarrow>
                      if addr_of live host \<noteq> want then blocked OriginMismatch
                      else if \<not> do_adopt opts then blocked ExistsUnmanaged
                      else Inr (DeclAdopt \<lparr>ac_edge = b_name b, ac_driver = ep_name (b_provider b),
                        ac_host = host, ac_service = svc, ac_address = addr_of live host, ac_mode = x_mode ex\<rparr>)))
         else (case ep_plan (b_provider b) (exposure_op e ex) live of
                 Inl err \<Rightarrow> Inl (ErrEdgePlan (b_name b) err)
               | Inr cs \<Rightarrow> Inr (DeclAdd (b_name b) (e_add (cs_edge cs)))))"

definition plan_exposure :: "'w engine \<Rightarrow> decl_options \<Rightarrow> 'w edge_view list \<Rightarrow> exposure
    \<Rightarrow> core_err + decl_item list" where
  "plan_exposure e opts views ex =
     (if exposure_host e ex = [] then Inl (ErrUnknownService (x_service ex))
      else if \<not> validate_auth (x_mode ex) (x_auth ex) then Inl ErrAuthUnsupportedForMode
      else rmap (plan_exposure_edge e opts ex) (target_edges views ex))"

definition desired_hosts :: "'w engine \<Rightarrow> exposure list \<Rightarrow> string set" where
  "desired_hosts e exs = set (map (to_lower \<circ> exposure_host e) exs)"

definition pruned_hosts :: "'w engine \<Rightarrow> decl_options \<Rightarrow> exposure list \<Rightarrow> live_edge_state \<Rightarrow> string list" where
  "pruned_hosts e opts exs live =
     (if \<not> do_prune opts then []
      else map r_host (filter (\<lambda>r. r_managed r \<and> to_lower (r_host r) \<notin> desired_hosts e exs) (l_routes live)))"

definition adds_for :: "decl_item list \<Rightarrow> string \<Rightarrow> route list" where
  "adds_for items edge =
     concat (map (\<lambda>x. case x of DeclAdd n rs \<Rightarrow> if n = edge then rs else [] | _ \<Rightarrow> []) items)"

definition decl_edge_plan :: "'w engine \<Rightarrow> decl_options \<Rightarrow> exposure list \<Rightarrow> decl_item list \<Rightarrow> 'w edge_view
    \<Rightarrow> edge_plan list" where
  "decl_edge_plan e opts exs items v =
     (let (b, live) = v;
          ec = no_edge_change\<lparr>e_add := adds_for items (b_name b), e_remove := pruned_hosts e opts exs live\<rparr>
      in if edge_change_empty ec then []
         else [\<lparr>p_edge = b_name b, p_driver = ep_name (b_provider b), p_change = ec\<rparr>])"

section \<open>Planning DNS\<close>

definition exposure_records :: "'w engine \<Rightarrow> 'w dns_provider \<Rightarrow> exposure \<Rightarrow> core_err + dns_record list" where
  "exposure_records e dp ex =
     (let host = exposure_host e ex
      in if \<not> scope_wanted ex (dp_scope dp) then Inr []
         else if \<not> dns_covers_host dp host then Inr []
         else if \<not> residency_supported dp (x_residency ex)
              then Inl (ErrResidency (dp_name dp) (x_residency ex))
         else (case dp_desired dp ((mk_op Expose (x_service ex) host)\<lparr>o_residency := x_residency ex\<rparr>) of
                 Inl err \<Rightarrow> Inl (ErrDNSDesired (dp_name dp) err)
               | Inr ds \<Rightarrow> Inr ds))"

definition decl_dns :: "'w engine \<Rightarrow> decl_options \<Rightarrow> exposure list \<Rightarrow> 'w \<Rightarrow> 'w dns_provider
    \<Rightarrow> core_err + dns_change" where
  "decl_dns e opts exs w dp =
     (case dp_live dp w of
        Inl err \<Rightarrow> Inl (ErrDNSLive (dp_name dp) err)
      | Inr recs \<Rightarrow>
          rbind (rmap (exposure_records e dp) exs) (\<lambda>dss.
            let desired = concat dss
            in Inr ((no_dns_change (dp_scope dp))\<lparr>c_managed := desired,
                 c_add := filter (\<lambda>rc. record_key rc \<notin> record_key ` set recs) desired,
                 c_remove := (if \<not> do_prune opts then []
                   else filter (\<lambda>r. any_fronts e (service_of e (d_name r))
                     \<and> to_lower (d_name r) \<notin> desired_hosts e exs
                     \<and> record_key r \<notin> record_key ` set desired) recs)\<rparr>)))"

section \<open>The plan\<close>

definition decl_new_public :: "'w engine \<Rightarrow> change_set \<Rightarrow> string list" where
  "decl_new_public e cs =
     sort (uniq_by to_lower [] (filter (\<lambda>h. h \<noteq> [])
       (if has_public_dns e then public_names (cs_dns cs) else route_names (cs_edges cs))))"

definition plan_declarative :: "'w engine \<Rightarrow> exposure list \<Rightarrow> decl_options \<Rightarrow> 'w \<Rightarrow> core_err + decl_plan" where
  "plan_declarative e exs opts w =
     rbind (rmap (read_view w) (g_edges e)) (\<lambda>views.
     rbind (rmap (plan_exposure e opts views) exs) (\<lambda>itemss.
       let items = concat itemss
       in rbind (rmap (decl_dns e opts exs w) (g_dns e)) (\<lambda>ds.
            let cs = (mk_change_set zero_op)\<lparr>
                  cs_edges := concat (map (decl_edge_plan e opts exs items) views), cs_dns := ds\<rparr>
            in Inr \<lparr>dl_change = cs, dl_new_public = decl_new_public e cs,
                    dl_adopt = concat (map (\<lambda>x. case x of DeclAdopt c \<Rightarrow> [c] | _ \<Rightarrow> []) items),
                    dl_prune = sort (concat (map (pruned_hosts e opts exs \<circ> snd) views)),
                    dl_blocked = concat (map (\<lambda>x. case x of DeclBlocked c \<Rightarrow> [c] | _ \<Rightarrow> []) items)\<rparr>)))"

section \<open>Verification\<close>

definition desired_hosts_on_edge :: "decl_plan \<Rightarrow> string \<Rightarrow> string list" where
  "desired_hosts_on_edge p edge =
     concat (map (\<lambda>ep. map r_host (e_add (p_change ep))) (filter (\<lambda>ep. p_edge ep = edge) (cs_edges (dl_change p))))
     @ hosts_by_edge (dl_adopt p) edge"

definition add_routes_on_edge :: "decl_plan \<Rightarrow> string \<Rightarrow> route list" where
  "add_routes_on_edge p edge =
     concat (map (\<lambda>ep. e_add (p_change ep)) (filter (\<lambda>ep. p_edge ep = edge) (cs_edges (dl_change p))))"

definition verify_decl_edge :: "decl_plan \<Rightarrow> 'w \<Rightarrow> 'w edge_binding \<Rightarrow> verify_result" where
  "verify_decl_edge p w b =
     (let label = edge_step_label (b_name b) (ep_name (b_provider b));
          pruned = map to_lower (dl_prune p)
      in case ep_read (b_provider b) w of
           Inl err \<Rightarrow> mk_result label False (DReReadFailed err)
         | Inr live \<Rightarrow>
             if \<not> l_deny_present live then mk_result label False DDenyMissing
             else (case find (\<lambda>h. to_lower h \<notin> set pruned \<and> \<not> reachable live h)
                          (desired_hosts_on_edge p (b_name b)) of
                     Some h \<Rightarrow> mk_result label False (DNotReachable h)
                   | None \<Rightarrow>
                 (case find (has_host live) (dl_prune p) of
                    Some h \<Rightarrow> mk_result label False (DStillExposed h)
                  | None \<Rightarrow>
                      (case verify_edge_auth live (add_routes_on_edge p (b_name b)) of
                         Some d \<Rightarrow> mk_result label False d
                       | None \<Rightarrow>
                           (case verify_edge_forward_tls live (add_routes_on_edge p (b_name b)) of
                              Some d \<Rightarrow> mk_result label False d
                            | None \<Rightarrow> mk_result label True DConsistent)))))"

definition verify_decl_dns :: "decl_plan \<Rightarrow> 'w \<Rightarrow> nat \<times> 'w dns_provider \<Rightarrow> verify_result" where
  "verify_decl_dns p w idp =
     (let (i, dp) = idp; label = dns_label dp; ds = cs_dns (dl_change p)
      in case dp_live dp w of
           Inl err \<Rightarrow> mk_result label False (DReReadFailed err)
         | Inr recs \<Rightarrow>
             if i < length ds then
               (case missing_record (live_by_key recs) (c_add (ds ! i)) of
                  Some d \<Rightarrow> mk_result label False d
                | None \<Rightarrow>
                    (case find (\<lambda>r. record_key r \<in> record_key ` set recs) (c_remove (ds ! i)) of
                       Some r \<Rightarrow> mk_result label False (DRecordStillPresent (record_key r))
                     | None \<Rightarrow> mk_result label True DConsistent))
             else mk_result label True DConsistent)"

definition verify_declarative :: "'w engine \<Rightarrow> decl_plan \<Rightarrow> 'w \<Rightarrow> verify_result list" where
  "verify_declarative e p w =
     map (verify_decl_edge p w) (g_edges e) @ map (verify_decl_dns p w) (enumerate 0 (g_dns e))"

section \<open>ApplyDeclarative\<close>

record decl_report =
  dr_plan :: "decl_plan option"
  dr_applied :: bool
  dr_verify :: "verify_result list"
  dr_out :: txn_outcome

definition apply_declarative :: "'w engine \<Rightarrow> exposure list \<Rightarrow> decl_options \<Rightarrow> confirm \<Rightarrow> 'w
    \<Rightarrow> core_err option \<times> decl_report \<times> 'w" where
  "apply_declarative e exs opts confirm w =
     (let rep = \<lparr>dr_plan = None, dr_applied = False, dr_verify = [], dr_out = no_outcome\<rparr>
      in case gate_read_only e of
           Some err \<Rightarrow> (Some err, rep, w)
         | None \<Rightarrow>
       (case plan_declarative e exs opts w of
          Inl err \<Rightarrow> (Some err, rep, w)
        | Inr p \<Rightarrow>
            let rep = rep\<lparr>dr_plan := Some p\<rparr>
            in if dl_blocked p \<noteq> [] then (Some (ErrApplyBlocked (map ic_host (dl_blocked p))), rep, w)
               else if decl_plan_empty p then (None, rep, w)
               else (case gate_ownership e (dl_change p) w of
                       Some err \<Rightarrow> (Some err, rep, w)
                     | None \<Rightarrow>
                 (case confirm ((dl_change p)\<lparr>cs_new_public := dl_new_public p\<rparr>) of
                    Inl err \<Rightarrow> (Some (ErrConfirm err), rep, w)
                  | Inr ok \<Rightarrow>
                      if \<not> ok then (None, rep, w)
                      else (case (if dl_adopt p = [] then (None, w) else adopt_inline (g_edges e) (dl_adopt p) w) of
                              (Some err, w1) \<Rightarrow> (Some err, rep, w1)
                            | (None, w1) \<Rightarrow>
                                (case snapshots e w1 (cs_edges (dl_change p)) (\<lambda>_. empty_live False) of
                                   Inl err \<Rightarrow> (Some err, rep, w1)
                                 | Inr snaps \<Rightarrow>
                                     let (x, w2) = transact e (build_steps e zero_op (dl_change p) snaps)
                                           (verify_declarative e p) (cs_edges (dl_change p)) w1
                                     in (x_err x, rep\<lparr>dr_applied := x_applied x, dr_verify := x_verify x,
                                                      dr_out := x_out x\<rparr>, w2)))))))"

section \<open>Lemmas\<close>

lemma plan_declarative_Inr:
  assumes "plan_declarative e exs opts w = Inr p"
  shows "\<exists>views itemss ds. rmap (read_view w) (g_edges e) = Inr views
    \<and> rmap (plan_exposure e opts views) exs = Inr itemss
    \<and> rmap (decl_dns e opts exs w) (g_dns e) = Inr ds
    \<and> cs_edges (dl_change p) = concat (map (decl_edge_plan e opts exs (concat itemss)) views)
    \<and> cs_dns (dl_change p) = ds
    \<and> dl_prune p = sort (concat (map (pruned_hosts e opts exs \<circ> snd) views))"
  using assms by (auto simp: plan_declarative_def rbind_Inr Let_def)

lemma mem_decl_edge_plan:
  assumes "ep \<in> set (decl_edge_plan e opts exs items v)"
  shows "p_edge ep = b_name (fst v) \<and> e_add (p_change ep) = adds_for items (b_name (fst v))
    \<and> e_remove (p_change ep) = pruned_hosts e opts exs (snd v)"
  using assms by (cases v) (auto simp: decl_edge_plan_def Let_def no_edge_change_def split: if_splits)

lemma mem_pruned_hosts:
  "h \<in> set (pruned_hosts e opts exs live) \<longleftrightarrow>
     do_prune opts \<and> (\<exists>r \<in> set (l_routes live). r_managed r \<and> r_host r = h)
       \<and> to_lower h \<notin> desired_hosts e exs"
  by (auto simp: pruned_hosts_def)

lemma mem_desired_hosts: "to_lower h \<in> desired_hosts e exs \<longleftrightarrow> (\<exists>ex \<in> set exs. equal_fold (exposure_host e ex) h)"
  by (auto simp: desired_hosts_def equal_fold_def image_iff) metis+

lemma mem_adds_for:
  "r \<in> set (adds_for items n) \<longleftrightarrow> (\<exists>rs. DeclAdd n rs \<in> set items \<and> r \<in> set rs)"
proof
  assume "r \<in> set (adds_for items n)"
  then obtain x where x: "x \<in> set items"
    "r \<in> set (case x of DeclAdd m rs \<Rightarrow> if m = n then rs else [] | _ \<Rightarrow> [])"
    by (auto simp: adds_for_def)
  from x(2) obtain rs where "x = DeclAdd n rs" "r \<in> set rs"
    by (cases x) (auto split: if_splits)
  with x(1) show "\<exists>rs. DeclAdd n rs \<in> set items \<and> r \<in> set rs" by blast
qed (force simp: adds_for_def)

lemma plan_exposure_edge_add:
  assumes "plan_exposure_edge e opts ex v = Inr (DeclAdd n rs)"
  shows "n = b_name (fst v) \<and> \<not> has_host (snd v) (exposure_host e ex)
    \<and> (\<exists>cs. ep_plan (b_provider (fst v)) (exposure_op e ex) (snd v) = Inr cs \<and> rs = e_add (cs_edge cs))"
  using assms
  by (cases v) (auto simp: plan_exposure_edge_def Let_def split: if_splits option.splits sum.splits)

lemma plan_exposure_mem:
  assumes "plan_exposure e opts views ex = Inr items" and "x \<in> set items"
  shows "validate_auth (x_mode ex) (x_auth ex) \<and> exposure_host e ex \<noteq> []
    \<and> (\<exists>v \<in> set views. edge_selected (x_edges ex) (b_name (fst v)) \<and> fronts (fst v) (x_service ex)
         \<and> plan_exposure_edge e opts ex v = Inr x)"
proof -
  have r: "rmap (plan_exposure_edge e opts ex) (target_edges views ex) = Inr items"
    "validate_auth (x_mode ex) (x_auth ex)" "exposure_host e ex \<noteq> []"
    using assms(1) by (auto simp: plan_exposure_def split: if_splits)
  from rmap_Inr_set [OF r(1) assms(2)] r(2,3) show ?thesis
    by (force simp: target_edges_def)
qed

section \<open>Properties\<close>

text \<open>C39. A declarative plan writes only what the file asks for: every route it adds is the one the
  driver of a selected edge that serves the service plans for some exposure whose host the edge
  does not hold; every host it removes is a route crenel manages there that no exposure of the
  file names, and only under prune.\<close>

theorem declarative_edge_changes:
  assumes "plan_declarative e exs opts w = Inr p" and "ep \<in> set (cs_edges (dl_change p))"
  shows "\<exists>b \<in> set (g_edges e). \<exists>live. p_edge ep = b_name b \<and> ep_read (b_provider b) w = Inr live
    \<and> (\<forall>h \<in> set (e_remove (p_change ep)). do_prune opts
         \<and> (\<exists>r \<in> set (l_routes live). r_managed r \<and> r_host r = h)
         \<and> (\<forall>ex \<in> set exs. \<not> equal_fold (exposure_host e ex) h))
    \<and> (\<forall>r \<in> set (e_add (p_change ep)). \<exists>ex \<in> set exs. \<exists>b' \<in> set (g_edges e). \<exists>live' cs.
         b_name b' = b_name b \<and> ep_read (b_provider b') w = Inr live'
         \<and> edge_selected (x_edges ex) (b_name b') \<and> fronts b' (x_service ex)
         \<and> validate_auth (x_mode ex) (x_auth ex) \<and> \<not> has_host live' (exposure_host e ex)
         \<and> ep_plan (b_provider b') (exposure_op e ex) live' = Inr cs \<and> r \<in> set (e_add (cs_edge cs)))"
proof -
  from plan_declarative_Inr [OF assms(1)] obtain views itemss where
    views: "rmap (read_view w) (g_edges e) = Inr views"
    and items: "rmap (plan_exposure e opts views) exs = Inr itemss"
    and edges: "cs_edges (dl_change p) = concat (map (decl_edge_plan e opts exs (concat itemss)) views)"
    by blast
  from assms(2) edges obtain v where v: "v \<in> set views"
    "ep \<in> set (decl_edge_plan e opts exs (concat itemss) v)" by auto
  have read: "fst u \<in> set (g_edges e) \<and> ep_read (b_provider (fst u)) w = Inr (snd u)"
    if "u \<in> set views" for u
    using rmap_Inr_set [OF views that] by (cases u) (auto simp: read_view_at)
  note ep = mem_decl_edge_plan [OF v(2)]
  have removes: "do_prune opts \<and> (\<exists>r \<in> set (l_routes (snd v)). r_managed r \<and> r_host r = h)
      \<and> (\<forall>ex \<in> set exs. \<not> equal_fold (exposure_host e ex) h)"
    if "h \<in> set (e_remove (p_change ep))" for h
    using that ep by (auto simp: mem_pruned_hosts mem_desired_hosts)
  have adds: "\<exists>ex \<in> set exs. \<exists>b' \<in> set (g_edges e). \<exists>live' cs.
         b_name b' = b_name (fst v) \<and> ep_read (b_provider b') w = Inr live'
         \<and> edge_selected (x_edges ex) (b_name b') \<and> fronts b' (x_service ex)
         \<and> validate_auth (x_mode ex) (x_auth ex) \<and> \<not> has_host live' (exposure_host e ex)
         \<and> ep_plan (b_provider b') (exposure_op e ex) live' = Inr cs \<and> r \<in> set (e_add (cs_edge cs))"
    if "r \<in> set (e_add (p_change ep))" for r
  proof -
    from that ep obtain rs its where rs: "DeclAdd (b_name (fst v)) rs \<in> set its" "its \<in> set itemss" "r \<in> set rs"
      by (auto simp: mem_adds_for)
    from rmap_Inr_set [OF items rs(2)] obtain ex where ex: "ex \<in> set exs"
      "plan_exposure e opts views ex = Inr its" by blast
    from plan_exposure_mem [OF ex(2) rs(1)] obtain u where u: "u \<in> set views"
      "validate_auth (x_mode ex) (x_auth ex)" "edge_selected (x_edges ex) (b_name (fst u))"
      "fronts (fst u) (x_service ex)" "plan_exposure_edge e opts ex u = Inr (DeclAdd (b_name (fst v)) rs)"
      by blast
    from plan_exposure_edge_add [OF u(5)] obtain cs where
      "b_name (fst v) = b_name (fst u)" "\<not> has_host (snd u) (exposure_host e ex)"
      "ep_plan (b_provider (fst u)) (exposure_op e ex) (snd u) = Inr cs" "rs = e_add (cs_edge cs)" by blast
    with ex(1) u rs(3) read [OF u(1)] show ?thesis by metis
  qed
  from read [OF v(1)] ep removes adds show ?thesis by blast
qed

text \<open>What a written declarative plan went through.\<close>

lemma apply_declarative_cases:
  assumes "apply_declarative e exs opts confirm w = (err, rep, w')" and "dr_applied rep"
  shows "\<exists>p w1 snaps x. \<not> g_read_only e \<and> plan_declarative e exs opts w = Inr p \<and> dl_blocked p = []
     \<and> gate_ownership e (dl_change p) w = None
     \<and> confirm ((dl_change p)\<lparr>cs_new_public := dl_new_public p\<rparr>) = Inr True
     \<and> (if dl_adopt p = [] then (None, w) else adopt_inline (g_edges e) (dl_adopt p) w) = (None, w1)
     \<and> transact e (build_steps e zero_op (dl_change p) snaps) (verify_declarative e p)
         (cs_edges (dl_change p)) w1 = (x, w') \<and> err = x_err x"
proof (cases "plan_declarative e exs opts w")
  case (Inl pe)
  with assms show ?thesis by (auto simp: apply_declarative_def Let_def split: option.splits)
next
  case (Inr p)
  show ?thesis
  proof (cases "g_read_only e \<or> dl_blocked p \<noteq> [] \<or> decl_plan_empty p \<or> gate_ownership e (dl_change p) w \<noteq> None
      \<or> confirm ((dl_change p)\<lparr>cs_new_public := dl_new_public p\<rparr>) \<noteq> Inr True")
    case True
    with assms Inr show ?thesis
      by (auto simp: apply_declarative_def Let_def gate_read_only_def split: if_splits option.splits sum.splits)
  next
    case False
    obtain ae w1 where a: "(if dl_adopt p = [] then (None, w) else adopt_inline (g_edges e) (dl_adopt p) w) = (ae, w1)"
      by fastforce
    have ae: "ae = None"
      using assms Inr False a
      by (cases ae) (auto simp: apply_declarative_def Let_def gate_read_only_def)
    obtain snaps where sn: "snapshots e w1 (cs_edges (dl_change p)) (\<lambda>_. empty_live False) = Inr snaps"
      using assms Inr False a ae
      by (cases "snapshots e w1 (cs_edges (dl_change p)) (\<lambda>_. empty_live False)")
        (auto simp: apply_declarative_def Let_def gate_read_only_def)
    obtain x v where x: "transact e (build_steps e zero_op (dl_change p) snaps) (verify_declarative e p)
        (cs_edges (dl_change p)) w1 = (x, v)" by fastforce
    have "v = w' \<and> err = x_err x"
      using assms(1) Inr False a ae sn x
      by (auto simp: apply_declarative_def Let_def gate_read_only_def)
    with Inr False a ae x show ?thesis
      by (intro exI [of _ p] exI [of _ w1] exI [of _ snaps] exI [of _ x]) simp
  qed
qed

lemma verify_decl_edge_ok:
  assumes "vr_ok (verify_decl_edge p w b)"
  shows "\<exists>live. ep_read (b_provider b) w = Inr live \<and> l_deny_present live
    \<and> (\<forall>h \<in> set (desired_hosts_on_edge p (b_name b)). to_lower h \<notin> to_lower ` set (dl_prune p) \<longrightarrow> has_host live h)
    \<and> (\<forall>h \<in> set (dl_prune p). \<not> has_host live h)
    \<and> verify_edge_auth live (add_routes_on_edge p (b_name b)) = None
    \<and> verify_edge_forward_tls live (add_routes_on_edge p (b_name b)) = None"
proof (cases "ep_read (b_provider b) w")
  case (Inr live)
  with assms have deny: "l_deny_present live"
    by (auto simp: verify_decl_edge_def Let_def split: if_splits)
  have f: "find (\<lambda>h. to_lower h \<notin> set (map to_lower (dl_prune p)) \<and> \<not> reachable live h)
      (desired_hosts_on_edge p (b_name b)) = None"
    and g: "find (has_host live) (dl_prune p) = None"
    and "verify_edge_auth live (add_routes_on_edge p (b_name b)) = None"
    and "verify_edge_forward_tls live (add_routes_on_edge p (b_name b)) = None"
    using assms Inr deny
    by (auto simp: verify_decl_edge_def Let_def simp del: set_map split: if_splits option.splits)
  with Inr deny show ?thesis by (auto simp: find_None_iff' reachable_def)
qed (use assms in \<open>simp add: verify_decl_edge_def Let_def\<close>)

lemma verify_decl_dns_ok:
  assumes "vr_ok (verify_decl_dns p w (i, dp))"
  shows "\<exists>recs. dp_live dp w = Inr recs \<and> (i < length (cs_dns (dl_change p)) \<longrightarrow>
     missing_record (live_by_key recs) (c_add (cs_dns (dl_change p) ! i)) = None
     \<and> (\<forall>r \<in> set (c_remove (cs_dns (dl_change p) ! i)). record_key r \<notin> record_key ` set recs))"
  using assms
  by (auto simp: verify_decl_dns_def Let_def find_None_iff' split: sum.splits if_splits option.splits)

text \<open>C38. A declarative apply that reports success was blocked by nothing and has been read back: at
  the moment of verification every edge was readable and kept its default deny, no pruned host was
  left on any edge, every other planned or adopted host was present on its edge with the planned
  authentication and upstream TLS, and every provider held the added records with their values and
  none of the removed ones.\<close>

theorem declarative_success:
  assumes "apply_declarative e exs opts confirm w = (None, rep, w')" and "dr_applied rep"
  shows "\<exists>p w1. plan_declarative e exs opts w = Inr p \<and> dl_blocked p = []
    \<and> w' = snd (persist_edges e (cs_edges (dl_change p)) no_outcome w1)
    \<and> (\<forall>b \<in> set (g_edges e). \<exists>live. ep_read (b_provider b) w1 = Inr live \<and> l_deny_present live
         \<and> (\<forall>h \<in> set (dl_prune p). \<not> has_host live h)
         \<and> (\<forall>h \<in> set (desired_hosts_on_edge p (b_name b)).
              to_lower h \<notin> to_lower ` set (dl_prune p) \<longrightarrow> has_host live h)
         \<and> (\<forall>want \<in> set (add_routes_on_edge p (b_name b)). u_mode (r_upstream want) \<noteq> ModeMeshGrant \<longrightarrow>
              (\<exists>got. auth_of live (r_host want) = Some got
                 \<and> normalize_auth_presence got = normalize_auth_presence (u_auth (r_upstream want))))
         \<and> (\<forall>want \<in> set (add_routes_on_edge p (b_name b)). u_upstream_tls (r_upstream want) \<longrightarrow>
              upstream_tls_of live (r_host want) = Some True))
    \<and> (\<forall>i < length (g_dns e). \<exists>recs. dp_live (g_dns e ! i) w1 = Inr recs
         \<and> (\<forall>d \<in> set (c_add (cs_dns (dl_change p) ! i)). \<exists>r \<in> set recs. record_key r = record_key d
              \<and> equal_fold (trim_space (d_value r)) (trim_space (d_value d)))
         \<and> (\<forall>d \<in> set (c_remove (cs_dns (dl_change p) ! i)). \<forall>r \<in> set recs. record_key r \<noteq> record_key d))"
proof -
  from apply_declarative_cases [OF assms] obtain p w0 snaps x where
    p: "plan_declarative e exs opts w = Inr p" "dl_blocked p = []"
    and t: "transact e (build_steps e zero_op (dl_change p) snaps) (verify_declarative e p)
         (cs_edges (dl_change p)) w0 = (x, w')" "x_err x = None" by metis
  from transact_success [OF t] obtain w1 where w1: "verified (verify_declarative e p w1)"
    "(x_out x, w') = persist_edges e (cs_edges (dl_change p)) no_outcome w1" by blast
  have ok: "vr_ok v" if "v \<in> set (verify_declarative e p w1)" for v
    using that w1(1) unfolding verified_iff by blast
  have edges: "\<exists>live. ep_read (b_provider b) w1 = Inr live \<and> l_deny_present live
    \<and> (\<forall>h \<in> set (desired_hosts_on_edge p (b_name b)). to_lower h \<notin> to_lower ` set (dl_prune p) \<longrightarrow> has_host live h)
    \<and> (\<forall>h \<in> set (dl_prune p). \<not> has_host live h)
    \<and> verify_edge_auth live (add_routes_on_edge p (b_name b)) = None
    \<and> verify_edge_forward_tls live (add_routes_on_edge p (b_name b)) = None"
    if "b \<in> set (g_edges e)" for b
    using that by (intro verify_decl_edge_ok ok) (simp add: verify_declarative_def)
  from plan_declarative_Inr [OF p(1)] have len: "length (cs_dns (dl_change p)) = length (g_dns e)"
    by (auto dest: rmap_Inr_length)
  have dns: "\<exists>recs. dp_live (g_dns e ! i) w1 = Inr recs
     \<and> missing_record (live_by_key recs) (c_add (cs_dns (dl_change p) ! i)) = None
     \<and> (\<forall>r \<in> set (c_remove (cs_dns (dl_change p) ! i)). record_key r \<notin> record_key ` set recs)"
    if i: "i < length (g_dns e)" for i
  proof -
    have "(i, g_dns e ! i) \<in> set (enumerate 0 (g_dns e))"
      using i by (auto simp: in_set_enumerate_eq)
    then have "vr_ok (verify_decl_dns p w1 (i, g_dns e ! i))"
      by (intro ok) (auto simp: verify_declarative_def)
    from verify_decl_dns_ok [OF this] i len show ?thesis by auto
  qed
  have "w' = snd (persist_edges e (cs_edges (dl_change p)) no_outcome w1)"
    using arg_cong [OF w1(2), of snd] by simp
  moreover note p
  moreover have "\<exists>recs. dp_live (g_dns e ! i) w1 = Inr recs
         \<and> (\<forall>d \<in> set (c_add (cs_dns (dl_change p) ! i)). \<exists>r \<in> set recs. record_key r = record_key d
              \<and> equal_fold (trim_space (d_value r)) (trim_space (d_value d)))
         \<and> (\<forall>d \<in> set (c_remove (cs_dns (dl_change p) ! i)). \<forall>r \<in> set recs. record_key r \<noteq> record_key d)"
    if "i < length (g_dns e)" for i
    using dns [OF that] unfolding missing_record_None by (metis live_by_key_Some image_eqI)
  ultimately show ?thesis
    using edges [unfolded verify_edge_auth_None verify_edge_forward_tls_None]
    by (intro exI [of _ p] exI [of _ w1]) blast
qed

text \<open>The desired-state writes never ask the running daemon: no result of their verifications
  carries a runtime check, so the refusal of an unconfirmed write never fires for them, whatever
  the drivers could have reported.\<close>

theorem desired_writes_not_runtime_gated:
  "gate_runtime_verify e (verify_declarative e p w) applied out w1 = (None, out, w1)
   \<and> gate_runtime_verify e (verify_reconcile e c cs w) applied out w1 = (None, out, w1)"
proof -
  have "\<not> runtime_unconfirmed v" if "v \<in> set (verify_declarative e p w)" for v
    using that by (auto simp: verify_declarative_def verify_decl_edge_def verify_decl_dns_def Let_def
        runtime_unconfirmed_def mk_result_def split: sum.splits if_splits option.splits)
  moreover have "\<not> runtime_unconfirmed v" if "v \<in> set (verify_reconcile e c cs w)" for v
    using that by (auto simp: verify_reconcile_def verify_reconcile_edge_def verify_reconcile_dns_def Let_def
        runtime_unconfirmed_def mk_result_def split: sum.splits if_splits option.splits)
  ultimately show ?thesis
    by (auto simp: gate_runtime_verify_def runtime_unconfirmed_results_def filter_empty_conv)
qed

section \<open>A desired-state file\<close>

definition file_exposure :: exposure where
  "file_exposure = \<lparr>x_host = [], x_service = ''g'', x_mode = ModeHTTPProxy, x_auth = [],
     x_edges = [], x_scopes = [], x_residency = []\<rparr>"

definition twin_engine :: "mem_world engine" where
  "twin_engine = new_multi [g_edges two_hop_engine ! 0,
     (g_edges two_hop_engine ! 0)\<lparr>b_name := ''two'', b_provider := mem_edge ''two''\<rparr>] ''ex'' []"

definition stale_route :: "bool \<Rightarrow> route" where
  "stale_route m = (mk_route ''x.ex'' \<lparr>u_kind = ForwardToOrigin, u_mode = ModeHTTPProxy, u_address = ''o'',
     u_tls_passthrough = False, u_server_name = [], u_upstream_tls = False, u_auth = []\<rparr>)\<lparr>r_managed := m\<rparr>"

definition stale_world :: mem_world where
  "stale_world = empty_world\<lparr>mw_edges := (\<lambda>n. (empty_live True)\<lparr>l_routes := [stale_route (n = ''home'')]\<rparr>)\<rparr>"

definition pruning :: decl_options where
  "pruning = \<lparr>do_adopt = False, do_prune = True\<rparr>"

lemma pruning_plan:
  "case plan_declarative one_edge_engine [file_exposure] pruning stale_world of
     Inl _ \<Rightarrow> False | Inr p \<Rightarrow> map (e_remove \<circ> p_change) (cs_edges (dl_change p)) = [ [''x.ex''] ]"
  by code_simp

lemma declarative_edge_changes_witness:
  "\<exists>p. plan_declarative one_edge_engine [file_exposure] pruning stale_world = Inr p
     \<and> (\<exists>b \<in> set (g_edges one_edge_engine). \<exists>live. ep_read (b_provider b) stale_world = Inr live
          \<and> (\<exists>r \<in> set (l_routes live). r_managed r \<and> r_host r = ''x.ex''))"
proof -
  obtain p where p: "plan_declarative one_edge_engine [file_exposure] pruning stale_world = Inr p"
    "map (e_remove \<circ> p_change) (cs_edges (dl_change p)) = [ [''x.ex''] ]"
    using pruning_plan by (auto split: sum.splits)
  then obtain ep where "ep \<in> set (cs_edges (dl_change p))" "e_remove (p_change ep) = [''x.ex'']" by force
  from declarative_edge_changes [OF p(1) this(1)] this(2) p(1) show ?thesis by fastforce
qed

lemma declarative_success_witness:
  "\<exists>rep w'. apply_declarative one_edge_engine [file_exposure] pruning yes stale_world = (None, rep, w')
     \<and> (\<exists>p. plan_declarative one_edge_engine [file_exposure] pruning stale_world = Inr p \<and> dl_blocked p = [])"
proof -
  have "case apply_declarative one_edge_engine [file_exposure] pruning yes stale_world of
      (err, rep, _) \<Rightarrow> err = None \<and> dr_applied rep"
    by code_simp
  then obtain rep w' where r: "apply_declarative one_edge_engine [file_exposure] pruning yes stale_world = (None, rep, w')"
    "dr_applied rep" by (auto split: prod.splits)
  from declarative_success [OF r] r(1) show ?thesis by blast
qed

text \<open>The declarative path ignores the internal-only declaration: a file that lists an
  internal-only service under a covering public provider is applied with success and publishes the
  record, where the plan of the imperative expose asks that provider for nothing.\<close>

theorem declarative_publishes_internal_scope:
  "case apply_declarative (one_edge_dns_engine\<lparr>g_internal_scope := [(''g'', True)]\<rparr>) [file_exposure]
       \<lparr>do_adopt = False, do_prune = False\<rparr> yes empty_world of
     (err, rep, w') \<Rightarrow> err = None \<and> dr_applied rep \<and> map d_name (mw_dns w' ''cf'') = [''g.ex'']
       \<and> (case plan (one_edge_dns_engine\<lparr>g_internal_scope := [(''g'', True)]\<rparr>) planning_op empty_world of
            Inl _ \<Rightarrow> False | Inr cs \<Rightarrow> map c_add (drop 1 (cs_dns cs)) = [ [] ])"
  by code_simp

text \<open>Prune is planned per edge and verified per name: when a managed route is pruned from one
  edge while another edge holds the same host unmanaged, which prune must leave alone, the
  verification still demands the host gone there and takes the write back.\<close>

theorem declarative_prune_other_edge_fails:
  "case apply_declarative twin_engine [] pruning yes stale_world of
     (err, rep, w') \<Rightarrow> err = Some (ErrVerifyFailed [edge_step_label ''two'' ''two''])
       \<and> t_rolled_back (dr_out rep) \<and> map r_host (l_routes (mw_edges w' ''home'')) = [''x.ex'']
       \<and> (case plan_declarative twin_engine [] pruning stale_world of
            Inl _ \<Rightarrow> False | Inr p \<Rightarrow> map p_edge (cs_edges (dl_change p)) = [''home''])"
  by code_simp

end
