(* ===== verification/Provider_Contract.thy ===== *)
theory Provider_Contract
  imports Ports
begin

text \<open>
  The contract between the transaction of core and the drivers, as locales. \<open>compensating\<close> is
  what a driver promises of one operation seen through a view of its own state: on a state it is
  ready for, a failing operation leaves the view, and the inverse operation takes back a
  successful one. \<open>part\<close> embeds the state of one provider in a world of several; an action on a
  part is an action on the world that leaves every other part alone.
\<close>

locale compensating =
  fixes act :: "'c \<Rightarrow> 's act"
    and inv :: "'c \<Rightarrow> 'c"
    and view :: "'s \<Rightarrow> 'v"
    and ready :: "'c \<Rightarrow> 's \<Rightarrow> bool"
  assumes fails_clean: "ready c s \<Longrightarrow> act c s = (Some err, s') \<Longrightarrow> view s' = view s"
    and taken_back: "ready c s \<Longrightarrow> act c s = (None, s') \<Longrightarrow> view v = view s' \<Longrightarrow>
           \<exists>v'. act (inv c) v = (None, v') \<and> view v' = view s"
begin

text \<open>Doing and at once undoing is invisible; so is a failure.\<close>

lemma do_undo:
  assumes "ready c s" and "act c s = (None, s')"
  shows "\<exists>s''. act (inv c) s' = (None, s'') \<and> view s'' = view s"
  using taken_back [OF assms refl] .

lemma undo_unless_failed:
  assumes "ready c s" and "act c s = (r, s')"
  shows "view (case r of None \<Rightarrow> snd (act (inv c) s') | Some _ \<Rightarrow> s') = view s"
proof (cases r)
  case None
  with do_undo [OF assms(1)] assms(2) show ?thesis by fastforce
next
  case (Some err)
  with fails_clean [OF assms(1)] assms(2) show ?thesis by simp
qed

end

text \<open>Go's sequence of two fallible calls.\<close>

definition then_act :: "'s act \<Rightarrow> 's act \<Rightarrow> 's act" where
  "then_act a b s = (case a s of (Some err, s') \<Rightarrow> (Some err, s') | (None, s') \<Rightarrow> b s')"

text \<open>An action on one part of a world.\<close>

definition on_part :: "('w \<Rightarrow> 's) \<Rightarrow> ('s \<Rightarrow> 'w \<Rightarrow> 'w) \<Rightarrow> 's act \<Rightarrow> 'w act" where
  "on_part get put a w = (let (r, s') = a (get w) in (r, put s' w))"

locale part =
  fixes get :: "'w \<Rightarrow> 's" and put :: "'s \<Rightarrow> 'w \<Rightarrow> 'w"
  assumes get_put [simp]: "get (put s w) = s"
    and put_put [simp]: "put s (put t w) = put s w"
    and put_get [simp]: "put (get w) w = w"
begin

lemma on_part_done: "on_part get put a w = (r, w') \<longleftrightarrow> (\<exists>s'. a (get w) = (r, s') \<and> w' = put s' w)"
  by (auto simp: on_part_def split: prod.splits)

lemma on_part_get: "on_part get put a w = (r, w') \<Longrightarrow> a (get w) = (r, get w')"
  by (auto simp: on_part_done)

lemma on_part_then: "then_act (on_part get put a) (on_part get put b) = on_part get put (then_act a b)"
proof
  fix w
  show "then_act (on_part get put a) (on_part get put b) w = on_part get put (then_act a b) w"
    by (cases "a (get w)"; cases "fst (a (get w))")
      (auto simp: then_act_def on_part_def split: prod.splits option.splits)
qed

end

end
