(* ===== verification/Faults.thy ===== *)
theory Faults
  imports Provider_Contract
begin

text \<open>
  Accidents outside the program, as part of the state a run starts from: what becomes of each call
  of \<open>os.WriteFile\<close> on a file, in their order, and the contract a driver keeps under them. The
  call opens the file, truncates it and writes: it goes through, it is refused before the file is
  opened and leaves it, or it is cut after the truncation and leaves a part of what was to be
  written, which the driver's own files say. A schedule that has run out goes through.
\<close>

datatype 'c write_fate = WriteThrough | WriteRefused | WriteCut 'c

definition next_fate :: "'c write_fate list \<Rightarrow> 'c write_fate" where
  "next_fate fs = (case fs of [] \<Rightarrow> WriteThrough | x # _ \<Rightarrow> x)"

definition uncut :: "'c write_fate list \<Rightarrow> bool" where
  "uncut fs = (\<forall>c. WriteCut c \<notin> set fs)"

definition all_through :: "'c write_fate list \<Rightarrow> bool" where
  "all_through fs = (set fs \<subseteq> {WriteThrough})"

lemma next_fate_uncut: "uncut fs \<Longrightarrow> next_fate fs \<noteq> WriteCut c"
  by (cases fs) (auto simp: next_fate_def uncut_def)

lemma next_fate_through: "all_through fs \<Longrightarrow> next_fate fs = WriteThrough"
  by (cases fs) (auto simp: next_fate_def all_through_def)

lemma fates_tl: "uncut fs \<Longrightarrow> uncut (tl fs)" "all_through fs \<Longrightarrow> all_through (tl fs)"
  by (cases fs; simp add: uncut_def all_through_def)+

text \<open>
  The contract of a driver whose calls can fail: on a state it is ready for, a failing operation
  leaves the view, and the inverse operation takes back a successful one when it goes through itself;
  on a calm state it does.
\<close>

locale revocable =
  fixes act :: "'c \<Rightarrow> 's act"
    and inv :: "'c \<Rightarrow> 'c"
    and view :: "'s \<Rightarrow> 'v"
    and ready :: "'c \<Rightarrow> 's \<Rightarrow> bool"
    and calm :: "'s \<Rightarrow> bool"
  assumes failure_leaves: "ready c s \<Longrightarrow> act c s = (Some err, s') \<Longrightarrow> view s' = view s"
    and inverse_restores: "ready c s \<Longrightarrow> act c s = (None, s') \<Longrightarrow> view v = view s' \<Longrightarrow>
           act (inv c) v = (None, v') \<Longrightarrow> view v' = view s"
    and inverse_works: "ready c s \<Longrightarrow> act c s = (None, s') \<Longrightarrow> view v = view s' \<Longrightarrow> calm v \<Longrightarrow>
           \<exists>v'. act (inv c) v = (None, v')"
    and calm_stays: "calm s \<Longrightarrow> act c s = (r, s') \<Longrightarrow> calm s'"
begin

lemma undo_if_through:
  assumes "ready c s" and "act c s = (r, s')"
  shows "case r of
      Some err \<Rightarrow> view s' = view s
    | None \<Rightarrow> (\<forall>s''. act (inv c) s' = (None, s'') \<longrightarrow> view s'' = view s)
        \<and> (calm s' \<longrightarrow> (\<exists>s''. act (inv c) s' = (None, s'')))"
  using assms failure_leaves inverse_restores [OF assms(1) _ refl] inverse_works [OF assms(1) _ refl]
  by (cases r) auto

end

text \<open>A driver whose inverse always goes through keeps the contract.\<close>

sublocale compensating \<subseteq> revocable act inv view ready "\<lambda>_. True"
proof unfold_locales
  show "view v' = view s" if "ready c s" "act c s = (None, s')" "view v = view s'" "act (inv c) v = (None, v')"
    for c s s' v v'
    using taken_back [OF that(1-3)] that(4) by auto
  show "\<exists>v'. act (inv c) v = (None, v')" if "ready c s" "act c s = (None, s')" "view v = view s'" for c s s' v
    using taken_back [OF that] by blast
qed (auto intro: fails_clean)

end
