(* ===== verification/Netip.thy ===== *)
theory Netip
  imports Model
begin

text \<open>
  What the DNS drivers use of package \<open>net\<close>: \<open>net.ParseIP\<close> and \<open>IP.To4\<close>, to tell an
  address from a host name (\<open>recordType\<close> of \<open>internal/drivers/dns/adguard/adguard.go\<close> and of
  the other DNS drivers), with the zone helpers those drivers share (\<open>normName\<close>,
  \<open>underZone\<close>). An IPv4 literal is four decimal fields without leading zeros; an IPv6 literal
  is eight groups of one to four hexadecimal digits, where one \<open>::\<close> may stand for at least one
  group and the last two groups may be an IPv4 literal; a zone (\<open>%\<close>) makes it no address.
\<close>

section \<open>Digits\<close>

definition digit_value :: "char \<Rightarrow> nat option" where
  "digit_value c =
     (let n = (of_char c :: nat) in if 48 \<le> n \<and> n \<le> 57 then Some (n - 48) else None)"

definition hex_value :: "char \<Rightarrow> nat option" where
  "hex_value c =
     (let n = (of_char c :: nat)
      in if 48 \<le> n \<and> n \<le> 57 then Some (n - 48)
         else if 97 \<le> n \<and> n \<le> 102 then Some (n - 87)
         else if 65 \<le> n \<and> n \<le> 70 then Some (n - 55) else None)"

fun digits_value :: "nat \<Rightarrow> nat list \<Rightarrow> nat" where
  "digits_value base ds = foldl (\<lambda>acc d. base * acc + d) 0 ds"

section \<open>Literals\<close>

definition v4_field :: "string \<Rightarrow> nat option" where
  "v4_field s =
     (case those (map digit_value s) of
        None \<Rightarrow> None
      | Some ds \<Rightarrow>
          if ds = [] \<or> 3 < length ds \<or> (1 < length ds \<and> hd ds = 0) \<or> 255 < digits_value 10 ds
          then None else Some (digits_value 10 ds))"

definition parse_v4 :: "string \<Rightarrow> nat list option" where
  "parse_v4 s =
     (let fs = split_on (CHR ''.'') s
      in if length fs \<noteq> 4 then None else those (map v4_field fs))"

definition v6_group :: "string \<Rightarrow> nat option" where
  "v6_group s =
     (case those (map hex_value s) of
        None \<Rightarrow> None
      | Some ds \<Rightarrow> if ds = [] \<or> 4 < length ds then None else Some (digits_value 16 ds))"

text \<open>Colon-separated groups; where \<open>tail4\<close> the last field may be an IPv4 literal.\<close>

fun v6_groups :: "bool \<Rightarrow> string list \<Rightarrow> nat list option" where
  "v6_groups tail4 [] = Some []"
| "v6_groups tail4 [f] =
     (case v6_group f of
        Some g \<Rightarrow> Some [g]
      | None \<Rightarrow>
          if \<not> tail4 then None
          else (case parse_v4 f of
                  Some [a, b, c, d] \<Rightarrow> Some [256 * a + b, 256 * c + d]
                | _ \<Rightarrow> None))"
| "v6_groups tail4 (f # fs) =
     (case v6_group f of
        None \<Rightarrow> None
      | Some g \<Rightarrow> map_option ((#) g) (v6_groups tail4 fs))"

definition v6_part :: "bool \<Rightarrow> string \<Rightarrow> nat list option" where
  "v6_part tail4 s = (if s = [] then Some [] else v6_groups tail4 (split_on (CHR '':'') s))"

definition parse_v6 :: "string \<Rightarrow> nat list option" where
  "parse_v6 s =
     (case str_index s ''::'' of
        None \<Rightarrow>
          (case v6_part True s of
             Some gs \<Rightarrow> if length gs = 8 then Some gs else None
           | None \<Rightarrow> None)
      | Some i \<Rightarrow>
          (case (v6_part False (take i s), v6_part True (drop (i + 2) s)) of
             (Some ls, Some rs) \<Rightarrow>
               if length ls + length rs < 8
               then Some (ls @ replicate (8 - length ls - length rs) 0 @ rs) else None
           | _ \<Rightarrow> None))"

datatype ip = IPv4 "nat list" | IPv6 "nat list"

text \<open>\<open>net.ParseIP\<close>: the first of \<open>.\<close>, \<open>:\<close> and \<open>%\<close> decides the form.\<close>

definition parse_ip :: "string \<Rightarrow> ip option" where
  "parse_ip s =
     (case find (\<lambda>c. c \<in> set ''.:%'') s of
        Some c \<Rightarrow>
          if c = CHR ''.'' then map_option IPv4 (parse_v4 s)
          else if c = CHR '':'' \<and> CHR ''%'' \<notin> set s then map_option IPv6 (parse_v6 s)
          else None
      | None \<Rightarrow> None)"

text \<open>\<open>IP.To4\<close> is not nil for an IPv4 address and for one mapped into IPv6.\<close>

definition is_v4 :: "ip \<Rightarrow> bool" where
  "is_v4 a = (case a of IPv4 _ \<Rightarrow> True | IPv6 gs \<Rightarrow> take 6 gs = [0, 0, 0, 0, 0, 0xffff])"

text \<open>The same on integers, whose literals evaluate without counting up to them.\<close>

lemma is_v4_code [code]:
  "is_v4 a = (case a of IPv4 _ \<Rightarrow> True | IPv6 gs \<Rightarrow> map int (take 6 gs) = [0, 0, 0, 0, 0, 0xffff])"
proof -
  have "map int xs = [0, 0, 0, 0, 0, 0xffff] \<longleftrightarrow> xs = [0, 0, 0, 0, 0, 0xffff]" for xs
  proof -
    have "map int xs = map int [0, 0, 0, 0, 0, 0xffff] \<longleftrightarrow> xs = [0, 0, 0, 0, 0, 0xffff]"
      by (rule inj_map_eq_map) simp
    then show ?thesis by simp
  qed
  then show ?thesis by (simp add: is_v4_def split: ip.split)
qed

definition record_type :: "string \<Rightarrow> string" where
  "record_type answer =
     (case parse_ip answer of
        Some a \<Rightarrow> if is_v4 a then ''A'' else ''AAAA''
      | None \<Rightarrow> ''CNAME'')"

section \<open>Zones\<close>

definition norm_name :: "string \<Rightarrow> string" where
  "norm_name s = to_lower (trim_suffix ''.'' s)"

definition under_zone :: "string \<Rightarrow> string \<Rightarrow> bool" where
  "under_zone name zone =
     (let n = norm_name name; z = norm_name zone
      in if z = [] then False else n = z \<or> has_suffix (''.'' @ z) n)"

section \<open>Lemmas\<close>

lemma those_length: "those xs = Some ys \<Longrightarrow> length ys = length xs"
  by (induction xs arbitrary: ys) (auto split: option.splits)

lemma those_mem: "those xs = Some ys \<Longrightarrow> y \<in> set ys \<Longrightarrow> Some y \<in> set xs"
  by (induction xs arbitrary: ys) (auto split: option.splits)

lemma v4_field_bound: "v4_field s = Some n \<Longrightarrow> n \<le> 255"
  by (auto simp: v4_field_def split: option.splits if_splits)

lemma parse_v4_bound:
  assumes "parse_v4 s = Some ns"
  shows "length ns = 4 \<and> (\<forall>n \<in> set ns. n \<le> 255)"
proof -
  have t: "those (map v4_field (split_on (CHR ''.'') s)) = Some ns"
    "length (split_on (CHR ''.'') s) = 4"
    using assms by (auto simp: parse_v4_def Let_def split: if_splits)
  have "n \<le> 255" if "n \<in> set ns" for n
    using those_mem [OF t(1) that] by (auto intro: v4_field_bound)
  with those_length [OF t(1)] t(2) show ?thesis by simp
qed

lemma hex_value_bound: "hex_value c = Some d \<Longrightarrow> d < 16"
  by (auto simp: hex_value_def Let_def split: if_splits)

lemma digits_value_bound:
  assumes "\<forall>d \<in> set ds. d < base"
  shows "digits_value base ds < base ^ length ds"
  using assms
proof (induction ds rule: rev_induct)
  case (snoc d ds)
  then have "digits_value base ds + 1 \<le> base ^ length ds" "d < base" by auto
  then have "base * (digits_value base ds + 1) \<le> base * base ^ length ds" by (metis mult_le_mono2)
  with \<open>d < base\<close> have "base * digits_value base ds + d < base * base ^ length ds" by simp
  then show ?case by simp
qed simp

lemma v6_group_bound:
  assumes "v6_group s = Some n"
  shows "n < 65536"
proof -
  obtain ds where ds: "those (map hex_value s) = Some ds" "length ds \<le> 4" "n = digits_value 16 ds"
    using assms by (auto simp: v6_group_def split: option.splits if_splits)
  have "\<forall>d \<in> set ds. d < 16"
    using those_mem [OF ds(1)] hex_value_bound by fastforce
  from digits_value_bound [OF this] have "n < 16 ^ length ds" using ds(3) by simp
  also have "(16 :: nat) ^ length ds \<le> 16 ^ 4" using ds(2) by (intro power_increasing) auto
  finally show ?thesis by simp
qed

lemma v6_groups_bound: "v6_groups tail4 fs = Some gs \<Longrightarrow> \<forall>g \<in> set gs. g < 65536"
proof (induction tail4 fs arbitrary: gs rule: v6_groups.induct)
  case (2 tail4 f)
  have q: "256 * a + b < 65536" if "a \<le> 255" "b \<le> 255" for a b :: nat using that by simp
  from 2 show ?case
    by (auto split: option.splits if_splits list.splits dest!: v6_group_bound parse_v4_bound intro: q)
next
  case (3 tail4 f f' fs)
  then show ?case by (auto split: option.splits dest: v6_group_bound)
qed auto

lemma parse_v6_shape:
  assumes "parse_v6 s = Some gs"
  shows "length gs = 8 \<and> (\<forall>g \<in> set gs. g < 65536)"
proof (cases "str_index s ''::''")
  case None
  with assms show ?thesis
    by (auto simp: parse_v6_def v6_part_def split: option.splits if_splits dest: v6_groups_bound)
next
  case (Some i)
  with assms obtain ls rs where p: "v6_part False (take i s) = Some ls"
    "v6_part True (drop (i + 2) s) = Some rs" "length ls + length rs < 8"
    "gs = ls @ replicate (8 - length ls - length rs) 0 @ rs"
    by (auto simp: parse_v6_def split: option.splits if_splits)
  have "\<forall>g \<in> set ls. g < 65536" "\<forall>g \<in> set rs. g < 65536"
    using p(1,2) by (auto simp: v6_part_def split: if_splits dest: v6_groups_bound)
  with p(3,4) show ?thesis by auto
qed

lemma lower_char_low:
  assumes "(of_char d :: nat) < 65"
  shows "lower_char c = d \<longleftrightarrow> c = d"
proof
  assume c: "lower_char c = d"
  then have "(of_char (lower_char c) :: nat) < 65" using assms by simp
  then have "\<not> (65 \<le> (of_char c :: nat) \<and> (of_char c :: nat) \<le> 90)"
    by (auto simp: lower_char_def of_char_of split: if_splits)
  then show "c = d" using c by (auto simp: lower_char_def split: if_splits)
qed (use assms in \<open>simp add: lower_char_def\<close>)

lemma lower_char_dot: "lower_char c = CHR ''.'' \<longleftrightarrow> c = CHR ''.''"
  by (rule lower_char_low) simp

lemma star_to_lower: "CHR ''*'' \<in> set (to_lower s) \<longleftrightarrow> CHR ''*'' \<in> set s"
proof -
  have "lower_char c = CHR ''*'' \<longleftrightarrow> c = CHR ''*''" for c by (rule lower_char_low) simp
  then show ?thesis by (induction s) (simp_all add: to_lower_Cons eq_commute)
qed

lemma star_fold: "equal_fold m n \<Longrightarrow> CHR ''*'' \<in> set m \<longleftrightarrow> CHR ''*'' \<in> set n"
  by (metis equal_fold_def star_to_lower)

lemma norm_name_lower: "norm_name s = trim_suffix ''.'' (to_lower s)"
proof (cases s rule: rev_cases)
  case (snoc t c)
  then show ?thesis
    by (simp add: norm_name_def trim_suffix_def has_suffix_def to_lower_def lower_char_dot)
      (metis lower_char_dot)
qed (simp add: norm_name_def trim_suffix_def)

lemma norm_name_fold: "equal_fold m n \<Longrightarrow> norm_name m = norm_name n"
  by (simp add: norm_name_lower equal_fold_def)

lemma under_zone_fold: "equal_fold m n \<Longrightarrow> under_zone m z = under_zone n z"
  by (simp add: under_zone_def norm_name_fold [of m n])

end
