(* ===== verification/AdGuard.thy ===== *)
theory AdGuard
  imports Faults Txn Netip "HOL-Library.Multiset"
begin

text \<open>
  The internal DNS driver, \<open>internal/drivers/dns/adguard/adguard.go\<close>, over an injected control
  channel (\<open>Doer\<close>), and the control API it talks to, as the repository's faithful fake states
  it (\<open>adguardfake/fake.go\<close>). A request is the value its path and JSON body encode, a reply its
  status and the value its body encodes; encoding a pair of strings as JSON and decoding it is
  the identity. An error is the driver's own text without the status number and the quoted body.
\<close>

section \<open>The control API\<close>

record rewrite =
  rw_domain :: string
  rw_answer :: string

datatype ag_request = AgList | AgAdd rewrite | AgDelete rewrite

datatype ag_body = BodyRewrites "rewrite list" | BodyText string

type_synonym ag_reply = "perr + (nat \<times> ag_body)"

text \<open>\<open>Doer.Do\<close> over a world: the reply and the world after the call.\<close>

type_synonym 'w doer = "'w \<Rightarrow> ag_request \<Rightarrow> ag_reply \<times> 'w"

record ag_server =
  sv_rewrites :: "rewrite list"
  sv_unauthorized :: bool
  sv_rate_limited :: bool
  sv_reject_duplicate :: bool
  sv_adds :: nat
  sv_deletes :: nat

definition same_rewrite :: "rewrite \<Rightarrow> rewrite \<Rightarrow> bool" where
  "same_rewrite x r = (equal_fold (rw_domain x) (rw_domain r) \<and> rw_answer x = rw_answer r)"

text \<open>\<open>Server.handle\<close> on an authenticated call.\<close>

definition ag_handle :: "ag_server \<Rightarrow> ag_request \<Rightarrow> (nat \<times> ag_body) \<times> ag_server" where
  "ag_handle s rq =
     (if sv_unauthorized s then ((401, BodyText ''Unauthorized''), s)
      else if sv_rate_limited s then ((429, BodyText ''Too Many Requests''), s)
      else (case rq of
              AgList \<Rightarrow> ((200, BodyRewrites (sv_rewrites s)), s)
            | AgAdd r \<Rightarrow>
                if rw_domain r = [] \<or> rw_answer r = [] then ((400, BodyText ''bad rewrite request''), s)
                else if sv_reject_duplicate s \<and> list_ex (\<lambda>x. same_rewrite x r) (sv_rewrites s)
                then ((400, BodyText ''rewrite already exists''), s)
                else ((200, BodyText ''{}''), s\<lparr>sv_rewrites := sv_rewrites s @ [r], sv_adds := sv_adds s + 1\<rparr>)
            | AgDelete r \<Rightarrow>
                if rw_domain r = [] then ((400, BodyText ''bad rewrite request''), s)
                else ((200, BodyText ''{}''),
                      s\<lparr>sv_rewrites := filter (\<lambda>x. \<not> same_rewrite x r) (sv_rewrites s),
                        sv_deletes := sv_deletes s
                          + length (filter (\<lambda>x. same_rewrite x r) (sv_rewrites s))\<rparr>)))"

definition server_doer :: "ag_server doer" where
  "server_doer s rq = (let (reply, s') = ag_handle s rq in (Inr reply, s'))"

section \<open>The driver\<close>

record ag_config =
  ag_zone :: string
  ag_scope :: "scope option"
  ag_edge_addr :: string
  ag_targets :: "(string \<times> string) list"
  ag_instance :: string
  ag_zone_in_name :: bool

definition ag_new :: "ag_config \<Rightarrow> ag_config" where
  "ag_new cfg = (if ag_scope cfg = None then cfg\<lparr>ag_scope := Some ScopeInternal\<rparr> else cfg)"

definition ag_scope_of :: "ag_config \<Rightarrow> scope" where
  "ag_scope_of cfg = (case ag_scope (ag_new cfg) of Some sc \<Rightarrow> sc | None \<Rightarrow> ScopeInternal)"

definition ag_name :: "ag_config \<Rightarrow> string" where
  "ag_name cfg =
     (let name = (if ag_instance cfg \<noteq> [] then ''adguard['' @ ag_instance cfg @ '']'' else ''adguard'')
      in if ag_zone_in_name cfg then name @ ''/'' @ ag_zone cfg else name)"

definition residency_target :: "ag_config \<Rightarrow> string \<Rightarrow> perr + string" where
  "residency_target cfg cls =
     (if cls = [] then Inr (ag_edge_addr cfg)
      else (case map_of (ag_targets cfg) cls of
              Some addr \<Rightarrow> if addr \<noteq> [] then Inr addr
                           else Inl (ag_name cfg @ '': no target configured for residency class '' @ cls)
            | None \<Rightarrow> Inl (ag_name cfg @ '': no target configured for residency class '' @ cls)))"

definition ag_record :: "ag_config \<Rightarrow> string \<Rightarrow> string \<Rightarrow> dns_record" where
  "ag_record cfg domain answer = \<lparr>d_name = domain, d_type = record_type answer, d_value = answer,
     d_scope = ag_scope_of cfg, d_ttl = 0, d_proxied = False\<rparr>"

definition ag_desired :: "ag_config \<Rightarrow> op \<Rightarrow> perr + dns_record list" where
  "ag_desired cfg op =
     (if o_host op = [] then Inl ''adguard: op has no host''
      else rbind (residency_target cfg (o_residency op)) (\<lambda>target.
        Inr [ag_record cfg (o_host op) target]))"

definition http_err :: "string \<Rightarrow> nat \<Rightarrow> perr option" where
  "http_err what status =
     (if 200 \<le> status \<and> status < 300 then None
      else if status = 401 \<or> status = 403 then Some (''adguard '' @ what @ '': authentication failed'')
      else if status = 429 then Some (''adguard '' @ what @ '': rate limited'')
      else Some (''adguard '' @ what @ '': HTTP''))"

definition ag_live :: "ag_config \<Rightarrow> 'w doer \<Rightarrow> 'w \<Rightarrow> perr + dns_record list" where
  "ag_live cfg send w =
     (case fst (send w AgList) of
        Inl err \<Rightarrow> Inl (''adguard rewrite/list: '' @ err)
      | Inr (status, body) \<Rightarrow>
          (case http_err ''rewrite/list'' status of
             Some err \<Rightarrow> Inl err
           | None \<Rightarrow>
               (case body of
                  BodyText s \<Rightarrow> if s = [] then Inr [] else Inl ''adguard rewrite/list: decode''
                | BodyRewrites rws \<Rightarrow>
                    Inr (map (\<lambda>rw. ag_record cfg (rw_domain rw) (rw_answer rw))
                      (filter (\<lambda>rw. under_zone (rw_domain rw) (ag_zone cfg)) rws)))))"

definition ag_guard :: "ag_config \<Rightarrow> string \<Rightarrow> perr option" where
  "ag_guard cfg name =
     (if CHR ''*'' \<in> set name then Some (ag_name cfg @ '': refusing wildcard rewrite '' @ name)
      else if \<not> under_zone name (ag_zone cfg)
      then Some (ag_name cfg @ '': outside the managed zone '' @ name)
      else None)"

text \<open>The map \<open>liveByName\<close> keeps the last record of a name.\<close>

definition live_by_name :: "dns_record list \<Rightarrow> string \<Rightarrow> dns_record option" where
  "live_by_name live n = map_of (rev (map (\<lambda>r. (norm_name (d_name r), r)) live)) n"

definition ag_diff_expose :: "ag_config \<Rightarrow> dns_record list \<Rightarrow> dns_record \<Rightarrow> perr + dns_record list" where
  "ag_diff_expose cfg live r =
     (case live_by_name live (norm_name (d_name r)) of
        None \<Rightarrow> Inr [r]
      | Some cur \<Rightarrow>
          if equal_fold (d_value cur) (d_value r) then Inr []
          else Inl (ag_name cfg @ '': conflicting rewrite for '' @ d_name r))"

definition ag_diff_unexpose :: "dns_record list \<Rightarrow> dns_record \<Rightarrow> bool" where
  "ag_diff_unexpose live r =
     (case live_by_name live (norm_name (d_name r)) of
        None \<Rightarrow> False | Some cur \<Rightarrow> equal_fold (d_value cur) (d_value r))"

definition render_preview :: "dns_change \<Rightarrow> string" where
  "render_preview ch =
     (if c_add ch = [] \<and> c_remove ch = [] then ''No changes.'' @ [CHR 0x0A]
      else concat (map (\<lambda>r. ''+ ADD rewrite '' @ d_name r @ '' -> '' @ d_value r @ [CHR 0x0A]) (c_add ch))
        @ concat (map (\<lambda>r. ''- DELETE rewrite '' @ d_name r @ '' -> '' @ d_value r @ [CHR 0x0A]) (c_remove ch)))"

fun first_guard :: "ag_config \<Rightarrow> dns_record list \<Rightarrow> perr option" where
  "first_guard cfg [] = None"
| "first_guard cfg (r # rs) =
     (case ag_guard cfg (d_name r) of Some err \<Rightarrow> Some err | None \<Rightarrow> first_guard cfg rs)"

definition ag_diff :: "ag_config \<Rightarrow> 'w doer \<Rightarrow> op \<Rightarrow> dns_record list \<Rightarrow> 'w \<Rightarrow> perr + dns_change" where
  "ag_diff cfg send op desired w =
     (case first_guard cfg desired of
        Some err \<Rightarrow> Inl err
      | None \<Rightarrow>
          rbind (ag_live cfg send w) (\<lambda>live.
          rbind (case o_verb op of
                   Expose \<Rightarrow> rbind (rmap (ag_diff_expose cfg live) desired) (\<lambda>adds. Inr (concat adds, []))
                 | Unexpose \<Rightarrow> Inr ([], filter (ag_diff_unexpose live) desired)
                 | Rename \<Rightarrow> Inl ''adguard diff: unknown verb'') (\<lambda>ar.
            let ch = (no_dns_change (ag_scope_of cfg))\<lparr>c_add := fst ar, c_remove := snd ar\<rparr>
            in Inr (ch\<lparr>c_rendered := render_preview ch\<rparr>))))"

definition rewrite_of :: "dns_record \<Rightarrow> rewrite" where
  "rewrite_of r = \<lparr>rw_domain = d_name r, rw_answer = d_value r\<rparr>"

definition ag_post :: "'w doer \<Rightarrow> string \<Rightarrow> ag_request \<Rightarrow> 'w act" where
  "ag_post send path rq w =
     (case send w rq of
        (Inl err, w') \<Rightarrow> (Some (''adguard '' @ path @ '': '' @ err), w')
      | (Inr (status, _), w') \<Rightarrow> (http_err path status, w'))"

text \<open>One loop of \<open>Apply\<close>: guard, post, stop at the first error.\<close>

fun ag_post_all :: "ag_config \<Rightarrow> 'w doer \<Rightarrow> string \<Rightarrow> (rewrite \<Rightarrow> ag_request) \<Rightarrow> dns_record list \<Rightarrow> 'w act" where
  "ag_post_all cfg send path mk [] w = (None, w)"
| "ag_post_all cfg send path mk (r # rs) w =
     (case ag_guard cfg (d_name r) of
        Some err \<Rightarrow> (Some err, w)
      | None \<Rightarrow>
          (case ag_post send path (mk (rewrite_of r)) w of
             (Some err, w') \<Rightarrow> (Some err, w')
           | (None, w') \<Rightarrow> ag_post_all cfg send path mk rs w'))"

definition ag_apply :: "ag_config \<Rightarrow> 'w doer \<Rightarrow> dns_change \<Rightarrow> 'w act" where
  "ag_apply cfg send ch w =
     (case ag_post_all cfg send ''/control/rewrite/delete'' AgDelete (c_remove ch) w of
        (Some err, w') \<Rightarrow> (Some err, w')
      | (None, w') \<Rightarrow> ag_post_all cfg send ''/control/rewrite/add'' AgAdd (c_add ch) w')"

definition adguard :: "ag_config \<Rightarrow> 'w doer \<Rightarrow> 'w dns_provider" where
  "adguard cfg send = \<lparr>dp_name = ag_name cfg, dp_scope = ag_scope_of cfg,
     dp_desired = ag_desired cfg, dp_diff = ag_diff cfg send, dp_apply = ag_apply cfg send,
     dp_live = ag_live cfg send, dp_owns_all = None, dp_coverage = None,
     dp_zone = Some (ag_zone cfg), dp_residency = Some (residency_target cfg)\<rparr>"

section \<open>The driver keeps the contract\<close>

text \<open>What a client of the control API can tell apart: the rewrites without their order, and how the
  server answers.\<close>

definition ag_view :: "ag_server \<Rightarrow> rewrite multiset \<times> bool \<times> bool \<times> bool" where
  "ag_view s = (mset (sv_rewrites s), sv_unauthorized s, sv_rate_limited s, sv_reject_duplicate s)"

text \<open>A change of one record that is not there yet, or is there once as it is named.\<close>

definition ag_ready :: "dns_change \<Rightarrow> ag_server \<Rightarrow> bool" where
  "ag_ready ch s =
     (case (c_add ch, c_remove ch) of
        ([r], []) \<Rightarrow> \<not> list_ex (\<lambda>x. same_rewrite x (rewrite_of r)) (sv_rewrites s)
      | ([], [r]) \<Rightarrow> d_value r \<noteq> []
          \<and> filter (\<lambda>x. same_rewrite x (rewrite_of r)) (sv_rewrites s) = [rewrite_of r]
      | _ \<Rightarrow> False)"

lemma same_rewrite_sym: "same_rewrite x y \<longleftrightarrow> same_rewrite y x"
  by (auto simp: same_rewrite_def equal_fold_sym)

lemma same_rewrite_refl [simp]: "same_rewrite x x"
  by (simp add: same_rewrite_def)

lemma http_err_ok [simp]: "http_err what 200 = None"
  by (simp add: http_err_def)

lemma http_err_refused:
  "http_err what 400 \<noteq> None" "http_err what 401 \<noteq> None" "http_err what 429 \<noteq> None"
  by (simp_all add: http_err_def)

text \<open>Posting one rewrite to the server.\<close>

lemma post_add_done:
  "ag_post server_doer path (AgAdd r) s = (None, s') \<longleftrightarrow>
     \<not> sv_unauthorized s \<and> \<not> sv_rate_limited s \<and> rw_domain r \<noteq> [] \<and> rw_answer r \<noteq> []
     \<and> \<not> (sv_reject_duplicate s \<and> list_ex (\<lambda>x. same_rewrite x r) (sv_rewrites s))
     \<and> s' = s\<lparr>sv_rewrites := sv_rewrites s @ [r], sv_adds := sv_adds s + 1\<rparr>"
  by (auto simp: ag_post_def server_doer_def ag_handle_def http_err_def)

lemma post_add_failed: "ag_post server_doer path (AgAdd r) s = (Some err, s') \<Longrightarrow> s' = s"
  by (auto simp: ag_post_def server_doer_def ag_handle_def http_err_def split: if_splits)

lemma post_delete_done:
  "ag_post server_doer path (AgDelete r) s = (None, s') \<longleftrightarrow>
     \<not> sv_unauthorized s \<and> \<not> sv_rate_limited s \<and> rw_domain r \<noteq> []
     \<and> s' = s\<lparr>sv_rewrites := filter (\<lambda>x. \<not> same_rewrite x r) (sv_rewrites s),
              sv_deletes := sv_deletes s + length (filter (\<lambda>x. same_rewrite x r) (sv_rewrites s))\<rparr>"
  by (auto simp: ag_post_def server_doer_def ag_handle_def http_err_def)

lemma post_delete_failed: "ag_post server_doer path (AgDelete r) s = (Some err, s') \<Longrightarrow> s' = s"
  by (auto simp: ag_post_def server_doer_def ag_handle_def http_err_def split: if_splits)

lemma apply_one_add:
  assumes "c_add ch = [r]" and "c_remove ch = []"
  shows "ag_apply cfg send ch w =
     (case ag_guard cfg (d_name r) of
        Some err \<Rightarrow> (Some err, w) | None \<Rightarrow> ag_post send ''/control/rewrite/add'' (AgAdd (rewrite_of r)) w)"
  using assms by (auto simp: ag_apply_def split: option.splits prod.splits)

lemma apply_one_remove:
  assumes "c_add ch = []" and "c_remove ch = [r]"
  shows "ag_apply cfg send ch w =
     (case ag_guard cfg (d_name r) of
        Some err \<Rightarrow> (Some err, w) | None \<Rightarrow> ag_post send ''/control/rewrite/delete'' (AgDelete (rewrite_of r)) w)"
  using assms by (auto simp: ag_apply_def split: option.splits prod.splits)

lemma ag_ready_cases:
  assumes "ag_ready ch s"
  obtains (add) r where "c_add ch = [r]" "c_remove ch = []"
      "\<not> list_ex (\<lambda>x. same_rewrite x (rewrite_of r)) (sv_rewrites s)"
  | (remove) r where "c_add ch = []" "c_remove ch = [r]" "d_value r \<noteq> []"
      "filter (\<lambda>x. same_rewrite x (rewrite_of r)) (sv_rewrites s) = [rewrite_of r]"
  using assms by (auto simp: ag_ready_def split: list.splits)

lemma filter_mset_none: "\<forall>x \<in># M. \<not> P x \<Longrightarrow> filter_mset (\<lambda>x. \<not> P x) M = M"
  by (simp add: filter_mset_eq_conv)

lemma ag_fails_clean:
  assumes "ag_ready ch s" and "ag_apply cfg server_doer ch s = (Some err, s')"
  shows "s' = s"
  using assms(1)
proof (cases rule: ag_ready_cases)
  case (add r)
  with assms(2) show ?thesis
    by (auto simp: apply_one_add split: option.splits dest: post_add_failed)
next
  case (remove r)
  with assms(2) show ?thesis
    by (auto simp: apply_one_remove split: option.splits dest: post_delete_failed)
qed

lemma ag_taken_back:
  assumes "ag_ready ch s" and "ag_apply cfg server_doer ch s = (None, s')" and "ag_view v = ag_view s'"
  shows "\<exists>v'. ag_apply cfg server_doer (invert_dns ch) v = (None, v') \<and> ag_view v' = ag_view s"
  using assms(1)
proof (cases rule: ag_ready_cases)
  case (add r)
  let ?r = "rewrite_of r"
  have g: "ag_guard cfg (d_name r) = None"
    using assms(2) add by (auto simp: apply_one_add split: option.splits)
  have posted: "ag_post server_doer ''/control/rewrite/add'' (AgAdd ?r) s = (None, s')"
    using assms(2) add g by (simp add: apply_one_add)
  note ok = posted [unfolded post_add_done]
  then have s': "s' = s\<lparr>sv_rewrites := sv_rewrites s @ [?r], sv_adds := sv_adds s + 1\<rparr>" by simp
  have v: "mset (sv_rewrites v) = add_mset ?r (mset (sv_rewrites s))" "sv_unauthorized v = sv_unauthorized s"
    "sv_rate_limited v = sv_rate_limited s" "sv_reject_duplicate v = sv_reject_duplicate s"
    using assms(3) s' by (simp_all add: ag_view_def)
  have "\<forall>x \<in># mset (sv_rewrites s). \<not> same_rewrite x ?r"
    using add(3) by (simp add: list_ex_iff)
  then have "mset (filter (\<lambda>x. \<not> same_rewrite x ?r) (sv_rewrites v)) = mset (sv_rewrites s)"
    using v(1) by (simp add: filter_mset_none)
  with add g ok v(2-4) show ?thesis
    by (simp add: apply_one_remove invert_dns_def post_delete_done ag_view_def)
next
  case (remove r)
  let ?r = "rewrite_of r"
  have g: "ag_guard cfg (d_name r) = None"
    using assms(2) remove by (auto simp: apply_one_remove split: option.splits)
  have posted: "ag_post server_doer ''/control/rewrite/delete'' (AgDelete ?r) s = (None, s')"
    using assms(2) remove g by (simp add: apply_one_remove)
  note ok = posted [unfolded post_delete_done]
  then have s': "sv_rewrites s' = filter (\<lambda>x. \<not> same_rewrite x ?r) (sv_rewrites s)"
    "sv_unauthorized s' = sv_unauthorized s" "sv_rate_limited s' = sv_rate_limited s"
    "sv_reject_duplicate s' = sv_reject_duplicate s" by simp_all
  have v: "mset (sv_rewrites v) = filter_mset (\<lambda>x. \<not> same_rewrite x ?r) (mset (sv_rewrites s))"
    "sv_unauthorized v = sv_unauthorized s" "sv_rate_limited v = sv_rate_limited s"
    "sv_reject_duplicate v = sv_reject_duplicate s"
    using assms(3) s' by (simp_all add: ag_view_def)
  have absent: "\<not> list_ex (\<lambda>x. same_rewrite x ?r) (sv_rewrites v)"
  proof -
    have "x \<notin> set (sv_rewrites v)" if "same_rewrite x ?r" for x
      using that arg_cong [OF v(1), of "\<lambda>M. x \<in># M"] by simp
    then show ?thesis by (auto simp: list_ex_iff)
  qed
  have "mset (sv_rewrites s)
      = filter_mset (\<lambda>x. same_rewrite x ?r) (mset (sv_rewrites s))
        + filter_mset (\<lambda>x. \<not> same_rewrite x ?r) (mset (sv_rewrites s))"
    by (rule multiset_partition)
  also have "filter_mset (\<lambda>x. same_rewrite x ?r) (mset (sv_rewrites s)) = {# ?r #}"
    using arg_cong [OF remove(4), of mset] by simp
  finally have "add_mset ?r (mset (sv_rewrites v)) = mset (sv_rewrites s)"
    using v(1) by simp
  moreover have "rw_answer ?r \<noteq> []" using remove(3) by (simp add: rewrite_of_def)
  ultimately show ?thesis using remove g ok v(2-4) absent
    by (simp add: apply_one_add invert_dns_def post_add_done ag_view_def)
qed

interpretation ag: compensating "ag_apply cfg server_doer" invert_dns ag_view ag_ready for cfg
  by unfold_locales (auto dest: ag_fails_clean intro: ag_taken_back)

section \<open>A server among others\<close>

definition part_doer :: "('w \<Rightarrow> 's) \<Rightarrow> ('s \<Rightarrow> 'w \<Rightarrow> 'w) \<Rightarrow> 's doer \<Rightarrow> 'w doer" where
  "part_doer get put send w rq = (let (reply, s') = send (get w) rq in (reply, put s' w))"

lemma post_all_then:
  "ag_guard cfg (d_name r) = None \<Longrightarrow>
   ag_post_all cfg send path mk (r # rs) = then_act (ag_post send path (mk (rewrite_of r))) (ag_post_all cfg send path mk rs)"
  by (simp add: then_act_def fun_eq_iff)

lemma ag_apply_then:
  "ag_apply cfg send ch = then_act (ag_post_all cfg send ''/control/rewrite/delete'' AgDelete (c_remove ch))
     (ag_post_all cfg send ''/control/rewrite/add'' AgAdd (c_add ch))"
  by (simp add: then_act_def ag_apply_def fun_eq_iff)

context part
begin

lemma post_part: "ag_post (part_doer get put send) path rq = on_part get put (ag_post send path rq)"
  by (rule ext) (auto simp: ag_post_def part_doer_def on_part_def split: prod.splits sum.splits)

lemma post_all_part:
  "ag_post_all cfg (part_doer get put send) path mk rs = on_part get put (ag_post_all cfg send path mk rs)"
proof (induction rs)
  case Nil
  then show ?case by (simp add: on_part_def fun_eq_iff)
next
  case (Cons r rs)
  show ?case
  proof (cases "ag_guard cfg (d_name r)")
    case None
    then show ?thesis by (simp add: post_all_then post_part Cons.IH on_part_then)
  next
    case (Some err)
    then show ?thesis by (simp add: on_part_def fun_eq_iff)
  qed
qed

lemma apply_part: "ag_apply cfg (part_doer get put send) ch = on_part get put (ag_apply cfg send ch)"
  by (simp add: ag_apply_then post_all_part on_part_then)

lemma live_part: "ag_live cfg (part_doer get put send) w = ag_live cfg send (get w)"
  by (simp add: ag_live_def part_doer_def split_beta Let_def)

lemma diff_part: "ag_diff cfg (part_doer get put send) op ds w = ag_diff cfg send op ds (get w)"
  by (cases "first_guard cfg ds") (simp_all add: ag_diff_def live_part)

end

section \<open>Lemmas\<close>

lemma first_guard_None: "first_guard cfg rs = None \<longleftrightarrow> (\<forall>r \<in> set rs. ag_guard cfg (d_name r) = None)"
  by (induction rs) (auto split: option.splits)

lemma ag_guard_None: "ag_guard cfg n = None \<longleftrightarrow> CHR ''*'' \<notin> set n \<and> under_zone n (ag_zone cfg)"
  by (simp add: ag_guard_def)

text \<open>What a run of posts may change: only rewrites the guard lets through.\<close>

definition guarded_change :: "ag_config \<Rightarrow> ag_server \<Rightarrow> ag_server \<Rightarrow> bool" where
  "guarded_change cfg s s' \<longleftrightarrow>
     (\<forall>rw. (rw \<in> set (sv_rewrites s)) \<noteq> (rw \<in> set (sv_rewrites s'))
        \<longrightarrow> ag_guard cfg (rw_domain rw) = None)"

lemma guarded_change_trans:
  "guarded_change cfg s t \<Longrightarrow> guarded_change cfg t u \<Longrightarrow> guarded_change cfg s u"
  unfolding guarded_change_def by metis

lemma guard_fold: "equal_fold m n \<Longrightarrow> ag_guard cfg m = None \<longleftrightarrow> ag_guard cfg n = None"
  by (simp add: ag_guard_None star_fold [of m n] under_zone_fold [of m n])

lemma post_add_guarded:
  assumes "ag_guard cfg (rw_domain r) = None" and "ag_post server_doer path (AgAdd r) s = (e, s')"
  shows "guarded_change cfg s s'"
proof (cases e)
  case None
  with assms show ?thesis by (auto simp: post_add_done guarded_change_def)
next
  case (Some err)
  with assms(2) post_add_failed show ?thesis by (fastforce simp: guarded_change_def)
qed

lemma post_delete_guarded:
  assumes "ag_guard cfg (rw_domain r) = None" and "ag_post server_doer path (AgDelete r) s = (e, s')"
  shows "guarded_change cfg s s'"
proof (cases e)
  case None
  with assms show ?thesis
    by (auto simp: post_delete_done guarded_change_def same_rewrite_def
        dest: guard_fold [where cfg = cfg])
next
  case (Some err)
  with assms(2) post_delete_failed show ?thesis by (fastforce simp: guarded_change_def)
qed

lemma post_all_guarded:
  assumes "\<And>r s e s'. ag_guard cfg (rw_domain r) = None \<Longrightarrow> ag_post server_doer path (mk r) s = (e, s')
       \<Longrightarrow> guarded_change cfg s s'"
    and "ag_post_all cfg server_doer path mk rs s = (e, s')"
  shows "guarded_change cfg s s'"
  using assms(2)
proof (induction rs arbitrary: s)
  case (Cons r rs)
  show ?case
  proof (cases "ag_guard cfg (d_name r)")
    case None
    obtain e1 s1 where p: "ag_post server_doer path (mk (rewrite_of r)) s = (e1, s1)" by fastforce
    have g: "guarded_change cfg s s1"
      using assms(1) [OF _ p] None by (simp add: rewrite_of_def)
    show ?thesis
    proof (cases e1)
      case e1: None
      with Cons.prems None p have "ag_post_all cfg server_doer path mk rs s1 = (e, s')" by simp
      from guarded_change_trans [OF g Cons.IH [OF this]] show ?thesis .
    next
      case (Some err)
      with Cons.prems None p g show ?thesis by simp
    qed
  qed (use Cons.prems in \<open>simp add: guarded_change_def\<close>)
qed (simp add: guarded_change_def)

section \<open>Properties\<close>

text \<open>C21. The driver is the zone guard its resolver lacks: whatever change it is asked to apply, and
  however far it gets, every rewrite that appears or disappears is an exact name under the
  configured zone, never a wildcard and never another zone's name.\<close>

theorem adguard_confined_to_zone:
  assumes "ag_apply cfg server_doer ch s = (e, s')"
    and "(rw \<in> set (sv_rewrites s)) \<noteq> (rw \<in> set (sv_rewrites s'))"
  shows "under_zone (rw_domain rw) (ag_zone cfg) \<and> CHR ''*'' \<notin> set (rw_domain rw)"
proof -
  obtain e1 s1 where d: "ag_post_all cfg server_doer ''/control/rewrite/delete'' AgDelete (c_remove ch) s = (e1, s1)"
    by fastforce
  have g1: "guarded_change cfg s s1" by (rule post_all_guarded [OF post_delete_guarded d])
  have "guarded_change cfg s s'"
  proof (cases e1)
    case None
    with assms(1) d have "ag_post_all cfg server_doer ''/control/rewrite/add'' AgAdd (c_add ch) s1 = (e, s')"
      by (simp add: ag_apply_def)
    from guarded_change_trans [OF g1 post_all_guarded [OF post_add_guarded this]] show ?thesis .
  next
    case (Some err)
    with assms(1) d g1 show ?thesis by (simp add: ag_apply_def)
  qed
  with assms(2) show ?thesis by (simp add: guarded_change_def ag_guard_None)
qed

definition home_config :: ag_config where
  "home_config = \<lparr>ag_zone = ''ex'', ag_scope = None, ag_edge_addr = ''h'',
     ag_targets = [(''vps'', ''v'')], ag_instance = ''home'', ag_zone_in_name = False\<rparr>"

definition home_server :: ag_server where
  "home_server = \<lparr>sv_rewrites = [\<lparr>rw_domain = ''a.ex'', rw_answer = ''H''\<rparr>], sv_unauthorized = False,
     sv_rate_limited = False, sv_reject_duplicate = True, sv_adds = 0, sv_deletes = 0\<rparr>"

lemma adguard_confined_to_zone_witness:
  "under_zone ''g.ex'' ''ex'' \<and> CHR ''*'' \<notin> set ''g.ex''"
proof -
  let ?ch = "(no_dns_change ScopeInternal)\<lparr>c_add := [ag_record home_config ''g.ex'' ''h'']\<rparr>"
  have "snd (ag_apply home_config server_doer ?ch home_server)
      = home_server\<lparr>sv_rewrites := [\<lparr>rw_domain = ''a.ex'', rw_answer = ''H''\<rparr>, \<lparr>rw_domain = ''g.ex'', rw_answer = ''h''\<rparr>],
          sv_adds := 1\<rparr>"
    by code_simp
  then obtain e where "ag_apply home_config server_doer ?ch home_server
      = (e, home_server\<lparr>sv_rewrites := [\<lparr>rw_domain = ''a.ex'', rw_answer = ''H''\<rparr>, \<lparr>rw_domain = ''g.ex'', rw_answer = ''h''\<rparr>],
          sv_adds := 1\<rparr>)" by (metis prod.collapse)
  from adguard_confined_to_zone [OF this, of "\<lparr>rw_domain = ''g.ex'', rw_answer = ''h''\<rparr>"]
  show ?thesis by (simp add: home_config_def home_server_def)
qed

text \<open>The records the driver reads, in the order of the rewrites.\<close>

lemma live_server:
  "ag_live cfg server_doer s = Inr recs \<Longrightarrow>
     \<not> sv_unauthorized s \<and> \<not> sv_rate_limited s
     \<and> recs = map (\<lambda>rw. ag_record cfg (rw_domain rw) (rw_answer rw))
         (filter (\<lambda>rw. under_zone (rw_domain rw) (ag_zone cfg)) (sv_rewrites s))"
  by (auto simp: ag_live_def server_doer_def ag_handle_def http_err_def split: if_splits)

lemma live_server_ok:
  "\<not> sv_unauthorized s \<Longrightarrow> \<not> sv_rate_limited s \<Longrightarrow>
   ag_live cfg server_doer s = Inr (map (\<lambda>rw. ag_record cfg (rw_domain rw) (rw_answer rw))
         (filter (\<lambda>rw. under_zone (rw_domain rw) (ag_zone cfg)) (sv_rewrites s)))"
  by (simp add: ag_live_def server_doer_def ag_handle_def)

lemma ag_desired_one:
  "ag_desired cfg op = Inr ds \<Longrightarrow>
     \<exists>target. residency_target cfg (o_residency op) = Inr target \<and> ds = [ag_record cfg (o_host op) target]"
  by (auto simp: ag_desired_def rbind_Inr split: if_splits)

lemma ag_record_simps [simp]:
  "d_name (ag_record cfg n a) = n" "d_value (ag_record cfg n a) = a"
  "d_scope (ag_record cfg n a) = ag_scope_of cfg" "d_type (ag_record cfg n a) = record_type a"
  by (simp_all add: ag_record_def)

lemma rewrite_of_ag_record [simp]: "rewrite_of (ag_record cfg n a) = \<lparr>rw_domain = n, rw_answer = a\<rparr>"
  by (simp add: rewrite_of_def)

text \<open>An expose plans nothing, where the last rewrite of the name is right already, or one add of a
  name that no rewrite of the zone has.\<close>

lemma diff_expose_cases:
  assumes "ag_diff cfg server_doer op [ag_record cfg h t] s = Inr ch" and "o_verb op = Expose"
  shows "ag_guard cfg h = None \<and> c_remove ch = []
    \<and> (\<exists>recs. ag_live cfg server_doer s = Inr recs \<and>
         (case live_by_name recs (norm_name h) of
            None \<Rightarrow> c_add ch = [ag_record cfg h t]
          | Some cur \<Rightarrow> equal_fold (d_value cur) t \<and> c_add ch = []))"
proof -
  have g: "ag_guard cfg h = None" using assms(1) by (auto simp: ag_diff_def split: option.splits)
  obtain recs where r: "ag_live cfg server_doer s = Inr recs"
    using assms(1) g by (cases "ag_live cfg server_doer s") (auto simp: ag_diff_def)
  show ?thesis
    using assms g r
    by (cases "live_by_name recs (norm_name h)")
      (auto simp: ag_diff_def ag_diff_expose_def Let_def split: if_splits)
qed

text \<open>The change an expose plans is one the contract holds for.\<close>

lemma diff_expose_ready:
  assumes "ag_diff cfg server_doer op [ag_record cfg h t] s = Inr ch" and "o_verb op = Expose"
    and "\<not> dns_change_empty ch"
  shows "ag_ready ch s"
proof -
  from diff_expose_cases [OF assms(1,2)] assms(3) obtain recs where
    r: "ag_live cfg server_doer s = Inr recs" "live_by_name recs (norm_name h) = None"
      "c_add ch = [ag_record cfg h t]" "c_remove ch = []" "ag_guard cfg h = None"
    by (auto simp: dns_change_empty_def split: option.splits)
  have "\<not> same_rewrite x \<lparr>rw_domain = h, rw_answer = t\<rparr>" if "x \<in> set (sv_rewrites s)" for x
  proof
    assume sr: "same_rewrite x \<lparr>rw_domain = h, rw_answer = t\<rparr>"
    then have f: "equal_fold (rw_domain x) h" by (simp add: same_rewrite_def)
    have "under_zone (rw_domain x) (ag_zone cfg)"
      using r(5) under_zone_fold [OF f] by (simp add: ag_guard_None)
    with that live_server [OF r(1)] have "ag_record cfg (rw_domain x) (rw_answer x) \<in> set recs" by auto
    then have "norm_name h \<in> (norm_name \<circ> d_name) ` set recs"
      using norm_name_fold [OF f] by force
    with r(2) show False by (auto simp: live_by_name_def map_of_eq_None_iff image_iff)
  qed
  with r(3,4) show ?thesis by (auto simp: ag_ready_def list_ex_iff)
qed

text \<open>C22. An expose converges: once the change the driver plans has been applied, the resolver
  answers the host with the target up to case, and planning the same expose again asks for nothing.\<close>

theorem adguard_expose_converges:
  assumes "ag_desired cfg op = Inr ds" and "o_verb op = Expose"
    and "ag_diff cfg server_doer op ds s = Inr ch" and "ag_apply cfg server_doer ch s = (None, s')"
  shows "\<exists>recs. ag_live cfg server_doer s' = Inr recs
    \<and> (\<forall>d \<in> set ds. \<exists>r \<in> set recs. norm_name (d_name r) = norm_name (d_name d) \<and> equal_fold (d_value r) (d_value d))
    \<and> (\<exists>ch'. ag_diff cfg server_doer op ds s' = Inr ch' \<and> dns_change_empty ch')"
proof -
  let ?h = "o_host op"
  obtain t where ds: "ds = [ag_record cfg ?h t]" using ag_desired_one [OF assms(1)] by blast
  from diff_expose_cases [OF assms(3) [unfolded ds] assms(2)] obtain recs where
    g: "ag_guard cfg ?h = None" "c_remove ch = []" and r: "ag_live cfg server_doer s = Inr recs"
    and c: "case live_by_name recs (norm_name ?h) of
            None \<Rightarrow> c_add ch = [ag_record cfg ?h t]
          | Some cur \<Rightarrow> equal_fold (d_value cur) t \<and> c_add ch = []" by blast
  have "\<exists>recs' cur. ag_live cfg server_doer s' = Inr recs' \<and> live_by_name recs' (norm_name ?h) = Some cur
      \<and> equal_fold (d_value cur) t"
  proof (cases "live_by_name recs (norm_name ?h)")
    case (Some cur)
    with c g assms(4) have "s' = s" by (simp add: ag_apply_def)
    with Some c r show ?thesis by simp
  next
    case None
    with c have add: "c_add ch = [ag_record cfg ?h t]" by simp
    have "ag_post server_doer ''/control/rewrite/add'' (AgAdd \<lparr>rw_domain = ?h, rw_answer = t\<rparr>) s = (None, s')"
      using assms(4) g by (simp add: apply_one_add [OF add g(2)])
    note s' = this [unfolded post_add_done]
    have "ag_live cfg server_doer s' = Inr (recs @ [ag_record cfg ?h t])"
      using live_server [OF r] s' g(1) by (simp add: live_server_ok ag_guard_None)
    then show ?thesis by (simp add: live_by_name_def)
  qed
  then obtain recs' cur where r': "ag_live cfg server_doer s' = Inr recs'"
    "live_by_name recs' (norm_name ?h) = Some cur" "equal_fold (d_value cur) t" by blast
  have "cur \<in> set recs' \<and> norm_name (d_name cur) = norm_name ?h"
    using r'(2) by (auto simp: live_by_name_def dest!: map_of_SomeD)
  moreover have "\<exists>ch'. ag_diff cfg server_doer op ds s' = Inr ch' \<and> dns_change_empty ch'"
    using r' g(1) assms(2) ds by (simp add: ag_diff_def ag_diff_expose_def Let_def dns_change_empty_def)
  ultimately show ?thesis using r' ds by auto
qed

definition expose_op :: op where
  "expose_op = mk_op Expose ''g'' ''g.ex''"

lemma adguard_expose_converges_witness:
  "\<exists>s' recs. ag_live home_config server_doer s' = Inr recs
     \<and> (\<exists>ch'. ag_diff home_config server_doer expose_op [ag_record home_config ''g.ex'' ''h''] s' = Inr ch'
          \<and> dns_change_empty ch')"
proof -
  have d: "ag_desired home_config expose_op = Inr [ag_record home_config ''g.ex'' ''h'']"
    by (simp add: ag_desired_def residency_target_def expose_op_def home_config_def)
  have "case ag_diff home_config server_doer expose_op [ag_record home_config ''g.ex'' ''h''] home_server of
      Inl _ \<Rightarrow> False | Inr ch \<Rightarrow> fst (ag_apply home_config server_doer ch home_server) = None"
    by code_simp
  then obtain ch s' where c: "ag_diff home_config server_doer expose_op [ag_record home_config ''g.ex'' ''h''] home_server = Inr ch"
    "ag_apply home_config server_doer ch home_server = (None, s')"
    by (auto split: sum.splits) (metis prod.collapse)
  have "o_verb expose_op = Expose" by (simp add: expose_op_def)
  from adguard_expose_converges [OF d this c] show ?thesis by blast
qed

text \<open>A vantage target is never guessed: the records desired for an operation are the one rewrite
  of its host to the default edge address, when no residency class is declared, and to the target
  configured for the class otherwise; a class without a target is an error.\<close>

theorem adguard_target_never_guessed:
  "ag_desired cfg op = Inr ds \<longleftrightarrow>
     o_host op \<noteq> [] \<and> (\<exists>target. ds = [ag_record cfg (o_host op) target]
       \<and> (if o_residency op = [] then target = ag_edge_addr cfg
          else map_of (ag_targets cfg) (o_residency op) = Some target \<and> target \<noteq> []))"
  by (auto simp: ag_desired_def residency_target_def rbind_Inr split: option.splits if_splits)

text \<open>Names are compared without case, answers are not: an unexpose whose live answer differs from
  the configured address only in case is planned as a removal, the server accepts the removal
  without effect, and undoing it leaves a second rewrite of the host behind.\<close>

theorem adguard_unexpose_answer_case:
  "case ag_diff home_config server_doer (mk_op Unexpose ''a'' ''a.ex'') [ag_record home_config ''a.ex'' ''h''] home_server of
     Inl _ \<Rightarrow> False
   | Inr ch \<Rightarrow>
       (case ag_apply home_config server_doer ch home_server of
          (err, s1) \<Rightarrow> err = None \<and> sv_rewrites s1 = sv_rewrites home_server
            \<and> (case ag_apply home_config server_doer (invert_dns ch) s1 of
                 (err', s2) \<Rightarrow> err' = None
                   \<and> map rw_domain (sv_rewrites s2) = [''a.ex'', ''a.ex'']
                   \<and> map rw_answer (sv_rewrites s2) = [''H'', ''h'']))"
  by code_simp

end
