(* ===== verification/Flaky.thy ===== *)
theory Flaky
  imports AdGuard
begin

text \<open>
  The control API of the AdGuard driver behind a connection that fails: the schedule of accidents is
  part of the resolver's state. In every phase a listing is answered or not, and the next change ends
  the phase: it is answered, does not reach the server, or takes effect while its answer is lost. A
  schedule that has run out answers everything. The driver keeps the contract of \<open>Faults\<close> over it.
\<close>

datatype post_fate = Answered | Unreached | Unheard

record phase =
  ph_deaf :: bool
  ph_post :: post_fate

record flaky_server =
  fs_server :: ag_server
  fs_phases :: "phase list"

definition current :: "flaky_server \<Rightarrow> phase" where
  "current f = (case fs_phases f of [] \<Rightarrow> \<lparr>ph_deaf = False, ph_post = Answered\<rparr> | p # _ \<Rightarrow> p)"

definition no_answer :: perr where "no_answer = ''no answer''"

definition flaky_doer :: "flaky_server doer" where
  "flaky_doer f rq =
     (let (reply, s') = server_doer (fs_server f) rq; f1 = f\<lparr>fs_phases := tl (fs_phases f)\<rparr>
      in case rq of
           AgList \<Rightarrow> (if ph_deaf (current f) then Inl no_answer else reply, f)
         | _ \<Rightarrow> (case ph_post (current f) of
               Answered \<Rightarrow> (reply, f1\<lparr>fs_server := s'\<rparr>)
             | Unreached \<Rightarrow> (Inl no_answer, f1)
             | Unheard \<Rightarrow> (Inl no_answer, f1\<lparr>fs_server := s'\<rparr>)))"

definition heard :: "flaky_server \<Rightarrow> bool" where
  "heard f = (\<forall>p \<in> set (fs_phases f). ph_post p \<noteq> Unheard)"

definition steady :: "flaky_server \<Rightarrow> bool" where
  "steady f = (\<forall>p \<in> set (fs_phases f). ph_post p = Answered)"

lemma current_heard: "heard f \<Longrightarrow> ph_post (current f) \<noteq> Unheard"
  by (cases "fs_phases f") (auto simp: current_def heard_def)

lemma current_steady: "steady f \<Longrightarrow> ph_post (current f) = Answered"
  by (cases "fs_phases f") (auto simp: current_def steady_def)

section \<open>Reading\<close>

lemma live_flaky:
  "ag_live cfg flaky_doer f = (if ph_deaf (current f) then Inl (''adguard rewrite/list: '' @ no_answer)
     else ag_live cfg server_doer (fs_server f))"
  by (simp add: ag_live_def flaky_doer_def split_beta Let_def)

lemma diff_flaky:
  "ag_diff cfg flaky_doer op ds f = Inr ch \<Longrightarrow> ag_diff cfg server_doer op ds (fs_server f) = Inr ch"
  by (auto simp: ag_diff_def live_flaky split: option.splits if_splits)

section \<open>Writing\<close>

lemma post_flaky:
  assumes "rq \<noteq> AgList"
  shows "ag_post flaky_doer path rq f =
     (case ph_post (current f) of
        Answered \<Rightarrow> (fst (ag_post server_doer path rq (fs_server f)),
          f\<lparr>fs_phases := tl (fs_phases f), fs_server := snd (ag_post server_doer path rq (fs_server f))\<rparr>)
      | Unreached \<Rightarrow> (Some (''adguard '' @ path @ '': '' @ no_answer), f\<lparr>fs_phases := tl (fs_phases f)\<rparr>)
      | Unheard \<Rightarrow> (Some (''adguard '' @ path @ '': '' @ no_answer),
          f\<lparr>fs_phases := tl (fs_phases f), fs_server := snd (ag_post server_doer path rq (fs_server f))\<rparr>))"
  using assms
  by (cases rq) (auto simp: ag_post_def flaky_doer_def server_doer_def Let_def split: prod.splits post_fate.splits)

lemma tl_subset: "set (tl xs) \<subseteq> set xs"
  by (cases xs) auto

lemma doer_phases: "set (fs_phases (snd (flaky_doer f rq))) \<subseteq> set (fs_phases f)"
  using tl_subset [of "fs_phases f"]
  by (cases rq) (auto simp: flaky_doer_def split_beta Let_def split: post_fate.splits)

lemma post_world: "snd (ag_post send path rq w) = snd (send w rq)"
  by (auto simp: ag_post_def split: prod.splits sum.splits)

lemma post_steady: "steady f \<Longrightarrow> ag_post flaky_doer path rq f = (e, f') \<Longrightarrow> steady f'"
  using doer_phases [of f rq] post_world [of flaky_doer path rq f] by (auto simp: steady_def)

lemma post_all_steady: "steady f \<Longrightarrow> ag_post_all cfg flaky_doer path mk rs f = (e, f') \<Longrightarrow> steady f'"
proof (induction rs arbitrary: f)
  case (Cons r rs)
  obtain e1 f1 where p: "ag_post flaky_doer path (mk (rewrite_of r)) f = (e1, f1)" by fastforce
  from post_steady [OF Cons.prems(1) p] Cons p show ?case
    by (auto split: option.splits)
qed simp

lemma apply_steady: "steady f \<Longrightarrow> ag_apply cfg flaky_doer ch f = (e, f') \<Longrightarrow> steady f'"
  using post_all_steady by (auto simp: ag_apply_def split: prod.splits option.splits; blast)

text \<open>A change of one record is one post: it is refused by the guard, goes to the server as it is, does not
  reach it, or is answered unheard.\<close>

definition single :: "dns_change \<Rightarrow> bool" where
  "single ch = (\<exists>r. c_add ch = [r] \<and> c_remove ch = [] \<or> c_add ch = [] \<and> c_remove ch = [r])"

lemma single_invert: "single ch \<Longrightarrow> single (invert_dns ch)"
  by (auto simp: single_def invert_dns_def)

lemma ready_single: "ag_ready ch s \<Longrightarrow> single ch"
  by (auto simp: ag_ready_def single_def split: list.splits)

lemma apply_flaky:
  assumes "single ch"
  shows "(\<exists>err. (\<forall>s. ag_apply cfg server_doer ch s = (Some err, s)) \<and> ag_apply cfg flaky_doer ch f = (Some err, f))
    \<or> (case ph_post (current f) of
        Answered \<Rightarrow> \<exists>ps. ag_apply cfg flaky_doer ch f = (fst (ag_apply cfg server_doer ch (fs_server f)),
          f\<lparr>fs_phases := ps, fs_server := snd (ag_apply cfg server_doer ch (fs_server f))\<rparr>)
      | Unreached \<Rightarrow> \<exists>err ps. ag_apply cfg flaky_doer ch f = (Some err, f\<lparr>fs_phases := ps\<rparr>)
      | Unheard \<Rightarrow> \<exists>err f'. ag_apply cfg flaky_doer ch f = (Some err, f'))"
proof -
  obtain r path mk where a: "\<And>(send :: ag_server doer) s. ag_apply cfg send ch s = (case ag_guard cfg (d_name r) of
        Some err \<Rightarrow> (Some err, s) | None \<Rightarrow> ag_post send path (mk (rewrite_of r)) s)"
      "\<And>(send :: flaky_server doer) s. ag_apply cfg send ch s = (case ag_guard cfg (d_name r) of
        Some err \<Rightarrow> (Some err, s) | None \<Rightarrow> ag_post send path (mk (rewrite_of r)) s)"
      "mk (rewrite_of r) \<noteq> AgList"
  proof -
    from assms consider (add) r where "c_add ch = [r]" "c_remove ch = []" | (remove) r where "c_add ch = []" "c_remove ch = [r]"
      by (auto simp: single_def)
    then show ?thesis
    proof cases
      case (add r)
      show ?thesis
        by (rule that [where r = r and path = "''/control/rewrite/add''" and mk = AgAdd]) (simp_all only: apply_one_add [OF add], simp)
    next
      case (remove r)
      show ?thesis
        by (rule that [where r = r and path = "''/control/rewrite/delete''" and mk = AgDelete]) (simp_all only: apply_one_remove [OF remove], simp)
    qed
  qed
  show ?thesis
  proof (cases "ag_guard cfg (d_name r)")
    case None
    with a(3) show ?thesis by (auto simp: a(1,2) post_flaky split: post_fate.split)
  next
    case (Some err)
    then show ?thesis by (auto simp: a(1,2))
  qed
qed

section \<open>The contract\<close>

definition flaky_view :: "flaky_server \<Rightarrow> rewrite multiset \<times> bool \<times> bool \<times> bool" where
  "flaky_view f = ag_view (fs_server f)"

definition flaky_ready :: "dns_change \<Rightarrow> flaky_server \<Rightarrow> bool" where
  "flaky_ready ch f = (ag_ready ch (fs_server f) \<and> heard f)"

lemma apply_heard:
  assumes "single ch" and "ph_post (current f) \<noteq> Unheard" and "ag_apply cfg flaky_doer ch f = (e, f')"
  shows "(e \<noteq> None \<and> fs_server f' = fs_server f) \<or> ag_apply cfg server_doer ch (fs_server f) = (e, fs_server f')"
  using apply_flaky [OF assms(1), of cfg f] assms(2,3) by (auto split: post_fate.splits)

lemma apply_flaky_done:
  assumes "single ch" and "ag_apply cfg flaky_doer ch f = (None, f')"
  shows "ag_apply cfg server_doer ch (fs_server f) = (None, fs_server f')"
  using apply_flaky [OF assms(1), of cfg f] assms(2) by (auto simp: prod_eq_iff split: post_fate.splits)

lemma flaky_leaves:
  assumes "flaky_ready ch f" and "ag_apply cfg flaky_doer ch f = (Some err, f')"
  shows "flaky_view f' = flaky_view f"
proof -
  have r: "ag_ready ch (fs_server f)" "heard f" using assms(1) by (simp_all add: flaky_ready_def)
  from apply_heard [OF ready_single [OF r(1)] current_heard [OF r(2)] assms(2)] ag.fails_clean [OF r(1), of cfg err]
  show ?thesis by (auto simp: flaky_view_def)
qed

lemma flaky_restores:
  assumes "flaky_ready ch f" and "ag_apply cfg flaky_doer ch f = (None, f')" and "flaky_view v = flaky_view f'"
    and "ag_apply cfg flaky_doer (invert_dns ch) v = (None, v')"
  shows "flaky_view v' = flaky_view f"
proof -
  have r: "ag_ready ch (fs_server f)" using assms(1) by (simp add: flaky_ready_def)
  note one = ready_single [OF r]
  from ag.inverse_restores [OF r apply_flaky_done [OF one assms(2)] _ apply_flaky_done [OF single_invert [OF one] assms(4)]] assms(3)
  show ?thesis by (simp add: flaky_view_def)
qed

lemma flaky_works:
  assumes "flaky_ready ch f" and "ag_apply cfg flaky_doer ch f = (None, f')" and "flaky_view v = flaky_view f'" and "steady v"
  shows "\<exists>v'. ag_apply cfg flaky_doer (invert_dns ch) v = (None, v')"
proof -
  have r: "ag_ready ch (fs_server f)" using assms(1) by (simp add: flaky_ready_def)
  note one = ready_single [OF r]
  obtain v' where v': "ag_apply cfg server_doer (invert_dns ch) (fs_server v) = (None, v')"
    using ag.inverse_works [OF r apply_flaky_done [OF one assms(2)], of "fs_server v"] assms(3) by (auto simp: flaky_view_def)
  with apply_flaky [OF single_invert [OF one], of cfg v] current_steady [OF assms(4)] show ?thesis
    by auto
qed

interpretation flaky: revocable "ag_apply cfg flaky_doer" invert_dns flaky_view flaky_ready steady for cfg
  by unfold_locales (auto intro: flaky_leaves flaky_restores flaky_works apply_steady)

end
