(* ===== verification/Traefik_Codec.thy ===== *)
theory Traefik_Codec
  imports Ports
begin

text \<open>
  The Traefik dynamic configuration and what its driver reads out of rules and names:
  \<open>internal/drivers/edge/traefik/types.go\<close> and \<open>codec.go\<close>. A Go map is an association list
  with distinct keys, a nil pointer \<open>None\<close>. The regular expressions are the scanners they
  compile to: leftmost matches, left to right, without overlap.
\<close>

section \<open>Types\<close>

record tls_conf =
  tc_cert_resolver :: string
  tc_passthrough :: bool

record router =
  rt_rule :: string
  rt_service :: string
  rt_priority :: int
  rt_entry_points :: "string list"
  rt_middlewares :: "string list"
  rt_tls :: "tls_conf option"
  rt_ack :: string

text \<open>A service is the list of its server URLs.\<close>

record service =
  sv_urls :: "string list"

record tcp_router =
  tr_rule :: string
  tr_service :: string
  tr_entry_points :: "string list"
  tr_tls :: "bool option"

record tcp_service =
  ts_addresses :: "string list"

record tcp_config =
  tp_routers :: "(string \<times> tcp_router option) list"
  tp_services :: "(string \<times> tcp_service option) list"

record dynamic_config =
  dy_routers :: "(string \<times> router option) list"
  dy_services :: "(string \<times> service option) list"
  dy_tcp :: "tcp_config option"

definition empty_config :: dynamic_config where
  "empty_config = \<lparr>dy_routers = [], dy_services = [], dy_tcp = None\<rparr>"

text \<open>A lookup in a Go map of pointers: a missing key and a nil value are the same.\<close>

definition pointer :: "('k \<times> 'v option) list \<Rightarrow> 'k \<Rightarrow> 'v option" where
  "pointer m k = (case map_of m k of Some v \<Rightarrow> v | None \<Rightarrow> None)"

definition managed_prefix :: string where "managed_prefix = ''crenel-''"
definition tcp_prefix :: string where "tcp_prefix = ''crenel-tcp-''"
definition deny_key :: string where "deny_key = ''crenel-deny''"
definition route_priority :: int where "route_priority = 10"

definition managed_router_id :: "string \<Rightarrow> string" where "managed_router_id host = managed_prefix @ host"
definition managed_service_id :: "string \<Rightarrow> string" where "managed_service_id host = managed_prefix @ host"
definition tcp_router_id :: "string \<Rightarrow> string" where "tcp_router_id host = tcp_prefix @ host"
definition tcp_service_id :: "string \<Rightarrow> string" where "tcp_service_id host = tcp_prefix @ host"

definition has_upstream :: "service option \<Rightarrow> bool" where
  "has_upstream s = (case s of None \<Rightarrow> False | Some v \<Rightarrow> list_ex (\<lambda>u. u \<noteq> []) (sv_urls v))"

definition first_upstream :: "service option \<Rightarrow> string" where
  "first_upstream s =
     (case s of None \<Rightarrow> []
      | Some v \<Rightarrow> (case find (\<lambda>u. u \<noteq> []) (sv_urls v) of Some u \<Rightarrow> u | None \<Rightarrow> []))"

definition first_address :: "tcp_service option \<Rightarrow> string" where
  "first_address s =
     (case s of None \<Rightarrow> []
      | Some v \<Rightarrow> (case find (\<lambda>u. u \<noteq> []) (ts_addresses v) of Some u \<Rightarrow> u | None \<Rightarrow> []))"

section \<open>Hosts of a rule\<close>

text \<open>
  \<open>hostRuleRE\<close> and \<open>hostSNIRE\<close> are a matcher name, an opening parenthesis and a backtick, at
  least one byte that is no backtick, a backtick and a closing parenthesis. A match holds no
  backtick, so splitting it at backtick, comma, backtick gives the match itself.
\<close>

definition backtick :: char where "backtick = CHR 0x60"

function quoted_args :: "string \<Rightarrow> string \<Rightarrow> string list" where
  "quoted_args name [] = []"
| "quoted_args name (c # cs) =
     (let opening = name @ ''('' @ [backtick]; rest = drop (length opening) (c # cs);
          body = takeWhile (\<lambda>x. x \<noteq> backtick) rest; after = drop (length body) rest
      in if has_prefix opening (c # cs) \<and> body \<noteq> [] \<and> has_prefix [backtick, CHR '')''] after
         then body # quoted_args name (drop 2 after)
         else quoted_args name cs)"
  by pat_completeness auto
termination
  by (relation "measure (\<lambda>(_, s). length s)") auto

definition parse_hosts :: "string \<Rightarrow> string list" where
  "parse_hosts rule = filter (\<lambda>h. h \<noteq> []) (map trim_space (quoted_args ''Host'' rule))"

definition parse_host_sni :: "string \<Rightarrow> string list" where
  "parse_host_sni rule = filter (\<lambda>h. h \<noteq> []) (map trim_space (quoted_args ''HostSNI'' rule))"

text \<open>Both remaining branches of \<open>isCatchAll\<close> return true.\<close>

definition is_catch_all :: "string \<Rightarrow> bool" where
  "is_catch_all rule =
     (if parse_hosts rule \<noteq> [] then False
      else if str_contains rule ''HostRegexp('' then True else True)"

section \<open>Predicates of a rule\<close>

lemma length_dropWhile_tl: "length (tl (dropWhile p xs)) < Suc (length xs)"
  using length_dropWhile_le [of p xs] by simp

lemma length_dropWhile_Suc: "length (dropWhile q xs) < Suc (length xs)"
  using length_dropWhile_le [of q xs] by simp

lemma length_dropWhile_twice: "length (tl (dropWhile p (dropWhile q xs))) < Suc (length xs)"
  using length_dropWhile_le [of p "dropWhile q xs"] length_dropWhile_le [of q xs] by simp

function strip_quoted :: "string \<Rightarrow> string" where
  "strip_quoted [] = []"
| "strip_quoted (c # rest) =
     (if c = backtick \<and> backtick \<in> set rest
      then [backtick, backtick] @ strip_quoted (tl (dropWhile (\<lambda>x. x \<noteq> backtick) rest))
      else c # strip_quoted rest)"
  by pat_completeness auto
termination
  by (relation "measure length") (auto simp: length_dropWhile_tl simp del: length_tl)

definition is_alpha :: "char \<Rightarrow> bool" where
  "is_alpha c = (let n = (of_char c :: nat) in (65 \<le> n \<and> n \<le> 90) \<or> (97 \<le> n \<and> n \<le> 122))"

definition is_alnum :: "char \<Rightarrow> bool" where
  "is_alnum c = (let n = (of_char c :: nat) in is_alpha c \<or> (48 \<le> n \<and> n \<le> 57))"

definition is_re_space :: "char \<Rightarrow> bool" where
  "is_re_space c = ((of_char c :: nat) \<in> {9, 10, 12, 13, 32})"

text \<open>\<open>predicateRE\<close>: an identifier, white space, an opening parenthesis; no shorter identifier and no
  later start inside it can match where the whole one does not.\<close>

function predicate_names :: "string \<Rightarrow> string list" where
  "predicate_names [] = []"
| "predicate_names (c # cs) =
     (if is_alpha c
      then let name = c # takeWhile is_alnum cs; after = dropWhile is_alnum cs;
               rest = dropWhile is_re_space after
           in if has_prefix ''('' rest then name # predicate_names (tl rest)
              else predicate_names after
      else predicate_names cs)"
  by pat_completeness auto
termination
  by (relation "measure length")
    (auto simp: length_dropWhile_twice length_dropWhile_Suc simp del: length_tl)

definition host_predicates :: "string list" where
  "host_predicates = [''Host'', ''HostRegexp'', ''HostSNI'', ''HostSNIRegexp'', ''HostHeader'']"

definition non_host_predicates :: "string \<Rightarrow> string list" where
  "non_host_predicates rule =
     sort (remdups (filter (\<lambda>n. n \<notin> set host_predicates) (predicate_names (strip_quoted rule))))"

section \<open>Addresses\<close>

definition with_scheme :: "string \<Rightarrow> string" where
  "with_scheme addr = (if str_contains addr ''://'' then addr else ''http://'' @ addr)"

definition strip_scheme :: "string \<Rightarrow> string" where
  "strip_scheme url = (case str_index url ''://'' of Some i \<Rightarrow> drop (i + 3) url | None \<Rightarrow> url)"

section \<open>Generators\<close>

definition middleware_base_name :: "string \<Rightarrow> string" where
  "middleware_base_name mw = (case last_index_char mw (CHR ''@'') of Some i \<Rightarrow> take i mw | None \<Rightarrow> mw)"

definition has_pangolin_signature :: "dynamic_config \<Rightarrow> bool" where
  "has_pangolin_signature cfg =
     list_ex (\<lambda>(_, r). case r of None \<Rightarrow> False
       | Some rt \<Rightarrow> list_ex (\<lambda>mw. middleware_base_name mw = ''badger'') (rt_middlewares rt)) (dy_routers cfg)"

definition provider_generator :: "string \<Rightarrow> string option" where
  "provider_generator p =
     (if p = ''docker'' then Some ''traefik-docker-labels''
      else if p = ''swarm'' then Some ''traefik-swarm-labels''
      else if p \<in> {''kubernetes'', ''kubernetescrd'', ''kubernetesingress'', ''kubernetesgateway''}
           then Some ''traefik-kubernetes''
      else if p = ''nomad'' then Some ''traefik-nomad-labels''
      else if p = ''consulcatalog'' then Some ''traefik-consul-catalog''
      else if p = ''ecs'' then Some ''traefik-ecs''
      else None)"

definition name_generator :: "string \<Rightarrow> string option" where
  "name_generator name =
     (case last_index_char name (CHR ''@'') of
        None \<Rightarrow> None
      | Some i \<Rightarrow> provider_generator (to_lower (drop (i + 1) name)))"

fun first_some :: "('a \<Rightarrow> 'b option) \<Rightarrow> 'a list \<Rightarrow> 'b option" where
  "first_some f [] = None"
| "first_some f (x # xs) = (case f x of Some y \<Rightarrow> Some y | None \<Rightarrow> first_some f xs)"

definition detect_generator :: "dynamic_config \<Rightarrow> string" where
  "detect_generator cfg =
     (if has_pangolin_signature cfg then ''pangolin''
      else (case first_some name_generator (sort (map fst (dy_routers cfg)
                 @ (case dy_tcp cfg of None \<Rightarrow> [] | Some t \<Rightarrow> map fst (tp_routers t)))) of
              Some g \<Rightarrow> g | None \<Rightarrow> []))"

section \<open>Encoding\<close>

text \<open>What reading back an encoded document gives: empty elements are omitted.\<close>

definition encode :: "dynamic_config \<Rightarrow> dynamic_config" where
  "encode cfg =
     cfg\<lparr>dy_tcp := (case dy_tcp cfg of
        None \<Rightarrow> None
      | Some t \<Rightarrow> if tp_routers t = [] \<and> tp_services t = [] then None else Some t)\<rparr>"

end
