(* ===== verification/Traefik.thy ===== *)
theory Traefik
  imports Traefik_Codec Faults Txn
begin

text \<open>
  The Traefik file-provider driver, \<open>internal/drivers/edge/traefik/traefik.go\<close> and \<open>runtime.go\<close>,
  with the static origin resolver it plans with (\<open>internal/drivers/origin/static\<close>). The
  configuration file is a document of the driver's schema plus the elements, and the fields of routers
  and services, that the schema has no field for: decoding drops both. A failing write is refused and
  leaves the file, or is cut after the file was truncated (\<open>Faults\<close>). The texts of reasons and
  errors are shortened.
\<close>

section \<open>The resolver\<close>

definition static_new :: "(string \<times> string) list \<Rightarrow> (string \<times> string) list" where
  "static_new m = map (\<lambda>(k, v). (to_lower k, v)) m"

definition static_resolve :: "(string \<times> string) list \<Rightarrow> string \<Rightarrow> perr + string" where
  "static_resolve m service =
     (case map_of m (to_lower service) of
        Some addr \<Rightarrow> Inr addr
      | None \<Rightarrow> Inl (''static resolver: no backend mapped for service '' @ service))"

section \<open>The file\<close>

text \<open>A field no Go type of the driver has: of which entry, its name and its value.\<close>

datatype entry = HttpRouter string | HttpService string | TcpRouter string | TcpService string

record traefik_doc =
  td_config :: dynamic_config
  td_other :: "(string \<times> string) list"
  td_extra :: "(entry \<times> string \<times> string) list"

text \<open>A file is missing, holds a document, or bytes that cannot be decoded. What a write that is cut leaves:
  no byte, which decodes as an empty document; a part of the object, which does not decode; or all of it
  but the last line end.\<close>

datatype traefik_content = Missing | Holds traefik_doc | Torn

datatype cut_doc = LeftEmpty | LeftPart | LeftWhole

record traefik_file =
  tf_content :: traefik_content
  tf_readable :: bool
  tf_fates :: "cut_doc write_fate list"

definition tk_read :: "traefik_file \<Rightarrow> perr + dynamic_config" where
  "tk_read f =
     (if \<not> tf_readable f then Inl ''read dynamic-config''
      else (case tf_content f of
              Missing \<Rightarrow> Inr empty_config
            | Holds d \<Rightarrow> Inr (td_config d)
            | Torn \<Rightarrow> Inl ''parse dynamic-config''))"

definition tk_validate :: "dynamic_config \<Rightarrow> perr option" where
  "tk_validate cfg =
     (case find (\<lambda>n. case pointer (dy_services cfg) n of Some s \<Rightarrow> sv_urls s = [] | None \<Rightarrow> False)
         (sort (map fst (dy_services cfg))) of
        Some n \<Rightarrow> Some (''invalid Traefik config: no servers in http service '' @ n)
      | None \<Rightarrow> None)"

text \<open>The document an encoding decodes to: the driver's fields, nothing else.\<close>

definition encoded_doc :: "dynamic_config \<Rightarrow> traefik_doc" where
  "encoded_doc cfg = \<lparr>td_config = encode cfg, td_other = [], td_extra = []\<rparr>"

definition cut_content :: "cut_doc \<Rightarrow> dynamic_config \<Rightarrow> traefik_content" where
  "cut_content c cfg = (case c of
     LeftEmpty \<Rightarrow> Holds (encoded_doc empty_config) | LeftPart \<Rightarrow> Torn | LeftWhole \<Rightarrow> Holds (encoded_doc cfg))"

definition tk_write :: "dynamic_config \<Rightarrow> traefik_file act" where
  "tk_write cfg f =
     (case tk_validate cfg of
        Some err \<Rightarrow> (Some err, f)
      | None \<Rightarrow>
          let f1 = f\<lparr>tf_fates := tl (tf_fates f)\<rparr>
          in (case next_fate (tf_fates f) of
                WriteThrough \<Rightarrow> (None, f1\<lparr>tf_content := Holds (encoded_doc cfg)\<rparr>)
              | WriteRefused \<Rightarrow> (Some ''write dynamic-config'', f1)
              | WriteCut c \<Rightarrow> (Some ''write dynamic-config'', f1\<lparr>tf_content := cut_content c cfg\<rparr>)))"

section \<open>Authentication middlewares\<close>

record traefik_config =
  tk_resolve :: "string \<Rightarrow> perr + string"
  tk_auth_middlewares :: "(string \<times> string) list"

definition traefik_middleware :: "traefik_config \<Rightarrow> string \<Rightarrow> string" where
  "traefik_middleware d policy =
     (case map_of (tk_auth_middlewares d) policy of
        Some mw \<Rightarrow> if mw \<noteq> [] then mw else policy @ ''@file''
      | None \<Rightarrow> policy @ ''@file'')"

definition policy_for_middleware :: "traefik_config \<Rightarrow> string \<Rightarrow> string" where
  "policy_for_middleware d mw =
     (case find (\<lambda>(_, m). m = mw) (tk_auth_middlewares d) of Some (p, _) \<Rightarrow> p | None \<Rightarrow> [])"

definition auth_for_router :: "traefik_config \<Rightarrow> bool \<Rightarrow> router \<Rightarrow> string" where
  "auth_for_router d managed r =
     (if rt_middlewares r = [] then []
      else if managed then
        (let mw = hd (rt_middlewares r); p = policy_for_middleware d mw
         in if p \<noteq> [] then p else trim_suffix ''@file'' mw)
      else if list_ex (\<lambda>mw. str_contains (to_lower mw) ''auth'') (rt_middlewares r)
           then auth_detected else [])"

section \<open>Reading\<close>

definition ack_aware :: "string \<Rightarrow> string \<Rightarrow> string \<Rightarrow> string \<Rightarrow> unknown_kind \<Rightarrow> unparsed" where
  "ack_aware loc reason ack excerpt kind =
     (case parse_ack_marker ack of
        Some slug \<Rightarrow> \<lparr>n_locator = loc, n_kind = UnknownAcknowledged,
          n_reason = ''acknowledged by operator ('' @ slug @ ''): '' @ reason, n_raw_excerpt = excerpt\<rparr>
      | None \<Rightarrow> \<lparr>n_locator = loc, n_kind = kind, n_reason = reason, n_raw_excerpt = excerpt\<rparr>)"

definition http_upstream :: "string \<Rightarrow> string \<Rightarrow> string \<Rightarrow> upstream" where
  "http_upstream addr host auth = \<lparr>u_kind = ForwardToOrigin, u_mode = ModeHTTPProxy, u_address = addr,
     u_tls_passthrough = False, u_server_name = host, u_upstream_tls = False, u_auth = auth\<rparr>"

definition tcp_upstream :: "string \<Rightarrow> string \<Rightarrow> upstream" where
  "tcp_upstream addr host = \<lparr>u_kind = ForwardToOrigin, u_mode = ModeTCPPassthrough, u_address = addr,
     u_tls_passthrough = True, u_server_name = host, u_upstream_tls = False, u_auth = []\<rparr>"

definition owned_route :: "string \<Rightarrow> bool \<Rightarrow> upstream \<Rightarrow> route" where
  "owned_route host managed up =
     (mk_route host up)\<lparr>r_managed := managed, r_ownership := ownership_from_marker managed\<rparr>"

text \<open>One HTTP router: its routes, its declared unknowns, and whether it opens every host.\<close>

definition read_router :: "traefik_config \<Rightarrow> dynamic_config \<Rightarrow> string \<Rightarrow> router \<Rightarrow> route list \<times> unparsed list \<times> bool" where
  "read_router d cfg name r =
     (let svc = pointer (dy_services cfg) (rt_service r); hosts = parse_hosts (rt_rule r);
          loc = ''http.routers.'' @ name
      in if hosts = [] then
           (if is_catch_all (rt_rule r) \<and> has_upstream svc then ([], [], True)
            else if has_upstream svc
                 then ([], [\<lparr>n_locator = loc, n_kind = UnknownMatcher,
                        n_reason = ''host-less rule crenel cannot model as a host'', n_raw_excerpt = rt_rule r\<rparr>], False)
            else ([], [], False))
         else if non_host_predicates (rt_rule r) \<noteq> []
              then ([], [ack_aware loc ''also scoped by non-host predicates'' (rt_ack r) (rt_rule r) UnknownMatcher], False)
         else if \<not> has_upstream svc
              then ([], [ack_aware loc ''no resolvable upstream'' (rt_ack r) (rt_rule r) UnknownBackend], False)
         else (let managed = has_prefix managed_prefix name; addr = strip_scheme (first_upstream svc)
               in (map (\<lambda>h. owned_route h managed (http_upstream addr h (auth_for_router d managed r))) hosts, [], False)))"

definition read_tcp_router :: "tcp_config \<Rightarrow> string \<Rightarrow> tcp_router \<Rightarrow> route list" where
  "read_tcp_router t name r =
     (let addr = first_address (pointer (tp_services t) (tr_service r))
      in if addr = [] then []
         else map (\<lambda>h. owned_route h (has_prefix managed_prefix name) (tcp_upstream addr h))
                (parse_host_sni (tr_rule r)))"

definition http_reads :: "traefik_config \<Rightarrow> dynamic_config \<Rightarrow> (route list \<times> unparsed list \<times> bool) list" where
  "http_reads d cfg =
     map (\<lambda>n. case pointer (dy_routers cfg) n of
            None \<Rightarrow> ([], [], False) | Some r \<Rightarrow> read_router d cfg n r)
       (sort (map fst (dy_routers cfg)))"

definition tcp_reads :: "dynamic_config \<Rightarrow> route list" where
  "tcp_reads cfg =
     (case dy_tcp cfg of
        None \<Rightarrow> []
      | Some t \<Rightarrow> concat (map (\<lambda>n. case pointer (tp_routers t) n of
            None \<Rightarrow> [] | Some r \<Rightarrow> read_tcp_router t n r) (sort (map fst (tp_routers t)))))"

definition tk_normalize :: "traefik_config \<Rightarrow> dynamic_config \<Rightarrow> live_edge_state" where
  "tk_normalize d cfg =
     (let reads = http_reads d cfg; routes = concat (map fst reads) @ tcp_reads cfg;
          g = detect_generator cfg
      in \<lparr>l_routes = (if g \<noteq> [] then map (\<lambda>r. r\<lparr>r_ownership := OwnForeign, r_managed := False\<rparr>) routes else routes),
          l_deny_present = (\<not> list_ex (\<lambda>x. snd (snd x)) reads),
          l_unparsed = concat (map (fst \<circ> snd) reads), l_generator = g,
          l_ingress_kind = IngressUnset, l_persistence = PersistDurableConfig, l_raw = []\<rparr>)"

definition tk_read_live :: "traefik_config \<Rightarrow> traefik_file \<Rightarrow> perr + live_edge_state" where
  "tk_read_live d f = rbind (tk_read f) (\<lambda>cfg. Inr (tk_normalize d cfg))"

section \<open>Planning\<close>

definition tk_plan :: "traefik_config \<Rightarrow> op \<Rightarrow> live_edge_state \<Rightarrow> perr + change_set" where
  "tk_plan d op live =
     (let cs = (mk_change_set op)\<lparr>cs_edge := no_edge_change\<rparr>
      in if o_mode op \<noteq> ModeHTTPProxy \<and> o_mode op \<noteq> ModeTCPPassthrough then Inl ''unsupported mode''
         else (case o_verb op of
                 Expose \<Rightarrow>
                   if o_host op = [] then Inl ''traefik plan: expose requires a host''
                   else if has_host live (o_host op) then Inr cs
                   else rbind (if o_to op = [] then tk_resolve d (o_service op) else Inr (o_to op)) (\<lambda>addr.
                     let up = (http_upstream addr (o_host op) (o_auth op))\<lparr>u_mode := o_mode op,
                           u_tls_passthrough := (o_mode op = ModeTCPPassthrough)\<rparr>
                     in Inr (cs\<lparr>cs_edge := no_edge_change\<lparr>e_add := [mk_route (o_host op) up]\<rparr>\<rparr>))
               | Unexpose \<Rightarrow>
                   if o_host op = [] then Inl ''traefik plan: unexpose requires a host''
                   else if \<not> has_host live (o_host op) then Inr cs
                   else Inr (cs\<lparr>cs_edge := no_edge_change\<lparr>e_remove := [o_host op]\<rparr>\<rparr>)
               | Rename \<Rightarrow> Inl ''traefik plan: unknown verb''))"

section \<open>Writing\<close>

definition remove_host :: "string \<Rightarrow> dynamic_config \<Rightarrow> dynamic_config" where
  "remove_host h cfg =
     \<lparr>dy_routers = AList.delete (managed_router_id h) (dy_routers cfg),
      dy_services = AList.delete (managed_service_id h) (dy_services cfg),
      dy_tcp = map_option (\<lambda>t. \<lparr>tp_routers = AList.delete (tcp_router_id h) (tp_routers t),
        tp_services = AList.delete (tcp_service_id h) (tp_services t)\<rparr>) (dy_tcp cfg)\<rparr>"

definition backticked :: "string \<Rightarrow> string \<Rightarrow> string" where
  "backticked name host = name @ ''('' @ [backtick] @ host @ [backtick] @ '')''"

definition render_router :: "traefik_config \<Rightarrow> route \<Rightarrow> router" where
  "render_router d r =
     \<lparr>rt_rule = backticked ''Host'' (r_host r), rt_service = managed_service_id (r_host r),
      rt_priority = route_priority, rt_entry_points = [],
      rt_middlewares = (let policy = u_auth (r_upstream r)
         in if policy \<noteq> [] \<and> policy \<noteq> auth_none then [traefik_middleware d policy] else []),
      rt_tls = None, rt_ack = []\<rparr>"

definition render_service :: "route \<Rightarrow> service" where
  "render_service r = \<lparr>sv_urls = [with_scheme (u_address (r_upstream r))]\<rparr>"

definition add_tcp_passthrough :: "route \<Rightarrow> dynamic_config \<Rightarrow> dynamic_config" where
  "add_tcp_passthrough r cfg =
     (let t = (case dy_tcp cfg of None \<Rightarrow> \<lparr>tp_routers = [], tp_services = []\<rparr> | Some t \<Rightarrow> t)
      in cfg\<lparr>dy_tcp := Some \<lparr>
           tp_routers = AList.update (tcp_router_id (r_host r))
             (Some \<lparr>tr_rule = backticked ''HostSNI'' (r_host r), tr_service = tcp_service_id (r_host r),
               tr_entry_points = [], tr_tls = Some True\<rparr>) (tp_routers t),
           tp_services = AList.update (tcp_service_id (r_host r))
             (Some \<lparr>ts_addresses = [u_address (r_upstream r)]\<rparr>) (tp_services t)\<rparr>\<rparr>)"

definition add_route :: "traefik_config \<Rightarrow> route \<Rightarrow> dynamic_config \<Rightarrow> dynamic_config" where
  "add_route d r cfg =
     (if u_mode (r_upstream r) = ModeTCPPassthrough then add_tcp_passthrough r cfg
      else cfg\<lparr>dy_routers := AList.update (managed_router_id (r_host r)) (Some (render_router d r)) (dy_routers cfg),
               dy_services := AList.update (managed_service_id (r_host r)) (Some (render_service r)) (dy_services cfg)\<rparr>)"

definition remove_stale_deny :: "dynamic_config \<Rightarrow> dynamic_config" where
  "remove_stale_deny cfg = cfg\<lparr>dy_routers := AList.delete deny_key (dy_routers cfg),
     dy_services := AList.delete deny_key (dy_services cfg)\<rparr>"

definition edit :: "traefik_config \<Rightarrow> edge_change \<Rightarrow> dynamic_config \<Rightarrow> dynamic_config" where
  "edit d ec cfg = remove_stale_deny (fold (add_route d) (e_add ec) (fold remove_host (e_remove ec) cfg))"

definition tk_apply :: "traefik_config \<Rightarrow> change_set \<Rightarrow> traefik_file act" where
  "tk_apply d cs f =
     (case tk_read f of
        Inl err \<Rightarrow> (Some (''traefik apply: read: '' @ err), f)
      | Inr cfg \<Rightarrow> tk_write (edit d (cs_edge cs) cfg) f)"

section \<open>Adoption\<close>

text \<open>One router of the loop; routers that are crenel's already, those inserted by the loop included,
  are skipped, so the order of Go's map iteration only matters between routers of one host.\<close>

definition adopt_router :: "string list \<Rightarrow> string \<times> router option \<Rightarrow> dynamic_config \<Rightarrow> dynamic_config" where
  "adopt_router hs nr cfg =
     (case snd nr of
        None \<Rightarrow> cfg
      | Some r \<Rightarrow>
          if has_prefix managed_prefix (fst nr) then cfg
          else (case find (\<lambda>h. h \<in> set hs) (parse_hosts (rt_rule r)) of
                  None \<Rightarrow> cfg
                | Some h \<Rightarrow>
                    let cfg1 = (case map_of (dy_services cfg) (rt_service r) of
                          None \<Rightarrow> cfg
                        | Some svc \<Rightarrow> cfg\<lparr>dy_services := AList.delete (rt_service r)
                            (AList.update (managed_service_id h) svc (dy_services cfg))\<rparr>)
                    in cfg1\<lparr>dy_routers := AList.delete (fst nr)
                         (AList.update (managed_router_id h) (Some (r\<lparr>rt_service := managed_service_id h\<rparr>))
                           (dy_routers cfg1))\<rparr>))"

definition tk_adopt :: "string list \<Rightarrow> traefik_file act" where
  "tk_adopt hs f =
     (case tk_read f of
        Inl err \<Rightarrow> (Some (''traefik adopt: read: '' @ err), f)
      | Inr cfg \<Rightarrow> tk_write (fold (adopt_router hs) (dy_routers cfg) cfg) f)"

section \<open>The running daemon\<close>

record api_router =
  ar_name :: string
  ar_status :: string

definition managed_router_live :: "string \<Rightarrow> api_router list \<Rightarrow> bool" where
  "managed_router_live host routers =
     list_ex (\<lambda>r. takeWhile (\<lambda>c. c \<noteq> CHR ''@'') (ar_name r) = managed_router_id host
       \<and> equal_fold (ar_status r) ''enabled'') routers"

definition routers_match :: "op \<Rightarrow> string list \<Rightarrow> api_router list \<Rightarrow> bool" where
  "routers_match op hs routers =
     list_all (\<lambda>h. case o_verb op of
         Expose \<Rightarrow> managed_router_live h routers
       | Unexpose \<Rightarrow> \<not> managed_router_live h routers
       | Rename \<Rightarrow> True) hs"

definition affected_hosts :: "edge_change \<Rightarrow> string list" where
  "affected_hosts ec = uniq_by id [] (filter (\<lambda>h. h \<noteq> []) (map r_host (e_add ec) @ e_remove ec))"

text \<open>The poll, with the polls left before the deadline and the answer of each.\<close>

fun verify_poll :: "op \<Rightarrow> string list \<Rightarrow> (nat \<Rightarrow> perr + api_router list) \<Rightarrow> nat \<Rightarrow> nat \<Rightarrow> runtime_verification" where
  "verify_poll op hs fetch k left =
     (case fetch k of
        Inr routers \<Rightarrow>
          if routers_match op hs routers
          then \<lparr>rv_status = RuntimeConfirmed, rv_detail = ''traefik API confirms''\<rparr>
          else (case left of
                  0 \<Rightarrow> \<lparr>rv_status = RuntimeFailed, rv_detail = ''not accepted by the daemon''\<rparr>
                | Suc n \<Rightarrow> verify_poll op hs fetch (Suc k) n)
      | Inl err \<Rightarrow>
          (case left of
             0 \<Rightarrow> \<lparr>rv_status = RuntimeFailed, rv_detail = ''traefik api unreachable: '' @ err\<rparr>
           | Suc n \<Rightarrow> verify_poll op hs fetch (Suc k) n))"

definition verify_runtime :: "(nat \<Rightarrow> 'w \<Rightarrow> perr + api_router list) option \<Rightarrow> nat \<Rightarrow> op \<Rightarrow> edge_change \<Rightarrow> 'w
    \<Rightarrow> runtime_verification" where
  "verify_runtime api polls op ec w =
     (case api of
        None \<Rightarrow> \<lparr>rv_status = RuntimeUnavailable, rv_detail = ''no traefik api_url configured''\<rparr>
      | Some fetch \<Rightarrow> verify_poll op (affected_hosts ec) (\<lambda>k. fetch k w) 0 polls)"

section \<open>The provider\<close>

text \<open>The driver on its part of a world. Deadline 6 s, interval 400 ms: 15 polls after the first.\<close>

definition traefik :: "traefik_config \<Rightarrow> ('w \<Rightarrow> traefik_file) \<Rightarrow> (traefik_file \<Rightarrow> 'w \<Rightarrow> 'w)
    \<Rightarrow> (nat \<Rightarrow> 'w \<Rightarrow> perr + api_router list) option \<Rightarrow> 'w edge_provider" where
  "traefik d get put api = \<lparr>ep_name = ''traefik'', ep_read = (\<lambda>w. tk_read_live d (get w)), ep_plan = tk_plan d,
     ep_apply = (\<lambda>cs. on_part get put (tk_apply d cs)), ep_healthy = None, ep_persist = None,
     ep_durability = None, ep_runtime = Some (verify_runtime api 15), ep_evidence = None,
     ep_adopt = Some (\<lambda>hs. on_part get put (tk_adopt hs)), ep_acker = None, ep_locator_acker = None\<rparr>"

section \<open>Lemmas on rules\<close>

definition rule_host :: "string \<Rightarrow> bool" where
  "rule_host h = (h \<noteq> [] \<and> backtick \<notin> set h \<and> trim_space h = h)"

lemma takeWhile_quoted: "backtick \<notin> set h \<Longrightarrow> takeWhile (\<lambda>x. x \<noteq> backtick) (h @ backtick # t) = h"
  by (induction h) auto

lemma dropWhile_quoted: "backtick \<notin> set h \<Longrightarrow> dropWhile (\<lambda>x. x \<noteq> backtick) (h @ backtick # t) = backtick # t"
  by (induction h) auto

lemma quoted_args_one:
  assumes "h \<noteq> []" and "backtick \<notin> set h"
  shows "quoted_args name (backticked name h) = [h]"
proof -
  obtain c cs where s: "backticked name h = c # cs"
    by (cases "backticked name h") (auto simp: backticked_def)
  have d: "drop (length (name @ ''('' @ [backtick])) (c # cs) = h @ backtick # '')''"
    unfolding s [symmetric] by (simp add: backticked_def)
  have "has_prefix (name @ ''('' @ [backtick]) (c # cs)"
    unfolding s [symmetric]
    using has_prefix_append [of "name @ ''('' @ [backtick]" "h @ backtick # '')''"]
    by (simp add: backticked_def)
  then show ?thesis
    unfolding s quoted_args.simps Let_def d using assms by (simp add: takeWhile_quoted)
qed

lemma parse_hosts_rendered: "rule_host h \<Longrightarrow> parse_hosts (backticked ''Host'' h) = [h]"
  by (simp add: parse_hosts_def quoted_args_one rule_host_def)

lemma strip_quoted_plain: "backtick \<notin> set s \<Longrightarrow> strip_quoted (s @ t) = s @ strip_quoted t"
  by (induction s) auto

lemma non_host_predicates_rendered:
  assumes "backtick \<notin> set h"
  shows "non_host_predicates (backticked ''Host'' h) = []"
proof -
  have "strip_quoted (backtick # h @ backtick # '')'') = [backtick, backtick, CHR '')'']"
    using assms by (simp add: dropWhile_quoted)
  moreover have "backtick \<notin> set ''Host(''" by (simp add: backtick_def)
  ultimately have "strip_quoted (backticked ''Host'' h) = ''Host('' @ [backtick, backtick, CHR '')'']"
    using strip_quoted_plain [of "''Host(''" "backtick # h @ backtick # '')''"]
    by (simp add: backticked_def)
  moreover have "non_host_predicates x = []" if "strip_quoted x = ''Host('' @ [backtick, backtick, CHR '')'']" for x
    unfolding non_host_predicates_def that by code_simp
  ultimately show ?thesis by blast
qed

lemma strip_with_scheme: "\<not> str_contains addr ''://'' \<Longrightarrow> strip_scheme (with_scheme addr) = addr"
  by (simp add: with_scheme_def strip_scheme_def)

lemma with_scheme_not_Nil: "with_scheme addr \<noteq> []"
  by (auto simp: with_scheme_def str_contains_def)

lemma auth_round_trip:
  assumes "\<forall>(q, m) \<in> set (tk_auth_middlewares d). m = traefik_middleware d p \<longrightarrow> q = p" and "p \<noteq> []"
  shows "auth_for_router d True (r\<lparr>rt_middlewares := [traefik_middleware d p]\<rparr>) = p"
proof (cases "find (\<lambda>(_, m). m = traefik_middleware d p) (tk_auth_middlewares d)")
  case None
  have "traefik_middleware d p = p @ ''@file''"
  proof (cases "map_of (tk_auth_middlewares d) p")
    case Some': (Some mw)
    with None have "mw \<noteq> traefik_middleware d p" by (auto simp: find_None_iff' dest: map_of_SomeD)
    with Some' show ?thesis by (auto simp: traefik_middleware_def split: if_splits)
  qed (simp add: traefik_middleware_def)
  with None show ?thesis by (simp add: auth_for_router_def policy_for_middleware_def)
next
  case (Some qm)
  obtain q m where qm: "qm = (q, m)" by (cases qm)
  with find_Some_set [OF Some] assms(1) have "q = p" by auto
  with Some qm assms(2) show ?thesis by (simp add: auth_for_router_def policy_for_middleware_def)
qed

section \<open>Lemmas on edits\<close>

definition file_config :: "traefik_file \<Rightarrow> dynamic_config" where
  "file_config f = (case tf_content f of Holds d \<Rightarrow> td_config d | _ \<Rightarrow> empty_config)"

definition tcp_of :: "dynamic_config \<Rightarrow> tcp_config" where
  "tcp_of cfg = (case dy_tcp cfg of None \<Rightarrow> \<lparr>tp_routers = [], tp_services = []\<rparr> | Some t \<Rightarrow> t)"

text \<open>The four maps of a configuration, by key.\<close>

definition maps_of :: "dynamic_config \<Rightarrow> (string \<Rightarrow> router option option) \<times> (string \<Rightarrow> service option option)
    \<times> (string \<Rightarrow> tcp_router option option) \<times> (string \<Rightarrow> tcp_service option option)" where
  "maps_of cfg = (map_of (dy_routers cfg), map_of (dy_services cfg),
     map_of (tp_routers (tcp_of cfg)), map_of (tp_services (tcp_of cfg)))"

lemma maps_remove_host:
  "maps_of (remove_host h cfg) =
     (let (r, s, tr, ts) = maps_of cfg
      in (r(managed_router_id h := None), s(managed_service_id h := None),
          tr(tcp_router_id h := None), ts(tcp_service_id h := None)))"
  by (cases "dy_tcp cfg") (auto simp: maps_of_def remove_host_def tcp_of_def AList.delete_conv' fun_eq_iff)

lemma maps_add_route:
  "maps_of (add_route d r cfg) =
     (let (rs, s, tr, ts) = maps_of cfg
      in if u_mode (r_upstream r) = ModeTCPPassthrough
         then (rs, s, tr(tcp_router_id (r_host r) \<mapsto> Some \<lparr>tr_rule = backticked ''HostSNI'' (r_host r),
                 tr_service = tcp_service_id (r_host r), tr_entry_points = [], tr_tls = Some True\<rparr>),
               ts(tcp_service_id (r_host r) \<mapsto> Some \<lparr>ts_addresses = [u_address (r_upstream r)]\<rparr>))
         else (rs(managed_router_id (r_host r) \<mapsto> Some (render_router d r)),
               s(managed_service_id (r_host r) \<mapsto> Some (render_service r)), tr, ts))"
  by (auto simp: maps_of_def add_route_def add_tcp_passthrough_def tcp_of_def AList.update_conv'
      split: option.splits)

lemma maps_remove_stale_deny:
  "maps_of (remove_stale_deny cfg) =
     (let (r, s, tr, ts) = maps_of cfg in (r(deny_key := None), s(deny_key := None), tr, ts))"
  by (auto simp: maps_of_def remove_stale_deny_def tcp_of_def AList.delete_conv' fun_eq_iff)

lemma maps_encode [simp]: "maps_of (encode cfg) = maps_of cfg"
  by (auto simp: maps_of_def encode_def tcp_of_def split: option.splits)

lemma encoded_config [simp]: "td_config (encoded_doc cfg) = encode cfg" "td_other (encoded_doc cfg) = []" "td_extra (encoded_doc cfg) = []"
  by (simp_all add: encoded_doc_def)

lemma tk_read_Inr: "tk_read f = Inr cfg \<longleftrightarrow> tf_readable f \<and> tf_content f \<noteq> Torn \<and> cfg = file_config f"
  by (auto simp: tk_read_def file_config_def split: traefik_content.splits)

lemma tk_apply_done:
  "tk_apply d cs f = (None, f') \<longleftrightarrow>
     tf_readable f \<and> tf_content f \<noteq> Torn \<and> next_fate (tf_fates f) = WriteThrough
     \<and> tk_validate (edit d (cs_edge cs) (file_config f)) = None
     \<and> f' = f\<lparr>tf_content := Holds (encoded_doc (edit d (cs_edge cs) (file_config f))), tf_fates := tl (tf_fates f)\<rparr>"
proof (cases "tk_read f")
  case (Inl err)
  then have "\<not> tf_readable f \<or> tf_content f = Torn" by (auto simp: tk_read_def split: traefik_content.splits if_splits)
  with Inl show ?thesis by (auto simp: tk_apply_def)
next
  case (Inr cfg)
  with tk_read_Inr [of f cfg] show ?thesis
    by (auto simp: tk_apply_def tk_write_def Let_def split: option.splits write_fate.splits)
qed

text \<open>A failing apply leaves the content, or its write was cut.\<close>

lemma tk_apply_failed:
  assumes "tk_apply d cs f = (Some err, f')"
  shows "tf_readable f' = tf_readable f \<and> (tf_content f' = tf_content f
     \<or> (\<exists>c. next_fate (tf_fates f) = WriteCut c \<and> tf_content f' = cut_content c (edit d (cs_edge cs) (file_config f))))"
proof (cases "tk_read f")
  case (Inr cfg)
  with assms tk_read_Inr [of f cfg] show ?thesis
    by (auto simp: tk_apply_def tk_write_def Let_def split: option.splits write_fate.splits)
qed (use assms in \<open>auto simp: tk_apply_def\<close>)

lemma tk_apply_fates: "tk_apply d cs f = (r, f') \<Longrightarrow> tf_fates f' = tf_fates f \<or> tf_fates f' = tl (tf_fates f)"
  by (auto simp: tk_apply_def tk_write_def Let_def split: sum.splits option.splits write_fate.splits)

lemma tk_validate_None:
  "tk_validate cfg = None \<longleftrightarrow> (\<forall>n s. map_of (dy_services cfg) n = Some (Some s) \<longrightarrow> sv_urls s \<noteq> [])"
proof -
  have opt: "(case x of Some n \<Rightarrow> Some (g n) | None \<Rightarrow> None) = None \<longleftrightarrow> x = None" for x :: "string option" and g :: "string \<Rightarrow> perr"
    by (cases x) auto
  have "tk_validate cfg = None \<longleftrightarrow> (\<forall>n \<in> fst ` set (dy_services cfg). \<forall>s.
      map_of (dy_services cfg) n = Some (Some s) \<longrightarrow> sv_urls s \<noteq> [])"
    unfolding tk_validate_def opt find_None_iff'
    by (auto simp: pointer_def split: option.splits)
  moreover have "n \<in> fst ` set (dy_services cfg)" if "map_of (dy_services cfg) n = Some x" for n x
    using map_of_SomeD [OF that] by force
  ultimately show ?thesis by blast
qed

section \<open>Properties\<close>

lemma has_prefix_managed [simp]:
  "has_prefix managed_prefix (managed_router_id h)" "has_prefix managed_prefix (managed_service_id h)"
  "has_prefix managed_prefix (tcp_router_id h)" "has_prefix managed_prefix (tcp_service_id h)"
  "has_prefix managed_prefix deny_key"
  by (simp_all add: managed_router_id_def managed_service_id_def tcp_router_id_def tcp_service_id_def
      managed_prefix_def tcp_prefix_def deny_key_def)

text \<open>Four maps agree outside crenel's own keys.\<close>

definition foreign_agree :: "dynamic_config \<Rightarrow> dynamic_config \<Rightarrow> bool" where
  "foreign_agree c c' \<longleftrightarrow> (\<forall>n. \<not> has_prefix managed_prefix n \<longrightarrow>
     map_of (dy_routers c) n = map_of (dy_routers c') n
     \<and> map_of (dy_services c) n = map_of (dy_services c') n
     \<and> map_of (tp_routers (tcp_of c)) n = map_of (tp_routers (tcp_of c')) n
     \<and> map_of (tp_services (tcp_of c)) n = map_of (tp_services (tcp_of c')) n)"

lemma foreign_agree_maps:
  "foreign_agree c c' \<longleftrightarrow> (let (r, s, tr, ts) = maps_of c; (r', s', tr', ts') = maps_of c'
     in \<forall>n. \<not> has_prefix managed_prefix n \<longrightarrow> r n = r' n \<and> s n = s' n \<and> tr n = tr' n \<and> ts n = ts' n)"
  by (simp add: foreign_agree_def maps_of_def)

lemma foreign_agree_trans: "foreign_agree a b \<Longrightarrow> foreign_agree b c \<Longrightarrow> foreign_agree a c"
  by (simp add: foreign_agree_def)

lemma foreign_agree_remove_host: "foreign_agree cfg (remove_host h cfg)"
  unfolding foreign_agree_maps maps_remove_host by (auto simp: Let_def split: prod.splits)

lemma foreign_agree_add_route: "foreign_agree cfg (add_route d r cfg)"
  unfolding foreign_agree_maps maps_add_route by (auto simp: Let_def split: prod.splits)

lemma foreign_agree_stale_deny: "foreign_agree cfg (remove_stale_deny cfg)"
  unfolding foreign_agree_maps maps_remove_stale_deny by (auto simp: Let_def split: prod.splits)

lemma foreign_agree_fold:
  "(\<And>x c. x \<in> set xs \<Longrightarrow> foreign_agree c (f x c)) \<Longrightarrow> foreign_agree c (fold f xs c)"
proof (induction xs arbitrary: c)
  case (Cons x xs)
  have "foreign_agree c (f x c)" by (rule Cons.prems) simp
  moreover have "foreign_agree (f x c) (fold f xs (f x c))" by (rule Cons.IH) (simp add: Cons.prems)
  ultimately show ?case by (auto intro: foreign_agree_trans)
qed (simp add: foreign_agree_def)

lemma foreign_agree_edit: "foreign_agree cfg (edit d ec cfg)"
  unfolding edit_def
  by (intro foreign_agree_trans [OF _ foreign_agree_stale_deny]
      foreign_agree_trans [OF foreign_agree_fold foreign_agree_fold])
    (auto intro: foreign_agree_remove_host foreign_agree_add_route)

text \<open>C18. A write is additive in the driver's own terms. When an apply succeeds, every router and service
  whose key is not crenel's, HTTP and TCP alike, has the fields of the driver's types it had before, and
  the file holds nothing else: the elements and the fields those types do not know are gone. When it
  fails, the content of the file is what it was, or the write was cut after the file had been truncated.\<close>

theorem traefik_write_additive:
  assumes "tk_apply d cs f = (err, f')"
  shows "case err of
      None \<Rightarrow> (\<exists>doc. tf_content f' = Holds doc \<and> td_other doc = [] \<and> td_extra doc = []
        \<and> (\<forall>n. \<not> has_prefix managed_prefix n \<longrightarrow>
             map_of (dy_routers (td_config doc)) n = map_of (dy_routers (file_config f)) n
           \<and> map_of (dy_services (td_config doc)) n = map_of (dy_services (file_config f)) n
           \<and> map_of (tp_routers (tcp_of (td_config doc))) n = map_of (tp_routers (tcp_of (file_config f))) n
           \<and> map_of (tp_services (tcp_of (td_config doc))) n = map_of (tp_services (tcp_of (file_config f))) n))
    | Some e \<Rightarrow> tf_content f' = tf_content f
        \<or> (\<exists>c fates. tf_fates f = WriteCut c # fates \<and> tf_content f' = cut_content c (edit d (cs_edge cs) (file_config f)))"
proof (cases err)
  case (Some e)
  have "\<exists>fates. tf_fates f = WriteCut c # fates" if "next_fate (tf_fates f) = WriteCut c" for c
    using that by (cases "tf_fates f") (auto simp: next_fate_def)
  with Some assms tk_apply_failed [of d cs f e f'] show ?thesis by auto
next
  case None
  with assms have "tf_content f' = Holds (encoded_doc (edit d (cs_edge cs) (file_config f)))"
    by (auto simp: tk_apply_done)
  moreover have "foreign_agree (file_config f) (encode (edit d (cs_edge cs) (file_config f)))"
    using foreign_agree_edit by (simp add: foreign_agree_maps)
  ultimately show ?thesis using None by (auto simp: foreign_agree_def)
qed

definition plain_traefik :: traefik_config where
  "plain_traefik = \<lparr>tk_resolve = static_resolve [(''g'', ''o:3000'')], tk_auth_middlewares = []\<rparr>"

definition whoami_router :: "string \<Rightarrow> router" where
  "whoami_router rule = \<lparr>rt_rule = rule, rt_service = ''w'', rt_priority = 0, rt_entry_points = [],
     rt_middlewares = [], rt_tls = None, rt_ack = []\<rparr>"

definition config_with :: "string \<Rightarrow> router \<Rightarrow> dynamic_config" where
  "config_with n r = \<lparr>dy_routers = [(n, Some r)], dy_services = [(''w'', Some \<lparr>sv_urls = [''http://w'']\<rparr>)],
     dy_tcp = None\<rparr>"

definition file_of :: "dynamic_config \<Rightarrow> traefik_file" where
  "file_of cfg = \<lparr>tf_content = Holds \<lparr>td_config = cfg, td_other = [(''http.middlewares'', ''authelia'')],
       td_extra = [(HttpService ''w'', ''loadBalancer.passHostHeader'', ''false'')]\<rparr>,
     tf_readable = True, tf_fates = []\<rparr>"

definition g_change :: change_set where
  "g_change = (mk_change_set (mk_op Expose ''g'' ''g.ex''))\<lparr>cs_edge := no_edge_change\<lparr>
     e_add := [mk_route ''g.ex'' (http_upstream ''o:3000'' ''g.ex'' [])]\<rparr>\<rparr>"

lemma traefik_write_additive_witness:
  "\<exists>f' doc. tk_apply plain_traefik g_change (file_of (config_with ''w'' (whoami_router ''PathPrefix''))) = (None, f')
     \<and> tf_content f' = Holds doc \<and> map_of (dy_routers (td_config doc)) ''w'' = Some (Some (whoami_router ''PathPrefix''))
     \<and> td_extra doc = []"
proof -
  let ?f = "file_of (config_with ''w'' (whoami_router ''PathPrefix''))"
  have "fst (tk_apply plain_traefik g_change ?f) = None" by code_simp
  then obtain f' where f': "tk_apply plain_traefik g_change ?f = (None, f')" by (metis prod.collapse)
  have "\<not> has_prefix managed_prefix ''w''" by (simp add: managed_prefix_def)
  moreover have "map_of (dy_routers (file_config ?f)) ''w'' = Some (Some (whoami_router ''PathPrefix''))"
    by (simp add: file_of_def file_config_def config_with_def)
  ultimately show ?thesis using traefik_write_additive [OF f'] f' by auto
qed

text \<open>The router and service a key names in a configuration are read under that name.\<close>

lemma http_read_mem:
  "map_of (dy_routers cfg) n = Some (Some r) \<Longrightarrow> read_router d cfg n r \<in> set (http_reads d cfg)"
  by (force simp: http_reads_def pointer_def dest: map_of_SomeD intro: rev_image_eqI)

lemma normalize_routes:
  "(\<exists>r \<in> set (l_routes (tk_normalize d cfg)). P (r_host r) (r_upstream r)) \<longleftrightarrow>
   (\<exists>r \<in> set (concat (map fst (http_reads d cfg)) @ tcp_reads cfg). P (r_host r) (r_upstream r))"
  by (cases "detect_generator cfg = []") (simp_all add: tk_normalize_def Let_def bex_Un image_Un del: set_concat)

text \<open>C19. What is written is read back: after an HTTP route has been added under a plain host name, the
  file reads with a route for that host that has the planned address, and the planned
  authentication policy when no other policy is mapped to the same middleware.\<close>

theorem traefik_added_route_read_back:
  assumes "tk_apply d ((mk_change_set op)\<lparr>cs_edge := no_edge_change\<lparr>e_add := [r]\<rparr>\<rparr>) f = (None, f')"
    and "u_mode (r_upstream r) = ModeHTTPProxy" and "rule_host (r_host r)" and "r_host r \<noteq> ''deny''"
    and "\<not> str_contains (u_address (r_upstream r)) ''://''" and "u_auth (r_upstream r) \<noteq> auth_none"
    and "\<forall>(q, m) \<in> set (tk_auth_middlewares d). m = traefik_middleware d (u_auth (r_upstream r)) \<longrightarrow> q = u_auth (r_upstream r)"
  shows "\<exists>live. tk_read_live d f' = Inr live \<and> (\<exists>r' \<in> set (l_routes live). r_host r' = r_host r
     \<and> u_address (r_upstream r') = u_address (r_upstream r) \<and> u_auth (r_upstream r') = u_auth (r_upstream r)
     \<and> u_mode (r_upstream r') = ModeHTTPProxy)"
proof -
  let ?h = "r_host r" and ?p = "u_auth (r_upstream r)"
  let ?cfg = "encode (edit d (no_edge_change\<lparr>e_add := [r]\<rparr>) (file_config f))"
  have f': "tf_readable f'" "tf_content f' = Holds (encoded_doc (edit d (no_edge_change\<lparr>e_add := [r]\<rparr>) (file_config f)))"
    using assms(1) by (auto simp: tk_apply_done)
  have nd: "managed_router_id ?h \<noteq> deny_key" "managed_service_id ?h \<noteq> deny_key"
    using assms(4) by (simp_all add: managed_router_id_def managed_service_id_def managed_prefix_def deny_key_def)
  have "maps_of ?cfg = maps_of (remove_stale_deny (add_route d r (file_config f)))"
    by (simp add: edit_def)
  then have maps: "map_of (dy_routers ?cfg) (managed_router_id ?h) = Some (Some (render_router d r))"
    "map_of (dy_services ?cfg) (managed_service_id ?h) = Some (Some (render_service r))"
    unfolding maps_remove_stale_deny maps_add_route using assms(2) nd by (auto simp: maps_of_def)
  have auth: "auth_for_router d True (render_router d r) = ?p"
  proof (cases "?p = []")
    case True
    then show ?thesis by (simp add: auth_for_router_def render_router_def)
  next
    case False
    have "rt_middlewares (render_router d r) = [traefik_middleware d ?p]"
      using False assms(6) by (simp add: render_router_def)
    then have "auth_for_router d True (render_router d r)
        = auth_for_router d True ((render_router d r)\<lparr>rt_middlewares := [traefik_middleware d ?p]\<rparr>)"
      by (simp add: auth_for_router_def)
    with auth_round_trip [OF assms(7) False] show ?thesis by simp
  qed
  have "read_router d ?cfg (managed_router_id ?h) (render_router d r)
      = ([owned_route ?h True (http_upstream (u_address (r_upstream r)) ?h ?p)], [], False)"
    using maps(2) assms(3,5) auth
    by (simp add: read_router_def Let_def render_router_def parse_hosts_rendered pointer_def render_service_def
        non_host_predicates_rendered rule_host_def has_upstream_def first_upstream_def with_scheme_not_Nil
        strip_with_scheme)
  with http_read_mem [OF maps(1)] have mem:
    "owned_route ?h True (http_upstream (u_address (r_upstream r)) ?h ?p) \<in> set (concat (map fst (http_reads d ?cfg)))"
    by force
  have "\<exists>r' \<in> set (l_routes (tk_normalize d ?cfg)). r_host r' = ?h
     \<and> u_address (r_upstream r') = u_address (r_upstream r) \<and> u_auth (r_upstream r') = ?p
     \<and> u_mode (r_upstream r') = ModeHTTPProxy"
    unfolding normalize_routes [of d ?cfg "\<lambda>h u. h = ?h \<and> u_address u = u_address (r_upstream r)
      \<and> u_auth u = ?p \<and> u_mode u = ModeHTTPProxy"]
    by (rule bexI [of _ "owned_route ?h True (http_upstream (u_address (r_upstream r)) ?h ?p)"])
      (simp add: owned_route_def http_upstream_def, use mem in simp)
  with f' show ?thesis by (simp add: tk_read_live_def tk_read_def)
qed

lemma traefik_added_route_read_back_witness:
  "\<exists>f' live. tk_read_live plain_traefik f' = Inr live \<and> (\<exists>r' \<in> set (l_routes live). r_host r' = ''g.ex''
     \<and> u_address (r_upstream r') = ''o:3000'')"
proof -
  let ?f = "file_of (config_with ''w'' (whoami_router ''PathPrefix''))"
  let ?r = "mk_route ''g.ex'' (http_upstream ''o:3000'' ''g.ex'' [])"
  have "fst (tk_apply plain_traefik g_change ?f) = None" by code_simp
  then obtain f' where "tk_apply plain_traefik g_change ?f = (None, f')" by (metis prod.collapse)
  then have f': "tk_apply plain_traefik ((mk_change_set (mk_op Expose ''g'' ''g.ex''))\<lparr>cs_edge := no_edge_change\<lparr>
      e_add := [?r]\<rparr>\<rparr>) ?f = (None, f')" by (simp add: g_change_def)
  have "rule_host ''g.ex''" "\<not> str_contains ''o:3000'' ''://''" by code_simp+
  with traefik_added_route_read_back [OF f'] show ?thesis
    by (auto simp: http_upstream_def auth_none_def plain_traefik_def)
qed



text \<open>A TCP router that forwards is dropped without a trace when its rule names no host exactly: the edge that
  passes every TLS connection on to a backend reads as one with no route, nothing declared, and an
  enforced default deny.\<close>

definition any_sni_config :: "string \<Rightarrow> dynamic_config" where
  "any_sni_config rule = \<lparr>dy_routers = [], dy_services = [], dy_tcp = Some \<lparr>
     tp_routers = [(''db'', Some \<lparr>tr_rule = rule, tr_service = ''db'', tr_entry_points = [], tr_tls = Some True\<rparr>)],
     tp_services = [(''db'', Some \<lparr>ts_addresses = [''10.0.0.1:5432'']\<rparr>)]\<rparr>\<rparr>"

theorem traefik_tcp_pattern_dropped:
  "let live = tk_normalize plain_traefik (any_sni_config (backticked ''HostSNIRegexp'' ''.+''))
   in l_routes live = [] \<and> l_unparsed live = [] \<and> deny_verdict live = DenyEnforced"
  "let live = tk_normalize plain_traefik (any_sni_config (backticked ''HostSNI'' ''db.ex''))
   in map r_host (l_routes live) = [''db.ex'']"
  by code_simp+

text \<open>The default deny can be reported as enforced on an edge that forwards every host: a rule that
  joins an exact host with a host pattern by "or" is read as the exact host alone, nothing is
  declared, and the same edge with the pattern alone is reported as open.\<close>

theorem traefik_host_or_regexp_reads_enforced:
  "deny_verdict (tk_normalize plain_traefik (config_with ''w''
      (whoami_router (backticked ''Host'' ''a'' @ '' || '' @ backticked ''HostRegexp'' ''.+'')))) = DenyEnforced
   \<and> map r_host (l_routes (tk_normalize plain_traefik (config_with ''w''
      (whoami_router (backticked ''Host'' ''a'' @ '' || '' @ backticked ''HostRegexp'' ''.+''))))) = [''a'']
   \<and> deny_verdict (tk_normalize plain_traefik (config_with ''w''
      (whoami_router (backticked ''HostRegexp'' ''.+'')))) = DenyMissing"
  by code_simp

text \<open>A rule that lists two quoted hosts in one matcher is not read as two hosts, as the comment on
  the parser says, but as a catch-all, and the edge is reported as having lost its default deny.\<close>

theorem traefik_host_list_reads_catch_all:
  "parse_hosts (''Host('' @ [backtick] @ ''a'' @ [backtick] @ '','' @ [backtick] @ ''b'' @ [backtick] @ '')'') = []
   \<and> deny_verdict (tk_normalize plain_traefik (config_with ''w'' (whoami_router
      (''Host('' @ [backtick] @ ''a'' @ [backtick] @ '','' @ [backtick] @ ''b'' @ [backtick] @ '')'')))) = DenyMissing"
  by code_simp

text \<open>A write keeps only what the driver's schema knows: after any successful write the file holds no
  element outside the routers and services of its schema, whatever the operator had defined there.\<close>

theorem traefik_write_drops_other_elements:
  assumes "tk_apply d cs f = (None, f')"
  shows "\<exists>doc. tf_content f' = Holds doc \<and> td_other doc = [] \<and> td_extra doc = []"
  using assms by (auto simp: tk_apply_done)

definition tls_options_file :: traefik_file where
  "tls_options_file = \<lparr>tf_content = Holds \<lparr>td_config = config_with ''w'' (whoami_router ''PathPrefix''), td_other = [],
       td_extra = [(HttpRouter ''w'', ''tls.options'', ''mtls@file'')]\<rparr>, tf_readable = True, tf_fates = []\<rparr>"

lemma traefik_write_drops_other_elements_witness:
  "\<exists>f' doc. tk_apply plain_traefik g_change tls_options_file = (None, f') \<and> tf_content f' = Holds doc \<and> td_extra doc = []"
proof -
  have "fst (tk_apply plain_traefik g_change tls_options_file) = None" by code_simp
  then obtain f' where f': "tk_apply plain_traefik g_change tls_options_file = (None, f')"
    by (metis prod.collapse)
  from traefik_write_drops_other_elements [OF f'] f' show ?thesis by auto
qed

text \<open>A write that fails after the truncation leaves an empty file, which reads as a configuration without any
  router, or one that cannot be read at all, while the driver only returns the error.\<close>

theorem traefik_cut_write_empties:
  "case tk_apply plain_traefik g_change ((file_of (config_with ''w'' (whoami_router (backticked ''Host'' ''a''))))\<lparr>tf_fates := [WriteCut LeftEmpty]\<rparr>) of
     (err, f') \<Rightarrow> err = Some ''write dynamic-config'' \<and> tk_read f' = Inr empty_config"
  by code_simp

section \<open>The driver keeps the contract\<close>

text \<open>What a step leaves to be told of the file: its routers and services by key, but for a stale deny, which
  every write removes, and whether it can be read.\<close>

definition held where
  "held cfg = maps_of (remove_stale_deny cfg)"

definition tk_view where
  "tk_view f = (held (file_config f), tf_readable f \<and> tf_content f \<noteq> Torn)"

definition tk_act :: "traefik_config \<Rightarrow> op \<Rightarrow> edge_job \<Rightarrow> traefik_file act" where
  "tk_act d op c = tk_apply d ((mk_change_set op)\<lparr>cs_edge := fst c\<rparr>)"

definition host_absent :: "string \<Rightarrow> dynamic_config \<Rightarrow> bool" where
  "host_absent h cfg = (managed_router_id h \<notin> fst ` set (dy_routers cfg)
     \<and> managed_service_id h \<notin> fst ` set (dy_services cfg)
     \<and> tcp_router_id h \<notin> fst ` set (tp_routers (tcp_of cfg))
     \<and> tcp_service_id h \<notin> fst ` set (tp_services (tcp_of cfg)))"

text \<open>Ready, when no write is going to be cut, are the addition of a host crenel holds nothing for, and
  the removal of a host whose HTTP router and service are exactly what crenel would write for the
  route of the snapshot.\<close>

definition tk_ready :: "traefik_config \<Rightarrow> edge_job \<Rightarrow> traefik_file \<Rightarrow> bool" where
  "tk_ready d c f =
     (uncut (tf_fates f) \<and>
      (case (e_add (fst c), e_remove (fst c)) of
         ([r], []) \<Rightarrow> host_absent (r_host r) (file_config f)
       | ([], [h]) \<Rightarrow>
           (case find (\<lambda>sr. r_host sr = h) (l_routes (snd c)) of
              None \<Rightarrow> False
            | Some sr \<Rightarrow> u_mode (r_upstream sr) \<noteq> ModeTCPPassthrough
                \<and> map_of (dy_routers (file_config f)) (managed_router_id h) = Some (Some (render_router d sr))
                \<and> map_of (dy_services (file_config f)) (managed_service_id h) = Some (Some (render_service sr))
                \<and> tcp_router_id h \<notin> fst ` set (tp_routers (tcp_of (file_config f)))
                \<and> tcp_service_id h \<notin> fst ` set (tp_services (tcp_of (file_config f))))
       | _ \<Rightarrow> False))"

definition tk_calm :: "traefik_file \<Rightarrow> bool" where
  "tk_calm f = all_through (tf_fates f)"

lemma absent_map_of: "k \<notin> fst ` set m \<longleftrightarrow> map_of m k = None"
  by (simp add: map_of_eq_None_iff)

lemma tk_ready_cases:
  assumes "tk_ready d c f"
  obtains (add) r where "e_add (fst c) = [r]" "e_remove (fst c) = []" "host_absent (r_host r) (file_config f)"
  | (remove) h sr where "e_add (fst c) = []" "e_remove (fst c) = [h]" "r_host sr = h"
      "find (\<lambda>q. r_host q = h) (l_routes (snd c)) = Some sr" "u_mode (r_upstream sr) \<noteq> ModeTCPPassthrough"
      "map_of (dy_routers (file_config f)) (managed_router_id h) = Some (Some (render_router d sr))"
      "map_of (dy_services (file_config f)) (managed_service_id h) = Some (Some (render_service sr))"
      "tcp_router_id h \<notin> fst ` set (tp_routers (tcp_of (file_config f)))"
      "tcp_service_id h \<notin> fst ` set (tp_services (tcp_of (file_config f)))"
  using assms
  by (auto simp: tk_ready_def split: list.splits option.splits dest: find_Some_set)

lemma maps_edit:
  "maps_of (edit d ec cfg) = maps_of (remove_stale_deny (fold (add_route d) (e_add ec) (fold remove_host (e_remove ec) cfg)))"
  by (simp add: edit_def)

text \<open>The maps without a stale deny.\<close>

lemma held_maps: "held cfg = (let (r, s, tr, ts) = maps_of cfg in (r(deny_key := None), s(deny_key := None), tr, ts))"
  by (simp add: held_def maps_remove_stale_deny)

lemma held_edit [simp]: "held (edit d ec cfg) = maps_of (edit d ec cfg)" "held (encode cfg) = held cfg"
  by (auto simp: held_maps maps_edit maps_remove_stale_deny Let_def split: prod.splits)

lemma tk_act_done:
  "tk_act d op c f = (None, f') \<Longrightarrow>
     tf_readable f \<and> tf_content f \<noteq> Torn \<and> tk_validate (edit d (fst c) (file_config f)) = None
     \<and> tk_view f' = (maps_of (edit d (fst c) (file_config f)), True)"
  by (auto simp: tk_act_def tk_apply_done tk_view_def file_config_def)

lemma tk_act_ok:
  assumes "tf_readable f" and "tf_content f \<noteq> Torn" and "tk_calm f" and "tk_validate (edit d (fst c) (file_config f)) = None"
  shows "\<exists>f'. tk_act d op c f = (None, f')"
  using assms by (simp add: tk_act_def tk_apply_done next_fate_through tk_calm_def)

lemma validate_maps:
  "tk_validate cfg = None \<longleftrightarrow> (\<forall>n s. fst (snd (maps_of cfg)) n = Some (Some s) \<longrightarrow> sv_urls s \<noteq> [])"
  by (simp add: tk_validate_None maps_of_def)

text \<open>The inverse edit of a state that looks like the one a step left gives the maps the step found.\<close>

lemma tk_inverse_edit:
  assumes "tk_ready d c f" and performed: "tk_act d op c f = (None, f')" and view: "tk_view v = tk_view f'"
  shows "maps_of (edit d (fst (job_inverse c)) (file_config v)) = held (file_config f)"
    and "tk_validate (edit d (fst (job_inverse c)) (file_config v)) = None"
proof -
  let ?inv = "edit d (fst (job_inverse c)) (file_config v)"
  note acted = tk_act_done [OF performed]
  have v: "held (file_config v) = maps_of (edit d (fst c) (file_config f))"
    using view acted by (auto simp: tk_view_def)
  obtain rs s tr ts where m: "maps_of (file_config f) = (rs, s, tr, ts)" by (cases "maps_of (file_config f)")
  obtain rs' s' tr' ts' where m': "maps_of (file_config v) = (rs', s', tr', ts')" by (cases "maps_of (file_config v)")
  have valid: "fst (snd (maps_of (edit d (fst c) (file_config f)))) n = Some (Some y) \<Longrightarrow> sv_urls y \<noteq> []" for n y
    using acted by (simp add: validate_maps)
  have "maps_of ?inv = held (file_config f) \<and> tk_validate ?inv = None"
    using assms(1)
  proof (cases rule: tk_ready_cases)
    case (add r)
    have none: "rs (managed_router_id (r_host r)) = None" "s (managed_service_id (r_host r)) = None"
      "tr (tcp_router_id (r_host r)) = None" "ts (tcp_service_id (r_host r)) = None"
      using add(3) m by (auto simp: host_absent_def maps_of_def absent_map_of)
    have inv: "e_add (fst (job_inverse c)) = []" "e_remove (fst (job_inverse c)) = [r_host r]"
      using add(1,2) by (simp_all add: job_inverse_def invert_edge_def)
    have restored: "maps_of ?inv = held (file_config f)"
      unfolding maps_edit inv held_maps m using v m m' none add(1,2)
      by (auto simp: held_maps maps_edit maps_remove_stale_deny maps_remove_host maps_add_route Let_def fun_eq_iff
          split: if_splits)
    have "fst (snd (maps_of (edit d (fst c) (file_config f)))) n = Some x" if "s n = Some x" "n \<noteq> deny_key" for n x
      using that m none add(1,2)
      by (cases "u_mode (r_upstream r) = ModeTCPPassthrough")
        (auto simp: maps_edit maps_remove_stale_deny maps_add_route Let_def)
    with valid restored m show ?thesis unfolding validate_maps by (auto simp: held_maps split: if_splits)
  next
    case (remove h sr)
    have at: "rs (managed_router_id h) = Some (Some (render_router d sr))"
      "s (managed_service_id h) = Some (Some (render_service sr))"
      "tr (tcp_router_id h) = None" "ts (tcp_service_id h) = None"
      using remove m by (auto simp: maps_of_def absent_map_of)
    have inv: "e_add (fst (job_inverse c)) = [sr]" "e_remove (fst (job_inverse c)) = []"
      using remove by (simp_all add: job_inverse_def invert_edge_def)
    have restored: "maps_of ?inv = held (file_config f)"
      unfolding maps_edit inv held_maps m using v m m' at remove(1-3,5)
      by (auto simp: held_maps maps_edit maps_remove_stale_deny maps_remove_host maps_add_route Let_def fun_eq_iff
          split: if_splits)
    have "fst (snd (maps_of (edit d (fst c) (file_config f)))) n = Some x"
      if "s n = Some x" "n \<noteq> managed_service_id h" "n \<noteq> deny_key" for n x
      using that m at remove(1,2)
      by (auto simp: maps_edit maps_remove_stale_deny maps_remove_host Let_def)
    with valid at(2) have "sv_urls y \<noteq> []" if "s n = Some (Some y)" "n \<noteq> deny_key" for n y
      using that by (cases "n = managed_service_id h") (auto simp: render_service_def)
    with restored m show ?thesis unfolding validate_maps by (auto simp: held_maps split: if_splits)
  qed
  then show "maps_of ?inv = held (file_config f)" and "tk_validate ?inv = None" by simp_all
qed

interpretation tk: revocable "tk_act d op" job_inverse tk_view "tk_ready d" tk_calm for d op
proof unfold_locales
  show "tk_view s' = tk_view s" if "tk_ready d c s" "tk_act d op c s = (Some err, s')" for c s s' err
  proof -
    have "uncut (tf_fates s)" using that(1) by (simp add: tk_ready_def)
    with tk_apply_failed [OF that(2) [unfolded tk_act_def]] have
      "tf_readable s' = tf_readable s" "tf_content s' = tf_content s" by (auto dest: next_fate_uncut)
    then show ?thesis by (simp add: tk_view_def file_config_def)
  qed
  show "tk_view v' = tk_view s" if "tk_ready d c s" "tk_act d op c s = (None, s')" "tk_view v = tk_view s'"
      "tk_act d op (job_inverse c) v = (None, v')" for c s s' v v'
    using tk_act_done [OF that(4)] tk_act_done [OF that(2)] tk_inverse_edit(1) [OF that(1-3)] by (simp add: tk_view_def)
  show "\<exists>v'. tk_act d op (job_inverse c) v = (None, v')"
    if "tk_ready d c s" "tk_act d op c s = (None, s')" "tk_view v = tk_view s'" "tk_calm v" for c s s' v
    using tk_act_ok [OF _ _ that(4) tk_inverse_edit(2) [OF that(1-3)]] tk_act_done [OF that(2)] that(3)
    by (simp add: tk_view_def)
  show "tk_calm s'" if "tk_calm s" "tk_act d op c s = (r, s')" for c s r s'
    using tk_apply_fates [OF that(2) [unfolded tk_act_def]] that(1) by (auto simp: tk_calm_def intro: fates_tl)
qed

end
