(* ===== verification/Fleet.thy ===== *)
theory Fleet
  imports Declarative Flaky Traefik
begin

text \<open>
  The core over its own drivers: a fleet of Traefik files, by edge name, and AdGuard resolvers, by
  provider label, each with the accidents that are going to befall it. The contracts of the two
  drivers give the step contract of the transaction for the view of any set of targets, and with it the
  all-or-nothing property of an expose across edges and DNS on the code's models: what is restored are
  the targets where no accident takes half effect. The others are evaluated below it.
\<close>

section \<open>The fleet\<close>

record fleet =
  fl_files :: "string \<Rightarrow> traefik_file"
  fl_resolvers :: "string \<Rightarrow> flaky_server"

definition put_file :: "string \<Rightarrow> traefik_file \<Rightarrow> fleet \<Rightarrow> fleet" where
  "put_file n f w = w\<lparr>fl_files := (fl_files w)(n := f)\<rparr>"

definition put_resolver :: "string \<Rightarrow> flaky_server \<Rightarrow> fleet \<Rightarrow> fleet" where
  "put_resolver n s w = w\<lparr>fl_resolvers := (fl_resolvers w)(n := s)\<rparr>"

lemma fleet_updates [simp]:
  "fl_files (put_file n f w) = (fl_files w)(n := f)" "fl_resolvers (put_file n f w) = fl_resolvers w"
  "fl_resolvers (put_resolver n s w) = (fl_resolvers w)(n := s)" "fl_files (put_resolver n s w) = fl_files w"
  by (simp_all add: put_file_def put_resolver_def)

interpretation edge_file: part "\<lambda>w. fl_files w n" "put_file n" for n
  by unfold_locales (simp_all add: put_file_def)

interpretation resolver: part "\<lambda>w. fl_resolvers w n" "put_resolver n" for n
  by unfold_locales (simp_all add: put_resolver_def)

definition ag_label :: "ag_config \<Rightarrow> string" where
  "ag_label cfg = ag_name cfg @ ''/'' @ scope_string (ag_scope_of cfg)"

definition fleet_edge :: "traefik_config \<Rightarrow> (nat \<Rightarrow> fleet \<Rightarrow> perr + api_router list) option \<Rightarrow> string \<Rightarrow> fleet edge_provider" where
  "fleet_edge d api n = traefik d (\<lambda>w. fl_files w n) (put_file n) api"

definition fleet_dns :: "ag_config \<Rightarrow> fleet dns_provider" where
  "fleet_dns cfg = adguard cfg (part_doer (\<lambda>w. fl_resolvers w (ag_label cfg)) (put_resolver (ag_label cfg)) flaky_doer)"

lemma fleet_edge_simps [simp]:
  "ep_name (fleet_edge d api n) = ''traefik''" "ep_healthy (fleet_edge d api n) = None"
  "ep_read (fleet_edge d api n) w = tk_read_live d (fl_files w n)" "ep_plan (fleet_edge d api n) = tk_plan d"
  "ep_apply (fleet_edge d api n) cs = on_part (\<lambda>w. fl_files w n) (put_file n) (tk_apply d cs)"
  by (simp_all add: fleet_edge_def traefik_def)

lemma fleet_dns_simps [simp]:
  "dns_label (fleet_dns cfg) = ag_label cfg" "dp_desired (fleet_dns cfg) = ag_desired cfg"
  "dp_diff (fleet_dns cfg) op ds w = ag_diff cfg flaky_doer op ds (fl_resolvers w (ag_label cfg))"
  "dp_apply (fleet_dns cfg) ch
     = on_part (\<lambda>w. fl_resolvers w (ag_label cfg)) (put_resolver (ag_label cfg)) (ag_apply cfg flaky_doer ch)"
  by (simp_all add: fleet_dns_def adguard_def dns_label_def ag_label_def resolver.diff_part resolver.apply_part)

section \<open>The step contract\<close>

text \<open>What a step acts on: the file of an edge or the resolver of a label. The contract is kept for a set of
  targets: the view is that of the targets in the set, and only steps on those need a state they are
  ready for. All of the fleet is in view when every target is in the set.\<close>

type_synonym target = "string + string"

definition target_of :: "fleet apply_step \<Rightarrow> target" where
  "target_of s = (case s_edge s of Some (n, _) \<Rightarrow> Inl n | None \<Rightarrow> Inr (s_name s))"

definition fleet_indep :: "fleet apply_step \<Rightarrow> fleet apply_step \<Rightarrow> bool" where
  "fleet_indep s t = (target_of s \<noteq> target_of t)"

definition fleet_view where
  "fleet_view T w = (\<lambda>n. if Inl n \<in> T then Some (tk_view (fl_files w n)) else None,
     \<lambda>l. if Inr l \<in> T then Some (flaky_view (fl_resolvers w l)) else None)"

definition edge_fits :: "target set \<Rightarrow> fleet apply_step \<Rightarrow> string \<Rightarrow> fleet edge_provider \<Rightarrow> fleet \<Rightarrow> bool" where
  "edge_fits T s n prov w \<longleftrightarrow> ep_healthy prov = None \<and> (\<exists>d op c.
     s_do s = on_part (\<lambda>w. fl_files w n) (put_file n) (tk_act d op c)
     \<and> s_undo s = on_part (\<lambda>w. fl_files w n) (put_file n) (tk_act d op (job_inverse c))
     \<and> (Inl n \<in> T \<longrightarrow> tk_ready d c (fl_files w n)))"

definition dns_fits :: "target set \<Rightarrow> fleet apply_step \<Rightarrow> fleet \<Rightarrow> bool" where
  "dns_fits T s w \<longleftrightarrow> (\<exists>cfg ch.
     s_do s = on_part (\<lambda>w. fl_resolvers w (s_name s)) (put_resolver (s_name s)) (ag_apply cfg flaky_doer ch)
     \<and> s_undo s = on_part (\<lambda>w. fl_resolvers w (s_name s)) (put_resolver (s_name s))
         (ag_apply cfg flaky_doer (invert_dns ch))
     \<and> (Inr (s_name s) \<in> T \<longrightarrow> flaky_ready ch (fl_resolvers w (s_name s))))"

definition fleet_fits :: "target set \<Rightarrow> fleet apply_step \<Rightarrow> fleet \<Rightarrow> bool" where
  "fleet_fits T s w = (case s_edge s of Some (n, prov) \<Rightarrow> edge_fits T s n prov w | None \<Rightarrow> dns_fits T s w)"

lemma fleet_view_iff:
  "fleet_view T w = fleet_view T w' \<longleftrightarrow>
     (\<forall>n. Inl n \<in> T \<longrightarrow> tk_view (fl_files w n) = tk_view (fl_files w' n))
     \<and> (\<forall>l. Inr l \<in> T \<longrightarrow> flaky_view (fl_resolvers w l) = flaky_view (fl_resolvers w' l))"
  by (auto simp: fleet_view_def fun_eq_iff)

lemma fleet_view_file:
  "fleet_view T (put_file n f w) = fleet_view T w' \<longleftrightarrow>
     (Inl n \<in> T \<longrightarrow> tk_view f = tk_view (fl_files w' n))
     \<and> (\<forall>m. m \<noteq> n \<longrightarrow> Inl m \<in> T \<longrightarrow> tk_view (fl_files w m) = tk_view (fl_files w' m))
     \<and> (\<forall>l. Inr l \<in> T \<longrightarrow> flaky_view (fl_resolvers w l) = flaky_view (fl_resolvers w' l))"
  by (auto simp: fleet_view_iff)

lemma fleet_view_resolver:
  "fleet_view T (put_resolver n s w) = fleet_view T w' \<longleftrightarrow>
     (Inr n \<in> T \<longrightarrow> flaky_view s = flaky_view (fl_resolvers w' n))
     \<and> (\<forall>m. m \<noteq> n \<longrightarrow> Inr m \<in> T \<longrightarrow> flaky_view (fl_resolvers w m) = flaky_view (fl_resolvers w' m))
     \<and> (\<forall>m. Inl m \<in> T \<longrightarrow> tk_view (fl_files w m) = tk_view (fl_files w' m))"
  by (auto simp: fleet_view_iff)

text \<open>No accident is left to come, and all targets are in view.\<close>

definition fleet_calm :: "fleet \<Rightarrow> bool" where
  "fleet_calm w = ((\<forall>n. tk_calm (fl_files w n)) \<and> (\<forall>l. steady (fl_resolvers w l)))"

definition calm_in :: "target set \<Rightarrow> fleet \<Rightarrow> bool" where
  "calm_in T w = (T = UNIV \<and> fleet_calm w)"

lemma fleet_calm_put [simp]:
  "fleet_calm w \<Longrightarrow> fleet_calm (put_file n f w) \<longleftrightarrow> tk_calm f"
  "fleet_calm w \<Longrightarrow> fleet_calm (put_resolver n s w) \<longleftrightarrow> steady s"
  by (auto simp: fleet_calm_def)

lemma edge_contract:
  assumes "edge_fits T s n prov w"
  shows "s_do s w = (Some err, w') \<Longrightarrow> fleet_view T w' = fleet_view T w"
    and "s_do s w = (None, w') \<Longrightarrow> fleet_view T v = fleet_view T w' \<Longrightarrow> s_undo s v = (None, v') \<Longrightarrow>
       fleet_view T v' = fleet_view T w"
    and "s_do s w = (None, w') \<Longrightarrow> fleet_view T v = fleet_view T w' \<Longrightarrow> calm_in T v \<Longrightarrow>
       \<exists>v'. s_undo s v = (None, v') \<and> calm_in T v'"
    and "s_do s w = (r, w') \<Longrightarrow> \<exists>f. w' = put_file n f w \<and> (calm_in T w \<longrightarrow> calm_in T w')"
proof -
  obtain d op c where c: "s_do s = on_part (\<lambda>w. fl_files w n) (put_file n) (tk_act d op c)"
    "s_undo s = on_part (\<lambda>w. fl_files w n) (put_file n) (tk_act d op (job_inverse c))"
    "Inl n \<in> T \<Longrightarrow> tk_ready d c (fl_files w n)"
    using assms by (auto simp: edge_fits_def)
  show "fleet_view T w' = fleet_view T w" if "s_do s w = (Some err, w')"
    using that c(1) tk.failure_leaves [OF c(3), of op] by (auto simp: edge_file.on_part_done fleet_view_file)
  show "fleet_view T v' = fleet_view T w"
    if "s_do s w = (None, w')" "fleet_view T v = fleet_view T w'" "s_undo s v = (None, v')"
  proof -
    note prem = that
    obtain f f' where f: "tk_act d op c (fl_files w n) = (None, f)" "w' = put_file n f w"
      "tk_act d op (job_inverse c) (fl_files v n) = (None, f')" "v' = put_file n f' v"
      using prem(1,3) c(1,2) by (auto simp: edge_file.on_part_done)
    have "tk_view f' = tk_view (fl_files w n)" if "Inl n \<in> T"
    proof -
      have "tk_view (fl_files v n) = tk_view f" using prem(2) f(2) that by (auto simp: fleet_view_iff)
      from tk.inverse_restores [OF c(3) [OF that] f(1) this f(3)] show ?thesis .
    qed
    with prem(2) f show ?thesis by (auto simp: fleet_view_file fleet_view_iff)
  qed
  show "\<exists>v'. s_undo s v = (None, v') \<and> calm_in T v'"
    if "s_do s w = (None, w')" "fleet_view T v = fleet_view T w'" "calm_in T v"
  proof -
    note prem = that
    obtain f where f: "tk_act d op c (fl_files w n) = (None, f)" "w' = put_file n f w"
      using prem(1) c(1) by (auto simp: edge_file.on_part_done)
    have T: "Inl n \<in> T" "fleet_calm v" using prem(3) by (simp_all add: calm_in_def)
    have "tk_view (fl_files v n) = tk_view f" "tk_calm (fl_files v n)"
      using prem(2) T f(2) by (auto simp: fleet_view_iff fleet_calm_def)
    from tk.inverse_works [OF c(3) [OF T(1)] f(1) this] obtain f' where
      f': "tk_act d op (job_inverse c) (fl_files v n) = (None, f')" by blast
    from tk.calm_stays [OF \<open>tk_calm (fl_files v n)\<close> this] f' c(2) prem(3) show ?thesis
      by (intro exI [of _ "put_file n f' v"]) (auto simp: edge_file.on_part_done calm_in_def)
  qed
  show "\<exists>f. w' = put_file n f w \<and> (calm_in T w \<longrightarrow> calm_in T w')" if "s_do s w = (r, w')"
  proof -
    note prem = that
    obtain f where f: "tk_act d op c (fl_files w n) = (r, f)" "w' = put_file n f w"
      using prem c(1) by (auto simp: edge_file.on_part_done)
    have "tk_calm f" if "fleet_calm w"
      using tk.calm_stays [OF _ f(1)] that by (simp add: fleet_calm_def)
    with f(2) show ?thesis by (auto simp: calm_in_def)
  qed
qed

lemma dns_contract:
  assumes "dns_fits T s w"
  shows "s_do s w = (Some err, w') \<Longrightarrow> fleet_view T w' = fleet_view T w"
    and "s_do s w = (None, w') \<Longrightarrow> fleet_view T v = fleet_view T w' \<Longrightarrow> s_undo s v = (None, v') \<Longrightarrow>
       fleet_view T v' = fleet_view T w"
    and "s_do s w = (None, w') \<Longrightarrow> fleet_view T v = fleet_view T w' \<Longrightarrow> calm_in T v \<Longrightarrow>
       \<exists>v'. s_undo s v = (None, v') \<and> calm_in T v'"
    and "s_do s w = (r, w') \<Longrightarrow> \<exists>f. w' = put_resolver (s_name s) f w \<and> (calm_in T w \<longrightarrow> calm_in T w')"
proof -
  let ?n = "s_name s"
  obtain cfg ch where c: "s_do s = on_part (\<lambda>w. fl_resolvers w ?n) (put_resolver ?n) (ag_apply cfg flaky_doer ch)"
    "s_undo s = on_part (\<lambda>w. fl_resolvers w ?n) (put_resolver ?n) (ag_apply cfg flaky_doer (invert_dns ch))"
    "Inr ?n \<in> T \<Longrightarrow> flaky_ready ch (fl_resolvers w ?n)"
    using assms by (auto simp: dns_fits_def)
  show "fleet_view T w' = fleet_view T w" if "s_do s w = (Some err, w')"
    using that c(1) flaky.failure_leaves [OF c(3), of cfg] by (auto simp: resolver.on_part_done fleet_view_resolver)
  show "fleet_view T v' = fleet_view T w"
    if "s_do s w = (None, w')" "fleet_view T v = fleet_view T w'" "s_undo s v = (None, v')"
  proof -
    note prem = that
    obtain f f' where f: "ag_apply cfg flaky_doer ch (fl_resolvers w ?n) = (None, f)" "w' = put_resolver ?n f w"
      "ag_apply cfg flaky_doer (invert_dns ch) (fl_resolvers v ?n) = (None, f')" "v' = put_resolver ?n f' v"
      using prem(1,3) c(1,2) by (auto simp: resolver.on_part_done)
    have "flaky_view f' = flaky_view (fl_resolvers w ?n)" if "Inr ?n \<in> T"
    proof -
      have "flaky_view (fl_resolvers v ?n) = flaky_view f" using prem(2) f(2) that by (auto simp: fleet_view_iff)
      from flaky.inverse_restores [OF c(3) [OF that] f(1) this f(3)] show ?thesis .
    qed
    with prem(2) f show ?thesis by (auto simp: fleet_view_resolver fleet_view_iff)
  qed
  show "\<exists>v'. s_undo s v = (None, v') \<and> calm_in T v'"
    if "s_do s w = (None, w')" "fleet_view T v = fleet_view T w'" "calm_in T v"
  proof -
    note prem = that
    obtain f where f: "ag_apply cfg flaky_doer ch (fl_resolvers w ?n) = (None, f)" "w' = put_resolver ?n f w"
      using prem(1) c(1) by (auto simp: resolver.on_part_done)
    have T: "Inr ?n \<in> T" "fleet_calm v" using prem(3) by (simp_all add: calm_in_def)
    have "flaky_view (fl_resolvers v ?n) = flaky_view f" "steady (fl_resolvers v ?n)"
      using prem(2) T f(2) by (auto simp: fleet_view_iff fleet_calm_def)
    from flaky.inverse_works [OF c(3) [OF T(1)] f(1) this] obtain f' where
      f': "ag_apply cfg flaky_doer (invert_dns ch) (fl_resolvers v ?n) = (None, f')" by blast
    from flaky.calm_stays [OF \<open>steady (fl_resolvers v ?n)\<close> this] f' c(2) prem(3) show ?thesis
      by (intro exI [of _ "put_resolver ?n f' v"]) (auto simp: resolver.on_part_done calm_in_def)
  qed
  show "\<exists>f. w' = put_resolver ?n f w \<and> (calm_in T w \<longrightarrow> calm_in T w')" if "s_do s w = (r, w')"
  proof -
    note prem = that
    obtain f where f: "ag_apply cfg flaky_doer ch (fl_resolvers w ?n) = (r, f)" "w' = put_resolver ?n f w"
      using prem c(1) by (auto simp: resolver.on_part_done)
    have "steady f" if "fleet_calm w"
      using flaky.calm_stays [OF _ f(1)] that by (simp add: fleet_calm_def)
    with f(2) show ?thesis by (auto simp: calm_in_def)
  qed
qed

lemma edge_fits_cong: "fl_files w n = fl_files w' n \<Longrightarrow> edge_fits T s n prov w = edge_fits T s n prov w'"
  by (simp add: edge_fits_def)

lemma dns_fits_cong: "fl_resolvers w (s_name s) = fl_resolvers w' (s_name s) \<Longrightarrow> dns_fits T s w = dns_fits T s w'"
  by (simp add: dns_fits_def)

lemma fits_elsewhere:
  assumes "fleet_fits T t w" and "\<And>n. target_of t = Inl n \<Longrightarrow> fl_files w' n = fl_files w n"
    and "\<And>n. target_of t = Inr n \<Longrightarrow> fl_resolvers w' n = fl_resolvers w n"
  shows "fleet_fits T t w'"
proof (cases "s_edge t")
  case None
  with assms(1,3) dns_fits_cong [of w t w' T] show ?thesis by (simp add: fleet_fits_def target_of_def)
next
  case (Some np)
  with assms(1,2) edge_fits_cong [of w "fst np" w' T t "snd np"] show ?thesis
    by (cases np) (simp add: fleet_fits_def target_of_def)
qed

lemma fleet_frame:
  assumes "fleet_fits T t w" and "fleet_indep s t" and "fleet_fits T s w" and "s_do s w = (None, w')"
  shows "fleet_fits T t w'"
proof (cases "s_edge s")
  case None
  with assms(3) dns_contract(4) [OF _ assms(4)] obtain f where "w' = put_resolver (s_name s) f w"
    by (auto simp: fleet_fits_def)
  with None assms(2) show ?thesis
    by (intro fits_elsewhere [OF assms(1)]) (auto simp: fleet_indep_def target_of_def)
next
  case (Some np)
  obtain n prov where np: "np = (n, prov)" by (cases np)
  with Some assms(3) have "edge_fits T s n prov w" by (simp add: fleet_fits_def)
  from edge_contract(4) [OF this assms(4)] obtain f where "w' = put_file n f w" by blast
  with Some np assms(2) show ?thesis
    by (intro fits_elsewhere [OF assms(1)]) (auto simp: fleet_indep_def target_of_def)
qed

interpretation fleet: step_contract "fleet_view T" "fleet_fits T" fleet_indep "calm_in T" for T
proof unfold_locales
  show "fleet_view T w' = fleet_view T w" if "fleet_fits T s w" "s_do s w = (Some err, w')" for T s w err w'
    using that edge_contract(1) dns_contract(1) by (fastforce simp: fleet_fits_def split: option.splits)
  show "fleet_view T v' = fleet_view T w"
    if "fleet_fits T s w" "s_do s w = (None, w')" "fleet_view T v = fleet_view T w'" "s_undo s v = (None, v')" for T s w w' v v'
    using that edge_contract(2) [OF _ that(2-4)] dns_contract(2) [OF _ that(2-4)]
    by (auto simp: fleet_fits_def split: option.splits)
  show "\<exists>v'. s_undo s v = (None, v') \<and> calm_in T v'"
    if "fleet_fits T s w" "s_do s w = (None, w')" "fleet_view T v = fleet_view T w'" "calm_in T v" for T s w w' v
    using that edge_contract(3) [OF _ that(2-4)] dns_contract(3) [OF _ that(2-4)]
    by (auto simp: fleet_fits_def split: option.splits)
  show "calm_in T w'" if "fleet_fits T s w" "calm_in T w" "s_do s w = (r, w')" for T s w r w'
    using that edge_contract(4) [OF _ that(3)] dns_contract(4) [OF _ that(3)]
    by (auto simp: fleet_fits_def split: option.splits)
  show "h v = None" if "fleet_fits T s w" "s_edge s = Some ed" "ep_healthy (snd ed) = Some h" for T s w ed h v
    using that by (cases ed) (auto simp: fleet_fits_def edge_fits_def)
qed (rule fleet_frame)

section \<open>An expose over the fleet\<close>

definition fleet_engine :: "fleet engine \<Rightarrow> bool" where
  "fleet_engine e \<longleftrightarrow> (\<forall>b \<in> set (g_edges e). \<exists>d api. b_provider b = fleet_edge d api (b_name b))
     \<and> (\<forall>dp \<in> set (g_dns e). \<exists>cfg. dp = fleet_dns cfg)
     \<and> distinct (map b_name (g_edges e)) \<and> distinct (map dns_label (g_dns e))"

text \<open>The targets at which no accident takes half effect, and that are ready for the host: an edge where no
  write is cut after the file was truncated and that holds no leftover of crenel's for the host, and a
  resolver no change of which takes effect while its answer is lost.\<close>

definition ready_edge :: "string \<Rightarrow> fleet \<Rightarrow> string \<Rightarrow> bool" where
  "ready_edge h w n = (uncut (tf_fates (fl_files w n)) \<and> host_absent h (file_config (fl_files w n)))"

definition ready_targets :: "fleet engine \<Rightarrow> string \<Rightarrow> fleet \<Rightarrow> target set" where
  "ready_targets e h w = {Inl n | n. n \<in> b_name ` set (g_edges e) \<longrightarrow> ready_edge h w n} \<union> {Inr l | l. heard (fl_resolvers w l)}"

lemma ready_targets_iff:
  "Inl n \<in> ready_targets e h w \<longleftrightarrow> (n \<in> b_name ` set (g_edges e) \<longrightarrow> ready_edge h w n)"
  "Inr l \<in> ready_targets e h w \<longleftrightarrow> heard (fl_resolvers w l)"
  by (auto simp: ready_targets_def)

lemma calm_targets:
  assumes "fleet_calm w" and "\<forall>b \<in> set (g_edges e). host_absent h (file_config (fl_files w (b_name b)))"
  shows "calm_in (ready_targets e h w) w"
proof -
  have "x \<in> ready_targets e h w" for x
    using assms by (cases x) (auto simp: ready_targets_iff ready_edge_def fleet_calm_def tk_calm_def all_through_def uncut_def
        steady_def heard_def)
  with assms(1) show ?thesis by (auto simp: calm_in_def)
qed

lemma forward_change:
  "plan_forward b op live = Inr ec \<Longrightarrow> o_verb op = Expose \<Longrightarrow> \<not> edge_change_empty ec \<Longrightarrow>
     \<exists>r. e_add ec = [r] \<and> e_remove ec = [] \<and> r_host r = o_host op"
  by (auto simp: plan_forward_def forward_route_def rbind_Inr split: if_splits)

lemma expose_change:
  assumes "plan_edge e op w b = Inr ep" and "o_verb op = Expose" and "b_provider b = fleet_edge d api (b_name b)"
    and "role_for e b (o_service op) \<noteq> RoleNone" and "\<not> edge_change_empty (p_change ep)"
  shows "\<exists>r. e_add (p_change ep) = [r] \<and> e_remove (p_change ep) = [] \<and> r_host r = o_host op"
proof -
  obtain live where live: "ep_read (b_provider b) w = Inr live"
    using assms(1) by (cases "ep_read (b_provider b) w") (auto simp: plan_edge_def)
  show ?thesis
  proof (cases "role_for e b (o_service op)")
    case RoleTerminal
    have "plan_edge e op w b = rbind (case ep_plan (b_provider b) op live of
          Inl err \<Rightarrow> Inl (ErrEdgePlan (b_name b) err) | Inr sub \<Rightarrow> Inr (cs_edge sub))
        (\<lambda>ec. Inr \<lparr>p_edge = b_name b, p_driver = ep_name (b_provider b), p_change = ec\<rparr>)"
      by (simp only: plan_edge_def live sum.case RoleTerminal chain_role.case)
    with assms(1,3) obtain cs where cs: "tk_plan d op live = Inr cs" "p_change ep = cs_edge cs"
      by (auto simp: rbind_Inr split: sum.splits)
    with assms(2,5) show ?thesis
      by (auto simp: tk_plan_def Let_def rbind_Inr split: if_splits)
  next
    case RoleForward
    have "plan_edge e op w b = rbind (plan_forward b op live)
        (\<lambda>ec. Inr \<lparr>p_edge = b_name b, p_driver = ep_name (b_provider b), p_change = ec\<rparr>)"
      by (simp only: plan_edge_def live sum.case RoleForward chain_role.case)
    with assms(1) have "plan_forward b op live = Inr (p_change ep)"
      by (auto simp: rbind_Inr)
    from forward_change [OF this assms(2,5)] show ?thesis .
  qed (use assms(4) in simp)
qed

lemma expose_edge_fits:
  assumes "fleet_engine e" and "plan e op w = Inr cs" and "o_verb op = Expose"
    and "ep \<in> set (cs_edges cs)" and "s \<in> set (edge_step e op snaps ep)"
  shows "fleet_fits (ready_targets e (o_host op) w) s w"
proof -
  from edge_step_set [OF assms(5)] obtain b where b: "binding e (p_edge ep) = Some b"
    "\<not> edge_change_empty (p_change ep)" "s_edge s = Some (p_edge ep, b_provider b)"
    "s_do s = ep_apply (b_provider b) ((mk_change_set op)\<lparr>cs_edge := p_change ep\<rparr>)"
    "s_undo s = ep_apply (b_provider b)
       ((mk_change_set op)\<lparr>cs_edge := invert_edge (p_change ep) (snaps (p_edge ep))\<rparr>)" by blast
  from plan_edges_of [OF assms(2,4)] obtain b' where b': "b' \<in> set (participants e op)"
    "plan_edge e op w b' = Inr ep" by blast
  have "b_name b' = p_edge ep" using plan_edge_name [OF b'(2)] by simp
  moreover have "b' \<in> set (g_edges e)" using participant_role [OF b'(1)] by blast
  moreover have role: "role_for e b' (o_service op) \<noteq> RoleNone"
    using participant_role [OF b'(1)] chain_role.distinct by metis
  ultimately have same: "b' = b" "b \<in> set (g_edges e)" "b_name b = p_edge ep"
    using b(1) binding_of_member [of e b'] assms(1) binding_Some by (fastforce simp: fleet_engine_def)+
  obtain d api where prov: "b_provider b = fleet_edge d api (p_edge ep)"
    using assms(1) same by (auto simp: fleet_engine_def)
  from expose_change [OF b'(2) assms(3)] prov same role b(2)
  obtain r where r: "e_add (p_change ep) = [r]" "e_remove (p_change ep) = []" "r_host r = o_host op"
    by metis
  have "tk_ready d (p_change ep, snaps (p_edge ep)) (fl_files w (p_edge ep))"
    if "Inl (p_edge ep) \<in> ready_targets e (o_host op) w"
  proof -
    have "p_edge ep \<in> b_name ` set (g_edges e)" using same by force
    with r that show ?thesis by (auto simp: tk_ready_def ready_targets_iff ready_edge_def)
  qed
  then show ?thesis
    using b(3-5) prov unfolding fleet_fits_def edge_fits_def
    by (auto simp: tk_act_def job_inverse_def intro!: exI [of _ d] exI [of _ op]
        exI [of _ "p_change ep"] exI [of _ "snaps (p_edge ep)"])
qed

lemma expose_dns_fits:
  assumes "fleet_engine e" and "plan e op w = Inr cs" and "o_verb op = Expose"
    and "s \<in> set (dns_steps (g_dns e) (cs_dns cs))"
  shows "fleet_fits (ready_targets e (o_host op) w) s w"
proof -
  from dns_steps_set [OF assms(4)] obtain i where i: "i < length (g_dns e)" "\<not> dns_change_empty (cs_dns cs ! i)"
    "s_edge s = None" "s_name s = dns_label (g_dns e ! i)" "s_do s = dp_apply (g_dns e ! i) (cs_dns cs ! i)"
    "s_undo s = dp_apply (g_dns e ! i) (invert_dns (cs_dns cs ! i))" by blast
  obtain cfg where cfg: "g_dns e ! i = fleet_dns cfg"
    using assms(1) nth_mem [OF i(1)] unfolding fleet_engine_def by blast
  have "plan_dns e op w (fleet_dns cfg) = Inr (cs_dns cs ! i)"
    using plan_dns_nth [OF assms(2) i(1)] cfg by simp
  note planned = this
  have "\<not> dns_skipped e op (fleet_dns cfg)"
  proof
    assume "dns_skipped e op (fleet_dns cfg)"
    with planned have "cs_dns cs ! i = no_dns_change (dp_scope (fleet_dns cfg))" by (auto simp: plan_dns_def)
    with i(2) show False by simp
  qed
  with planned obtain ds where ds: "ag_desired cfg op = Inr ds"
    "ag_diff cfg flaky_doer op ds (fl_resolvers w (ag_label cfg)) = Inr (cs_dns cs ! i)"
    by (auto simp: plan_dns_def split: if_splits sum.splits)
  note diff = diff_flaky [OF ds(2)]
  obtain t where "ds = [ag_record cfg (o_host op) t]" using ag_desired_one [OF ds(1)] by blast
  with diff_expose_ready [OF _ assms(3) i(2)] diff have "flaky_ready (cs_dns cs ! i) (fl_resolvers w (ag_label cfg))"
    if "Inr (ag_label cfg) \<in> ready_targets e (o_host op) w"
    using that unfolding flaky_ready_def ready_targets_iff by blast
  then show ?thesis
    using i(3-6) cfg unfolding fleet_fits_def dns_fits_def
    by (auto intro!: exI [of _ cfg] exI [of _ "cs_dns cs ! i"])
qed

lemma edge_targets:
  "distinct (map p_edge eps) \<Longrightarrow>
     distinct (map target_of (concat (map (edge_step e op snaps) eps)))
     \<and> target_of ` set (concat (map (edge_step e op snaps) eps)) \<subseteq> Inl ` p_edge ` set eps"
proof (induction eps)
  case (Cons ep eps)
  consider "edge_step e op snaps ep = []"
    | s where "edge_step e op snaps ep = [s]" "target_of s = Inl (p_edge ep)"
    by (cases "edge_change_empty (p_change ep)"; cases "binding e (p_edge ep)")
      (auto simp: edge_step_def target_of_def)
  then show ?case
    by cases (use Cons in \<open>auto simp: image_iff\<close>)
qed simp

lemma dns_targets:
  "distinct (map dns_label dps) \<Longrightarrow>
     distinct (map target_of (dns_steps dps ds)) \<and> target_of ` set (dns_steps dps ds) \<subseteq> Inr ` dns_label ` set dps"
proof (induction dps ds rule: dns_steps.induct)
  case (1 dp dps d ds)
  then show ?case by (auto simp: target_of_def image_iff)
qed auto

lemma distinct_targets_indep: "distinct (map target_of ss) \<Longrightarrow> sorted_wrt fleet_indep ss"
  by (induction ss) (auto simp: fleet_indep_def)

lemma Inl_Inr_disjoint: "A \<subseteq> Inl ` M \<Longrightarrow> B \<subseteq> Inr ` N \<Longrightarrow> A \<inter> B = {}"
  by blast

lemma plan_steps_indep:
  assumes "fleet_engine e" and "plan e op w = Inr cs"
  shows "sorted_wrt fleet_indep (build_steps e op cs snaps)"
proof -
  have "map p_edge (cs_edges cs) = map b_name (participants e op)" by (rule plan_edge_names [OF assms(2)])
  then have "distinct (map p_edge (cs_edges cs))"
    using assms(1) by (simp add: participants_def fleet_engine_def distinct_map_filter)
  note edges = edge_targets [OF this, of e op snaps]
  have dns: "distinct (map target_of (dns_steps (g_dns e) (cs_dns cs)))
     \<and> target_of ` set (dns_steps (g_dns e) (cs_dns cs)) \<subseteq> Inr ` dns_label ` set (g_dns e)"
    by (rule dns_targets) (use assms(1) in \<open>simp add: fleet_engine_def\<close>)
  have "distinct (map target_of (unsorted_steps e op cs snaps))"
    unfolding unsorted_steps_def map_append distinct_append set_map
    using conjunct1 [OF edges] conjunct1 [OF dns] Inl_Inr_disjoint [OF conjunct2 [OF edges] conjunct2 [OF dns]]
    by simp
  moreover have "mset (map target_of (build_steps e op cs snaps)) = mset (map target_of (unsorted_steps e op cs snaps))"
    by (simp add: mset_build_steps)
  ultimately show ?thesis
    by (intro distinct_targets_indep) (metis mset_eq_imp_distinct_iff)
qed

text \<open>C1. All or nothing, over the program's own drivers, for an expose over Traefik edges and AdGuard
  resolvers with rollback on, whatever writes fail and whatever calls are not answered. An expose that
  reports an error, at whatever step, in the verification or at the runtime gate, and whose report lists
  no failed undo, has left in every file the routers and services it found, in the fields the driver
  knows and but for a stale deny, and in every resolver the rewrites it found; except for the file of
  an edge that held a leftover of crenel's for the host or where a write is cut after the file was
  truncated, and for a resolver that makes a change while its answer is lost. Where no accident is to
  come and no edge holds a leftover, the report lists no failed undo.\<close>

theorem fleet_expose_all_or_nothing:
  assumes "apply_op e op confirm w = (Some err, rep, w')" and "fleet_engine e" and "o_verb op = Expose" and "g_rollback e"
  shows "(t_rollback_errors (ar_out rep) = [] \<longrightarrow>
       ((n \<in> b_name ` set (g_edges e) \<longrightarrow> ready_edge (o_host op) w n) \<longrightarrow>
          held (file_config (fl_files w' n)) = held (file_config (fl_files w n)))
     \<and> (heard (fl_resolvers w l) \<longrightarrow>
          mset (sv_rewrites (fs_server (fl_resolvers w' l))) = mset (sv_rewrites (fs_server (fl_resolvers w l)))))
    \<and> (fleet_calm w \<and> (\<forall>b \<in> set (g_edges e). host_absent (o_host op) (file_config (fl_files w (b_name b)))) \<longrightarrow>
         t_rollback_errors (ar_out rep) = [])"
proof -
  let ?T = "ready_targets e (o_host op) w"
  have "fleet_view ?T w' = fleet_view ?T w \<and> t_rollback_errors (ar_out rep) = []"
    if "calm_in ?T w \<or> t_rollback_errors (ar_out rep) = []"
  proof (cases "w' = w \<and> ar_out rep = no_outcome")
    case False
    with apply_op_cases [OF assms(1)] obtain cs where cs: "plan e op w = Inr cs"
      "apply_planned e op cs confirm w = (Some err, rep, w')" by blast
    show ?thesis
    proof (rule fleet.apply_planned_restores [OF cs(2) assms(4) _ that])
      fix snaps
      show "(\<forall>s \<in> set (build_steps e op cs snaps). fleet_fits ?T s w)
          \<and> sorted_wrt fleet_indep (build_steps e op cs snaps)"
        using plan_steps_indep [OF assms(2) cs(1)] expose_edge_fits [OF assms(2) cs(1) assms(3)]
          expose_dns_fits [OF assms(2) cs(1) assms(3)]
        by (auto simp: set_build_steps unsorted_steps_def)
    qed
  qed (simp add: no_outcome_def)
  then show ?thesis
    using calm_targets [of w e "o_host op"]
    by (auto simp: fleet_view_iff ready_targets_iff tk_view_def flaky_view_def ag_view_def)
qed

definition home_binding :: "fleet edge_binding" where
  "home_binding = \<lparr>b_name = ''home'', b_provider = fleet_edge plain_traefik None ''home'', b_fronts = None,
     b_auth_downstream = False, b_ingress_kind = IngressUnset, b_ingress_path = [],
     b_downstream_edge = [], b_downstream_address = [], b_downstream_scheme = []\<rparr>"

definition home_fleet :: "fleet engine" where
  "home_fleet = new_multi [home_binding] ''ex'' [fleet_dns home_config]"

definition new_file :: traefik_file where
  "new_file = \<lparr>tf_content = Missing, tf_readable = True, tf_fates = []\<rparr>"

definition home_resolver :: "phase list \<Rightarrow> flaky_server" where
  "home_resolver ps = \<lparr>fs_server = home_server, fs_phases = ps\<rparr>"

text \<open>The fleet with the accidents of its one file and its one resolver.\<close>

definition accident_world :: "cut_doc write_fate list \<Rightarrow> phase list \<Rightarrow> fleet" where
  "accident_world fates ps = \<lparr>fl_files = (\<lambda>_. new_file\<lparr>tf_fates := fates\<rparr>), fl_resolvers = (\<lambda>_. home_resolver ps)\<rparr>"

definition limited_world :: fleet where
  "limited_world = accident_world [] []"

lemma home_fleet_engine: "fleet_engine home_fleet"
  by (auto simp: fleet_engine_def home_fleet_def new_multi_def home_binding_def)

lemma limited_world_ready: "ready_edge h limited_world n" "fleet_calm limited_world"
  by (simp_all add: ready_edge_def home_fleet_def new_multi_def home_binding_def limited_world_def accident_world_def
      new_file_def home_resolver_def host_absent_def file_config_def empty_config_def tcp_of_def uncut_def heard_def
      fleet_calm_def tk_calm_def all_through_def steady_def)

text \<open>Without an API the driver cannot confirm the write at the daemon, and the write is taken back.\<close>

lemma fleet_expose_all_or_nothing_witness:
  "\<exists>err rep w'. apply_op home_fleet expose_op yes limited_world = (Some err, rep, w') \<and> ar_applied rep
     \<and> t_rollback_errors (ar_out rep) = [] \<and> held (file_config (fl_files w' ''home'')) = held empty_config"
proof -
  have "case apply_op home_fleet expose_op yes limited_world of (err, rep, _) \<Rightarrow> err \<noteq> None \<and> ar_applied rep"
    by code_simp
  then obtain err rep w' where a: "apply_op home_fleet expose_op yes limited_world = (Some err, rep, w')"
    "ar_applied rep" by (auto split: prod.splits)
  have "o_verb expose_op = Expose" "g_rollback home_fleet"
    by (simp_all add: expose_op_def home_fleet_def new_multi_def)
  from fleet_expose_all_or_nothing [OF a(1) home_fleet_engine this, of "''home''"] limited_world_ready
  have "t_rollback_errors (ar_out rep) = []" "held (file_config (fl_files w' ''home'')) = held empty_config"
    by (auto simp: ready_edge_def limited_world_def accident_world_def new_file_def file_config_def)
  with a show ?thesis by blast
qed

section \<open>Accidents that are not whole\<close>

text \<open>What a run of the expose leaves: the error and the report's account of the rollback, the keys of the
  file's routers and the names of the resolver's rewrites.\<close>

definition left_by :: "fleet \<Rightarrow> core_err option \<times> bool \<times> nat \<times> string list \<times> string list" where
  "left_by w = (case apply_op home_fleet expose_op yes w of (err, rep, w') \<Rightarrow>
     (err, t_rolled_back (ar_out rep), length (t_rollback_errors (ar_out rep)),
      map fst (dy_routers (file_config (fl_files w' ''home''))),
      map rw_domain (sv_rewrites (fs_server (fl_resolvers w' (ag_label home_config))))))"

text \<open>A step that fails is not undone: when the resolver makes the change and its answer is lost, the rewrite
  stays while the report says that everything was rolled back and lists no error.\<close>

lemma fleet_lost_answer_leaves_record:
  "case left_by (accident_world [] [\<lparr>ph_deaf = False, ph_post = Unheard\<rparr>]) of
     (err, back, errors, routers, names) \<Rightarrow> err \<noteq> None \<and> back \<and> errors = 0 \<and> routers = [] \<and> names = [''a.ex'', ''g.ex'']"
  by code_simp

text \<open>A rollback that does not reach the resolver is reported, and its rewrite stays.\<close>

lemma fleet_failed_undo_reported:
  "case left_by (accident_world [] [\<lparr>ph_deaf = False, ph_post = Answered\<rparr>, \<lparr>ph_deaf = False, ph_post = Unreached\<rparr>]) of
     (err, back, errors, routers, names) \<Rightarrow> err \<noteq> None \<and> back \<and> errors = 1 \<and> routers = [] \<and> names = [''a.ex'', ''g.ex'']"
  by code_simp

text \<open>A resolver that is not reached, or stops to answer between the write and its verification, is the case the
  theorem covers.\<close>

lemma fleet_deaf_resolver_rolled_back:
  "case left_by (accident_world [] [\<lparr>ph_deaf = False, ph_post = Unreached\<rparr>]) of
     (err, back, errors, routers, names) \<Rightarrow> err \<noteq> None \<and> back \<and> errors = 0 \<and> routers = [] \<and> names = [''a.ex'']"
  "case left_by (accident_world [] [\<lparr>ph_deaf = False, ph_post = Answered\<rparr>, \<lparr>ph_deaf = True, ph_post = Answered\<rparr>]) of
     (err, back, errors, routers, names) \<Rightarrow> err \<noteq> None \<and> back \<and> errors = 0 \<and> routers = [] \<and> names = [''a.ex'']"
  by code_simp+

section \<open>Where the removal of a route cannot be taken back\<close>

definition edge_fleet :: "fleet engine" where
  "edge_fleet = new_multi [home_binding] ''ex'' []"

definition world_with :: "dynamic_config \<Rightarrow> fleet" where
  "world_with cfg = \<lparr>fl_files = (\<lambda>_. \<lparr>tf_content = Holds \<lparr>td_config = cfg, td_other = [], td_extra = []\<rparr>, tf_readable = True,
     tf_fates = []\<rparr>), fl_resolvers = (\<lambda>_. home_resolver [])\<rparr>"

definition adopted_router :: router where
  "adopted_router = (whoami_router (backticked ''Host'' ''a.ex''))\<lparr>rt_service := ''crenel-a.ex'',
     rt_entry_points := [''web''], rt_tls := Some \<lparr>tc_cert_resolver = ''le'', tc_passthrough = False\<rparr>\<rparr>"

definition adopted_config :: dynamic_config where
  "adopted_config = \<lparr>dy_routers = [(''crenel-a.ex'', Some adopted_router)],
     dy_services = [(''crenel-a.ex'', Some \<lparr>sv_urls = [''http://w'']\<rparr>)], dy_tcp = None\<rparr>"

text \<open>Removing a host crenel does not own fails, and its rollback leaves more than it found: the
  driver deletes only its own keys, the verification finds the host still there, and the inverse
  adds a router of crenel's own for the host beside the operator's.\<close>

theorem fleet_unexpose_unmanaged_leaves_router:
  "case apply_op edge_fleet (mk_op Unexpose ''a'' ''a.ex'') yes
      (world_with (config_with ''w'' (whoami_router (backticked ''Host'' ''a.ex'')))) of
     (err, rep, w') \<Rightarrow> err = Some (ErrVerifyFailed [edge_step_label ''home'' ''traefik''])
       \<and> t_rolled_back (ar_out rep) \<and> t_rollback_errors (ar_out rep) = []
       \<and> map fst (dy_routers (file_config (fl_files w' ''home''))) = [''w'', ''crenel-a.ex'']"
  by code_simp

text \<open>The rollback of an unexpose writes the route back from the model, not from the file: an adopted
  router, which adoption had kept as the operator wrote it, comes back without its TLS settings and
  entry points, and the report counts the rollback as clean.\<close>

theorem fleet_rollback_loses_adopted_settings:
  "case apply_op edge_fleet (mk_op Unexpose ''a'' ''a.ex'') yes (world_with adopted_config) of
     (err, rep, w') \<Rightarrow> err = Some (ErrUnverifiedWrite [edge_step_label ''home'' ''traefik''])
       \<and> t_rolled_back (ar_out rep) \<and> t_rollback_errors (ar_out rep) = []
       \<and> map_option (map_option (\<lambda>r. (rt_rule r, rt_tls r, rt_entry_points r)))
           (map_of (dy_routers (file_config (fl_files w' ''home''))) ''crenel-a.ex'')
         = Some (Some (backticked ''Host'' ''a.ex'', None, []))"
  by code_simp

end
