(* ===== verification/Ack.thy ===== *)
theory Ack
  imports Gate
begin

text \<open>
  Acknowledging what crenel does not understand: \<open>internal/core/ack.go\<close> (\<open>Ack\<close>, \<open>Unack\<close>) by
  host, and \<open>triage.go\<close> (\<open>NotUnderstood\<close>, \<open>AckRoute\<close>, \<open>UnackRoute\<close>, \<open>RouteJSON\<close>) by the
  structural path of a route. A marker is a write on the live configuration: gated, offered to every
  edge that has the capability, and read back.
\<close>

section \<open>What is not understood\<close>

definition split_acknowledged :: "unparsed list \<Rightarrow> unparsed list \<times> unparsed list" where
  "split_acknowledged us =
     (filter (\<lambda>u. n_kind u \<noteq> UnknownAcknowledged) us, filter (\<lambda>u. n_kind u = UnknownAcknowledged) us)"

record triage_item =
  ti_edge :: string
  ti_unparsed :: unparsed
  ti_route_ackable :: bool

datatype ack_error =
    AckGate core_err
  | AckNoEdge string "(string \<times> perr) list"
  | AckUnconfirmed string
  | AckStillThere string
  | AckReadEdge string perr
  | AckNoSuchEdge string "string list"

text \<open>The bindings a command is about: all of them, or the one of the given name.\<close>

definition edges_named :: "'w engine \<Rightarrow> string \<Rightarrow> 'w edge_binding list" where
  "edges_named e n = filter (\<lambda>b. n = [] \<or> b_name b = n) (g_edges e)"

definition triage_edge :: "'w \<Rightarrow> 'w edge_binding \<Rightarrow> ack_error + triage_item list" where
  "triage_edge w b =
     (case ep_read (b_provider b) w of
        Inl err \<Rightarrow> Inl (AckReadEdge (b_name b) err)
      | Inr live \<Rightarrow> Inr (map (\<lambda>u. \<lparr>ti_edge = b_name b, ti_unparsed = u,
            ti_route_ackable = (ep_locator_acker (b_provider b) \<noteq> None)\<rparr>)
          (fst (split_acknowledged (l_unparsed live)))))"

definition not_understood :: "'w engine \<Rightarrow> string \<Rightarrow> 'w \<Rightarrow> ack_error + triage_item list" where
  "not_understood e n w =
     rbind (rmap (triage_edge w) (edges_named e n)) (\<lambda>items.
       if n \<noteq> [] \<and> edges_named e n = [] then Inl (AckNoSuchEdge n (map b_name (g_edges e)))
       else Inr (concat items))"

section \<open>Offering a marker to the edges\<close>

text \<open>\<open>ackUnackOnEdges\<close> and \<open>onLocatorAckers\<close>: every edge with the capability is tried, also after
  one has accepted; the result says whether any did, and what the others answered.\<close>

fun on_edges :: "('w edge_binding \<Rightarrow> 'w act option) \<Rightarrow> 'w edge_binding list \<Rightarrow> 'w
    \<Rightarrow> (bool \<times> (string \<times> perr) list) \<times> 'w" where
  "on_edges f [] w = ((False, []), w)"
| "on_edges f (b # bs) w =
     (case f b of
        None \<Rightarrow> on_edges f bs w
      | Some a \<Rightarrow>
          (let (r, w') = a w; ((ok, fs), w'') = on_edges f bs w'
           in (case r of
                 Some err \<Rightarrow> ((ok, (b_name b, err) # fs), w'')
               | None \<Rightarrow> ((True, fs), w''))))"

text \<open>Whether an entry of a selected edge that can be read is acknowledged and satisfies a test.\<close>

definition acknowledged_where :: "(unparsed \<Rightarrow> bool) \<Rightarrow> 'w edge_binding list \<Rightarrow> 'w \<Rightarrow> bool" where
  "acknowledged_where p bs w =
     list_ex (\<lambda>b. case ep_read (b_provider b) w of
         Inl _ \<Rightarrow> False
       | Inr live \<Rightarrow> list_ex (\<lambda>u. n_kind u = UnknownAcknowledged \<and> p u) (l_unparsed live)) bs"

text \<open>Gate, write, read back, as all four commands do.\<close>

definition mark :: "'w engine \<Rightarrow> ('w edge_binding \<Rightarrow> 'w act option) \<Rightarrow> 'w edge_binding list \<Rightarrow> string
    \<Rightarrow> ('w \<Rightarrow> ack_error option) \<Rightarrow> 'w \<Rightarrow> ack_error option \<times> 'w" where
  "mark e f bs what confirm w =
     (case gate_read_only e of
        Some err \<Rightarrow> (Some (AckGate err), w)
      | None \<Rightarrow>
          (let ((ok, fs), w') = on_edges f bs w
           in if \<not> ok then (Some (AckNoEdge what fs), w') else (confirm w', w')))"

section \<open>The commands\<close>

definition ack :: "'w engine \<Rightarrow> string \<Rightarrow> string \<Rightarrow> 'w \<Rightarrow> ack_error option \<times> 'w" where
  "ack e host reason =
     mark e (\<lambda>b. map_option (\<lambda>a. ak_ack a host reason) (ep_acker (b_provider b))) (g_edges e) host
       (\<lambda>w. if acknowledged_where (\<lambda>u. str_contains (to_lower (n_reason u)) (to_lower reason)) (g_edges e) w
            then None else Some (AckUnconfirmed host))"

definition unack :: "'w engine \<Rightarrow> string \<Rightarrow> 'w \<Rightarrow> ack_error option \<times> 'w" where
  "unack e host =
     mark e (\<lambda>b. map_option (\<lambda>a. ak_unack a host) (ep_acker (b_provider b))) (g_edges e) host
       (\<lambda>w. if acknowledged_where (\<lambda>u. str_contains (n_raw_excerpt u) host) (g_edges e) w
            then Some (AckStillThere host) else None)"

definition ack_route :: "'w engine \<Rightarrow> string \<Rightarrow> string \<Rightarrow> string \<Rightarrow> 'w \<Rightarrow> ack_error option \<times> 'w" where
  "ack_route e n locator reason =
     mark e (\<lambda>b. map_option (\<lambda>a. la_ack a locator reason) (ep_locator_acker (b_provider b))) (edges_named e n) locator
       (\<lambda>w. if acknowledged_where (\<lambda>u. n_locator u = locator) (edges_named e n) w
            then None else Some (AckUnconfirmed locator))"

definition unack_route :: "'w engine \<Rightarrow> string \<Rightarrow> string \<Rightarrow> 'w \<Rightarrow> ack_error option \<times> 'w" where
  "unack_route e n locator =
     mark e (\<lambda>b. map_option (\<lambda>a. la_unack a locator) (ep_locator_acker (b_provider b))) (edges_named e n) locator
       (\<lambda>w. if acknowledged_where (\<lambda>u. n_locator u = locator) (edges_named e n) w
            then Some (AckStillThere locator) else None)"

text \<open>\<open>RouteJSON\<close>: the first edge that resolves the locator; the failures of all when none does.\<close>

fun route_json_on :: "string \<Rightarrow> 'w edge_binding list \<Rightarrow> 'w \<Rightarrow> (string \<times> perr) list + string" where
  "route_json_on locator [] w = Inl []"
| "route_json_on locator (b # bs) w =
     (case ep_locator_acker (b_provider b) of
        None \<Rightarrow> route_json_on locator bs w
      | Some a \<Rightarrow>
          (case la_raw a locator w of
             Inr s \<Rightarrow> Inr s
           | Inl err \<Rightarrow>
               (case route_json_on locator bs w of
                  Inr s \<Rightarrow> Inr s | Inl fs \<Rightarrow> Inl ((b_name b, err) # fs))))"

definition route_json :: "'w engine \<Rightarrow> string \<Rightarrow> string \<Rightarrow> 'w \<Rightarrow> ack_error + string" where
  "route_json e n locator w =
     (case route_json_on locator (edges_named e n) w of
        Inl fs \<Rightarrow> Inl (AckNoEdge locator fs) | Inr s \<Rightarrow> Inr s)"

section \<open>Lemmas\<close>

lemma split_acknowledged_fully_parsed: "fst (split_acknowledged (l_unparsed live)) = [] \<longleftrightarrow> fully_parsed live"
  by (auto simp: split_acknowledged_def fully_parsed_def filter_empty_conv list_all_iff)

lemma acknowledged_where_iff:
  "acknowledged_where p bs w \<longleftrightarrow> (\<exists>b \<in> set bs. \<exists>live. ep_read (b_provider b) w = Inr live
     \<and> (\<exists>u \<in> set (l_unparsed live). n_kind u = UnknownAcknowledged \<and> p u))"
  unfolding acknowledged_where_def list_ex_iff
  by (intro bex_cong refl) (auto simp: list_ex_iff split: sum.split)

lemma mark_done:
  "mark e f bs what confirm w = (None, w') \<longleftrightarrow>
     \<not> g_read_only e \<and> (\<exists>fs. on_edges f bs w = ((True, fs), w')) \<and> confirm w' = None"
  by (auto simp: mark_def gate_read_only_def split: prod.splits)

text \<open>Where some edge accepted, one of those offered did.\<close>

lemma on_edges_accepted:
  "on_edges f bs w = ((True, fs), w') \<Longrightarrow> \<exists>b \<in> set bs. \<exists>a v v'. f b = Some a \<and> a v = (None, v')"
proof (induction bs arbitrary: w w' fs)
  case (Cons b bs)
  show ?case
  proof (cases "f b")
    case (Some a)
    obtain r v where v: "a w = (r, v)" by (cases "a w")
    with Cons Some show ?thesis
      by (cases r) (fastforce split: prod.splits)+
  qed (use Cons in fastforce)
qed simp

section \<open>The worklist\<close>

lemma triage_edge_Inr:
  "triage_edge w b = Inr items \<longleftrightarrow> (\<exists>live. ep_read (b_provider b) w = Inr live
     \<and> items = map (\<lambda>u. \<lparr>ti_edge = b_name b, ti_unparsed = u, ti_route_ackable = (ep_locator_acker (b_provider b) \<noteq> None)\<rparr>)
         (filter (\<lambda>u. n_kind u \<noteq> UnknownAcknowledged) (l_unparsed live)))"
  by (cases "ep_read (b_provider b) w") (auto simp: triage_edge_def split_acknowledged_def)

text \<open>C40. The worklist of triage is what stands between an edge and a certified default deny: the items of
  an edge are its entries that are neither understood nor acknowledged, and where the deny is
  present its verdict is unknown exactly while an item of the edge remains.\<close>

theorem triage_worklist:
  assumes "not_understood e [] w = Inr items" and "distinct (map b_name (g_edges e))" and "b \<in> set (g_edges e)"
  shows "\<exists>live. ep_read (b_provider b) w = Inr live
    \<and> ti_unparsed ` {i \<in> set items. ti_edge i = b_name b} = {u \<in> set (l_unparsed live). n_kind u \<noteq> UnknownAcknowledged}
    \<and> (l_deny_present live \<longrightarrow> (deny_verdict live = DenyUnknown \<longleftrightarrow> (\<exists>i \<in> set items. ti_edge i = b_name b)))"
proof -
  obtain iss where iss: "rmap (triage_edge w) (g_edges e) = Inr iss" and items: "items = concat iss"
    using assms(1) by (auto simp: not_understood_def edges_named_def rbind_Inr split: if_splits)
  have "\<exists>y. triage_edge w b = Inr y"
    using iss assms(3) by (auto simp: rmap_Inr_iff list_all2_conv_all_nth in_set_conv_nth)
  then obtain live where live: "ep_read (b_provider b) w = Inr live" by (auto simp: triage_edge_Inr)
  have mem: "i \<in> set items \<and> ti_edge i = b_name b \<longleftrightarrow> (\<exists>u \<in> set (l_unparsed live). n_kind u \<noteq> UnknownAcknowledged
      \<and> i = \<lparr>ti_edge = b_name b, ti_unparsed = u, ti_route_ackable = (ep_locator_acker (b_provider b) \<noteq> None)\<rparr>)" for i
  proof -
    have "i \<in> set items \<longleftrightarrow> (\<exists>c \<in> set (g_edges e). \<exists>is. triage_edge w c = Inr is \<and> i \<in> set is)"
      using iss unfolding items rmap_Inr_iff list_all2_conv_all_nth
      by (fastforce simp: in_set_conv_nth)
    moreover have "c = b" if "c \<in> set (g_edges e)" "b_name c = b_name b" for c
      using that assms(2,3) by (auto simp: distinct_map inj_on_def)
    moreover have "ti_edge i = b_name c" if "triage_edge w c = Inr is" "i \<in> set is" for c "is"
      using that by (auto simp: triage_edge_Inr)
    ultimately have "i \<in> set items \<and> ti_edge i = b_name b \<longleftrightarrow> (\<exists>is. triage_edge w b = Inr is \<and> i \<in> set is)"
      using assms(3) by metis
    then show ?thesis using live by (auto simp: triage_edge_Inr)
  qed
  have "{i \<in> set items. ti_edge i = b_name b} = (\<lambda>u. \<lparr>ti_edge = b_name b, ti_unparsed = u,
      ti_route_ackable = (ep_locator_acker (b_provider b) \<noteq> None)\<rparr>) ` {u \<in> set (l_unparsed live). n_kind u \<noteq> UnknownAcknowledged}"
    using mem by auto
  then have "ti_unparsed ` {i \<in> set items. ti_edge i = b_name b} = {u \<in> set (l_unparsed live). n_kind u \<noteq> UnknownAcknowledged}"
    by (auto simp: image_iff)
  moreover from this have "(\<exists>i \<in> set items. ti_edge i = b_name b) \<longleftrightarrow> \<not> fully_parsed live"
    by (auto simp: fully_parsed_def list_all_iff image_iff)
  ultimately show ?thesis using live by (auto simp: deny_verdict_def)
qed

section \<open>What a confirmed acknowledgement says\<close>

text \<open>An acknowledgement by path is never claimed silently: when it succeeds the engine may write, an
  edge with the capability accepted it, and an edge that was asked reads the entry at that very
  path back as acknowledged.\<close>

theorem ack_route_confirmed:
  assumes "ack_route e n locator reason w = (None, w')"
  shows "\<not> g_read_only e
    \<and> (\<exists>b \<in> set (g_edges e). (n = [] \<or> b_name b = n) \<and> ep_locator_acker (b_provider b) \<noteq> None)
    \<and> (\<exists>b \<in> set (g_edges e). (n = [] \<or> b_name b = n) \<and> (\<exists>live u. ep_read (b_provider b) w' = Inr live
         \<and> u \<in> set (l_unparsed live) \<and> n_kind u = UnknownAcknowledged \<and> n_locator u = locator))"
proof -
  from assms obtain fs where "\<not> g_read_only e"
    and on: "on_edges (\<lambda>b. map_option (\<lambda>a. la_ack a locator reason) (ep_locator_acker (b_provider b))) (edges_named e n) w
       = ((True, fs), w')"
    and seen: "acknowledged_where (\<lambda>u. n_locator u = locator) (edges_named e n) w'"
    by (auto simp: ack_route_def mark_done split: if_splits)
  with on_edges_accepted [OF on] show ?thesis
    by (fastforce simp: edges_named_def acknowledged_where_iff)
qed

definition noted :: "string \<Rightarrow> unknown_kind \<Rightarrow> unparsed" where
  "noted loc k = \<lparr>n_locator = loc, n_kind = k, n_reason = ''acknowledged by operator (legacy)'', n_raw_excerpt = loc\<rparr>"

definition marking_edge :: "mem_world edge_provider" where
  "marking_edge = (mem_edge ''e'')
     \<lparr>ep_locator_acker := Some \<lparr>
        la_ack = (\<lambda>loc reason w. (None, w\<lparr>mw_edges := (\<lambda>_. (empty_live True)\<lparr>l_unparsed := [noted loc UnknownAcknowledged]\<rparr>)\<rparr>)),
        la_unack = (\<lambda>_ w. (None, w)), la_raw = (\<lambda>_ _. Inr [])\<rparr>,
      ep_acker := Some \<lparr>ak_ack = (\<lambda>_ _ w. (None, w)), ak_unack = (\<lambda>_ w. (None, w))\<rparr>\<rparr>"

definition marking_binding :: "mem_world edge_binding" where
  "marking_binding = \<lparr>b_name = ''e'', b_provider = marking_edge, b_fronts = None, b_auth_downstream = False,
     b_ingress_kind = IngressUnset, b_ingress_path = [], b_downstream_edge = [], b_downstream_address = [],
     b_downstream_scheme = []\<rparr>"

definition marking_engine :: "mem_world engine" where
  "marking_engine = new_multi [marking_binding] ''ex'' []"

definition unknown_world :: "unparsed list \<Rightarrow> mem_world" where
  "unknown_world us = \<lparr>mw_edges = (\<lambda>_. (empty_live True)\<lparr>l_unparsed := us\<rparr>), mw_dns = (\<lambda>_. [])\<rparr>"

lemma triage_worklist_witness:
  "\<exists>items live. not_understood marking_engine [] (unknown_world [noted ''r'' UnknownHandler]) = Inr items
     \<and> ep_read marking_edge (unknown_world [noted ''r'' UnknownHandler]) = Inr live
     \<and> ti_unparsed ` {i \<in> set items. ti_edge i = ''e''} = {u \<in> set (l_unparsed live). n_kind u \<noteq> UnknownAcknowledged}"
proof -
  let ?w = "unknown_world [noted ''r'' UnknownHandler]" and ?b = marking_binding
  have b: "g_edges marking_engine = [?b]" "b_name ?b = ''e''" "b_provider ?b = marking_edge"
    by (simp_all add: marking_engine_def marking_binding_def new_multi_def)
  have "case not_understood marking_engine [] ?w of Inl _ \<Rightarrow> False | Inr _ \<Rightarrow> True" by code_simp
  then obtain items where items: "not_understood marking_engine [] ?w = Inr items" by (auto split: sum.splits)
  have "distinct (map b_name (g_edges marking_engine))" "?b \<in> set (g_edges marking_engine)"
    by (simp_all add: b(1))
  from triage_worklist [OF items this] obtain live where "ep_read (b_provider ?b) ?w = Inr live"
    "ti_unparsed ` {i \<in> set items. ti_edge i = b_name ?b} = {u \<in> set (l_unparsed live). n_kind u \<noteq> UnknownAcknowledged}"
    by blast
  with items show ?thesis unfolding b(2,3) by blast
qed

lemma ack_route_confirmed_witness:
  "\<not> g_read_only marking_engine \<and> (case ack_route marking_engine [] ''r'' ''legacy'' (unknown_world [noted ''r'' UnknownHandler]) of
     (err, _) \<Rightarrow> err = None)"
proof -
  have ok: "case ack_route marking_engine [] ''r'' ''legacy'' (unknown_world [noted ''r'' UnknownHandler]) of (err, _) \<Rightarrow> err = None"
    by code_simp
  then obtain w' where "ack_route marking_engine [] ''r'' ''legacy'' (unknown_world [noted ''r'' UnknownHandler]) = (None, w')"
    by (auto split: prod.splits)
  from ack_route_confirmed [OF this] ok show ?thesis by blast
qed

text \<open>An acknowledgement by host is confirmed by any entry of any edge whose reason contains the given one:
  it can succeed while the route of the host is as unknown as before.\<close>

lemma ack_confirmed_by_other_route:
  "ack marking_engine ''b.ex'' ''legacy'' (unknown_world [noted ''a.ex'' UnknownAcknowledged, noted ''b.ex'' UnknownHandler])
     = (None, unknown_world [noted ''a.ex'' UnknownAcknowledged, noted ''b.ex'' UnknownHandler])"
proof -
  let ?w = "unknown_world [noted ''a.ex'' UnknownAcknowledged, noted ''b.ex'' UnknownHandler]"
  have "acknowledged_where (\<lambda>u. str_contains (to_lower (n_reason u)) (to_lower ''legacy'')) (g_edges marking_engine) ?w"
    by code_simp
  then show ?thesis
    by (simp add: ack_def mark_done marking_engine_def marking_binding_def marking_edge_def new_multi_def)
qed

end
