(* ===== verification/Ingress.thy ===== *)
theory Ingress
  imports Chain
begin

text \<open>
  Reachability that is decided off the edge: \<open>internal/core/ingress.go\<close> and
  \<open>resolveIngressKind\<close>/\<open>resolveIngressHosts\<close> of \<open>engine.go\<close>. A configured ingress file is its
  text and, for a Tailscale ServeConfig, the object \<open>AllowFunnel\<close> that \<open>json.Unmarshal\<close> decodes from
  it, \<open>None\<close> when decoding fails; an absent file is \<open>None\<close> in the map of the files.
\<close>

record ingress_file =
  if_text :: string
  if_funnel :: "(string \<times> bool) list option"

type_synonym ingress_files = "string \<Rightarrow> ingress_file option"

definition newline :: char where "newline = CHR 0x0A"

definition contains_key :: "string \<Rightarrow> string \<Rightarrow> bool" where
  "contains_key s key = list_ex (\<lambda>line. has_prefix key (trim_space line)) (split_on newline s)"

definition looks_like_cloudflared :: "string \<Rightarrow> bool" where
  "looks_like_cloudflared s =
     ((contains_key s ''tunnel:'' \<or> contains_key s ''credentials-file:'')
      \<and> (contains_key s ''ingress:'' \<or> str_contains s ''cloudflared'' \<or> str_contains s ''.cfargotunnel.com''))"

definition quoted :: "string \<Rightarrow> string" where
  "quoted s = CHR 0x22 # s @ [CHR 0x22]"

definition looks_like_tailscale_serve :: "string \<Rightarrow> bool" where
  "looks_like_tailscale_serve s =
     (str_contains s ''AllowFunnel''
      \<or> (str_contains s (quoted ''Web'') \<and> str_contains s (quoted ''Handlers''))
      \<or> str_contains s ''tailscale serve'' \<or> str_contains s ''funnel'')"

definition detect_ingress_file :: "ingress_file option \<Rightarrow> ingress_kind" where
  "detect_ingress_file f =
     (case f of
        None \<Rightarrow> IngressUnset
      | Some c \<Rightarrow>
          if looks_like_cloudflared (if_text c) then IngressTunnel
          else if looks_like_tailscale_serve (if_text c) then IngressOverlay
          else IngressUnknown)"

section \<open>Published hosts\<close>

definition is_quote :: "char \<Rightarrow> bool" where
  "is_quote c = (c = CHR 0x22 \<or> c = CHR 0x27)"

definition trim_quotes :: "string \<Rightarrow> string" where
  "trim_quotes s = rev (dropWhile is_quote (rev (dropWhile is_quote s)))"

text \<open>The value of a \<open>hostname:\<close> line, if the line is one and its value is not empty.\<close>

definition hostname_line :: "string \<Rightarrow> string option" where
  "hostname_line line =
     (let t = trim_space (trim_prefix ''-'' (trim_space (trim_space line)))
      in if \<not> has_prefix ''hostname:'' t then None
         else let v = trim_quotes (trim_space (trim_prefix ''hostname:'' t))
              in if v = [] then None else Some v)"

definition cloudflared_ingress_hosts :: "string \<Rightarrow> string list \<times> string list" where
  "cloudflared_ingress_hosts s =
     (let vals = List.map_filter hostname_line (split_on newline s)
      in (map to_lower (filter (\<lambda>v. \<not> has_prefix ''*.'' v) vals),
          map (\<lambda>v. to_lower (trim_prefix ''*.'' v)) (filter (has_prefix ''*.'') vals)))"

definition funnel_host :: "string \<Rightarrow> string" where
  "funnel_host key =
     trim_space (to_lower (case last_index_char key (CHR '':'') of Some i \<Rightarrow> take i key | None \<Rightarrow> key))"

definition tailscale_funnel_hosts :: "(string \<times> bool) list option \<Rightarrow> string list" where
  "tailscale_funnel_hosts decoded =
     (case decoded of
        None \<Rightarrow> []
      | Some allow \<Rightarrow> filter (\<lambda>h. h \<noteq> []) (map (funnel_host \<circ> fst) (filter snd allow)))"

text \<open>\<open>None\<close> is \<open>parsed = false\<close>.\<close>

definition tunnel_ingress_hosts :: "ingress_file option \<Rightarrow> (string list \<times> string list) option" where
  "tunnel_ingress_hosts f =
     (case f of
        None \<Rightarrow> None
      | Some c \<Rightarrow>
          if looks_like_cloudflared (if_text c) then Some (cloudflared_ingress_hosts (if_text c))
          else if looks_like_tailscale_serve (if_text c) then Some (tailscale_funnel_hosts (if_funnel c), [])
          else None)"

definition ingress_publishes :: "string \<Rightarrow> string list \<times> string list \<Rightarrow> bool" where
  "ingress_publishes host m =
     (let h = to_lower host
      in if h \<in> set (fst m) then True
         else list_ex (\<lambda>w. h \<noteq> w \<and> has_suffix (''.'' @ w) h) (snd m))"

section \<open>The verdict on an edge\<close>

definition resolve_ingress_kind :: "ingress_files \<Rightarrow> 'w edge_binding \<Rightarrow> live_edge_state \<Rightarrow> ingress_kind" where
  "resolve_ingress_kind fs b live =
     (if b_ingress_kind b \<noteq> IngressUnset then b_ingress_kind b
      else if b_ingress_path b \<noteq> [] \<and> detect_ingress_file (fs (b_ingress_path b)) \<noteq> IngressUnset
      then detect_ingress_file (fs (b_ingress_path b))
      else if l_ingress_kind live \<noteq> IngressUnset then l_ingress_kind live
      else if l_generator live = ''pangolin'' then IngressOverlay
      else IngressUnset)"

definition resolve_ingress_hosts :: "ingress_files \<Rightarrow> 'w edge_binding \<Rightarrow> (string list \<times> string list) option" where
  "resolve_ingress_hosts fs b =
     (if b_ingress_path b = [] then None else tunnel_ingress_hosts (fs (b_ingress_path b)))"

section \<open>Lemmas\<close>

text \<open>A configured file that is there always makes the edge externally fronted, unless the operator
  declared otherwise.\<close>

lemma ingress_file_external:
  assumes "b_ingress_kind b = IngressUnset" and "b_ingress_path b \<noteq> []" and "fs (b_ingress_path b) = Some f"
  shows "external (resolve_ingress_kind fs b live)"
  using assms by (auto simp: resolve_ingress_kind_def detect_ingress_file_def external_def)

text \<open>Hosts are recovered only where the file was recognized, and then the kind says so.\<close>

lemma ingress_hosts_recognized:
  "resolve_ingress_hosts fs b = Some m \<Longrightarrow> b_ingress_kind b = IngressUnset \<Longrightarrow>
     resolve_ingress_kind fs b live \<in> {IngressTunnel, IngressOverlay}"
  by (auto simp: resolve_ingress_hosts_def tunnel_ingress_hosts_def resolve_ingress_kind_def
      detect_ingress_file_def split: option.splits if_splits)

lemma split_on_append_sep: "c \<notin> set s \<Longrightarrow> split_on c (s @ c # t) = s # split_on c t"
  by (induction s) auto

end
