(* ===== verification/Auditing.thy ===== *)
theory Auditing
  imports Reconcile Ack Ingress
begin

text \<open>
  The audit of \<open>internal/core/audit.go\<close>: it reads every edge and every DNS provider once and reports
  findings, each a severity and a code with the data its message prints. The maps the Go code fills
  while it walks the edges are functions of the list of readable edges here (\<open>views\<close>); sorted keys of a
  map are the sorted, distinct list. A report that Go returns beside an error is the error alone.
\<close>

section \<open>Findings\<close>

datatype severity = SevOk | SevWarning | SevCritical

datatype chain_note =
    Followed string string string
  | Relay string string nat
  | Unresolved string string

datatype audit_code =
    EdgeUnreadable string perr
  | SniHostMismatch string string string
  | ConfigEvidenceOnly string string "int option"
  | DenyCatchallPresent string
  | DenyCatchallUnknown string nat
  | DenyCatchallMissing string
  | CoverageIncomplete string nat nat "string list"
  | AcknowledgedUnknown string nat "string list"
  | ForeignManagedReadonly string string
  | OwnershipGenerated string string
  | OwnershipUnconfirmed string "string list"
  | PangolinHTTPProvider string
  | IngressExternal string ingress_kind
  | IngressPublicHosts string ingress_kind "string list"
  | EphemeralWrites string nat persistence_model
  | ChainResolved "chain_note list"
  | ChainUnresolved "chain_note list"
  | TunnelRouteWithoutEdge ingress_kind string
  | EdgeInconsistentExposure string string
  | EdgeModeMismatch string "string list"
  | DnsValueDrift string string string string
  | PublicDnsForMeshGrant string string
  | DnsWithoutEdgeRoute string string scope
  | DnsCoverageParity string "string list" "string list"
  | DnsWildcardParity string string string string "(string \<times> string) list"
  | EdgeRouteWithoutDns string
  | EdgeRouteOutsideManagedZones "string list"
  | ExposureUnscoped string
  | PublicWithoutAuth string
  | AuthDownstream "string list"
  | InternalScopePublicRecord string string
  | InternalScopeFrontRoute string string string
  | InternalScopeTunnel string string
  | InternalScopeWildcardCovered string string
  | ExposedCount nat nat

record audit_finding =
  fd_severity :: severity
  fd_code :: audit_code

definition ok_f :: "audit_code \<Rightarrow> audit_finding" where "ok_f c = \<lparr>fd_severity = SevOk, fd_code = c\<rparr>"
definition warn_f :: "audit_code \<Rightarrow> audit_finding" where "warn_f c = \<lparr>fd_severity = SevWarning, fd_code = c\<rparr>"
definition crit_f :: "audit_code \<Rightarrow> audit_finding" where "crit_f c = \<lparr>fd_severity = SevCritical, fd_code = c\<rparr>"

record audit_scope =
  as_target_mode :: bool
  as_dns_evaluated :: bool
  as_chain_depth :: nat
  as_declared_internal :: bool
  as_evidence :: "(string \<times> evidence_kind) list"

record audit_report =
  ar_scope :: audit_scope
  ar_findings :: "audit_finding list"

definition report_ok :: "audit_report \<Rightarrow> bool" where
  "report_ok rep = (\<not> list_ex (\<lambda>f. fd_severity f = SevCritical \<or> fd_severity f = SevWarning) (ar_findings rep))"

definition has_critical :: "audit_report \<Rightarrow> bool" where
  "has_critical rep = list_ex (\<lambda>f. fd_severity f = SevCritical) (ar_findings rep)"

definition sorted_keys :: "string list \<Rightarrow> string list" where
  "sorted_keys ks = sort (remdups ks)"

definition audit_scope_of :: "'w engine \<Rightarrow> audit_scope" where
  "audit_scope_of e =
     \<lparr>as_target_mode = g_target_mode e, as_dns_evaluated = (g_dns e \<noteq> []),
      as_chain_depth = fold max (map (\<lambda>b. case chain_depth e (b_name b) of Some d \<Rightarrow> d | None \<Rightarrow> 0) (g_edges e)) 0,
      as_declared_internal = g_declared_internal e,
      as_evidence = fold (\<lambda>b m. case ep_evidence (b_provider b) of
          None \<Rightarrow> m | Some ev \<Rightarrow> AList.update (b_name b) (v_kind ev) m) (g_edges e) []\<rparr>"

section \<open>What one edge shows\<close>

type_synonym 'w view = "'w edge_binding \<times> live_edge_state"

definition edge_label :: "'w edge_binding \<Rightarrow> nat \<Rightarrow> string" where
  "edge_label b n = (if n \<le> 1 then [] else ''edge['' @ b_name b @ '']: '')"

definition view_hosts :: "'w view \<Rightarrow> string list" where
  "view_hosts v = map (\<lambda>r. to_lower (r_host r)) (l_routes (snd v))"

definition edge_evidence_runtime :: "'w edge_binding \<Rightarrow> bool" where
  "edge_evidence_runtime b =
     (case ep_evidence (b_provider b) of Some ev \<Rightarrow> v_kind ev = EvidenceRuntime | None \<Rightarrow> False)"

definition unparsed_locators :: "unparsed list \<Rightarrow> string list" where
  "unparsed_locators us = map n_locator (take 4 us)"

definition crenel_managed_route_count :: "route list \<Rightarrow> nat" where
  "crenel_managed_route_count rs = length (filter (\<lambda>r. r_ownership r = OwnCrenel \<or> r_managed r) rs)"

definition unconfirmed_ownership_hosts :: "route list \<Rightarrow> string list" where
  "unconfirmed_ownership_hosts rs =
     sort (map r_host (filter (\<lambda>r. r_ownership r = OwnForeign \<or> r_ownership r = OwnUnknown) rs))"

definition chain_note_of :: "chain_context \<Rightarrow> 'w edge_binding \<Rightarrow> route \<Rightarrow> chain_note option" where
  "chain_note_of cc b r =
     (case resolve_chain cc b r of
        None \<Rightarrow> None
      | Some link \<Rightarrow> Some
          (let covered = wildcard_forward_coverage cc b r
           in if k_resolved link then Followed (r_host r) (k_downstream_edge link) (k_address link)
              else if covered \<noteq> [] then Relay (r_host r) (k_downstream_edge link) (length covered)
              else Unresolved (r_host r) (k_reason link)))"

definition sni_findings :: "string \<Rightarrow> route \<Rightarrow> audit_finding list" where
  "sni_findings lbl r =
     (let sni = u_server_name (r_upstream r)
      in if u_mode (r_upstream r) = ModeHTTPProxy \<and> sni \<noteq> [] \<and> \<not> equal_fold sni (r_host r)
         then [warn_f (SniHostMismatch lbl (r_host r) sni)] else [])"

definition evidence_findings :: "string \<Rightarrow> 'w edge_binding \<Rightarrow> audit_finding list" where
  "evidence_findings lbl b =
     (case ep_evidence (b_provider b) of
        None \<Rightarrow> []
      | Some ev \<Rightarrow> if v_kind ev = EvidenceConfig
          then [ok_f (ConfigEvidenceOnly lbl (v_source ev) (v_mod_time ev))] else [])"

definition deny_findings :: "string \<Rightarrow> live_edge_state \<Rightarrow> audit_finding list" where
  "deny_findings lbl live =
     (case deny_verdict live of
        DenyEnforced \<Rightarrow> [ok_f (DenyCatchallPresent lbl)]
      | DenyUnknown \<Rightarrow> [warn_f (DenyCatchallUnknown lbl (length (fst (split_acknowledged (l_unparsed live)))))]
      | DenyMissing \<Rightarrow> [crit_f (DenyCatchallMissing lbl)])"

definition coverage_findings :: "string \<Rightarrow> live_edge_state \<Rightarrow> audit_finding list" where
  "coverage_findings lbl live =
     (let (unknown, acked) = split_acknowledged (l_unparsed live); (understood, all) = coverage live
      in (if unknown \<noteq> []
          then [warn_f (CoverageIncomplete lbl understood (all - length acked) (unparsed_locators unknown))] else [])
       @ (if acked \<noteq> []
          then [ok_f (AcknowledgedUnknown lbl (length acked) (unparsed_locators acked))] else []))"

definition ownership_findings :: "'w engine \<Rightarrow> string \<Rightarrow> live_edge_state \<Rightarrow> audit_finding list" where
  "ownership_findings e lbl live =
     (if l_generator live \<noteq> [] then
        (if g_read_only e then [ok_f (ForeignManagedReadonly lbl (l_generator live))]
         else [warn_f (OwnershipGenerated lbl (l_generator live))])
      else (let hs = unconfirmed_ownership_hosts (l_routes live)
            in if hs \<noteq> [] then [warn_f (OwnershipUnconfirmed lbl hs)] else []))"

definition pangolin_findings :: "string \<Rightarrow> 'w view \<Rightarrow> audit_finding list" where
  "pangolin_findings lbl v =
     (if l_generator (snd v) = ''pangolin'' \<and> \<not> edge_evidence_runtime (fst v)
      then [warn_f (PangolinHTTPProvider lbl)] else [])"

text \<open>The hosts an external ingress is known to publish, where its own rules could be read.\<close>

definition recovered :: "ingress_files \<Rightarrow> 'w view \<Rightarrow> (string list \<times> string list) option" where
  "recovered fs v =
     (if external (resolve_ingress_kind fs (fst v) (snd v)) then resolve_ingress_hosts fs (fst v) else None)"

definition ingress_findings :: "ingress_files \<Rightarrow> string \<Rightarrow> 'w view \<Rightarrow> audit_finding list" where
  "ingress_findings fs lbl v =
     (let ing = resolve_ingress_kind fs (fst v) (snd v)
      in if \<not> external ing then []
         else warn_f (IngressExternal lbl ing)
           # (case recovered fs v of
                None \<Rightarrow> []
              | Some m \<Rightarrow>
                  (let observed = filter (\<lambda>h. ingress_publishes h m) (sorted_keys (view_hosts v))
                   in if observed \<noteq> [] then [ok_f (IngressPublicHosts lbl ing observed)] else [])))"

definition ephemeral_findings :: "string \<Rightarrow> live_edge_state \<Rightarrow> audit_finding list" where
  "ephemeral_findings lbl live =
     (let n = crenel_managed_route_count (l_routes live)
      in if ephemeral_writes (l_persistence live) \<and> 0 < n
         then [warn_f (EphemeralWrites lbl n (l_persistence live))] else [])"

definition live_findings :: "'w engine \<Rightarrow> ingress_files \<Rightarrow> 'w view \<Rightarrow> audit_finding list" where
  "live_findings e fs v =
     (let lbl = edge_label (fst v) (length (g_edges e)); live = snd v
      in concat (map (sni_findings lbl) (l_routes live)) @ evidence_findings lbl (fst v)
         @ deny_findings lbl live @ coverage_findings lbl live @ ownership_findings e lbl live
         @ pangolin_findings lbl v @ ingress_findings fs lbl v @ ephemeral_findings lbl live)"

definition edge_findings :: "'w engine \<Rightarrow> ingress_files \<Rightarrow> (string \<times> edge_read) list \<Rightarrow> 'w edge_binding \<Rightarrow> audit_finding list" where
  "edge_findings e fs reads b =
     (case map_of reads (b_name b) of
        None \<Rightarrow> []
      | Some rd \<Rightarrow>
          (case er_err rd of
             Some err \<Rightarrow> [warn_f (EdgeUnreadable (edge_label b (length (g_edges e))) err)]
           | None \<Rightarrow> live_findings e fs (b, er_live rd)))"

section \<open>What the edges show together\<close>

definition views :: "'w engine \<Rightarrow> (string \<times> edge_read) list \<Rightarrow> 'w view list" where
  "views e reads =
     List.map_filter (\<lambda>b. case map_of reads (b_name b) of
         None \<Rightarrow> None
       | Some rd \<Rightarrow> if er_err rd = None then Some (b, er_live rd) else None) (g_edges e)"

definition exposed_hosts :: "'w view list \<Rightarrow> string list" where
  "exposed_hosts vs = sorted_keys (concat (map view_hosts vs))"

definition host_modes :: "'w view list \<Rightarrow> string \<Rightarrow> route_mode list" where
  "host_modes vs h =
     remdups (map (\<lambda>r. u_mode (r_upstream r))
       (filter (\<lambda>r. to_lower (r_host r) = h) (concat (map (\<lambda>v. l_routes (snd v)) vs))))"

definition is_mesh_grant :: "'w view list \<Rightarrow> string \<Rightarrow> bool" where
  "is_mesh_grant vs h = (ModeMeshGrant \<in> set (host_modes vs h))"

definition auths_of :: "chain_context \<Rightarrow> 'w view list \<Rightarrow> string \<Rightarrow> string list" where
  "auths_of cc vs h =
     concat (map (\<lambda>v. map (effective_auth cc (fst v))
       (filter (\<lambda>r. to_lower (r_host r) = h) (l_routes (snd v)))) vs)"

definition host_auth :: "chain_context \<Rightarrow> 'w view list \<Rightarrow> string \<Rightarrow> bool" where
  "host_auth cc vs h = list_ex (\<lambda>a. a \<noteq> auth_downstream_marker \<and> a \<noteq> []) (auths_of cc vs h)"

definition host_auth_downstream :: "chain_context \<Rightarrow> 'w view list \<Rightarrow> string \<Rightarrow> bool" where
  "host_auth_downstream cc vs h = list_ex (\<lambda>a. a = auth_downstream_marker) (auths_of cc vs h)"

definition tunnel_public :: "ingress_files \<Rightarrow> 'w view list \<Rightarrow> string \<Rightarrow> bool" where
  "tunnel_public fs vs h =
     list_ex (\<lambda>v. case recovered fs v of
         None \<Rightarrow> False | Some m \<Rightarrow> h \<in> set (view_hosts v) \<and> ingress_publishes h m) vs"

definition on_plain_edge :: "ingress_files \<Rightarrow> 'w view list \<Rightarrow> string \<Rightarrow> bool" where
  "on_plain_edge fs vs h = list_ex (\<lambda>v. h \<in> set (view_hosts v) \<and> recovered fs v = None) vs"

definition chain_findings :: "chain_context \<Rightarrow> 'w view list \<Rightarrow> audit_finding list" where
  "chain_findings cc vs =
     (let notes = concat (map (\<lambda>v. List.map_filter (chain_note_of cc (fst v)) (l_routes (snd v))) vs);
          bad = filter (\<lambda>n. case n of Unresolved _ _ \<Rightarrow> True | _ \<Rightarrow> False) notes;
          good = filter (\<lambda>n. case n of Unresolved _ _ \<Rightarrow> False | _ \<Rightarrow> True) notes
      in (if good \<noteq> [] then [ok_f (ChainResolved good)] else [])
         @ (if bad \<noteq> [] then [warn_f (ChainUnresolved bad)] else []))"

definition dangling_tunnel_findings :: "ingress_files \<Rightarrow> 'w view list \<Rightarrow> audit_finding list" where
  "dangling_tunnel_findings fs vs =
     concat (map (\<lambda>v. case recovered fs v of
         None \<Rightarrow> []
       | Some m \<Rightarrow> map (\<lambda>h. warn_f (TunnelRouteWithoutEdge (resolve_ingress_kind fs (fst v) (snd v)) h))
           (filter (\<lambda>h. to_lower h \<notin> set (exposed_hosts vs)) (sorted_keys (fst m)))) vs)"

definition cross_edge_findings :: "'w engine \<Rightarrow> 'w view list \<Rightarrow> audit_finding list" where
  "cross_edge_findings e vs =
     (if length (g_edges e) \<le> 1 then []
      else concat (map (\<lambda>h. map (\<lambda>v. warn_f (EdgeInconsistentExposure h (b_name (fst v))))
        (filter (\<lambda>v. fronts (fst v) (service_of e h) \<and> h \<notin> set (view_hosts v)) vs)) (exposed_hosts vs)))"

definition mode_findings :: "'w view list \<Rightarrow> audit_finding list" where
  "mode_findings vs =
     concat (map (\<lambda>h. if 1 < length (host_modes vs h)
         then [warn_f (EdgeModeMismatch h (sort (map mode_string (host_modes vs h))))] else [])
       (exposed_hosts vs))"

section \<open>DNS against the edges\<close>

type_synonym 'w dns_view = "'w dns_provider \<times> dns_record list \<times> dns_record list"

definition read_dns :: "'w \<Rightarrow> 'w dns_provider \<Rightarrow> core_err + 'w dns_view" where
  "read_dns w dp =
     (case dp_live dp w of
        Inl err \<Rightarrow> Inl (ErrDNSLive (dp_name dp) err)
      | Inr recs \<Rightarrow> rbind (dns_coverage_records dp recs w) (\<lambda>cov. Inr (dp, recs, cov)))"

definition has_public_dns :: "'w engine \<Rightarrow> bool" where
  "has_public_dns e = list_ex (\<lambda>dp. dp_scope dp = ScopePublic) (g_dns e)"

definition public_dns_hosts :: "'w dns_view list \<Rightarrow> string list" where
  "public_dns_hosts ds =
     concat (map (\<lambda>(dp, recs, cov). map (\<lambda>r. to_lower (d_name r)) (filter (\<lambda>r. d_scope r = ScopePublic) recs)) ds)"

definition dns_covered :: "'w dns_view list \<Rightarrow> string list" where
  "dns_covered ds =
     concat (map (\<lambda>(dp, recs, cov). map (\<lambda>r. to_lower (d_name r)) (filter (\<lambda>r. \<not> is_wildcard_name (d_name r)) cov)
       @ map (\<lambda>r. to_lower (d_name r)) recs) ds)"

definition all_wildcards :: "'w dns_view list \<Rightarrow> dns_record list" where
  "all_wildcards ds = concat (map (\<lambda>(dp, recs, cov). filter (\<lambda>r. is_wildcard_name (d_name r)) cov) ds)"

definition public_views :: "'w dns_view list \<Rightarrow> 'w dns_view list" where
  "public_views ds = filter (\<lambda>d. dp_scope (fst d) = ScopePublic) ds"

definition public_coverage :: "'w dns_view list \<Rightarrow> string list" where
  "public_coverage ds =
     concat (map (\<lambda>(dp, recs, cov). map (\<lambda>r. to_lower (d_name r)) (filter (\<lambda>r. \<not> is_wildcard_name (d_name r)) cov))
       (public_views ds))"

definition wildcard_backs_any_exposed :: "string \<Rightarrow> string list \<Rightarrow> bool" where
  "wildcard_backs_any_exposed pattern exposed = list_ex (wildcard_pattern_covers pattern) exposed"

definition value_drift_findings :: "'w dns_provider \<Rightarrow> dns_record \<Rightarrow> audit_finding list" where
  "value_drift_findings dp r =
     (if dp_owns_all dp \<noteq> Some True then []
      else (case dp_desired dp (mk_op Expose [] (d_name r)) of
              Inl _ \<Rightarrow> []
            | Inr ds \<Rightarrow> map (\<lambda>want. (if d_scope r = ScopePublic then crit_f else warn_f)
                  (DnsValueDrift (d_type r) (d_name r) (d_value r) (d_value want)))
                (filter (\<lambda>want. equal_fold (d_name want) (d_name r) \<and> equal_fold (d_type want) (d_type r)
                   \<and> \<not> equal_fold (d_value want) (d_value r)) ds)))"

definition dangling_findings :: "'w view list \<Rightarrow> dns_record \<Rightarrow> audit_finding list" where
  "dangling_findings vs r =
     (let h = to_lower (d_name r)
      in if (if is_wildcard_name h then wildcard_backs_any_exposed h (exposed_hosts vs) else h \<in> set (exposed_hosts vs))
         then []
         else [(if d_scope r = ScopePublic then crit_f else warn_f) (DnsWithoutEdgeRoute (d_type r) (d_name r) (d_scope r))])"

definition record_findings :: "'w view list \<Rightarrow> 'w dns_provider \<Rightarrow> dns_record \<Rightarrow> audit_finding list" where
  "record_findings vs dp r =
     value_drift_findings dp r
     @ (if d_scope r = ScopePublic \<and> is_mesh_grant vs (to_lower (d_name r))
        then [warn_f (PublicDnsForMeshGrant (d_type r) (d_name r))] else [])
     @ dangling_findings vs r"

definition dns_findings :: "'w view list \<Rightarrow> 'w dns_view list \<Rightarrow> audit_finding list" where
  "dns_findings vs ds = concat (map (\<lambda>(dp, recs, cov). concat (map (record_findings vs dp) recs)) ds)"

section \<open>Parity of the internal resolvers\<close>

record internal_cov =
  ic_name :: string
  ic_zone :: string
  ic_recs :: "dns_record list"

datatype presence = Explicitly string | By_wildcard dns_record | Absent

definition internal_covs :: "'w dns_view list \<Rightarrow> internal_cov list" where
  "internal_covs ds =
     map (\<lambda>(dp, recs, cov). \<lparr>ic_name = dp_name dp, ic_zone = dns_zone dp, ic_recs = recs\<rparr>)
       (filter (\<lambda>d. dp_scope (fst d) = ScopeInternal) ds)"

definition explicit_recs :: "internal_cov \<Rightarrow> dns_record list" where
  "explicit_recs ic = filter (\<lambda>r. \<not> is_wildcard_name (to_lower (d_name r))) (ic_recs ic)"

definition presence_on :: "string \<Rightarrow> internal_cov \<Rightarrow> presence" where
  "presence_on host ic =
     (case map_of (rev (map (\<lambda>r. (to_lower (d_name r), d_value r)) (explicit_recs ic))) host of
        Some v \<Rightarrow> Explicitly v
      | None \<Rightarrow>
          (case wildcard_covering (filter (\<lambda>r. is_wildcard_name (to_lower (d_name r))) (ic_recs ic)) host of
             Some q \<Rightarrow> By_wildcard q | None \<Rightarrow> Absent))"

text \<open>The maps by provider name keep the last entry of a name.\<close>

definition named_values :: "(string \<times> 'a) list \<Rightarrow> (string \<times> 'a) list" where
  "named_values kvs = map (\<lambda>k. (k, the (map_of (rev kvs) k))) (sorted_keys (map fst kvs))"

definition parity_host :: "internal_cov list \<Rightarrow> string \<Rightarrow> audit_finding list" where
  "parity_host peers host =
     (let at = map (\<lambda>ic. (ic_name ic, presence_on host ic)) peers;
          missing = sort (map fst (filter (\<lambda>p. snd p = Absent) at));
          present = sort (map fst (filter (\<lambda>p. snd p \<noteq> Absent) at));
          subst = named_values (List.map_filter (\<lambda>(n, p). case p of By_wildcard q \<Rightarrow> Some (n, q) | _ \<Rightarrow> None) at);
          explicit = named_values (List.map_filter (\<lambda>(n, p). case p of Explicitly v \<Rightarrow> Some (n, v) | _ \<Rightarrow> None) at)
      in if missing \<noteq> [] then [warn_f (DnsCoverageParity host present missing)]
         else if subst = [] \<or> explicit = [] then []
         else map (\<lambda>(n, q). warn_f (DnsWildcardParity host n (to_lower (d_name q)) (d_value q) explicit))
           (filter (\<lambda>(n, q). to_lower (d_value q) \<notin> set (map (\<lambda>(_, v). to_lower v) explicit)) subst))"

definition parity_findings :: "internal_cov list \<Rightarrow> audit_finding list" where
  "parity_findings ics =
     concat (map (\<lambda>z. let peers = filter (\<lambda>ic. ic_zone ic = z) ics
         in if length peers < 2 then []
            else concat (map (parity_host peers)
              (sorted_keys (concat (map (\<lambda>ic. map (\<lambda>r. to_lower (d_name r)) (explicit_recs ic)) peers)))))
       (uniq_by id [] (map ic_zone ics)))"

section \<open>Names, authentication and the internal scope\<close>

definition unreachable_findings :: "'w engine \<Rightarrow> 'w view list \<Rightarrow> 'w dns_view list \<Rightarrow> audit_finding list" where
  "unreachable_findings e vs ds =
     (if g_dns e = [] then []
      else (let nameless = filter (\<lambda>h. h \<notin> set (dns_covered ds) \<and> wildcard_covering (all_wildcards ds) h = None)
                  (exposed_hosts vs);
                outside = filter (\<lambda>h. \<not> any_managed_zone_covers e h) nameless
            in map (\<lambda>h. warn_f (EdgeRouteWithoutDns h)) (filter (any_managed_zone_covers e) nameless)
               @ (if outside \<noteq> [] then [ok_f (EdgeRouteOutsideManagedZones outside)] else [])))"

text \<open>Public by observation, and public by the default that the edge is the boundary.\<close>

definition observed_public :: "'w engine \<Rightarrow> ingress_files \<Rightarrow> 'w view list \<Rightarrow> 'w dns_view list \<Rightarrow> string \<Rightarrow> bool" where
  "observed_public e fs vs ds h = (tunnel_public fs vs h \<or> (has_public_dns e \<and> h \<in> set (public_dns_hosts ds)))"

definition is_public :: "'w engine \<Rightarrow> ingress_files \<Rightarrow> 'w view list \<Rightarrow> 'w dns_view list \<Rightarrow> string \<Rightarrow> bool" where
  "is_public e fs vs ds h =
     (tunnel_public fs vs h
      \<or> (if has_public_dns e then h \<in> set (public_dns_hosts ds) else on_plain_edge fs vs h))"

definition auth_findings :: "'w engine \<Rightarrow> ingress_files \<Rightarrow> chain_context \<Rightarrow> 'w view list \<Rightarrow> 'w dns_view list \<Rightarrow> audit_finding list" where
  "auth_findings e fs cc vs ds =
     (let open = filter (\<lambda>h. \<not> is_mesh_grant vs h \<and> \<not> host_auth cc vs h \<and> is_public e fs vs ds h) (exposed_hosts vs);
          downstream = filter (host_auth_downstream cc vs) open
      in map (\<lambda>h. if g_declared_internal e \<and> \<not> observed_public e fs vs ds h
              then ok_f (ExposureUnscoped h) else warn_f (PublicWithoutAuth h))
           (filter (\<lambda>h. \<not> host_auth_downstream cc vs h) open)
         @ (if downstream \<noteq> [] then [ok_f (AuthDownstream downstream)] else []))"

definition front_findings :: "string \<Rightarrow> string \<Rightarrow> 'w view list \<Rightarrow> audit_finding list" where
  "front_findings svc host vs =
     map (\<lambda>v. crit_f (InternalScopeFrontRoute svc (b_name (fst v)) host))
       (filter (\<lambda>v. is_chain_front (fst v) \<and> has_host (snd v) host) vs)"

definition front_wildcard :: "string \<Rightarrow> 'w view list \<Rightarrow> bool" where
  "front_wildcard host vs =
     list_ex (\<lambda>v. is_chain_front (fst v) \<and> \<not> has_host (snd v) host
       \<and> (case wildcard_route_covering (l_routes (snd v)) host of
            Some r \<Rightarrow> chain_forward (fst v) r | None \<Rightarrow> False)) vs"

definition internal_scope_findings :: "'w engine \<Rightarrow> ingress_files \<Rightarrow> 'w view list \<Rightarrow> 'w dns_view list \<Rightarrow> string \<Rightarrow> audit_finding list" where
  "internal_scope_findings e fs vs ds svc =
     (let host = to_lower (o_host (build_op e Expose svc))
      in (if host \<in> set (public_coverage ds) then [crit_f (InternalScopePublicRecord svc host)] else [])
         @ front_findings svc host vs
         @ (if tunnel_public fs vs host then [crit_f (InternalScopeTunnel svc host)] else [])
         @ (if wildcard_covering (all_wildcards (public_views ds)) host \<noteq> None \<and> front_wildcard host vs
            then [warn_f (InternalScopeWildcardCovered svc host)] else []))"

section \<open>The audit\<close>

definition audit_findings :: "'w engine \<Rightarrow> ingress_files \<Rightarrow> (string \<times> edge_read) list \<Rightarrow> 'w dns_view list \<Rightarrow> audit_finding list" where
  "audit_findings e fs reads ds =
     (let cc = build_chain_context reads; vs = views e reads
      in concat (map (edge_findings e fs reads) (g_edges e))
         @ chain_findings cc vs @ dangling_tunnel_findings fs vs @ cross_edge_findings e vs @ mode_findings vs
         @ dns_findings vs ds @ parity_findings (internal_covs ds) @ unreachable_findings e vs ds
         @ auth_findings e fs cc vs ds
         @ concat (map (internal_scope_findings e fs vs ds) (sorted_keys (map fst (g_internal_scope e))))
         @ [ok_f (ExposedCount (length (exposed_hosts vs)) (length (g_edges e)))])"

definition audit :: "'w engine \<Rightarrow> ingress_files \<Rightarrow> 'w \<Rightarrow> core_err + audit_report" where
  "audit e fs w =
     (case read_all e w of
        Inl (n, err) \<Rightarrow> Inl (ErrReadEdge n err)
      | Inr reads \<Rightarrow> rbind (rmap (read_dns w) (g_dns e)) (\<lambda>ds.
          Inr \<lparr>ar_scope = audit_scope_of e, ar_findings = audit_findings e fs reads ds\<rparr>))"

section \<open>Lemmas\<close>

lemma finding_simps [simp]:
  "fd_severity (ok_f c) = SevOk" "fd_severity (warn_f c) = SevWarning" "fd_severity (crit_f c) = SevCritical"
  "fd_code (ok_f c) = c" "fd_code (warn_f c) = c" "fd_code (crit_f c) = c"
  by (simp_all add: ok_f_def warn_f_def crit_f_def)

definition all_ok :: "audit_finding list \<Rightarrow> bool" where
  "all_ok fs \<longleftrightarrow> (\<forall>f \<in> set fs. fd_severity f = SevOk)"

definition some_finding :: "(audit_finding \<Rightarrow> bool) \<Rightarrow> audit_finding list \<Rightarrow> bool" where
  "some_finding p fs \<longleftrightarrow> (\<exists>f \<in> set fs. p f)"

abbreviation any_critical :: "audit_finding list \<Rightarrow> bool" where
  "any_critical \<equiv> some_finding (\<lambda>f. fd_severity f = SevCritical)"

lemma all_ok_simps [simp]:
  "all_ok []" "all_ok (f # fs) \<longleftrightarrow> fd_severity f = SevOk \<and> all_ok fs"
  "all_ok (fs @ gs) \<longleftrightarrow> all_ok fs \<and> all_ok gs" "all_ok (concat fss) \<longleftrightarrow> (\<forall>fs \<in> set fss. all_ok fs)"
  "all_ok (if c then fs else gs) \<longleftrightarrow> (if c then all_ok fs else all_ok gs)"
  by (auto simp: all_ok_def)

lemma some_finding_simps [simp]:
  "\<not> some_finding p []" "some_finding p (f # fs) \<longleftrightarrow> p f \<or> some_finding p fs"
  "some_finding p (fs @ gs) \<longleftrightarrow> some_finding p fs \<or> some_finding p gs"
  "some_finding p (concat (map g' ys)) \<longleftrightarrow> (\<exists>y \<in> set ys. some_finding p (g' y))"
  "some_finding p (if c then fs else gs) \<longleftrightarrow> (if c then some_finding p fs else some_finding p gs)"
  "some_finding p (map g xs) \<longleftrightarrow> (\<exists>x \<in> set xs. p (g x))"
  by (auto simp: some_finding_def)

lemma report_ok_iff: "report_ok rep \<longleftrightarrow> all_ok (ar_findings rep)"
proof -
  have "fd_severity f = SevOk \<longleftrightarrow> \<not> (fd_severity f = SevCritical \<or> fd_severity f = SevWarning)" for f
    by (cases "fd_severity f") auto
  then show ?thesis by (auto simp: report_ok_def all_ok_def list_ex_iff)
qed

lemma has_critical_iff: "has_critical rep \<longleftrightarrow> any_critical (ar_findings rep)"
  by (simp add: has_critical_def some_finding_def list_ex_iff)

lemma set_sorted_keys [simp]: "set (sorted_keys ks) = set ks"
  by (simp add: sorted_keys_def)

lemma sorted_keys_eq_Nil [simp]: "sorted_keys ks = [] \<longleftrightarrow> ks = []"
  by (metis set_sorted_keys set_empty)

lemma set_exposed_hosts: "set (exposed_hosts vs) = (\<Union>v \<in> set vs. set (view_hosts v))"
  by (simp add: exposed_hosts_def)

lemma set_map_filter_iff: "y \<in> set (List.map_filter f xs) \<longleftrightarrow> (\<exists>x \<in> set xs. f x = Some y)"
  by (induction xs) (auto simp: map_filter_simps split: option.splits)

text \<open>The views are the edges that could be read, as they read.\<close>

lemma reads_of_edge:
  assumes "read_all e w = Inr reads" and "distinct (map b_name (g_edges e))" and "b \<in> set (g_edges e)"
  shows "map_of reads (b_name b) = Some (read_of w b)"
proof -
  have "binding e (b_name b) = Some b"
    using assms(2,3) by (rule binding_of_member)
  with read_all_lookup [OF assms(1,2)] show ?thesis by simp
qed

lemma views_mem:
  assumes "read_all e w = Inr reads" and "distinct (map b_name (g_edges e))"
  shows "(b, live) \<in> set (views e reads) \<longleftrightarrow> b \<in> set (g_edges e) \<and> ep_read (b_provider b) w = Inr live"
proof -
  have "(b, live) \<in> set (views e reads) \<longleftrightarrow> b \<in> set (g_edges e)
      \<and> (\<exists>rd. map_of reads (b_name b) = Some rd \<and> er_err rd = None \<and> er_live rd = live)"
    by (fastforce simp: views_def set_map_filter_iff split: option.splits if_splits)
  also have "\<dots> \<longleftrightarrow> b \<in> set (g_edges e) \<and> ep_read (b_provider b) w = Inr live"
    using reads_of_edge [OF assms] by (auto simp: read_of_def split: sum.splits)
  finally show ?thesis .
qed

lemma edge_findings_readable:
  assumes "read_all e w = Inr reads" and "distinct (map b_name (g_edges e))" and "b \<in> set (g_edges e)"
  shows "edge_findings e fs reads b =
     (case ep_read (b_provider b) w of
        Inl err \<Rightarrow> [warn_f (EdgeUnreadable (edge_label b (length (g_edges e))) err)]
      | Inr live \<Rightarrow> live_findings e fs (b, live))"
  using reads_of_edge [OF assms] by (simp add: edge_findings_def read_of_def split: sum.splits)

lemma audit_done:
  "audit e fs w = Inr rep \<longleftrightarrow> (\<exists>reads ds. read_all e w = Inr reads \<and> rmap (read_dns w) (g_dns e) = Inr ds
     \<and> rep = \<lparr>ar_scope = audit_scope_of e, ar_findings = audit_findings e fs reads ds\<rparr>)"
  by (auto simp: audit_def rbind_Inr split: sum.splits)

section \<open>What a clean audit means\<close>

lemma unconfirmed_none: "unconfirmed_ownership_hosts rs = [] \<longleftrightarrow> (\<forall>r \<in> set rs. mutable (r_ownership r))"
proof -
  have "unconfirmed_ownership_hosts rs = [] \<longleftrightarrow> set (unconfirmed_ownership_hosts rs) = {}" by simp
  also have "\<dots> \<longleftrightarrow> (\<forall>r \<in> set rs. mutable (r_ownership r))"
    by (auto simp: unconfirmed_ownership_hosts_def mutable_iff)
  finally show ?thesis .
qed

lemma live_findings_all_ok:
  "all_ok (live_findings e fs (b, live)) \<Longrightarrow>
     deny_verdict live = DenyEnforced \<and> \<not> external (resolve_ingress_kind fs b live)
     \<and> (if l_generator live = [] then \<forall>r \<in> set (l_routes live). mutable (r_ownership r) else g_read_only e)
     \<and> (ephemeral_writes (l_persistence live) \<longrightarrow> (\<forall>r \<in> set (l_routes live). \<not> r_managed r \<and> r_ownership r \<noteq> OwnCrenel))"
  by (auto simp: live_findings_def Let_def deny_findings_def ingress_findings_def ownership_findings_def
      ephemeral_findings_def crenel_managed_route_count_def unconfirmed_none filter_empty_conv split: deny_state.splits if_splits)

text \<open>C30. A clean audit certifies every edge: it could be read, everything in it was understood or
  acknowledged and its default deny holds, its listener is the only way in, crenel may manage
  every route of it unless the engine is declared read-only, and no route of crenel's is lost at a
  restart.\<close>

theorem audit_ok_edges:
  assumes "audit e fs w = Inr rep" and "report_ok rep" and "distinct (map b_name (g_edges e))"
    and "b \<in> set (g_edges e)"
  shows "\<exists>live. ep_read (b_provider b) w = Inr live \<and> deny_verdict live = DenyEnforced
    \<and> \<not> external (resolve_ingress_kind fs b live)
    \<and> (if l_generator live = [] then \<forall>r \<in> set (l_routes live). mutable (r_ownership r) else g_read_only e)
    \<and> (ephemeral_writes (l_persistence live) \<longrightarrow> (\<forall>r \<in> set (l_routes live). \<not> r_managed r \<and> r_ownership r \<noteq> OwnCrenel))"
proof -
  obtain reads ds where reads: "read_all e w = Inr reads" and "all_ok (audit_findings e fs reads ds)"
    using assms(1,2) by (auto simp: audit_done report_ok_iff)
  with assms(4) have ok: "all_ok (edge_findings e fs reads b)"
    by (auto simp: audit_findings_def Let_def)
  show ?thesis
  proof (cases "ep_read (b_provider b) w")
    case (Inl err)
    with ok show ?thesis by (simp add: edge_findings_readable [OF reads assms(3,4)])
  next
    case (Inr live)
    with ok have "all_ok (live_findings e fs (b, live))" by (simp add: edge_findings_readable [OF reads assms(3,4)])
    from live_findings_all_ok [OF this] Inr show ?thesis by simp
  qed
qed

lemma auths_of_mem:
  "a \<in> set (auths_of cc vs h) \<longleftrightarrow>
     (\<exists>v \<in> set vs. \<exists>r \<in> set (l_routes (snd v)). to_lower (r_host r) = h \<and> a = effective_auth cc (fst v) r)"
  by (auto simp: auths_of_def)

lemma is_mesh_grant_iff:
  "is_mesh_grant vs h \<longleftrightarrow>
     (\<exists>v \<in> set vs. \<exists>r \<in> set (l_routes (snd v)). to_lower (r_host r) = h \<and> u_mode (r_upstream r) = ModeMeshGrant)"
  by (force simp: is_mesh_grant_def host_modes_def)

lemma read_dns_Inr_iff:
  "read_dns w dp = Inr (dp', recs, cov) \<longleftrightarrow>
     dp' = dp \<and> dp_live dp w = Inr recs \<and> dns_coverage_records dp recs w = Inr cov"
  by (cases "dp_live dp w") (auto simp: read_dns_def rbind_Inr)

lemma read_dns_Inr:
  "rmap (read_dns w) dps = Inr ds \<Longrightarrow> dp \<in> set dps \<Longrightarrow>
     \<exists>recs cov. dp_live dp w = Inr recs \<and> dns_coverage_records dp recs w = Inr cov \<and> (dp, recs, cov) \<in> set ds"
proof (induction dps arbitrary: ds)
  case (Cons d dps)
  obtain x xs where x: "read_dns w d = Inr x" and xs: "rmap (read_dns w) dps = Inr xs" and ds: "ds = x # xs"
    using Cons.prems(1) by (auto split: sum.splits)
  show ?case
  proof (cases "dp = d")
    case True
    with x ds show ?thesis by (cases x) (auto simp: read_dns_Inr_iff)
  next
    case False
    with Cons xs ds show ?thesis by auto
  qed
qed simp

lemma read_dns_mem:
  "rmap (read_dns w) dps = Inr ds \<Longrightarrow> (dp, recs, cov) \<in> set ds \<Longrightarrow>
     dp \<in> set dps \<and> dp_live dp w = Inr recs \<and> dns_coverage_records dp recs w = Inr cov"
  by (drule (1) rmap_Inr_set) (auto simp: read_dns_Inr_iff)

lemma auth_findings_clean:
  assumes "all_ok (auth_findings e fs cc vs ds)" and "h \<in> set (exposed_hosts vs)" and "is_public e fs vs ds h"
    and "g_declared_internal e \<longrightarrow> observed_public e fs vs ds h"
  shows "is_mesh_grant vs h \<or> host_auth cc vs h \<or> host_auth_downstream cc vs h"
proof (rule ccontr)
  assume "\<not> ?thesis"
  with assms(2-4) have "warn_f (PublicWithoutAuth h) \<in> set (auth_findings e fs cc vs ds)"
    by (auto simp: auth_findings_def Let_def intro!: image_eqI [of _ _ h])
  with assms(1) show False by (auto simp: all_ok_def)
qed

lemma protected_iff:
  "is_mesh_grant vs h \<or> host_auth cc vs h \<or> host_auth_downstream cc vs h \<longleftrightarrow>
     (\<exists>v \<in> set vs. \<exists>r \<in> set (l_routes (snd v)). to_lower (r_host r) = h
        \<and> (u_mode (r_upstream r) = ModeMeshGrant \<or> effective_auth cc (fst v) r \<noteq> []))"
proof -
  have "host_auth cc vs h \<or> host_auth_downstream cc vs h \<longleftrightarrow> (\<exists>a. a \<in> set (auths_of cc vs h) \<and> a \<noteq> [])"
  proof -
    have "auth_downstream_marker \<noteq> []" by (simp add: auth_downstream_marker_def)
    then show ?thesis
      unfolding host_auth_def host_auth_downstream_def list_ex_iff by blast
  qed
  then show ?thesis
    unfolding is_mesh_grant_iff auths_of_mem by blast
qed

lemma dns_views_mem:
  assumes "rmap (read_dns w) dps = Inr ds"
  shows "(dp, recs, cov) \<in> set ds \<longleftrightarrow> dp \<in> set dps \<and> read_dns w dp = Inr (dp, recs, cov)"
  using read_dns_mem [OF assms, of dp recs cov] read_dns_Inr [OF assms, of dp]
  by (auto simp: read_dns_Inr_iff)

lemma dns_views_live:
  assumes "rmap (read_dns w) dps = Inr ds"
  shows "(\<exists>dp recs cov. (dp, recs, cov) \<in> set ds \<and> q dp recs) \<longleftrightarrow>
     (\<exists>dp \<in> set dps. \<exists>recs. dp_live dp w = Inr recs \<and> q dp recs)"
  unfolding dns_views_mem [OF assms] using read_dns_Inr [OF assms]
  by (intro iffI) (fastforce simp: read_dns_Inr_iff)+

text \<open>Where the protection of a route comes from: it was read, on the route itself or on the route of the
  downstream edge it forwards to; or nothing was read and it is only asserted, by the operator's flag
  on the edge, or for a wildcard that relays to names the downstream edge routes one by one.\<close>

definition observed_auth :: "chain_context \<Rightarrow> 'w edge_binding \<Rightarrow> route \<Rightarrow> bool" where
  "observed_auth cc b r = (u_auth (r_upstream r) \<noteq> []
     \<or> (case resolve_chain cc b r of Some link \<Rightarrow> k_resolved link \<and> k_auth link \<noteq> [] | None \<Rightarrow> False))"

definition asserted_auth :: "chain_context \<Rightarrow> 'w edge_binding \<Rightarrow> route \<Rightarrow> bool" where
  "asserted_auth cc b r = (u_auth (r_upstream r) = []
     \<and> (case resolve_chain cc b r of
          Some link \<Rightarrow> \<not> k_resolved link \<and> wildcard_forward_coverage cc b r \<noteq> []
        | None \<Rightarrow> b_auth_downstream b))"

lemma chain_clean:
  assumes "all_ok (chain_findings cc vs)" and "(b, live) \<in> set vs" and "r \<in> set (l_routes live)"
    and "resolve_chain cc b r = Some link" and "\<not> k_resolved link"
  shows "wildcard_forward_coverage cc b r \<noteq> []"
proof
  assume "wildcard_forward_coverage cc b r = []"
  with assms(4,5) have "chain_note_of cc b r = Some (Unresolved (r_host r) (k_reason link))"
    by (simp add: chain_note_of_def)
  then have "Unresolved (r_host r) (k_reason link) \<in> set (List.map_filter (chain_note_of cc b) (l_routes live))"
    using assms(3) by (force simp: List.map_filter_def)
  with assms(2) have unresolved: "Unresolved (r_host r) (k_reason link)
      \<in> set (concat (map (\<lambda>v. List.map_filter (chain_note_of cc (fst v)) (l_routes (snd v))) vs))"
    (is "_ \<in> set ?notes") by force
  have "filter (\<lambda>n. case n of Unresolved _ _ \<Rightarrow> True | _ \<Rightarrow> False) ?notes = []"
    using assms(1) unfolding chain_findings_def Let_def by (simp del: filter_concat set_concat split: if_splits)
  with unresolved show False unfolding filter_empty_conv by fastforce
qed

lemma effective_auth_origin:
  assumes "effective_auth cc b r \<noteq> []" and "all_ok (chain_findings cc vs)" and "(b, live) \<in> set vs" and "r \<in> set (l_routes live)"
  shows "observed_auth cc b r \<or> asserted_auth cc b r"
  using assms(1) chain_clean [OF assms(2-4)]
  by (auto simp: effective_auth_def observed_auth_def asserted_auth_def split: if_splits option.splits)

text \<open>C31. A clean audit accounts for every published name: for a host with a public DNS record that some edge
  exposes there is a route that is an identity grant, has an authentication that was read, on it or on the
  route it forwards to, or has one that is only asserted: nothing was read, and the operator flagged the
  edge as authenticated downstream, or the route is a wildcard that relays to names routed downstream. An
  assertion is all the last case says (see audit_asserted_passes).\<close>

theorem audit_ok_public_hosts:
  assumes "audit e fs w = Inr rep" and "report_ok rep" and "distinct (map b_name (g_edges e))"
    and "dp \<in> set (g_dns e)" and "dp_scope dp = ScopePublic" and "dp_live dp w = Inr recs"
    and "q \<in> set recs" and "d_scope q = ScopePublic" and "b \<in> set (g_edges e)"
    and "ep_read (b_provider b) w = Inr live" and "r \<in> set (l_routes live)" and "equal_fold (r_host r) (d_name q)"
  shows "\<exists>reads. read_all e w = Inr reads \<and> (\<exists>b' live' r'. b' \<in> set (g_edges e)
    \<and> ep_read (b_provider b') w = Inr live' \<and> r' \<in> set (l_routes live') \<and> equal_fold (r_host r') (d_name q)
    \<and> (u_mode (r_upstream r') = ModeMeshGrant \<or> observed_auth (build_chain_context reads) b' r'
        \<or> asserted_auth (build_chain_context reads) b' r'))"
proof -
  obtain reads ds where reads: "read_all e w = Inr reads" and ds: "rmap (read_dns w) (g_dns e) = Inr ds"
    and ok: "all_ok (audit_findings e fs reads ds)"
    using assms(1,2) by (auto simp: audit_done report_ok_iff)
  let ?vs = "views e reads" and ?cc = "build_chain_context reads" and ?h = "to_lower (d_name q)"
  have "(b, live) \<in> set ?vs"
    using views_mem [OF reads assms(3)] assms(9,10) by blast
  then have "?h \<in> set (exposed_hosts ?vs)"
    using assms(11,12) by (force simp: set_exposed_hosts view_hosts_def equal_fold_def)
  moreover have "is_public e fs ?vs ds ?h"
    using read_dns_Inr [OF ds assms(4)] assms(4-8)
    by (force simp: is_public_def has_public_dns_def list_ex_iff public_dns_hosts_def)
  moreover have "observed_public e fs ?vs ds ?h"
    using read_dns_Inr [OF ds assms(4)] assms(4-8)
    by (force simp: observed_public_def has_public_dns_def list_ex_iff public_dns_hosts_def)
  moreover have "all_ok (auth_findings e fs ?cc ?vs ds)"
    using ok by (simp add: audit_findings_def Let_def)
  ultimately have "is_mesh_grant ?vs ?h \<or> host_auth ?cc ?vs ?h \<or> host_auth_downstream ?cc ?vs ?h"
    by (intro auth_findings_clean [of e fs ?cc ?vs ds ?h]) simp_all
  then have "\<exists>v \<in> set ?vs. \<exists>r' \<in> set (l_routes (snd v)). to_lower (r_host r') = ?h
      \<and> (u_mode (r_upstream r') = ModeMeshGrant \<or> effective_auth ?cc (fst v) r' \<noteq> [])"
    by (simp only: protected_iff)
  then obtain b' live' r' where "(b', live') \<in> set ?vs" "r' \<in> set (l_routes live')" "to_lower (r_host r') = ?h"
    "u_mode (r_upstream r') = ModeMeshGrant \<or> effective_auth ?cc b' r' \<noteq> []" by auto
  moreover have "all_ok (chain_findings ?cc ?vs)" using ok by (simp add: audit_findings_def Let_def)
  ultimately have "u_mode (r_upstream r') = ModeMeshGrant \<or> observed_auth ?cc b' r' \<or> asserted_auth ?cc b' r'"
    using effective_auth_origin by blast
  with \<open>(b', live') \<in> set ?vs\<close> \<open>r' \<in> set (l_routes live')\<close> \<open>to_lower (r_host r') = ?h\<close> views_mem [OF reads assms(3)] reads
  show ?thesis by (auto simp: equal_fold_def)
qed

section \<open>What makes an audit critical\<close>

text \<open>The three alarms over the world the audit read: whether some route satisfies a test, whether a
  record is backed by a route or points elsewhere than crenel would, and whether a host is carried by
  a public record, by a chain front or by a tunnel.\<close>

definition serves :: "'w engine \<Rightarrow> 'w \<Rightarrow> (string \<Rightarrow> bool) \<Rightarrow> bool" where
  "serves e w p = list_ex (\<lambda>b. case ep_read (b_provider b) w of
     Inl _ \<Rightarrow> False | Inr live \<Rightarrow> list_ex (\<lambda>r. p (to_lower (r_host r))) (l_routes live)) (g_edges e)"

definition backed :: "'w engine \<Rightarrow> 'w \<Rightarrow> dns_record \<Rightarrow> bool" where
  "backed e w r = (let h = to_lower (d_name r)
     in serves e w (if is_wildcard_name h then wildcard_pattern_covers h else (\<lambda>x. x = h)))"

definition misdirected :: "'w dns_provider \<Rightarrow> dns_record \<Rightarrow> bool" where
  "misdirected dp r = (dp_owns_all dp = Some True
     \<and> (case dp_desired dp (mk_op Expose [] (d_name r)) of
          Inl _ \<Rightarrow> False
        | Inr ds \<Rightarrow> list_ex (\<lambda>want. equal_fold (d_name want) (d_name r) \<and> equal_fold (d_type want) (d_type r)
            \<and> \<not> equal_fold (d_value want) (d_value r)) ds))"

definition publicly_carried :: "'w engine \<Rightarrow> ingress_files \<Rightarrow> 'w \<Rightarrow> string \<Rightarrow> bool" where
  "publicly_carried e fs w host =
     (list_ex (\<lambda>dp. dp_scope dp = ScopePublic \<and> (case read_dns w dp of
          Inl _ \<Rightarrow> False
        | Inr (_, _, cov) \<Rightarrow> list_ex (\<lambda>r. \<not> is_wildcard_name (d_name r) \<and> to_lower (d_name r) = host) cov)) (g_dns e)
      \<or> list_ex (\<lambda>b. case ep_read (b_provider b) w of
          Inl _ \<Rightarrow> False
        | Inr live \<Rightarrow> (is_chain_front b \<and> has_host live host)
            \<or> (case recovered fs (b, live) of
                 None \<Rightarrow> False
               | Some m \<Rightarrow> host \<in> set (view_hosts (b, live)) \<and> ingress_publishes host m)) (g_edges e))"

lemma parts_not_critical:
  "\<not> any_critical (sni_findings lbl r)" "\<not> any_critical (evidence_findings lbl b)"
  "\<not> any_critical (coverage_findings lbl live)" "\<not> any_critical (ownership_findings e lbl live)"
  "\<not> any_critical (pangolin_findings lbl v)" "\<not> any_critical (ephemeral_findings lbl live)"
  by (simp_all add: sni_findings_def evidence_findings_def coverage_findings_def ownership_findings_def
      pangolin_findings_def ephemeral_findings_def Let_def split: option.split prod.split)

lemma ingress_not_critical: "\<not> any_critical (ingress_findings fs lbl v)"
  by (auto simp: ingress_findings_def Let_def split: option.split)

lemma deny_critical: "any_critical (deny_findings lbl live) \<longleftrightarrow> \<not> l_deny_present live"
  by (simp add: deny_findings_def deny_verdict_def)

lemma live_findings_critical: "any_critical (live_findings e fs (b, live)) \<longleftrightarrow> \<not> l_deny_present live"
  by (simp add: live_findings_def Let_def parts_not_critical ingress_not_critical deny_critical)

lemma case_Inr_iff: "(case x of Inl _ \<Rightarrow> False | Inr a \<Rightarrow> p a) \<longleftrightarrow> (\<exists>a. x = Inr a \<and> p a)"
  by (cases x) auto

lemma case_Some_iff: "(case x of None \<Rightarrow> False | Some a \<Rightarrow> p a) \<longleftrightarrow> (\<exists>a. x = Some a \<and> p a)"
  by (cases x) auto

lemma bex_views: "(\<exists>v \<in> set vs. p v) \<longleftrightarrow> (\<exists>b live. (b, live) \<in> set vs \<and> p (b, live))"
  by (simp add: Bex_def split_paired_Ex)

lemma bex_dns: "(\<exists>d \<in> set ds. p d) \<longleftrightarrow> (\<exists>dp recs cov. (dp, recs, cov) \<in> set ds \<and> p (dp, recs, cov))"
  by (simp add: Bex_def split_paired_Ex)

lemma exposed_serves:
  assumes "read_all e w = Inr reads" and "distinct (map b_name (g_edges e))"
  shows "(\<exists>h \<in> set (exposed_hosts (views e reads)). p h) \<longleftrightarrow> serves e w p"
proof -
  have "(\<exists>h \<in> set (exposed_hosts (views e reads)). p h) \<longleftrightarrow>
      (\<exists>v \<in> set (views e reads). \<exists>r \<in> set (l_routes (snd v)). p (to_lower (r_host r)))"
    by (simp add: set_exposed_hosts view_hosts_def)
  also have "\<dots> \<longleftrightarrow> (\<exists>b live. (b, live) \<in> set (views e reads) \<and> (\<exists>r \<in> set (l_routes live). p (to_lower (r_host r))))"
    by (simp add: bex_views)
  also have "\<dots> \<longleftrightarrow> serves e w p"
    by (auto simp: views_mem [OF assms] serves_def list_ex_iff case_Inr_iff)
  finally show ?thesis .
qed

lemma record_findings_critical:
  assumes "read_all e w = Inr reads" and "distinct (map b_name (g_edges e))"
  shows "any_critical (record_findings (views e reads) dp r) \<longleftrightarrow>
     d_scope r = ScopePublic \<and> (misdirected dp r \<or> \<not> backed e w r)"
proof -
  have "any_critical (value_drift_findings dp r) \<longleftrightarrow> d_scope r = ScopePublic \<and> misdirected dp r"
    by (auto simp: value_drift_findings_def misdirected_def list_ex_iff split: sum.splits)
  moreover have "any_critical (dangling_findings (views e reads) r) \<longleftrightarrow> d_scope r = ScopePublic \<and> \<not> backed e w r"
  proof -
    have "(if is_wildcard_name (to_lower (d_name r))
            then wildcard_backs_any_exposed (to_lower (d_name r)) (exposed_hosts (views e reads))
            else to_lower (d_name r) \<in> set (exposed_hosts (views e reads))) \<longleftrightarrow> backed e w r"
      using exposed_serves [OF assms, of "wildcard_pattern_covers (to_lower (d_name r))"]
        exposed_serves [OF assms, of "\<lambda>x. x = to_lower (d_name r)"]
      by (auto simp: wildcard_backs_any_exposed_def list_ex_iff backed_def Let_def)
    then show ?thesis by (simp add: dangling_findings_def Let_def)
  qed
  ultimately show ?thesis by (auto simp: record_findings_def)
qed

lemma mem_map_filter: "y \<in> set (map f (filter p xs)) \<longleftrightarrow> (\<exists>x \<in> set xs. p x \<and> f x = y)"
  by auto

lemma public_coverage_mem:
  "h \<in> set (public_coverage ds) \<longleftrightarrow> (\<exists>d \<in> set ds. dp_scope (fst d) = ScopePublic
     \<and> (\<exists>r \<in> set (snd (snd d)). \<not> is_wildcard_name (d_name r) \<and> to_lower (d_name r) = h))"
proof -
  have "h \<in> set (public_coverage ds) \<longleftrightarrow> (\<exists>d \<in> set ds. dp_scope (fst d) = ScopePublic
      \<and> h \<in> set (map (\<lambda>r. to_lower (d_name r)) (filter (\<lambda>r. \<not> is_wildcard_name (d_name r)) (snd (snd d)))))"
    by (induction ds) (auto simp: public_coverage_def public_views_def case_prod_unfold)
  then show ?thesis by (simp only: mem_map_filter)
qed

lemma internal_scope_critical:
  assumes "read_all e w = Inr reads" and "distinct (map b_name (g_edges e))" and "rmap (read_dns w) (g_dns e) = Inr ds"
  shows "any_critical (internal_scope_findings e fs (views e reads) ds svc) \<longleftrightarrow>
     publicly_carried e fs w (to_lower (o_host (build_op e Expose svc)))"
proof -
  let ?h = "to_lower (o_host (build_op e Expose svc))" and ?vs = "views e reads"
  have dns: "?h \<in> set (public_coverage ds) \<longleftrightarrow> (\<exists>dp \<in> set (g_dns e). dp_scope dp = ScopePublic
      \<and> (\<exists>recs cov. read_dns w dp = Inr (dp, recs, cov) \<and> (\<exists>r \<in> set cov. \<not> is_wildcard_name (d_name r) \<and> to_lower (d_name r) = ?h)))"
    (is "_ \<longleftrightarrow> ?dns")
  proof -
    have "?h \<in> set (public_coverage ds) \<longleftrightarrow> (\<exists>dp recs cov. (dp, recs, cov) \<in> set ds \<and> dp_scope dp = ScopePublic
        \<and> (\<exists>r \<in> set cov. \<not> is_wildcard_name (d_name r) \<and> to_lower (d_name r) = ?h))"
      by (simp add: public_coverage_mem bex_dns)
    also have "\<dots> \<longleftrightarrow> ?dns"
      unfolding dns_views_mem [OF assms(3)] by blast
    finally show ?thesis .
  qed
  have front: "any_critical (front_findings svc ?h ?vs) \<longleftrightarrow>
      (\<exists>b live. (b, live) \<in> set ?vs \<and> is_chain_front b \<and> has_host live ?h)"
    by (auto simp: front_findings_def)
  have tunnel: "tunnel_public fs ?vs ?h \<longleftrightarrow> (\<exists>b live m. (b, live) \<in> set ?vs \<and> recovered fs (b, live) = Some m
      \<and> ?h \<in> set (view_hosts (b, live)) \<and> ingress_publishes ?h m)"
    by (force simp: tunnel_public_def list_ex_iff split: option.splits)
  have carried: "publicly_carried e fs w ?h \<longleftrightarrow> ?dns
      \<or> (\<exists>b \<in> set (g_edges e). \<exists>live. ep_read (b_provider b) w = Inr live \<and> ((is_chain_front b \<and> has_host live ?h)
          \<or> (\<exists>m. recovered fs (b, live) = Some m \<and> ?h \<in> set (view_hosts (b, live)) \<and> ingress_publishes ?h m)))"
  proof -
    have "(case read_dns w dp of Inl _ \<Rightarrow> False | Inr (_, _, cov) \<Rightarrow> list_ex p cov) \<longleftrightarrow>
        (\<exists>recs cov. read_dns w dp = Inr (dp, recs, cov) \<and> (\<exists>r \<in> set cov. p r))" for dp p
      by (cases "read_dns w dp") (auto simp: list_ex_iff read_dns_Inr_iff split: prod.splits)
    then show ?thesis
      by (simp add: publicly_carried_def list_ex_iff case_Inr_iff case_Some_iff)
  qed
  have "any_critical (internal_scope_findings e fs ?vs ds svc) \<longleftrightarrow>
      ?h \<in> set (public_coverage ds) \<or> any_critical (front_findings svc ?h ?vs) \<or> tunnel_public fs ?vs ?h"
    by (simp add: internal_scope_findings_def Let_def)
  then show ?thesis
    unfolding dns front tunnel carried views_mem [OF assms(1,2)] by blast
qed

text \<open>C32. The audit is critical, and fails a pipeline, exactly when the live state breaks an invariant: an
  edge that could be read forwards unmatched hosts, a public record points at nothing exposed or
  away from the target crenel set, or a service declared internal is carried by a public record, a
  chain front or a tunnel.\<close>

theorem audit_critical_iff:
  assumes "audit e fs w = Inr rep" and "distinct (map b_name (g_edges e))"
  shows "has_critical rep \<longleftrightarrow>
    (\<exists>b \<in> set (g_edges e). \<exists>live. ep_read (b_provider b) w = Inr live \<and> \<not> l_deny_present live)
    \<or> (\<exists>dp \<in> set (g_dns e). \<exists>recs. dp_live dp w = Inr recs
         \<and> (\<exists>r \<in> set recs. d_scope r = ScopePublic \<and> (misdirected dp r \<or> \<not> backed e w r)))
    \<or> (\<exists>svc \<in> fst ` set (g_internal_scope e). publicly_carried e fs w (to_lower (o_host (build_op e Expose svc))))"
proof -
  obtain reads ds where reads: "read_all e w = Inr reads" and ds: "rmap (read_dns w) (g_dns e) = Inr ds"
    and rep: "ar_findings rep = audit_findings e fs reads ds"
    using assms(1) by (auto simp: audit_done)
  have edges: "any_critical (edge_findings e fs reads b) \<longleftrightarrow>
      (\<exists>live. ep_read (b_provider b) w = Inr live \<and> \<not> l_deny_present live)" if "b \<in> set (g_edges e)" for b
    by (cases "ep_read (b_provider b) w")
      (simp_all add: edge_findings_readable [OF reads assms(2) that] live_findings_critical)
  have dns: "any_critical (dns_findings (views e reads) ds) \<longleftrightarrow> (\<exists>dp \<in> set (g_dns e). \<exists>recs. dp_live dp w = Inr recs
         \<and> (\<exists>r \<in> set recs. d_scope r = ScopePublic \<and> (misdirected dp r \<or> \<not> backed e w r)))"
  proof -
    have "any_critical (dns_findings (views e reads) ds) \<longleftrightarrow> (\<exists>d \<in> set ds.
        any_critical ((\<lambda>(dp, recs, cov). concat (map (record_findings (views e reads) dp) recs)) d))"
      by (simp add: dns_findings_def)
    also have "\<dots> \<longleftrightarrow> (\<exists>dp recs cov. (dp, recs, cov) \<in> set ds
        \<and> (\<exists>r \<in> set recs. any_critical (record_findings (views e reads) dp r)))"
      unfolding bex_dns by simp
    also have "\<dots> \<longleftrightarrow> (\<exists>dp \<in> set (g_dns e). \<exists>recs. dp_live dp w = Inr recs
         \<and> (\<exists>r \<in> set recs. d_scope r = ScopePublic \<and> (misdirected dp r \<or> \<not> backed e w r)))"
      unfolding dns_views_live [OF ds] record_findings_critical [OF reads assms(2)] ..
    finally show ?thesis .
  qed
  have rest: "\<not> any_critical (chain_findings cc vs)" "\<not> any_critical (dangling_tunnel_findings fs vs)"
    "\<not> any_critical (cross_edge_findings e vs)" "\<not> any_critical (mode_findings vs)"
    "\<not> any_critical (parity_findings ics)" "\<not> any_critical (unreachable_findings e vs ds)"
    "\<not> any_critical (auth_findings e fs cc vs ds)" for cc vs ics
    by (auto simp: chain_findings_def dangling_tunnel_findings_def cross_edge_findings_def mode_findings_def
        parity_findings_def parity_host_def unreachable_findings_def auth_findings_def Let_def split: option.splits)
  have "has_critical rep \<longleftrightarrow> (\<exists>b \<in> set (g_edges e). any_critical (edge_findings e fs reads b))
      \<or> any_critical (dns_findings (views e reads) ds)
      \<or> (\<exists>svc \<in> fst ` set (g_internal_scope e). any_critical (internal_scope_findings e fs (views e reads) ds svc))"
    by (simp add: has_critical_iff rep audit_findings_def Let_def rest)
  also have "(\<exists>b \<in> set (g_edges e). any_critical (edge_findings e fs reads b)) \<longleftrightarrow>
      (\<exists>b \<in> set (g_edges e). \<exists>live. ep_read (b_provider b) w = Inr live \<and> \<not> l_deny_present live)"
    by (rule bex_cong [OF refl edges])
  finally show ?thesis
    unfolding dns internal_scope_critical [OF reads assms(2) ds] .
qed

section \<open>Parity of the resolvers\<close>

text \<open>Whether a resolver holds a name of its own, and whether it answers for the name at all.\<close>

definition holds_name :: "'w \<Rightarrow> 'w dns_provider \<Rightarrow> string \<Rightarrow> bool" where
  "holds_name w dp h = (case dp_live dp w of
     Inl _ \<Rightarrow> False
   | Inr recs \<Rightarrow> list_ex (\<lambda>r. \<not> is_wildcard_name (to_lower (d_name r)) \<and> to_lower (d_name r) = h) recs)"

definition answers_name :: "'w \<Rightarrow> 'w dns_provider \<Rightarrow> string \<Rightarrow> bool" where
  "answers_name w dp h = (holds_name w dp h \<or> (case dp_live dp w of
     Inl _ \<Rightarrow> False
   | Inr recs \<Rightarrow> list_ex (\<lambda>r. is_wildcard_name (to_lower (d_name r)) \<and> wildcard_pattern_covers (to_lower (d_name r)) h) recs))"

lemma presence_absent:
  "presence_on h ic = Absent \<longleftrightarrow>
     (\<forall>r \<in> set (explicit_recs ic). to_lower (d_name r) \<noteq> h)
     \<and> (\<forall>r \<in> set (ic_recs ic). is_wildcard_name (to_lower (d_name r)) \<longrightarrow> \<not> wildcard_pattern_covers (to_lower (d_name r)) h)"
proof -
  have "map_of (rev (map (\<lambda>r. (to_lower (d_name r), d_value r)) (explicit_recs ic))) h = None \<longleftrightarrow>
      (\<forall>r \<in> set (explicit_recs ic). to_lower (d_name r) \<noteq> h)"
    by (auto simp: map_of_eq_None_iff image_iff)
  moreover have "wildcard_covering (filter (\<lambda>r. is_wildcard_name (to_lower (d_name r))) (ic_recs ic)) h = None \<longleftrightarrow>
      (\<forall>r \<in> set (ic_recs ic). is_wildcard_name (to_lower (d_name r)) \<longrightarrow> \<not> wildcard_pattern_covers (to_lower (d_name r)) h)"
    by (auto simp: wildcard_covering_def find_None_iff')
  moreover have "presence_on h ic = Absent \<longleftrightarrow>
      map_of (rev (map (\<lambda>r. (to_lower (d_name r), d_value r)) (explicit_recs ic))) h = None
      \<and> wildcard_covering (filter (\<lambda>r. is_wildcard_name (to_lower (d_name r))) (ic_recs ic)) h = None"
    by (simp add: presence_on_def split: option.split)
  ultimately show ?thesis by simp
qed

definition parity_of :: "string \<Rightarrow> audit_finding \<Rightarrow> bool" where
  "parity_of h f \<longleftrightarrow> (\<exists>p m. f = warn_f (DnsCoverageParity h p m))"

lemma parity_of_simps [simp]:
  "\<not> parity_of h (ok_f c)" "\<not> parity_of h (crit_f c)"
  "parity_of h (warn_f c) \<longleftrightarrow> (\<exists>p m. c = DnsCoverageParity h p m)"
  by (auto simp: parity_of_def warn_f_def ok_f_def crit_f_def)

lemma parity_host_mem:
  "some_finding (parity_of h) (parity_host peers host) \<longleftrightarrow>
     h = host \<and> (\<exists>ic \<in> set peers. presence_on host ic = Absent)"
proof -
  have "sort (map fst (filter (\<lambda>p. snd p = Absent) (map (\<lambda>ic. (ic_name ic, presence_on host ic)) peers))) = []
      \<longleftrightarrow> \<not> (\<exists>ic \<in> set peers. presence_on host ic = Absent)"
    by (subst set_empty [symmetric]) auto
  then show ?thesis
    by (simp add: parity_host_def Let_def case_prod_unfold) auto
qed

lemma two_members: "x \<in> set xs \<Longrightarrow> y \<in> set xs \<Longrightarrow> x \<noteq> y \<Longrightarrow> \<not> length xs < 2"
  by (cases xs rule: list.exhaust; cases "tl xs") auto

lemma parity_findings_mem:
  "some_finding (parity_of h) (parity_findings ics) \<longleftrightarrow>
     (\<exists>ic \<in> set ics. \<exists>ic' \<in> set ics. ic_zone ic = ic_zone ic' \<and> (\<exists>r \<in> set (explicit_recs ic). to_lower (d_name r) = h)
        \<and> presence_on h ic' = Absent)" (is "_ \<longleftrightarrow> ?pair")
proof -
  let ?peers = "\<lambda>z. filter (\<lambda>ic. ic_zone ic = z) ics"
  have "some_finding (parity_of h) (parity_findings ics) \<longleftrightarrow>
      (\<exists>z \<in> ic_zone ` set ics. \<not> length (?peers z) < 2
         \<and> (\<exists>ic \<in> set (?peers z). \<exists>r \<in> set (explicit_recs ic).
               some_finding (parity_of h) (parity_host (?peers z) (to_lower (d_name r)))))"
    by (simp add: parity_findings_def Let_def set_uniq_id cong: conj_cong)
  also have "\<dots> \<longleftrightarrow> (\<exists>z \<in> ic_zone ` set ics. \<not> length (?peers z) < 2
         \<and> (\<exists>ic \<in> set (?peers z). \<exists>r \<in> set (explicit_recs ic). to_lower (d_name r) = h
              \<and> (\<exists>ic' \<in> set (?peers z). presence_on h ic' = Absent)))"
    unfolding parity_host_mem by blast
  also have "\<dots> \<longleftrightarrow> ?pair"
  proof
    assume ?pair
    then obtain ic ic' r where mem: "ic \<in> set ics" "ic' \<in> set ics" "ic_zone ic = ic_zone ic'"
      and r: "r \<in> set (explicit_recs ic)" "to_lower (d_name r) = h" and absent: "presence_on h ic' = Absent"
      by blast
    then have ics: "ic \<in> set (?peers (ic_zone ic))" "ic' \<in> set (?peers (ic_zone ic))" "ic \<in> set ics"
      by simp_all
    from r absent have "ic \<noteq> ic'" by (auto simp: presence_absent)
    with two_members [OF ics(1,2)] have "\<not> length (?peers (ic_zone ic)) < 2" by blast
    with ics r absent show "\<exists>z \<in> ic_zone ` set ics. \<not> length (?peers z) < 2
         \<and> (\<exists>ic \<in> set (?peers z). \<exists>r \<in> set (explicit_recs ic). to_lower (d_name r) = h
              \<and> (\<exists>ic' \<in> set (?peers z). presence_on h ic' = Absent))" by blast
  qed (auto, metis)
  finally show ?thesis .
qed

lemma bex_internal_covs:
  "(\<exists>ic \<in> set (internal_covs ds). p ic) \<longleftrightarrow> (\<exists>dp recs cov. (dp, recs, cov) \<in> set ds \<and> dp_scope dp = ScopeInternal
     \<and> p \<lparr>ic_name = dp_name dp, ic_zone = dns_zone dp, ic_recs = recs\<rparr>)"
proof -
  have "(\<exists>ic \<in> set (internal_covs ds). p ic) \<longleftrightarrow> (\<exists>d \<in> set ds. dp_scope (fst d) = ScopeInternal
      \<and> p ((\<lambda>(dp, recs, cov). \<lparr>ic_name = dp_name dp, ic_zone = dns_zone dp, ic_recs = recs\<rparr>) d))"
    by (simp only: internal_covs_def set_map set_filter bex_simps) blast
  then show ?thesis unfolding bex_dns by simp
qed

lemma parts_not_parity:
  "\<not> some_finding (parity_of h) (sni_findings lbl r)" "\<not> some_finding (parity_of h) (evidence_findings lbl b)"
  "\<not> some_finding (parity_of h) (deny_findings lbl live)" "\<not> some_finding (parity_of h) (ownership_findings e lbl live)"
  "\<not> some_finding (parity_of h) (pangolin_findings lbl v)" "\<not> some_finding (parity_of h) (ephemeral_findings lbl live)"
  by (simp_all add: sni_findings_def evidence_findings_def deny_findings_def ownership_findings_def
      pangolin_findings_def ephemeral_findings_def Let_def split: option.split deny_state.split)

lemma coverage_not_parity: "\<not> some_finding (parity_of h) (coverage_findings lbl live)"
  by (simp add: coverage_findings_def Let_def split: prod.split)

lemma ingress_not_parity: "\<not> some_finding (parity_of h) (ingress_findings fs lbl v)"
  by (simp add: ingress_findings_def Let_def split: option.split)

lemma edge_not_parity: "\<not> some_finding (parity_of h) (edge_findings e fs reads b)"
  by (auto simp: edge_findings_def live_findings_def Let_def parts_not_parity coverage_not_parity
      ingress_not_parity split: option.split)

text \<open>The parity alarm is exact: a name is reported as missing from a resolver just when some
  internal resolver holds it as a name of its own and another one of the same zone neither holds it
  nor answers it through a wildcard. Resolvers that answer with different addresses, and resolvers
  of different zones, raise nothing.\<close>

theorem audit_parity_iff:
  assumes "audit e fs w = Inr rep"
  shows "(\<exists>p m. warn_f (DnsCoverageParity h p m) \<in> set (ar_findings rep)) \<longleftrightarrow>
    (\<exists>dp \<in> set (g_dns e). \<exists>dq \<in> set (g_dns e). dp_scope dp = ScopeInternal \<and> dp_scope dq = ScopeInternal
       \<and> dns_zone dp = dns_zone dq \<and> holds_name w dp h \<and> \<not> answers_name w dq h)"
proof -
  obtain reads ds where reads: "read_all e w = Inr reads" and ds: "rmap (read_dns w) (g_dns e) = Inr ds"
    and rep: "ar_findings rep = audit_findings e fs reads ds"
    using assms by (auto simp: audit_done)
  have edges: "\<not> some_finding (parity_of h) (edge_findings e fs reads b)" for b
    by (rule edge_not_parity)
  have records: "\<not> some_finding (parity_of h) (record_findings vs dp r)" for vs dp r
    by (auto simp: record_findings_def value_drift_findings_def dangling_findings_def Let_def split: sum.split)
  have elsewhere: "\<not> some_finding (parity_of h) (chain_findings cc vs)"
    "\<not> some_finding (parity_of h) (dangling_tunnel_findings fs vs)"
    "\<not> some_finding (parity_of h) (cross_edge_findings e vs)" "\<not> some_finding (parity_of h) (mode_findings vs)"
    "\<not> some_finding (parity_of h) (dns_findings vs ds)" "\<not> some_finding (parity_of h) (unreachable_findings e vs ds)"
    "\<not> some_finding (parity_of h) (auth_findings e fs cc vs ds)"
    "\<not> some_finding (parity_of h) (internal_scope_findings e fs vs ds svc)" for cc vs svc
    by (auto simp: chain_findings_def dangling_tunnel_findings_def cross_edge_findings_def mode_findings_def
        dns_findings_def records unreachable_findings_def auth_findings_def internal_scope_findings_def
        front_findings_def Let_def split: option.split)
  have "(\<exists>p m. warn_f (DnsCoverageParity h p m) \<in> set (ar_findings rep)) \<longleftrightarrow> some_finding (parity_of h) (ar_findings rep)"
    by (auto simp: some_finding_def parity_of_def)
  also have "\<dots> \<longleftrightarrow> some_finding (parity_of h) (parity_findings (internal_covs ds))"
    by (simp add: rep audit_findings_def Let_def edges elsewhere)
  also have "\<dots> \<longleftrightarrow> (\<exists>dp recs cov. (dp, recs, cov) \<in> set ds \<and> dp_scope dp = ScopeInternal
      \<and> (\<exists>dq recs' cov'. (dq, recs', cov') \<in> set ds \<and> dp_scope dq = ScopeInternal \<and> dns_zone dp = dns_zone dq
      \<and> (\<exists>r \<in> set recs. \<not> is_wildcard_name (to_lower (d_name r)) \<and> to_lower (d_name r) = h)
      \<and> (\<forall>r \<in> set recs'. \<not> is_wildcard_name (to_lower (d_name r)) \<longrightarrow> to_lower (d_name r) \<noteq> h)
      \<and> (\<forall>r \<in> set recs'. is_wildcard_name (to_lower (d_name r)) \<longrightarrow> \<not> wildcard_pattern_covers (to_lower (d_name r)) h)))"
    unfolding parity_findings_mem bex_internal_covs presence_absent explicit_recs_def
    by (simp only: internal_cov.simps set_filter bex_simps ball_simps mem_Collect_eq Bex_def Ball_def conj_assoc imp_conjL)
  also have "\<dots> \<longleftrightarrow> (\<exists>dp \<in> set (g_dns e). \<exists>dq \<in> set (g_dns e). dp_scope dp = ScopeInternal \<and> dp_scope dq = ScopeInternal
       \<and> dns_zone dp = dns_zone dq \<and> holds_name w dp h \<and> \<not> answers_name w dq h)"
  proof -
    have holds: "holds_name w dp h \<longleftrightarrow> (\<exists>recs. dp_live dp w = Inr recs
        \<and> (\<exists>r \<in> set recs. \<not> is_wildcard_name (to_lower (d_name r)) \<and> to_lower (d_name r) = h))" for dp
      by (simp add: holds_name_def case_Inr_iff list_ex_iff)
    have answers: "\<not> answers_name w dq h \<longleftrightarrow> (\<exists>recs. dp_live dq w = Inr recs
        \<and> (\<forall>r \<in> set recs. \<not> is_wildcard_name (to_lower (d_name r)) \<longrightarrow> to_lower (d_name r) \<noteq> h)
        \<and> (\<forall>r \<in> set recs. is_wildcard_name (to_lower (d_name r)) \<longrightarrow> \<not> wildcard_pattern_covers (to_lower (d_name r)) h))"
      if "dq \<in> set (g_dns e)" for dq
      using read_dns_Inr [OF ds that] by (auto simp: answers_name_def holds_name_def list_ex_iff)
    show ?thesis
      unfolding dns_views_live [OF ds] holds using answers by blast
  qed
  finally show ?thesis .
qed

section \<open>A small fleet under audit\<close>

definition served :: "string \<Rightarrow> string \<Rightarrow> route" where
  "served h auth = mk_route h \<lparr>u_kind = ForwardToOrigin, u_mode = ModeHTTPProxy, u_address = ''b:80'',
     u_tls_passthrough = False, u_server_name = [], u_upstream_tls = False, u_auth = auth\<rparr>"

definition audited_binding :: "string \<Rightarrow> string \<Rightarrow> mem_world edge_binding" where
  "audited_binding n path = \<lparr>b_name = n, b_provider = mem_edge n, b_fronts = None, b_auth_downstream = False,
     b_ingress_kind = IngressUnset, b_ingress_path = path, b_downstream_edge = [],
     b_downstream_address = [], b_downstream_scheme = []\<rparr>"

definition audited_engine :: "string \<Rightarrow> mem_world engine" where
  "audited_engine path = new_multi [audited_binding ''e'' path] ''ex'' [mem_dns ''cf'' ScopePublic ''ex'' ''9.9.9.9'']"

definition audited_world :: "route list \<Rightarrow> dns_record list \<Rightarrow> mem_world" where
  "audited_world rs recs = \<lparr>mw_edges = (\<lambda>_. (empty_live True)\<lparr>l_routes := rs\<rparr>), mw_dns = (\<lambda>_. recs)\<rparr>"

definition no_files :: ingress_files where "no_files = (\<lambda>_. None)"

lemma audit_clean_example:
  "case audit (audited_engine []) no_files (audited_world [served ''a.ex'' ''sso''] [mem_record ScopePublic ''a.ex'' ''9.9.9.9'']) of
     Inl _ \<Rightarrow> False | Inr rep \<Rightarrow> report_ok rep"
  by code_simp

lemma clean_report:
  obtains rep where "audit (audited_engine []) no_files (audited_world [served ''a.ex'' ''sso''] [mem_record ScopePublic ''a.ex'' ''9.9.9.9'']) = Inr rep"
    and "report_ok rep"
  using audit_clean_example by (auto split: sum.splits)

lemma audited_engine_simps [simp]:
  "g_edges (audited_engine path) = [audited_binding ''e'' path]" "distinct (map b_name (g_edges (audited_engine path)))"
  "g_dns (audited_engine path) = [mem_dns ''cf'' ScopePublic ''ex'' ''9.9.9.9'']" "g_internal_scope (audited_engine path) = []"
  "b_provider (audited_binding n path) = mem_edge n"
  by (simp_all add: audited_engine_def audited_binding_def new_multi_def)

lemma audit_ok_edges_witness:
  "\<exists>live. ep_read (mem_edge ''e'') (audited_world [served ''a.ex'' ''sso''] [mem_record ScopePublic ''a.ex'' ''9.9.9.9'']) = Inr live
     \<and> deny_verdict live = DenyEnforced"
proof -
  obtain rep where "audit (audited_engine []) no_files
      (audited_world [served ''a.ex'' ''sso''] [mem_record ScopePublic ''a.ex'' ''9.9.9.9'']) = Inr rep" "report_ok rep"
    by (rule clean_report)
  from audit_ok_edges [OF this, of "audited_binding ''e'' []"] show ?thesis by auto
qed

lemma audit_ok_public_hosts_witness:
  "\<exists>reads. read_all (audited_engine []) (audited_world [served ''a.ex'' ''sso''] [mem_record ScopePublic ''a.ex'' ''9.9.9.9'']) = Inr reads"
proof -
  let ?w = "audited_world [served ''a.ex'' ''sso''] [mem_record ScopePublic ''a.ex'' ''9.9.9.9'']"
  obtain rep where rep: "audit (audited_engine []) no_files ?w = Inr rep" "report_ok rep"
    by (rule clean_report)
  have "\<exists>reads. read_all (audited_engine []) ?w = Inr reads \<and> (\<exists>b' live' r'. b' \<in> set (g_edges (audited_engine []))
      \<and> ep_read (b_provider b') ?w = Inr live' \<and> r' \<in> set (l_routes live') \<and> equal_fold (r_host r') (d_name (mem_record ScopePublic ''a.ex'' ''9.9.9.9''))
      \<and> (u_mode (r_upstream r') = ModeMeshGrant \<or> observed_auth (build_chain_context reads) b' r'
          \<or> asserted_auth (build_chain_context reads) b' r'))"
    by (rule audit_ok_public_hosts [OF rep, of "mem_dns ''cf'' ScopePublic ''ex'' ''9.9.9.9''"
          "[mem_record ScopePublic ''a.ex'' ''9.9.9.9'']" _ "audited_binding ''e'' []"
          "(empty_live True)\<lparr>l_routes := [served ''a.ex'' ''sso'']\<rparr>" "served ''a.ex'' ''sso''"])
      (simp_all add: audited_world_def mem_record_def served_def)
  then show ?thesis by blast
qed

text \<open>A public host without any authentication passes a clean audit on an edge that is flagged.\<close>

definition flagged_engine :: "mem_world engine" where
  "flagged_engine = (audited_engine [])\<lparr>g_edges := [(audited_binding ''e'' [])\<lparr>b_auth_downstream := True\<rparr>]\<rparr>"

lemma audit_asserted_passes:
  "case audit flagged_engine no_files (audited_world [served ''a.ex'' []] [mem_record ScopePublic ''a.ex'' ''9.9.9.9'']) of
     Inl _ \<Rightarrow> False | Inr rep \<Rightarrow> report_ok rep"
  by code_simp

lemma audit_critical_iff_witness:
  "case audit (audited_engine []) no_files (audited_world [] [mem_record ScopePublic ''a.ex'' ''9.9.9.9'']) of
     Inl _ \<Rightarrow> False | Inr rep \<Rightarrow> has_critical rep"
proof (cases "audit (audited_engine []) no_files (audited_world [] [mem_record ScopePublic ''a.ex'' ''9.9.9.9''])")
  case (Inl err)
  have "case audit (audited_engine []) no_files (audited_world [] [mem_record ScopePublic ''a.ex'' ''9.9.9.9'']) of
     Inl _ \<Rightarrow> False | Inr _ \<Rightarrow> True" by code_simp
  with Inl show ?thesis by simp
next
  case (Inr rep)
  have "\<not> backed (audited_engine []) (audited_world [] [mem_record ScopePublic ''a.ex'' ''9.9.9.9'']) (mem_record ScopePublic ''a.ex'' ''9.9.9.9'')"
    by code_simp
  with audit_critical_iff [OF Inr] Inr show ?thesis
    by (simp add: audited_world_def mem_record_def)
qed

lemma audit_parity_iff_witness:
  "case audit ((audited_engine [])\<lparr>g_dns := [mem_dns ''h'' ScopeInternal ''ex'' ''1.1.1.1'', mem_dns ''v'' ScopeInternal ''ex'' ''2.2.2.2'']\<rparr>)
      no_files (audited_world [] []\<lparr>mw_dns := (\<lambda>n. if n = ''h'' then [mem_record ScopeInternal ''a.ex'' ''1.1.1.1''] else [])\<rparr>) of
     Inl _ \<Rightarrow> False | Inr rep \<Rightarrow> \<exists>p m. warn_f (DnsCoverageParity ''a.ex'' p m) \<in> set (ar_findings rep)" (is "case audit ?e _ ?w of Inl _ \<Rightarrow> _ | Inr rep \<Rightarrow> _ rep")
proof (cases "audit ?e no_files ?w")
  case (Inl err)
  have "case audit ?e no_files ?w of Inl _ \<Rightarrow> False | Inr _ \<Rightarrow> True" by code_simp
  with Inl show ?thesis by simp
next
  case (Inr rep)
  have "holds_name ?w (mem_dns ''h'' ScopeInternal ''ex'' ''1.1.1.1'') ''a.ex''"
    "\<not> answers_name ?w (mem_dns ''v'' ScopeInternal ''ex'' ''2.2.2.2'') ''a.ex''" 
    "dns_zone (mem_dns ''h'' ScopeInternal ''ex'' ''1.1.1.1'') = dns_zone (mem_dns ''v'' ScopeInternal ''ex'' ''2.2.2.2'')"
    by code_simp+
  with audit_parity_iff [OF Inr, of "''a.ex''"] Inr show ?thesis by simp
qed

section \<open>What a clean audit does not mean\<close>

text \<open>A public wildcard publishes every name under it, and the other checks of the audit say so; the
  check of authentication looks for a public record of the very name, so an unprotected host below a
  public wildcard passes the audit.\<close>

lemma audit_public_wildcard_unprotected:
  "case audit (audited_engine []) no_files (audited_world [served ''a.ex'' []] [mem_record ScopePublic ''*.ex'' ''9.9.9.9'']) of
     Inl _ \<Rightarrow> False
   | Inr rep \<Rightarrow> report_ok rep"
  "wildcard_pattern_covers ''*.ex'' ''a.ex''"
  by code_simp+

text \<open>An ingress file that merely contains the word of a funnel and does not decode counts as one whose
  rules were read: it publishes nothing, so the hosts of the edge are no longer public by default and
  the missing authentication goes unreported; without the file it is reported.\<close>

lemma audit_undecodable_funnel_hides_host:
  "case audit ((audited_engine ''f'')\<lparr>g_dns := []\<rparr>) (\<lambda>_. Some \<lparr>if_text = ''funnel'', if_funnel = None\<rparr>) (audited_world [served ''a.ex'' []] []) of
     Inl _ \<Rightarrow> False
   | Inr rep \<Rightarrow> warn_f (PublicWithoutAuth ''a.ex'') \<notin> set (ar_findings rep)"
  "case audit ((audited_engine [])\<lparr>g_dns := []\<rparr>) no_files (audited_world [served ''a.ex'' []] []) of
     Inl _ \<Rightarrow> False
   | Inr rep \<Rightarrow> warn_f (PublicWithoutAuth ''a.ex'') \<in> set (ar_findings rep)"
  by code_simp+

text \<open>A host that a tunnel publishes and a wildcard route of the edge serves is reported as served by no
  edge.\<close>

lemma audit_tunnel_host_under_wildcard_route:
  "case audit ((audited_engine ''f'')\<lparr>g_dns := []\<rparr>)
      (\<lambda>_. Some \<lparr>if_text = ''tunnel: t'' @ [newline] @ ''ingress:'' @ [newline] @ ''- hostname: a.ex'', if_funnel = None\<rparr>)
      (audited_world [served ''*.ex'' ''sso''] []) of
     Inl _ \<Rightarrow> False
   | Inr rep \<Rightarrow> warn_f (TunnelRouteWithoutEdge IngressTunnel ''a.ex'') \<in> set (ar_findings rep)"
  by code_simp


end
