(* ===== verification/Status.thy ===== *)
theory Status
  imports Auditing
begin

text \<open>
  The read-only reports: \<open>internal/core/status.go\<close> (\<open>Status\<close>, \<open>annotateChain\<close>), \<open>export.go\<close> and
  the status types of \<open>report.go\<close>.
\<close>

section \<open>Status\<close>

record edge_status =
  es_name :: string
  es_driver :: string
  es_routes :: "route list"
  es_deny_present :: bool
  es_unparsed :: "unparsed list"
  es_generator :: string
  es_ingress_kind :: ingress_kind
  es_persistence :: persistence_model

record scope_records =
  sc_provider :: string
  sc_scope :: scope
  sc_records :: "dns_record list"

record status_report =
  sr_edges :: "edge_status list"
  sr_dns :: "scope_records list"

definition status_coverage :: "edge_status \<Rightarrow> nat \<times> nat" where
  "status_coverage es = (length (es_routes es), length (es_routes es) + length (es_unparsed es))"

definition status_fully_parsed :: "edge_status \<Rightarrow> bool" where
  "status_fully_parsed es = list_all (\<lambda>u. n_kind u = UnknownAcknowledged) (es_unparsed es)"

definition status_acknowledged :: "edge_status \<Rightarrow> unparsed list" where
  "status_acknowledged es = filter (\<lambda>u. n_kind u = UnknownAcknowledged) (es_unparsed es)"

definition status_deny_state :: "edge_status \<Rightarrow> deny_state" where
  "status_deny_state es =
     (if \<not> es_deny_present es then DenyMissing
      else if \<not> status_fully_parsed es then DenyUnknown
      else DenyEnforced)"

definition annotate_route :: "chain_context \<Rightarrow> 'w edge_binding \<Rightarrow> route \<Rightarrow> route" where
  "annotate_route cc b r =
     (let r' = (case resolve_chain cc b r of None \<Rightarrow> r | Some link \<Rightarrow> r\<lparr>r_chain := Some link\<rparr>)
      in r'\<lparr>r_upstream := (r_upstream r')\<lparr>u_auth := effective_auth cc b r'\<rparr>\<rparr>)"

definition annotate_chain :: "chain_context \<Rightarrow> 'w edge_binding \<Rightarrow> route list \<Rightarrow> route list" where
  "annotate_chain cc b routes =
     (if \<not> is_chain_front b \<and> \<not> b_auth_downstream b then routes else map (annotate_route cc b) routes)"

definition unread_entry :: "perr \<Rightarrow> unparsed" where
  "unread_entry err = \<lparr>n_locator = ''edge'', n_kind = UnknownServerBlock,
     n_reason = ''edge could not be read: '' @ err, n_raw_excerpt = []\<rparr>"

definition edge_status_of :: "ingress_files \<Rightarrow> chain_context \<Rightarrow> 'w edge_binding \<Rightarrow> edge_read \<Rightarrow> edge_status" where
  "edge_status_of fs cc b rd =
     (case er_err rd of
        Some err \<Rightarrow> \<lparr>es_name = b_name b, es_driver = ep_name (b_provider b), es_routes = [],
          es_deny_present = True, es_unparsed = [unread_entry err], es_generator = [],
          es_ingress_kind = b_ingress_kind b, es_persistence = PersistUnset\<rparr>
      | None \<Rightarrow> (let live = er_live rd in
          \<lparr>es_name = b_name b, es_driver = ep_name (b_provider b), es_routes = annotate_chain cc b (l_routes live),
           es_deny_present = l_deny_present live, es_unparsed = l_unparsed live, es_generator = l_generator live,
           es_ingress_kind = resolve_ingress_kind fs b live, es_persistence = l_persistence live\<rparr>))"

definition dns_status :: "'w \<Rightarrow> 'w dns_provider \<Rightarrow> core_err + scope_records" where
  "dns_status w dp =
     (case dp_live dp w of
        Inl err \<Rightarrow> Inl (ErrDNSLive (dp_name dp) err)
      | Inr recs \<Rightarrow> Inr \<lparr>sc_provider = dp_name dp, sc_scope = dp_scope dp, sc_records = recs\<rparr>)"

definition status :: "'w engine \<Rightarrow> ingress_files \<Rightarrow> 'w \<Rightarrow> core_err + status_report" where
  "status e fs w =
     (case read_all e w of
        Inl x \<Rightarrow> Inl (ErrReadEdge (fst x) (snd x))
      | Inr reads \<Rightarrow> rbind (rmap (dns_status w) (g_dns e)) (\<lambda>ds.
          Inr \<lparr>sr_edges = map (\<lambda>b. edge_status_of fs (build_chain_context reads) b
                 (case map_of reads (b_name b) of Some rd \<Rightarrow> rd | None \<Rightarrow> \<lparr>er_live = empty_live False, er_err = None\<rparr>))
               (g_edges e), sr_dns = ds\<rparr>))"

section \<open>Export\<close>

record export_edge =
  xe_name :: string
  xe_provider :: string
  xe_deny_present :: bool
  xe_routes :: "(string \<times> string) list"
  xe_unparsed :: "unparsed list"

record export_snapshot =
  xs_edges :: "export_edge list"
  xs_dns :: "scope_records list"

definition export_edge_of :: "'w \<Rightarrow> 'w edge_binding \<Rightarrow> core_err + export_edge" where
  "export_edge_of w b =
     (case ep_read (b_provider b) w of
        Inl err \<Rightarrow> Inl (ErrReadEdge (b_name b) err)
      | Inr live \<Rightarrow> Inr \<lparr>xe_name = b_name b, xe_provider = ep_name (b_provider b),
          xe_deny_present = l_deny_present live,
          xe_routes = map (\<lambda>r. (r_host r, u_address (r_upstream r))) (l_routes live),
          xe_unparsed = l_unparsed live\<rparr>)"

definition export_snapshot_data :: "'w engine \<Rightarrow> 'w \<Rightarrow> core_err + export_snapshot" where
  "export_snapshot_data e w =
     rbind (rmap (export_edge_of w) (g_edges e)) (\<lambda>es.
     rbind (rmap (dns_status w) (g_dns e)) (\<lambda>ds. Inr \<lparr>xs_edges = es, xs_dns = ds\<rparr>))"

section \<open>Lemmas\<close>

lemma annotate_chain_hosts: "map r_host (annotate_chain cc b rs) = map r_host rs"
  by (auto simp: annotate_chain_def annotate_route_def Let_def split: option.split)

lemma edge_status_unread:
  "er_err rd = Some err \<Longrightarrow> status_deny_state (edge_status_of fs cc b rd) = DenyUnknown
     \<and> status_coverage (edge_status_of fs cc b rd) = (0, 1)"
  by (simp add: edge_status_of_def status_deny_state_def status_fully_parsed_def status_coverage_def unread_entry_def)

lemma edge_status_read:
  "er_err rd = None \<Longrightarrow> status_deny_state (edge_status_of fs cc b rd) = deny_verdict (er_live rd)
     \<and> status_coverage (edge_status_of fs cc b rd) = coverage (er_live rd)
     \<and> map r_host (es_routes (edge_status_of fs cc b rd)) = map r_host (l_routes (er_live rd))"
  using annotate_chain_hosts [of cc b "l_routes (er_live rd)"]
  by (auto simp: edge_status_of_def Let_def status_deny_state_def deny_verdict_def status_fully_parsed_def
      fully_parsed_def status_coverage_def coverage_def dest: map_eq_imp_length_eq)

text \<open>The status of an edge is what its live state says, for every edge in order: an edge that was read
  has its own verdict on the default deny, its own coverage and its own hosts, and an edge that
  could not be read is unknown with nothing of it understood, never enforced.\<close>

theorem status_reflects_live:
  assumes "status e fs w = Inr rep" and "distinct (map b_name (g_edges e))"
  shows "list_all2 (\<lambda>b es. es_name es = b_name b \<and> (case ep_read (b_provider b) w of
        Inl _ \<Rightarrow> status_deny_state es = DenyUnknown \<and> status_coverage es = (0, 1)
      | Inr live \<Rightarrow> status_deny_state es = deny_verdict live \<and> status_coverage es = coverage live
          \<and> map r_host (es_routes es) = map r_host (l_routes live)))
    (g_edges e) (sr_edges rep)"
proof -
  obtain reads where reads: "read_all e w = Inr reads"
    and rep: "sr_edges rep = map (\<lambda>b. edge_status_of fs (build_chain_context reads) b
      (case map_of reads (b_name b) of Some rd \<Rightarrow> rd | None \<Rightarrow> \<lparr>er_live = empty_live False, er_err = None\<rparr>)) (g_edges e)"
    using assms(1) by (auto simp: status_def rbind_Inr split: sum.splits)
  have "es_name (edge_status_of fs cc b rd) = b_name b" for cc rd and b :: "'a edge_binding"
    by (simp add: edge_status_of_def Let_def split: option.split)
  note name = this
  have "es_name es = b_name b \<and> (case ep_read (b_provider b) w of
        Inl _ \<Rightarrow> status_deny_state es = DenyUnknown \<and> status_coverage es = (0, 1)
      | Inr live \<Rightarrow> status_deny_state es = deny_verdict live \<and> status_coverage es = coverage live
          \<and> map r_host (es_routes es) = map r_host (l_routes live))"
    if es: "es = edge_status_of fs (build_chain_context reads) b (read_of w b)" for b es
  proof (cases "ep_read (b_provider b) w")
    case (Inl err)
    then have "er_err (read_of w b) = Some err" by (simp add: read_of_def)
    from edge_status_unread [OF this] Inl name show ?thesis by (simp add: es)
  next
    case (Inr live)
    then have "er_err (read_of w b) = None" "er_live (read_of w b) = live" by (simp_all add: read_of_def)
    with edge_status_read [of "read_of w b"] Inr name show ?thesis by (simp add: es)
  qed
  then show ?thesis
    unfolding rep list_all2_map2 by (auto intro!: list.rel_refl_strong simp: reads_of_edge [OF reads assms(2)])
qed

lemma status_reflects_live_witness:
  "case status (audited_engine []) no_files (audited_world [served ''a.ex'' ''sso''] []) of
     Inl _ \<Rightarrow> False | Inr rep \<Rightarrow> list_all2 (\<lambda>b es. es_name es = b_name b) [audited_binding ''e'' []] (sr_edges rep)"
proof (cases "status (audited_engine []) no_files (audited_world [served ''a.ex'' ''sso''] [])")
  case (Inl err)
  have "case status (audited_engine []) no_files (audited_world [served ''a.ex'' ''sso''] []) of Inl _ \<Rightarrow> False | Inr _ \<Rightarrow> True"
    by code_simp
  with Inl show ?thesis by simp
next
  case (Inr rep)
  have "list_all2 (\<lambda>b es. es_name es = b_name b) (g_edges (audited_engine [])) (sr_edges rep)"
    by (rule list_all2_mono [OF status_reflects_live [OF Inr audited_engine_simps(2)]]) simp
  with Inr show ?thesis by simp
qed

lemma list_all2_left: "list_all2 p xs ys \<Longrightarrow> z \<in> set xs \<Longrightarrow> \<exists>y \<in> set ys. p z y"
  by (induction rule: list_all2_induct) auto

text \<open>An export holds every route of every edge, and the entries it could not understand.\<close>

lemma export_faithful:
  "export_snapshot_data e w = Inr snap \<Longrightarrow> b \<in> set (g_edges e) \<Longrightarrow>
     \<exists>live x. ep_read (b_provider b) w = Inr live \<and> x \<in> set (xs_edges snap) \<and> xe_name x = b_name b
       \<and> map fst (xe_routes x) = map r_host (l_routes live) \<and> xe_unparsed x = l_unparsed live"
proof -
  assume "export_snapshot_data e w = Inr snap" and b: "b \<in> set (g_edges e)"
  then have "list_all2 (\<lambda>b x. export_edge_of w b = Inr x) (g_edges e) (xs_edges snap)"
    by (auto simp: export_snapshot_data_def rbind_Inr rmap_Inr_iff)
  from list_all2_left [OF this b] obtain x where x: "x \<in> set (xs_edges snap)" "export_edge_of w b = Inr x"
    by blast
  obtain live where live: "ep_read (b_provider b) w = Inr live"
    using x(2) by (cases "ep_read (b_provider b) w") (simp_all add: export_edge_of_def)
  with x(2) have "xe_name x = b_name b" "map fst (xe_routes x) = map r_host (l_routes live)" "xe_unparsed x = l_unparsed live"
    by (auto simp: export_edge_of_def)
  with live x(1) show ?thesis by blast
qed

end
