(* ===== verification/Regexp.thy ===== *)
theory Regexp
  imports Prelude
begin

text \<open>
  The regular expressions of the drivers, as Go's package \<open>regexp\<close> runs them. An expression is a
  value of \<open>rx\<close>, written in the order of its source text; \<open>matches\<close> lists the ways it matches at a
  position, the preferred one first (alternatives from the left, greedy repetition longest first,
  lazy repetition shortest first), and \<open>rx_find\<close> takes the first of them at the leftmost position
  that has any. A position is the byte before it, the text after it and what the groups hold.
  Repetition is over a class of bytes, as in every expression the program compiles.

  The lemmas are about expressions that start at the head of a line with a word: their matches
  are found line by line.
\<close>

section \<open>Expressions\<close>

datatype rx =
    TextStart
  | LineStart
  | WordEdge
  | Lit string
  | One "char \<Rightarrow> bool"
  | Many "char \<Rightarrow> bool"
  | Few "char \<Rightarrow> bool"
  | Opt rx
  | Grp nat rx
  | Seq rx rx

type_synonym rx_state = "char option \<times> string \<times> (nat \<times> string) list"

definition newline :: char where "newline = CHR 0x0A"

definition rx_space :: "char \<Rightarrow> bool" where
  "rx_space c = (c \<in> {CHR 0x20, CHR 0x0A, CHR 0x09, CHR 0x0D, CHR 0x0C})"

definition rx_digit :: "char \<Rightarrow> bool" where
  "rx_digit c = (c \<in> set ''0123456789'')"

definition rx_word :: "char \<Rightarrow> bool" where
  "rx_word c = (c \<in> set ''abcdefghijklmnopqrstuvwxyzABCDEFGHIJKLMNOPQRSTUVWXYZ_0123456789'')"

definition word_at :: "char option \<Rightarrow> bool" where
  "word_at c = (case c of None \<Rightarrow> False | Some x \<Rightarrow> rx_word x)"

definition head_of :: "string \<Rightarrow> char option" where
  "head_of s = (case s of [] \<Rightarrow> None | c # _ \<Rightarrow> Some c)"

definition last_of :: "char option \<Rightarrow> string \<Rightarrow> char option" where
  "last_of p s = (if s = [] then p else Some (last s))"

text \<open>The positions a repetition can stop at, the nearest first.\<close>

fun runs :: "(char \<Rightarrow> bool) \<Rightarrow> char option \<Rightarrow> string \<Rightarrow> (nat \<times> string) list \<Rightarrow> rx_state list" where
  "runs q p [] m = [(p, [], m)]"
| "runs q p (c # s) m = (p, c # s, m) # (if q c then runs q (Some c) s m else [])"

primrec matches :: "rx \<Rightarrow> rx_state \<Rightarrow> rx_state list" where
  "matches TextStart = (\<lambda>(p, s, m). if p = None then [(p, s, m)] else [])"
| "matches LineStart = (\<lambda>(p, s, m). if p = None \<or> p = Some newline then [(p, s, m)] else [])"
| "matches WordEdge = (\<lambda>(p, s, m). if word_at p \<noteq> word_at (head_of s) then [(p, s, m)] else [])"
| "matches (Lit l) = (\<lambda>(p, s, m). if has_prefix l s then [(last_of p l, drop (length l) s, m)] else [])"
| "matches (One q) = (\<lambda>(p, s, m). case s of [] \<Rightarrow> [] | c # s' \<Rightarrow> if q c then [(Some c, s', m)] else [])"
| "matches (Many q) = (\<lambda>(p, s, m). rev (runs q p s m))"
| "matches (Few q) = (\<lambda>(p, s, m). runs q p s m)"
| "matches (Opt a) = (\<lambda>st. matches a st @ [st])"
| "matches (Grp n a) = (\<lambda>(p, s, m).
     map (\<lambda>(p', s', m'). (p', s', (n, take (length s - length s') s) # m')) (matches a (p, s, m)))"
| "matches (Seq a b) = (\<lambda>st. concat (map (matches b) (matches a st)))"

fun rx_seq :: "rx list \<Rightarrow> rx" where
  "rx_seq [] = Lit []"
| "rx_seq [r] = r"
| "rx_seq (r # s # rs) = Seq r (rx_seq (s # rs))"

definition plus :: "(char \<Rightarrow> bool) \<Rightarrow> rx" where "plus q = Seq (One q) (Many q)"
definition plus_few :: "(char \<Rightarrow> bool) \<Rightarrow> rx" where "plus_few q = Seq (One q) (Few q)"

text \<open>A word at the head of a line, or of the text.\<close>

definition line_head :: "string \<Rightarrow> rx \<Rightarrow> rx" where
  "line_head w r = Seq LineStart (Seq (Many rx_space) (Seq (Lit w) r))"

definition text_head :: "string \<Rightarrow> rx \<Rightarrow> rx" where
  "text_head w r = Seq TextStart (Seq (Many rx_space) (Seq (Lit w) r))"

section \<open>Searching\<close>

definition first_of :: "'a list \<Rightarrow> 'a option" where
  "first_of xs = (case xs of [] \<Rightarrow> None | x # _ \<Rightarrow> Some x)"

text \<open>The leftmost match: the text before it, and the position after it.\<close>

fun rx_find :: "rx \<Rightarrow> char option \<Rightarrow> string \<Rightarrow> (string \<times> rx_state) option" where
  "rx_find r p [] = map_option (\<lambda>st. ([], st)) (first_of (matches r (p, [], [])))"
| "rx_find r p (c # s) =
     (case first_of (matches r (p, c # s, [])) of
        Some st \<Rightarrow> Some ([], st)
      | None \<Rightarrow> map_option (\<lambda>(before, st). (c # before, st)) (rx_find r (Some c) s))"

definition group :: "nat \<Rightarrow> rx_state \<Rightarrow> string" where
  "group n st = (case map_of (snd (snd st)) n of Some t \<Rightarrow> t | None \<Rightarrow> [])"

text \<open>\<open>MatchString\<close>, and one group of \<open>FindStringSubmatch\<close>.\<close>

definition rx_match :: "rx \<Rightarrow> string \<Rightarrow> bool" where
  "rx_match r s = (rx_find r None s \<noteq> None)"

definition rx_sub :: "rx \<Rightarrow> nat \<Rightarrow> string \<Rightarrow> string option" where
  "rx_sub r n s = map_option (\<lambda>(_, st). group n st) (rx_find r None s)"

text \<open>\<open>FindAllStringSubmatch\<close>: the matches from the left, without overlap. No expression here
  matches the empty text, so each search starts nearer the end.\<close>

function rx_find_all :: "rx \<Rightarrow> char option \<Rightarrow> string \<Rightarrow> (string \<times> rx_state) list" where
  "rx_find_all r p s =
     (case rx_find r p s of
        None \<Rightarrow> []
      | Some (before, (p', s', m)) \<Rightarrow>
          (before, (p', s', m)) # (if length s' < length s then rx_find_all r p' s' else []))"
  by pat_completeness auto
termination
  by (relation "measure (\<lambda>(_, _, s). length s)") auto

declare rx_find_all.simps [simp del]


definition rx_all_subs :: "rx \<Rightarrow> nat \<Rightarrow> string \<Rightarrow> string list" where
  "rx_all_subs r n s = map (\<lambda>(_, st). group n st) (rx_find_all r None s)"

section \<open>Lemmas on single expressions\<close>

lemma first_of_simps [simp]: "first_of [] = None" "first_of (x # xs) = Some x"
  by (simp_all add: first_of_def)

lemma first_of_append: "first_of (xs @ ys) = (case first_of xs of None \<Rightarrow> first_of ys | Some x \<Rightarrow> Some x)"
  by (cases xs) auto

lemma first_of_concat: "first_of (concat (map f (x # xs))) =
    (case first_of (f x) of None \<Rightarrow> first_of (concat (map f xs)) | Some y \<Rightarrow> Some y)"
  by (simp add: first_of_append)

lemma newline_space [simp]: "rx_space newline"
  by (simp add: rx_space_def newline_def)

lemma last_of_Some: "l \<noteq> [] \<Longrightarrow> last_of p l = last_of q l"
  by (simp add: last_of_def)

text \<open>A repetition goes as far as it can, or stops before a byte of its class.\<close>

lemma runs_last:
  "\<exists>early. runs q p s m = early @ [(last_of p (takeWhile q s), dropWhile q s, m)]
     \<and> (\<forall>(p', s', m') \<in> set early. m' = m \<and> (\<exists>c t. s' = c # t \<and> q c))"
proof (induction s arbitrary: p)
  case Nil
  then show ?case by (auto simp: last_of_def)
next
  case (Cons c s)
  show ?case
  proof (cases "q c")
    case True
    obtain early where e: "runs q (Some c) s m = early @ [(last_of (Some c) (takeWhile q s), dropWhile q s, m)]"
        "\<forall>(p', s', m') \<in> set early. m' = m \<and> (\<exists>c t. s' = c # t \<and> q c)"
      using Cons.IH by blast
    have "last_of p (takeWhile q (c # s)) = last_of (Some c) (takeWhile q s)"
      using True by (simp add: last_of_def)
    with True e show ?thesis by (intro exI [of _ "(p, c # s, m) # early"]) auto
  next
    case False
    then show ?thesis by (auto simp: last_of_def)
  qed
qed

lemma concat_map_nils: "(\<And>x. x \<in> set xs \<Longrightarrow> f x = []) \<Longrightarrow> concat (map f xs) = []"
  by (induction xs) auto

text \<open>White space before a word is skipped whole.\<close>

lemma many_before_word:
  assumes "\<not> q c"
  shows "matches (Seq (Many q) (Seq (Lit (c # cs)) r)) (p, s, m)
    = matches (Seq (Lit (c # cs)) r) (None, dropWhile q s, m)"
proof -
  obtain early where e: "runs q p s m = early @ [(last_of p (takeWhile q s), dropWhile q s, m)]"
      "\<forall>(p', s', m') \<in> set early. m' = m \<and> (\<exists>c t. s' = c # t \<and> q c)"
    using runs_last by blast
  have none: "matches (Lit (c # cs)) st = []" if st: "st \<in> set (rev early)" for st
  proof -
    obtain p' s' m' where p': "st = (p', s', m')" by (cases st)
    with st e(2) obtain d t where "s' = d # t" "q d" by auto
    with assms p' show ?thesis by auto
  qed
  have "matches (Seq (Lit (c # cs)) r) st = []" if st: "st \<in> set (rev early)" for st
    using none [OF st] by simp
  then have "concat (map (matches (Seq (Lit (c # cs)) r)) (rev early)) = []"
    by (rule concat_map_nils)
  moreover have "matches (Lit (c # cs)) (last_of p (takeWhile q s), t, m) = matches (Lit (c # cs)) (None, t, m)" for t
    by (simp add: last_of_def)
  ultimately show ?thesis by (simp add: e(1) del: matches.simps(4))
qed

section \<open>Searching line by line\<close>

text \<open>An expression that starts at the head of a line with a word is tried at the first word of
  every line.\<close>

function by_line :: "(string \<Rightarrow> 'a option) \<Rightarrow> string \<Rightarrow> 'a option" where
  "by_line f s =
     (case f (dropWhile rx_space s) of
        Some x \<Rightarrow> Some x
      | None \<Rightarrow> (case dropWhile (\<lambda>c. c \<noteq> newline) s of [] \<Rightarrow> None | _ # s' \<Rightarrow> by_line f s'))"
  by pat_completeness auto
termination
proof (relation "measure (\<lambda>(_, s). length s)", goal_cases)
  case (2 f s x s')
  have "length (dropWhile (\<lambda>c. c \<noteq> newline) s) \<le> length s" by (rule length_dropWhile_le)
  with 2 show ?case by simp
qed simp

declare by_line.simps [simp del]

definition at_word :: "string \<Rightarrow> rx \<Rightarrow> string \<Rightarrow> rx_state option" where
  "at_word w r s = first_of (matches (Seq (Lit w) r) (None, s, []))"

lemma matches_at_line:
  "matches (Seq LineStart r) (p, s, m) = (if p = None \<or> p = Some newline then matches r (p, s, m) else [])"
  by auto

lemma matches_line_head:
  assumes "\<not> rx_space c"
  shows "first_of (matches (line_head (c # cs) r) (p, s, []))
    = (if p = None \<or> p = Some newline then at_word (c # cs) r (dropWhile rx_space s) else None)"
  by (simp only: line_head_def at_word_def matches_at_line many_before_word [of rx_space, OF assms] if_distrib [of first_of] first_of_simps)

lemma rx_find_mid_line:
  assumes "\<not> rx_space c" and "e \<noteq> newline"
  shows "map_option snd (rx_find (line_head (c # cs) r) (Some e) s) =
    (case dropWhile (\<lambda>c. c \<noteq> newline) s of [] \<Rightarrow> None
     | _ # s' \<Rightarrow> map_option snd (rx_find (line_head (c # cs) r) (Some newline) s'))"
  using assms(2)
proof (induction s arbitrary: e)
  case Nil
  then show ?case by (auto simp: matches_line_head [OF assms(1)])
next
  case (Cons d s)
  show ?case
  proof (cases "d = newline")
    case True
    with Cons.prems show ?thesis
      by (simp add: matches_line_head [OF assms(1)] option.map_comp o_def case_prod_beta')
  next
    case False
    then have "map_option snd (rx_find (line_head (c # cs) r) (Some d) s) =
        (case dropWhile (\<lambda>c. c \<noteq> newline) s of [] \<Rightarrow> None
         | _ # s' \<Rightarrow> map_option snd (rx_find (line_head (c # cs) r) (Some newline) s'))"
      by (intro Cons.IH) simp_all
    with False Cons.prems show ?thesis
      by (simp add: matches_line_head [OF assms(1)] option.map_comp o_def case_prod_beta')
  qed
qed

lemma rx_find_by_line:
  assumes "\<not> rx_space c" and "p = None \<or> p = Some newline"
  shows "map_option snd (rx_find (line_head (c # cs) r) p s) = by_line (at_word (c # cs) r) s"
  using assms(2)
proof (induction "length s" arbitrary: s p rule: less_induct)
  case less
  show ?case
  proof (cases "at_word (c # cs) r (dropWhile rx_space s)")
    case (Some st)
    with less.prems have "map_option snd (rx_find (line_head (c # cs) r) p s) = Some st"
      by (cases s) (simp_all add: matches_line_head [OF assms(1)] del: dropWhile.simps(2))
    with Some show ?thesis by (simp add: by_line.simps [of _ s])
  next
    case None
    show ?thesis
    proof (cases s)
      case Nil
      with None less.prems show ?thesis
        by (auto simp: matches_line_head [OF assms(1)] by_line.simps [of _ "[]"])
    next
      case (Cons d t)
      have skip: "map_option snd (rx_find (line_head (c # cs) r) p s)
          = map_option snd (rx_find (line_head (c # cs) r) (Some d) t)"
        using None less.prems Cons
        by (simp add: matches_line_head [OF assms(1)] option.map_comp o_def case_prod_beta')
      show ?thesis
      proof (cases "d = newline")
        case True
        with less.hyps [of t "Some newline"] Cons skip None show ?thesis
          by (simp add: by_line.simps [of _ "newline # t"])
      next
        case False
        have step: "map_option snd (rx_find (line_head (c # cs) r) (Some d) t) =
            (case dropWhile (\<lambda>c. c \<noteq> newline) t of [] \<Rightarrow> None | _ # s' \<Rightarrow> by_line (at_word (c # cs) r) s')"
        proof (cases "dropWhile (\<lambda>c. c \<noteq> newline) t")
          case Nil
          with rx_find_mid_line [OF assms(1) False, of cs r t] show ?thesis by (simp del: dropWhile_eq_Nil_conv)
        next
          case (Cons x s')
          have "length s' < length s"
            using Cons length_dropWhile_le [of "\<lambda>c. c \<noteq> newline" t] \<open>s = d # t\<close> by simp
          from less.hyps [OF this, of "Some newline"] rx_find_mid_line [OF assms(1) False, of cs r t] Cons
          show ?thesis by simp
        qed
        have "by_line (at_word (c # cs) r) s =
            (case dropWhile (\<lambda>c. c \<noteq> newline) t of [] \<Rightarrow> None | _ # s' \<Rightarrow> by_line (at_word (c # cs) r) s')"
          using None Cons False by (simp add: by_line.simps [of _ "d # t"])
        with skip step show ?thesis by simp
      qed
    qed
  qed
qed

lemma by_line_Cons:
  "newline \<notin> set l \<Longrightarrow> by_line f (l @ newline # s) =
     (case f (dropWhile rx_space (l @ newline # s)) of Some x \<Rightarrow> Some x | None \<Rightarrow> by_line f s)"
  by (subst by_line.simps) (auto simp: dropWhile_append split: option.split)

text \<open>A blank line changes nothing; nor does a line whose first word is another.\<close>

lemma by_line_blank:
  assumes "list_all rx_space l" and "newline \<notin> set l"
  shows "by_line f (l @ newline # s) = by_line f s"
proof -
  have "dropWhile rx_space (l @ newline # s) = dropWhile rx_space s"
    using assms(1) by (simp add: list_all_iff dropWhile_append3 dropWhile_append2 [of l])
  with by_line_Cons [OF assms(2), of f s] by_line.simps [of f s] show ?thesis
    by (auto split: option.splits)
qed

lemma by_line_other:
  "newline \<notin> set l \<Longrightarrow> dropWhile rx_space l = t # u \<Longrightarrow> f (t # u @ newline # s) = None \<Longrightarrow>
     by_line f (l @ newline # s) = by_line f s"
proof -
  assume l: "newline \<notin> set l" and t: "dropWhile rx_space l = t # u" and f: "f (t # u @ newline # s) = None"
  from t have "dropWhile rx_space (l @ newline # s) = t # u @ newline # s"
    by (metis append_Cons dropWhile_append dropWhile_eq_Nil_conv list.distinct(1))
  with by_line_Cons [OF l, of f s] f show ?thesis by simp
qed

lemma at_word_other: "\<not> has_prefix w s \<Longrightarrow> at_word w r s = None"
  by (simp add: at_word_def)

lemma rx_sub_by_line:
  "\<not> rx_space c \<Longrightarrow> rx_sub (line_head (c # cs) r) n s = map_option (group n) (by_line (at_word (c # cs) r) s)"
proof -
  assume c: "\<not> rx_space c"
  have "rx_sub (line_head (c # cs) r) n s = map_option (group n) (map_option snd (rx_find (line_head (c # cs) r) None s))"
    by (simp add: rx_sub_def option.map_comp o_def case_prod_beta')
  then show ?thesis by (simp add: rx_find_by_line [OF c])
qed

lemma rx_match_by_line:
  "\<not> rx_space c \<Longrightarrow> rx_match (line_head (c # cs) r) s \<longleftrightarrow> by_line (at_word (c # cs) r) s \<noteq> None"
proof -
  assume c: "\<not> rx_space c"
  have "rx_match (line_head (c # cs) r) s \<longleftrightarrow> map_option snd (rx_find (line_head (c # cs) r) None s) \<noteq> None"
    by (simp add: rx_match_def)
  then show ?thesis by (simp add: rx_find_by_line [OF c])
qed

section \<open>Searching at the start, and for all matches\<close>

lemma rx_find_past_start: "rx_find (Seq TextStart a) (Some e) s = None"
  by (induction s arbitrary: e) auto

lemma rx_sub_text_head:
  assumes "\<not> rx_space c"
  shows "rx_sub (text_head (c # cs) r) n s = map_option (group n) (at_word (c # cs) r (dropWhile rx_space s))"
proof -
  have "matches (Seq TextStart q) (None, t, m) = matches q (None, t, m)" for q t m by simp
  then have "first_of (matches (text_head (c # cs) r) (None, s, [])) = at_word (c # cs) r (dropWhile rx_space s)"
    by (simp only: text_head_def at_word_def many_before_word [of rx_space, OF assms])
  then show ?thesis
    by (cases s; cases "at_word (c # cs) r (dropWhile rx_space s)")
      (simp_all add: rx_sub_def text_head_def rx_find_past_start del: matches.simps)
qed

text \<open>Matching goes forward.\<close>

lemma runs_length: "st' \<in> set (runs q p s m) \<Longrightarrow> length (fst (snd st')) \<le> length s"
proof (induction s arbitrary: p)
  case (Cons c s)
  then consider "st' = (p, c # s, m)" | "st' \<in> set (runs q (Some c) s m)" by (auto split: if_splits)
  then show ?case
  proof cases
    case 2
    from Cons.IH [OF this] show ?thesis by simp
  qed simp
qed simp

lemma matches_length: "st' \<in> set (matches r st) \<Longrightarrow> length (fst (snd st')) \<le> length (fst (snd st))"
proof (induction r arbitrary: st st')
  case (Seq a b)
  from Seq.prems obtain st1 where st1: "st1 \<in> set (matches a st)" "st' \<in> set (matches b st1)" by auto
  from Seq.IH(1) [OF st1(1)] Seq.IH(2) [OF st1(2)] show ?case by simp
next
  case (Grp n a)
  obtain p s m where st: "st = (p, s, m)" by (cases st)
  with Grp.prems obtain st1 where st1: "st1 \<in> set (matches a st)" "fst (snd st') = fst (snd st1)" by auto
  from Grp.IH [OF st1(1)] st1(2) show ?case by simp
next
  case (Opt a)
  from Opt.prems consider "st' \<in> set (matches a st)" | "st' = st" by auto
  then show ?case
  proof cases
    case 1
    from Opt.IH [OF this] show ?thesis .
  qed simp
qed (auto split: if_splits list.splits dest: runs_length)

lemma first_of_in: "first_of xs = Some x \<Longrightarrow> x \<in> set xs"
  by (cases xs) auto

lemma at_word_shorter: "at_word (c # cs) r s = Some st \<Longrightarrow> length (fst (snd st)) < length s"
proof -
  assume "at_word (c # cs) r s = Some st"
  then have "st \<in> set (matches (Seq (Lit (c # cs)) r) (None, s, []))" by (auto simp: at_word_def dest: first_of_in)
  then obtain st1 where st1: "st1 \<in> set (matches (Lit (c # cs)) (None, s, []))" "st \<in> set (matches r st1)" by auto
  from st1(1) have "length (fst (snd st1)) < length s" by (auto split: if_splits simp: has_prefix_iff)
  with matches_length [OF st1(2)] show ?thesis by simp
qed

lemma by_line_shorter:
  "by_line (at_word (c # cs) r) s = Some st \<Longrightarrow> length (fst (snd st)) < length s"
proof (induction "length s" arbitrary: s rule: less_induct)
  case less
  show ?case
  proof (cases "at_word (c # cs) r (dropWhile rx_space s)")
    case (Some st')
    with less.prems have "st' = st" by (simp add: by_line.simps [of _ s])
    with at_word_shorter [OF Some] length_dropWhile_le [of rx_space s] show ?thesis by simp
  next
    case None
    with less.prems obtain x s' where s': "dropWhile (\<lambda>c. c \<noteq> newline) s = x # s'" "by_line (at_word (c # cs) r) s' = Some st"
      by (auto simp: by_line.simps [of _ s] split: list.splits)
    with length_dropWhile_le [of "\<lambda>c. c \<noteq> newline" s] have len: "length s' < length s" by simp
    from less.hyps [OF len s'(2)] len show ?thesis by simp
  qed
qed

text \<open>All matches of such an expression, by the first and the text after it.\<close>

lemma rx_find_all_by_line:
  assumes "\<not> rx_space c" and "p = None \<or> p = Some newline"
  shows "map snd (rx_find_all (line_head (c # cs) r) p s) =
    (case by_line (at_word (c # cs) r) s of
       None \<Rightarrow> []
     | Some (p', s', m) \<Rightarrow> (p', s', m) # map snd (rx_find_all (line_head (c # cs) r) p' s'))"
proof (cases "rx_find (line_head (c # cs) r) p s")
  case None
  with rx_find_by_line [OF assms, of cs r s] show ?thesis by (simp add: rx_find_all.simps [of _ p s])
next
  case (Some x)
  obtain b p' s' m where x: "x = (b, p', s', m)" by (cases x)
  with Some rx_find_by_line [OF assms, of cs r s] have b: "by_line (at_word (c # cs) r) s = Some (p', s', m)" by simp
  from by_line_shorter [OF b] Some x b show ?thesis by (simp add: rx_find_all.simps [of _ p s])
qed

lemma rx_find_all_mid_line:
  assumes "\<not> rx_space c" and "e \<noteq> newline"
  shows "map snd (rx_find_all (line_head (c # cs) r) (Some e) s) =
    (case dropWhile (\<lambda>c. c \<noteq> newline) s of
       [] \<Rightarrow> []
     | _ # s' \<Rightarrow> map snd (rx_find_all (line_head (c # cs) r) (Some newline) s'))"
proof (cases "dropWhile (\<lambda>c. c \<noteq> newline) s")
  case Nil
  with rx_find_mid_line [OF assms, of cs r s] show ?thesis
    by (simp add: rx_find_all.simps [of _ "Some e"] del: dropWhile_eq_Nil_conv)
next
  case (Cons x s')
  with rx_find_mid_line [OF assms, of cs r s]
  have same: "map_option snd (rx_find (line_head (c # cs) r) (Some e) s) = map_option snd (rx_find (line_head (c # cs) r) (Some newline) s')"
    by simp
  have len: "length s' < length s" using Cons length_dropWhile_le [of "\<lambda>c. c \<noteq> newline" s] by simp
  show ?thesis
  proof (cases "rx_find (line_head (c # cs) r) (Some newline) s'")
    case None
    with same Cons show ?thesis
      by (simp add: rx_find_all.simps [of _ "Some e"] rx_find_all.simps [of _ "Some newline"])
  next
    case (Some y)
    obtain b p'' t m where y: "y = (b, p'', t, m)" by (cases y)
    with Some have "by_line (at_word (c # cs) r) s' = Some (p'', t, m)"
      using rx_find_by_line [OF assms(1), of "Some newline" cs r s'] by simp
    from by_line_shorter [OF this] have "length t < length s'" by simp
    moreover obtain b' where "rx_find (line_head (c # cs) r) (Some e) s = Some (b', p'', t, m)"
      using same Some y by auto
    ultimately show ?thesis using Some y Cons len
      by (simp add: rx_find_all.simps [of _ "Some e" s] rx_find_all.simps [of _ "Some newline" s'])
  qed
qed

lemma rx_all_subs_same:
  assumes "\<not> rx_space c" and "by_line (at_word (c # cs) r) t = by_line (at_word (c # cs) r) s"
  shows "rx_all_subs (line_head (c # cs) r) n t = rx_all_subs (line_head (c # cs) r) n s"
proof -
  have "map snd (rx_find_all (line_head (c # cs) r) None t) = map snd (rx_find_all (line_head (c # cs) r) None s)"
    using rx_find_all_by_line [OF assms(1), of None cs r] assms(2) by simp
  then have "map (group n) (map snd (rx_find_all (line_head (c # cs) r) None t))
      = map (group n) (map snd (rx_find_all (line_head (c # cs) r) None s))" by (rule arg_cong)
  then show ?thesis by (simp add: rx_all_subs_def comp_def case_prod_beta')
qed

end
