(* ===== verification/Strconv.thy ===== *)
theory Strconv
  imports Regexp
begin

text \<open>
  What the drivers use of the standard library's packages \<open>strings\<close> and \<open>strconv\<close>, beside what the
  prelude has: lines, fields between white space, decimal numbers; and the bytes of
  the dash the program puts into its texts.
\<close>

definition line_list :: "string \<Rightarrow> string list" where "line_list s = split_on newline s"
definition unlines :: "string list \<Rightarrow> string" where "unlines ls = concat (map (\<lambda>l. l @ [newline]) ls)"

text \<open>\<open>strings.Fields\<close>.\<close>

fun split_space :: "string \<Rightarrow> string list" where
  "split_space [] = [ [] ]"
| "split_space (c # s) =
     (if is_space c then [] # split_space s
      else (case split_space s of [] \<Rightarrow> [ [c] ] | f # fs \<Rightarrow> (c # f) # fs))"

definition str_fields :: "string \<Rightarrow> string list" where
  "str_fields s = filter (\<lambda>f. f \<noteq> []) (split_space s)"

text \<open>\<open>strconv.Itoa\<close>, and \<open>strconv.Atoi\<close> on a run of digits.\<close>

definition digit_char :: "int \<Rightarrow> char" where "digit_char n = char_of (48 + n)"

function decimal :: "int \<Rightarrow> string" where
  "decimal n = (if n < 10 then [digit_char n] else decimal (n div 10) @ [digit_char (n mod 10)])"
  by auto
termination
  by (relation "measure nat") auto

declare decimal.simps [simp del]

definition itoa :: "int \<Rightarrow> string" where
  "itoa n = (if n < 0 then ''-'' @ decimal (- n) else decimal n)"

definition decimal_value :: "string \<Rightarrow> int" where
  "decimal_value s = foldl (\<lambda>n c. 10 * n + (of_char c - 48)) 0 s"

definition atoi :: "string \<Rightarrow> int option" where
  "atoi s = (let n = decimal_value s in if n \<le> 9223372036854775807 then Some n else None)"

definition em_dash :: string where "em_dash = [CHR 0xE2, CHR 0x80, CHR 0x94]"

section \<open>Lines\<close>

lemma split_on_join: "newline \<notin> set l \<Longrightarrow> split_on newline (l @ newline # s) = l # split_on newline s"
  by (induction l) auto

lemma line_list_unlines:
  "\<forall>l \<in> set ls. newline \<notin> set l \<Longrightarrow> line_list (unlines ls @ s) = ls @ line_list s"
  by (induction ls) (auto simp: line_list_def unlines_def split_on_join)

lemma split_on_no_sep: "l \<in> set (split_on c s) \<Longrightarrow> c \<notin> set l"
proof (induction s arbitrary: l)
  case (Cons x s)
  then show ?case by (cases "split_on c s") (auto split: if_splits)
qed simp

lemma split_on_nonempty: "split_on c s \<noteq> []"
  by (induction s) (auto split: list.split)

lemma join_split: "join_with [c] (split_on c s) = s"
proof (induction s)
  case (Cons x s)
  obtain f fs where f: "split_on c s = f # fs" using split_on_nonempty [of c s] by (cases "split_on c s") auto
  with Cons show ?case by (cases fs) auto
qed simp

lemma join_lines: "join_with [newline] (ls @ [l]) = unlines ls @ l"
proof (induction ls)
  case (Cons k ls)
  have "join_with [newline] (k # ls @ [l]) = k @ [newline] @ join_with [newline] (ls @ [l])"
    by (cases "ls @ [l]") auto
  with Cons show ?case by (simp add: unlines_def)
qed (simp add: unlines_def)

lemma unlines_simps [simp]: "unlines [] = []" "unlines (l # ls) = l @ newline # unlines ls"
  "unlines (ls @ ks) = unlines ls @ unlines ks"
  by (simp_all add: unlines_def)

lemma line_list_join:
  "ls \<noteq> [] \<Longrightarrow> \<forall>l \<in> set ls. newline \<notin> set l \<Longrightarrow> line_list (join_with [newline] ls) = ls"
  by (cases ls rule: rev_cases) (auto simp: join_lines line_list_unlines, simp add: line_list_def split_on_single)

lemma line_list_no_newline: "l \<in> set (line_list raw) \<Longrightarrow> newline \<notin> set l"
  by (auto simp: line_list_def dest: split_on_no_sep)

lemma unlines_join: "ls \<noteq> [] \<Longrightarrow> unlines ls = join_with [newline] ls @ [newline]"
  by (cases ls rule: rev_cases) (auto simp: join_lines)

lemma unlines_concat: "unlines (concat bs) = concat (map unlines bs)"
  by (induction bs) auto

lemma not_blank_space: "trim_space l = [] \<longleftrightarrow> list_all is_space l"
proof -
  have "trim_space l = [] \<longleftrightarrow> (\<forall>c \<in> set (dropWhile is_space l). is_space c)"
    by (simp add: trim_space_def)
  also have "\<dots> \<longleftrightarrow> list_all is_space l"
    by (induction l) auto
  finally show ?thesis .
qed

end
