(* ===== verification/Nginx_Codec.thy ===== *)
theory Nginx_Codec
  imports Strconv Ports
begin

text \<open>
  The nginx configuration text as its driver sees it, \<open>internal/drivers/edge/nginx/codec.go\<close>: the
  file is cut into top-level chunks by counting braces, each chunk is classified by regular
  expressions, and crenel's own server blocks are rendered anew beside the chunks that are not its
  own. Ports are natural numbers; the bytes of the two non-ASCII signs the code prints are given.
\<close>

section \<open>Texts and lines\<close>

definition managed_marker :: string where "managed_marker = ''# crenel-managed:''"
definition deny_marker :: string where "deny_marker = ''# crenel-deny:''"

definition ng_header :: string where
  "ng_header = ''# crenel-managed nginx config v1 '' @ [CHR 0xE2, CHR 0x80, CHR 0x94]
     @ '' crenel blocks are regenerated; edit other blocks freely''"

definition ellipsis :: string where "ellipsis = [CHR 0xE2, CHR 0x80, CHR 0xA6]"

text \<open>\<open>strings.Trim(s, newline)\<close>, and the net count of braces.\<close>

definition trim_newlines :: "string \<Rightarrow> string" where
  "trim_newlines s = rev (dropWhile (\<lambda>c. c = newline) (rev (dropWhile (\<lambda>c. c = newline) s)))"

definition count_char :: "char \<Rightarrow> string \<Rightarrow> int" where
  "count_char c s = int (length (filter (\<lambda>x. x = c) s))"

definition net_braces :: "string \<Rightarrow> int" where
  "net_braces s = count_char (CHR ''{'') s - count_char (CHR ''}'') s"

section \<open>Regular expressions\<close>

definition not_semi :: "char \<Rightarrow> bool" where "not_semi c = (c \<noteq> CHR '';'')"

text \<open>\<open>serverNameRE\<close>, \<open>proxyPassRE\<close>, \<open>authRequestRE\<close>, \<open>authBasicRE\<close>.\<close>

definition directive_rx :: "string \<Rightarrow> rx" where
  "directive_rx name = line_head name (rx_seq [plus rx_space, Grp 1 (plus not_semi), Lit '';''])"

definition listen_default_rx :: rx where
  "listen_default_rx = line_head ''listen'' (rx_seq [plus rx_space, Many not_semi, WordEdge, Lit ''default'',
     Opt (Lit ''_server''), WordEdge])"

definition location_head_rx :: rx where
  "location_head_rx = text_head ''location'' (rx_seq [plus rx_space, Grp 1 (plus_few (\<lambda>c. c \<noteq> newline)),
     Many rx_space, Lit ''{''])"

definition listen_rx :: rx where
  "listen_rx = line_head ''listen'' (rx_seq [plus rx_space,
     Opt (Seq (Few not_semi) (One (\<lambda>c. c = CHR '':'' \<or> rx_space c))), Grp 1 (plus rx_digit), WordEdge])"

section \<open>Chunks\<close>

record chunk =
  ch_raw :: string
  ch_server :: bool
  ch_managed :: bool
  ch_deny :: bool
  ch_host :: string
  ch_addr :: string
  ch_catch_all :: bool
  ch_forwards :: bool
  ch_auth_uri :: string
  ch_auth_basic :: bool
  ch_ports :: "int list"
  ch_path_scoped :: bool
  ch_extra_paths :: "string list"

definition normalize_location_uri :: "string \<Rightarrow> string" where
  "normalize_location_uri hd_text =
     (case str_fields hd_text of
        [] \<Rightarrow> []
      | f # fs \<Rightarrow>
          if f \<in> {''='', ''~'', ''~*'', ''^~''} then (case fs of [] \<Rightarrow> [] | u # _ \<Rightarrow> u)
          else f)"

fun location_body :: "int \<Rightarrow> bool \<Rightarrow> string list \<Rightarrow> bool \<times> string list" where
  "location_body d has_proxy [] = (has_proxy, [])"
| "location_body d has_proxy (l # ls) =
     (if d \<le> 0 then (has_proxy, l # ls)
      else location_body (d + net_braces l) (has_proxy \<or> rx_match (directive_rx ''proxy_pass'') l) ls)"

lemma location_body_shorter: "location_body d h ls = (p, rest) \<Longrightarrow> length rest \<le> length ls"
  by (induction d h ls rule: location_body.induct) (auto split: if_splits)

function location_paths :: "string list \<Rightarrow> string list" where
  "location_paths [] = []"
| "location_paths (l # ls) =
     (case rx_sub location_head_rx 1 l of
        None \<Rightarrow> location_paths ls
      | Some h \<Rightarrow>
          (case location_body (net_braces l) (rx_match (directive_rx ''proxy_pass'') l) ls of
             (has_proxy, rest) \<Rightarrow>
               (if has_proxy then [normalize_location_uri h] else []) @ location_paths rest))"
  by pat_completeness auto
termination
  by (relation "measure length") (auto dest!: location_body_shorter [OF sym])

definition proxy_location_paths :: "string \<Rightarrow> string list" where
  "proxy_location_paths raw = location_paths (line_list raw)"

text \<open>\<open>splitTopLevel\<close>: the lines read and not yet flushed, the depth, whether a brace was opened.\<close>

definition flush :: "string list \<Rightarrow> string list" where
  "flush buf = (let t = join_with [newline] buf in if trim_space t \<noteq> [] then [t] else [])"

definition closes_at :: "bool \<Rightarrow> int \<Rightarrow> string \<Rightarrow> bool" where
  "closes_at opened d l = (d = 0 \<and> (opened \<or> has_suffix '';'' (trim_space l)))"

fun split_lines :: "string list \<Rightarrow> int \<Rightarrow> bool \<Rightarrow> string list \<Rightarrow> string list" where
  "split_lines buf d opened [] = flush buf"
| "split_lines buf d opened (l # ls) =
     (let d' = max 0 (d + net_braces l); opened' = opened \<or> CHR ''{'' \<in> set l
      in if closes_at opened' d' l then flush (buf @ [l]) @ split_lines [] d' False ls
         else split_lines (buf @ [l]) d' opened' ls)"

definition split_top_level :: "string \<Rightarrow> string list" where
  "split_top_level text = split_lines [] 0 False (line_list text)"

definition ng_strip_scheme :: "string \<Rightarrow> string" where
  "ng_strip_scheme url = (case str_index url ''://'' of Some i \<Rightarrow> drop (i + 3) url | None \<Rightarrow> url)"

definition ng_with_scheme :: "string \<Rightarrow> string" where
  "ng_with_scheme addr = (if str_contains addr ''://'' then addr else ''http://'' @ addr)"

definition is_server_text :: "string \<Rightarrow> bool" where
  "is_server_text raw =
     (let h = (case str_index raw ''{'' of Some i \<Rightarrow> take i raw | None \<Rightarrow> raw)
      in list_ex (\<lambda>l. let t = trim_space l in t = ''server'' \<or> has_prefix ''server '' t
           \<or> has_prefix (''server'' @ [CHR 0x09]) t) (line_list h))"

definition real_paths :: "string \<Rightarrow> string \<Rightarrow> string list" where
  "real_paths auth_uri raw = filter (\<lambda>p. \<not> (auth_uri \<noteq> [] \<and> p = auth_uri)) (proxy_location_paths raw)"

definition opaque_chunk :: "string \<Rightarrow> chunk" where
  "opaque_chunk raw = \<lparr>ch_raw = raw, ch_server = False, ch_managed = False, ch_deny = False, ch_host = [],
     ch_addr = [], ch_catch_all = False, ch_forwards = False, ch_auth_uri = [], ch_auth_basic = False,
     ch_ports = [], ch_path_scoped = False, ch_extra_paths = []\<rparr>"

definition classify :: "string \<Rightarrow> chunk" where
  "classify raw =
     (if \<not> is_server_text raw then opaque_chunk raw
      else
        let names = (case rx_sub (directive_rx ''server_name'') 1 raw of
               None \<Rightarrow> [] | Some v \<Rightarrow> str_fields (trim_space v));
            proxy = rx_sub (directive_rx ''proxy_pass'') 1 raw;
            auth_uri = (case rx_sub (directive_rx ''auth_request'') 1 raw of
               None \<Rightarrow> [] | Some v \<Rightarrow> trim_space v);
            paths = (if proxy = None then [] else real_paths auth_uri raw);
            scoped = (1 < length paths \<or> (length paths = 1 \<and> hd paths \<noteq> ''/''))
        in \<lparr>ch_raw = raw, ch_server = True, ch_managed = str_contains raw managed_marker,
            ch_deny = str_contains raw deny_marker,
            ch_host = (case find (\<lambda>n. n \<noteq> ''_'' \<and> n \<noteq> ''*'') names of None \<Rightarrow> [] | Some n \<Rightarrow> n),
            ch_addr = (case proxy of None \<Rightarrow> [] | Some v \<Rightarrow> ng_strip_scheme (trim_space v)),
            ch_catch_all = (list_ex (\<lambda>n. n = ''_'' \<or> n = ''*'') names
              \<or> rx_match listen_default_rx raw \<or> str_contains raw ''default_server''),
            ch_forwards = (proxy \<noteq> None), ch_auth_uri = auth_uri,
            ch_auth_basic = (case rx_sub (directive_rx ''auth_basic'') 1 raw of
               None \<Rightarrow> False | Some v \<Rightarrow> trim_space v \<noteq> ''off''),
            ch_ports = List.map_filter atoi (rx_all_subs listen_rx 1 raw),
            ch_path_scoped = scoped, ch_extra_paths = (if scoped then paths else [])\<rparr>)"

definition parse_chunks :: "string \<Rightarrow> chunk list" where
  "parse_chunks text = map classify (split_top_level text)"

definition ports_of :: "chunk \<Rightarrow> int list" where
  "ports_of c = (if ch_ports c = [] then [80] else ch_ports c)"

definition ng_generator :: "string \<Rightarrow> string" where
  "ng_generator text =
     (if str_contains text ''Nginx Proxy Manager'' \<or> str_contains text ''/data/nginx/proxy_host''
      then ''nginx-proxy-manager'' else [])"

definition blank_or_comment :: "string \<Rightarrow> bool" where
  "blank_or_comment raw = list_all (\<lambda>l. let t = trim_space l in t = [] \<or> has_prefix ''#'' t) (line_list raw)"

text \<open>The opening line of a chunk: the first that is neither blank nor a comment.\<close>

definition first_config_line :: "string \<Rightarrow> string option" where
  "first_config_line raw = find (\<lambda>t. t \<noteq> [] \<and> \<not> has_prefix ''#'' t) (map trim_space (line_list raw))"

definition non_server_locator :: "string \<Rightarrow> string" where
  "non_server_locator raw =
     (case first_config_line raw of
        None \<Rightarrow> ''non-server block''
      | Some t \<Rightarrow> (case str_index t ''{'' of
            Some i \<Rightarrow> trim_space (take i t) @ '' {'' @ ellipsis @ ''}''
          | None \<Rightarrow> t))"

definition bounded_excerpt :: "string \<Rightarrow> string" where
  "bounded_excerpt s = (let t = trim_space s in if 240 < length t then take 240 t @ ellipsis else t)"

section \<open>Rendering\<close>

record ng_tls =
  nt_port :: int
  nt_ssl :: bool
  nt_cert :: string
  nt_key :: string

definition tls_port :: "ng_tls \<Rightarrow> int" where
  "tls_port t = (if nt_port t \<noteq> 0 then nt_port t else if nt_ssl t then 443 else 80)"

definition listen_line :: "ng_tls \<Rightarrow> string \<Rightarrow> string" where
  "listen_line t extra = join_with '' '' ([''listen'', itoa (tls_port t)]
     @ (if nt_ssl t then [''ssl''] else []) @ (if extra \<noteq> [] then [extra] else [])) @ '';''"

definition tls_directives :: "ng_tls \<Rightarrow> string list" where
  "tls_directives t = (if \<not> nt_ssl t then []
     else [''    ssl_certificate '' @ nt_cert t @ '';'', ''    ssl_certificate_key '' @ nt_key t @ '';''])"

definition auth_line :: "(string \<Rightarrow> string) \<Rightarrow> route \<Rightarrow> string list" where
  "auth_line uri_for r =
     (let policy = u_auth (r_upstream r)
      in if policy \<noteq> [] \<and> policy \<noteq> auth_none
         then [''        auth_request '' @ uri_for policy @ '';''] else [])"

definition managed_lines :: "(string \<Rightarrow> string) \<Rightarrow> ng_tls \<Rightarrow> route \<Rightarrow> string list" where
  "managed_lines uri_for t r =
     [[], managed_marker @ '' '' @ r_host r, ''server {'', ''    '' @ listen_line t []]
     @ tls_directives t
     @ [''    server_name '' @ r_host r @ '';'', ''    location / {'']
     @ auth_line uri_for r
     @ [''        proxy_pass '' @ ng_with_scheme (u_address (r_upstream r)) @ '';'', ''    }'', ''}'']"

definition deny_lines :: "ng_tls \<Rightarrow> string list" where
  "deny_lines t =
     [[], deny_marker @ '' default-deny catch-all'', ''server {'', ''    '' @ listen_line t ''default_server'']
     @ tls_directives t @ [''    server_name _;'', ''    return 444;'', ''}'']"

definition render_config :: "string list \<Rightarrow> route list \<Rightarrow> (string \<Rightarrow> string) \<Rightarrow> ng_tls \<Rightarrow> string" where
  "render_config unmanaged managed uri_for t =
     ng_header @ [newline]
     @ concat (map (\<lambda>raw. [newline] @ trim_newlines raw @ [newline]) unmanaged)
     @ concat (map (\<lambda>r. unlines (managed_lines uri_for t r)) (sort_key r_host managed))
     @ unlines (deny_lines t)"

end
