(* ===== verification/Nginx.thy ===== *)
theory Nginx
  imports Nginx_Codec Faults
begin

text \<open>
  The nginx driver, \<open>internal/drivers/edge/nginx/nginx.go\<close> and \<open>runtime.go\<close>: reading the file into
  a live state, planning, the additive rewrite with config test and reload, adoption by a comment
  marker, and the probe of the running daemon. The operator's commands and the daemon are arguments:
  a command answers for the text it finds in the file, a probe for a host and the milliseconds
  waited. A write that fails is refused and leaves the file, or is cut after the file was truncated and
  leaves the first bytes of the new text (\<open>Faults\<close>). The reasons that are printed keep the data they name.
\<close>

section \<open>The file\<close>

record nginx_file =
  nf_text :: "string option"
  nf_readable :: bool
  nf_fates :: "nat write_fate list"

definition ng_read :: "nginx_file \<Rightarrow> perr + string" where
  "ng_read f =
     (case nf_text f of
        None \<Rightarrow> Inr []
      | Some t \<Rightarrow> if nf_readable f then Inr t else Inl ''read nginx config'')"

definition ng_validate :: "nginx_file \<Rightarrow> perr option" where
  "ng_validate f = (if nf_text f \<noteq> None \<and> \<not> nf_readable f then Some ''read nginx config'' else None)"

definition ng_write :: "string \<Rightarrow> nginx_file act" where
  "ng_write t f =
     (let f1 = f\<lparr>nf_fates := tl (nf_fates f)\<rparr>
      in case next_fate (nf_fates f) of
           WriteThrough \<Rightarrow> (None, f1\<lparr>nf_text := Some t\<rparr>)
         | WriteRefused \<Rightarrow> (Some ''write nginx config'', f1)
         | WriteCut n \<Rightarrow> (Some ''write nginx config'', f1\<lparr>nf_text := Some (take n t)\<rparr>))"

section \<open>The driver\<close>

text \<open>\<open>runtimeConfig\<close>: a command that is not declared is skipped.\<close>

record ng_runtime =
  rn_test :: "(string \<Rightarrow> perr option) option"
  rn_reload :: "(string \<Rightarrow> perr option) option"

record nginx_config =
  ng_resolve :: "string \<Rightarrow> perr + string"
  ng_auth_requests :: "(string \<times> string) list"
  ng_tls_conf :: ng_tls
  ng_runtime_conf :: "ng_runtime option"

definition nginx_auth_uri :: "nginx_config \<Rightarrow> string \<Rightarrow> string" where
  "nginx_auth_uri d policy =
     (case map_of (ng_auth_requests d) policy of
        Some uri \<Rightarrow> if uri \<noteq> [] then uri else ''/'' @ policy
      | None \<Rightarrow> ''/'' @ policy)"

definition policy_for_auth_uri :: "nginx_config \<Rightarrow> string \<Rightarrow> string" where
  "policy_for_auth_uri d uri =
     (if uri = [] then []
      else (case find (\<lambda>(_, u). u = uri) (ng_auth_requests d) of
              Some (p, _) \<Rightarrow> p
            | None \<Rightarrow> trim_prefix ''/'' uri))"

section \<open>Reading\<close>

definition ng_ack_aware :: "string \<Rightarrow> string \<Rightarrow> string \<Rightarrow> unknown_kind \<Rightarrow> unparsed" where
  "ng_ack_aware loc reason raw kind =
     (case parse_ack_marker raw of
        Some slug \<Rightarrow> \<lparr>n_locator = loc, n_kind = UnknownAcknowledged,
          n_reason = ''acknowledged by operator ('' @ slug @ ''): '' @ reason, n_raw_excerpt = bounded_excerpt raw\<rparr>
      | None \<Rightarrow> \<lparr>n_locator = loc, n_kind = kind, n_reason = reason, n_raw_excerpt = bounded_excerpt raw\<rparr>)"

text \<open>What one chunk contributes to the live state and to the verdict on each port.\<close>

record chunk_read =
  cr_routes :: "route list"
  cr_unparsed :: "unparsed list"
  cr_forwarding :: "int list"
  cr_denying :: "int list"
  cr_permissive :: bool

definition nothing_read :: chunk_read where
  "nothing_read = \<lparr>cr_routes = [], cr_unparsed = [], cr_forwarding = [], cr_denying = [], cr_permissive = False\<rparr>"

definition ng_auth :: "nginx_config \<Rightarrow> chunk \<Rightarrow> string" where
  "ng_auth d c =
     (let auth = (if ch_auth_uri c = [] then []
            else if ch_managed c then policy_for_auth_uri d (ch_auth_uri c) else auth_detected)
      in if auth = [] \<and> ch_auth_basic c then auth_detected else auth)"

definition http_route :: "string \<Rightarrow> string \<Rightarrow> string \<Rightarrow> route" where
  "http_route host addr auth = mk_route host
     \<lparr>u_kind = ForwardToOrigin, u_mode = ModeHTTPProxy, u_address = addr, u_tls_passthrough = False,
      u_server_name = host, u_upstream_tls = False, u_auth = auth\<rparr>"

definition read_chunk :: "nginx_config \<Rightarrow> chunk \<Rightarrow> chunk_read" where
  "read_chunk d c =
     (if \<not> ch_server c then
        (if blank_or_comment (ch_raw c) then nothing_read
         else nothing_read\<lparr>cr_unparsed := [\<lparr>n_locator = non_server_locator (ch_raw c), n_kind = UnknownServerBlock,
           n_reason = ''top-level block is not a server{} crenel can model'', n_raw_excerpt = bounded_excerpt (ch_raw c)\<rparr>]\<rparr>)
      else if ch_catch_all c then
        (if ch_forwards c then nothing_read\<lparr>cr_forwarding := ports_of c, cr_permissive := True\<rparr>
         else nothing_read\<lparr>cr_denying := ports_of c\<rparr>)
      else if ch_host c = [] then
        (if ch_forwards c
         then nothing_read\<lparr>cr_unparsed := [\<lparr>n_locator = ''server (no server_name)'', n_kind = UnknownMatcher,
           n_reason = ''server block proxies traffic but has no server_name'', n_raw_excerpt = bounded_excerpt (ch_raw c)\<rparr>]\<rparr>
         else nothing_read)
      else if \<not> ch_forwards c then
        nothing_read\<lparr>cr_unparsed := [ng_ack_aware (''server '' @ ch_host c)
          (''server block for '' @ ch_host c @ '' has no proxy_pass crenel can model'') (ch_raw c) UnknownHandler]\<rparr>
      else if ch_path_scoped c then
        nothing_read\<lparr>cr_unparsed := [ng_ack_aware (''server '' @ ch_host c)
          (''server block for '' @ ch_host c @ '' routes by location path(s) crenel does not model (''
            @ join_with '', '' (ch_extra_paths c) @ '')'') (ch_raw c) UnknownMatcher]\<rparr>
      else nothing_read\<lparr>cr_routes := [(http_route (ch_host c) (ch_addr c) (ng_auth d c))
             \<lparr>r_managed := ch_managed c, r_ownership := ownership_from_marker (ch_managed c)\<rparr>],
           cr_forwarding := ports_of c\<rparr>)"

definition deny_everywhere :: "chunk_read list \<Rightarrow> bool" where
  "deny_everywhere rs =
     (\<not> list_ex cr_permissive rs
      \<and> list_all (\<lambda>p. p \<in> set (concat (map cr_denying rs))) (concat (map cr_forwarding rs)))"

definition ng_normalize :: "nginx_config \<Rightarrow> string \<Rightarrow> live_edge_state" where
  "ng_normalize d text =
     (let reads = map (read_chunk d) (parse_chunks text); routes = concat (map cr_routes reads);
          g = ng_generator text
      in \<lparr>l_routes = (if g \<noteq> [] then map (\<lambda>r. r\<lparr>r_ownership := OwnForeign, r_managed := False\<rparr>) routes else routes),
          l_deny_present = deny_everywhere reads, l_unparsed = concat (map cr_unparsed reads), l_generator = g, l_ingress_kind = IngressUnset,
          l_persistence = PersistDurableConfig, l_raw = text\<rparr>)"

definition ng_read_live :: "nginx_config \<Rightarrow> nginx_file \<Rightarrow> perr + live_edge_state" where
  "ng_read_live d f = rbind (ng_read f) (\<lambda>text. Inr (ng_normalize d text))"

section \<open>Planning\<close>

definition ng_plan :: "nginx_config \<Rightarrow> op \<Rightarrow> live_edge_state \<Rightarrow> perr + change_set" where
  "ng_plan d op live =
     (let cs = (mk_change_set op)\<lparr>cs_edge := no_edge_change\<rparr>
      in if o_mode op \<noteq> ModeHTTPProxy then Inl ''unsupported mode''
         else (case o_verb op of
                 Expose \<Rightarrow>
                   if o_host op = [] then Inl ''nginx plan: expose requires a host''
                   else if has_host live (o_host op) then Inr cs
                   else rbind (if o_to op = [] then ng_resolve d (o_service op) else Inr (o_to op))
                     (\<lambda>addr. Inr (cs\<lparr>cs_edge := no_edge_change\<lparr>
                        e_add := [http_route (o_host op) addr (o_auth op)]\<rparr>\<rparr>))
               | Unexpose \<Rightarrow>
                   if o_host op = [] then Inl ''nginx plan: unexpose requires a host''
                   else if \<not> has_host live (o_host op) then Inr cs
                   else Inr (cs\<lparr>cs_edge := no_edge_change\<lparr>e_remove := [o_host op]\<rparr>\<rparr>)
               | Rename \<Rightarrow> Inl ''nginx plan: unknown verb''))"

section \<open>The rewrite\<close>

definition ours :: "chunk \<Rightarrow> bool" where
  "ours c = (ch_server c \<and> (ch_deny c \<or> ch_managed c))"

definition unmanaged_texts :: "chunk list \<Rightarrow> string list" where
  "unmanaged_texts cs = map ch_raw (filter (\<lambda>c. \<not> ours c) cs)"

definition managed_route :: "nginx_config \<Rightarrow> chunk \<Rightarrow> route" where
  "managed_route d c = http_route (ch_host c) (ch_addr c) (policy_for_auth_uri d (ch_auth_uri c))"

definition managed_map :: "nginx_config \<Rightarrow> chunk list \<Rightarrow> (string \<times> route) list" where
  "managed_map d cs = fold (\<lambda>c m.
     if ch_server c \<and> \<not> ch_deny c \<and> ch_managed c \<and> ch_host c \<noteq> []
     then AList.update (ch_host c) (managed_route d c) m else m) cs []"

definition edit_managed :: "edge_change \<Rightarrow> (string \<times> route) list \<Rightarrow> (string \<times> route) list" where
  "edit_managed ec m = fold (\<lambda>r. AList.update (r_host r) r) (e_add ec) (fold AList.delete (e_remove ec) m)"

definition new_text :: "nginx_config \<Rightarrow> edge_change \<Rightarrow> string \<Rightarrow> string" where
  "new_text d ec text =
     (let cs = parse_chunks text
      in render_config (unmanaged_texts cs) (map snd (edit_managed ec (managed_map d cs)))
           (nginx_auth_uri d) (ng_tls_conf d))"

definition run_cmd :: "(string \<Rightarrow> perr option) option \<Rightarrow> nginx_file \<Rightarrow> perr option" where
  "run_cmd cmd f = (case cmd of None \<Rightarrow> None | Some run \<Rightarrow> run (case nf_text f of None \<Rightarrow> [] | Some t \<Rightarrow> t))"

definition go_live :: "nginx_config \<Rightarrow> nginx_file act" where
  "go_live d f =
     (case ng_runtime_conf d of
        None \<Rightarrow> (None, f)
      | Some rt \<Rightarrow>
          (case run_cmd (rn_test rt) f of
             Some err \<Rightarrow> (Some (''nginx apply: config test (nginx -t) failed: '' @ err), f)
           | None \<Rightarrow>
               (case run_cmd (rn_reload rt) f of
                  Some err \<Rightarrow> (Some (''nginx apply: reload failed: '' @ err), f)
                | None \<Rightarrow> (None, f))))"

definition ng_apply :: "nginx_config \<Rightarrow> change_set \<Rightarrow> nginx_file act" where
  "ng_apply d cs f =
     (case ng_read f of
        Inl err \<Rightarrow> (Some (''nginx apply: read: '' @ err), f)
      | Inr text \<Rightarrow> then_act (ng_write (new_text d (cs_edge cs) text)) (go_live d) f)"

section \<open>Adoption\<close>

definition adopt_stamp :: "string list \<Rightarrow> chunk \<Rightarrow> string" where
  "adopt_stamp hs c =
     (if ch_server c \<and> \<not> ch_managed c \<and> \<not> ch_deny c \<and> ch_host c \<noteq> [] \<and> ch_host c \<in> set hs
      then managed_marker @ '' '' @ ch_host c @ [newline] else [])"

definition adopted_text :: "string list \<Rightarrow> string \<Rightarrow> string" where
  "adopted_text hs text = join_with [newline]
     (map (\<lambda>raw. adopt_stamp hs (classify raw) @ trim_newlines raw @ [newline]) (split_top_level text))"

definition ng_adopt :: "string list \<Rightarrow> nginx_file act" where
  "ng_adopt hs f =
     (case ng_read f of
        Inl err \<Rightarrow> (Some (''nginx adopt: read: '' @ err), f)
      | Inr text \<Rightarrow> ng_write (adopted_text hs text) f)"

section \<open>The running daemon\<close>

text \<open>The answer to one request: a response, a transport error, or a deadline passed.\<close>

datatype http_outcome = Responded nat | Closed | TimedOut perr

definition probe_host :: "http_outcome \<Rightarrow> perr + bool \<times> nat" where
  "probe_host out =
     (case out of Responded code \<Rightarrow> Inr (True, code) | Closed \<Rightarrow> Inr (False, 0) | TimedOut err \<Rightarrow> Inl err)"

definition ng_affected_hosts :: "edge_change \<Rightarrow> string list" where
  "ng_affected_hosts ec = uniq_by id [] (filter (\<lambda>h. h \<noteq> []) (map r_host (e_add ec) @ e_remove ec))"

definition deny_probe_host :: string where "deny_probe_host = ''crenel-runtime-verify.invalid''"

definition poll_step :: "nat \<Rightarrow> nat" where "poll_step interval = (if interval = 0 then 300 else interval)"

text \<open>The poll of one host, by the milliseconds waited: \<open>None\<close> when it converged, else the last answer.\<close>

function converge :: "(nat \<Rightarrow> http_outcome) \<Rightarrow> bool \<Rightarrow> nat \<Rightarrow> nat \<Rightarrow> nat \<Rightarrow> (perr + nat) option" where
  "converge probe want interval deadline waited =
     (case probe_host (probe waited) of
        Inr (served, code) \<Rightarrow>
          if served = want then None
          else if deadline \<le> waited then Some (Inr code)
          else converge probe want interval deadline (waited + poll_step interval)
      | Inl err \<Rightarrow>
          if deadline \<le> waited then Some (Inl err)
          else converge probe want interval deadline (waited + poll_step interval))"
  by pat_completeness auto
termination
  by (relation "measure (\<lambda>(_, _, _, deadline, waited). deadline - waited)") (auto simp: poll_step_def)

declare converge.simps [simp del]

definition probe_fail_detail :: "string \<Rightarrow> bool \<Rightarrow> perr + nat \<Rightarrow> string" where
  "probe_fail_detail host want res =
     (case res of
        Inl err \<Rightarrow> ''probe of '' @ host @ '' failed: '' @ err
      | Inr code \<Rightarrow>
          if host = deny_probe_host then ''default-deny is NOT live''
          else if want then ''nginx did not serve '' @ host @ '' after reload''
          else ''nginx still serves '' @ host @ '' after unexpose'')"

definition ng_checks :: "op \<Rightarrow> edge_change \<Rightarrow> (string \<times> bool) list" where
  "ng_checks op ec = map (\<lambda>h. (h, o_verb op = Expose)) (ng_affected_hosts ec) @ [(deny_probe_host, False)]"

fun run_checks :: "(string \<Rightarrow> nat \<Rightarrow> http_outcome) \<Rightarrow> nat \<Rightarrow> nat \<Rightarrow> (string \<times> bool) list \<Rightarrow> string option" where
  "run_checks probe interval deadline [] = None"
| "run_checks probe interval deadline ((h, want) # cs) =
     (case converge (probe h) want interval deadline 0 of
        Some res \<Rightarrow> Some (probe_fail_detail h want res)
      | None \<Rightarrow> run_checks probe interval deadline cs)"

definition ng_verify_runtime :: "('w \<Rightarrow> string \<Rightarrow> nat \<Rightarrow> http_outcome) option \<Rightarrow> nat \<Rightarrow> nat \<Rightarrow> op \<Rightarrow> edge_change \<Rightarrow> 'w
    \<Rightarrow> runtime_verification" where
  "ng_verify_runtime probe interval deadline op ec w =
     (case probe of
        None \<Rightarrow> \<lparr>rv_status = RuntimeUnavailable, rv_detail = ''no nginx runtime surface configured''\<rparr>
      | Some pr \<Rightarrow>
          (case run_checks (pr w) interval deadline (ng_checks op ec) of
             Some detail \<Rightarrow> \<lparr>rv_status = RuntimeFailed, rv_detail = detail\<rparr>
           | None \<Rightarrow> \<lparr>rv_status = RuntimeConfirmed, rv_detail = ''nginx -t passed, reloaded, and probed the running daemon''\<rparr>))"

section \<open>The provider\<close>

definition nginx :: "nginx_config \<Rightarrow> ('w \<Rightarrow> nginx_file) \<Rightarrow> (nginx_file \<Rightarrow> 'w \<Rightarrow> 'w)
    \<Rightarrow> ('w \<Rightarrow> string \<Rightarrow> nat \<Rightarrow> http_outcome) option \<Rightarrow> 'w edge_provider" where
  "nginx d get put probe = \<lparr>ep_name = ''nginx'', ep_read = (\<lambda>w. ng_read_live d (get w)), ep_plan = ng_plan d,
     ep_apply = (\<lambda>cs. on_part get put (ng_apply d cs)), ep_healthy = None, ep_persist = None,
     ep_durability = None, ep_runtime = Some (ng_verify_runtime probe 300 4000), ep_evidence = None,
     ep_adopt = Some (\<lambda>hs. on_part get put (ng_adopt hs)), ep_acker = None, ep_locator_acker = None\<rparr>"

end
