(* ===== verification/Nginx_Text.thy ===== *)
theory Nginx_Text
  imports Nginx_Codec
begin

text \<open>
  Parsing what was rendered. The first part is about chunks: a text is cut where its
  blocks close, so a rendered text is cut into the header with the first chunk, the other
  chunks kept, and crenel's own blocks. The second part classifies a kept chunk as before, whatever blank
  line or header now precedes it; the third classifies crenel's own blocks as what they were rendered from.
\<close>

section \<open>Closed chunks\<close>

text \<open>Lines that flush exactly at their end.\<close>

fun closes :: "int \<Rightarrow> bool \<Rightarrow> string list \<Rightarrow> bool" where
  "closes d opened [] = False"
| "closes d opened (l # ls) =
     (let d' = max 0 (d + net_braces l); opened' = opened \<or> CHR ''{'' \<in> set l
      in if closes_at opened' d' l then ls = [] else closes d' opened' ls)"

lemma split_closed:
  "closes d opened ls \<Longrightarrow> split_lines buf d opened (ls @ rest) = flush (buf @ ls) @ split_lines [] 0 False rest"
proof (induction ls arbitrary: buf d opened)
  case (Cons l ls)
  let ?d = "max 0 (d + net_braces l)" and ?o = "opened \<or> CHR ''{'' \<in> set l"
  show ?case
  proof (cases "closes_at ?o ?d l")
    case True
    with Cons.prems have "ls = []" "?d = 0" by (auto simp: Let_def closes_at_def)
    with True show ?thesis by (simp add: Let_def)
  next
    case False
    with Cons.prems have "closes ?d ?o ls" by (simp add: Let_def)
    from Cons.IH [OF this, of "buf @ [l]"] False show ?thesis by (simp add: Let_def)
  qed
qed simp

text \<open>A line that opens and ends nothing can stand before a chunk.\<close>

definition inert :: "string \<Rightarrow> bool" where
  "inert l = (net_braces l = 0 \<and> CHR ''{'' \<notin> set l \<and> \<not> has_suffix '';'' (trim_space l) \<and> newline \<notin> set l)"

lemma closes_inert: "inert l \<Longrightarrow> closes 0 False (l # ls) \<longleftrightarrow> closes 0 False ls"
  by (simp add: inert_def closes_at_def)

lemma inert_Nil [simp]: "inert []"
  by (simp add: inert_def net_braces_def count_char_def has_suffix_def trim_space_def)

lemma count_char_pos: "0 \<le> count_char c s" "c \<in> set s \<Longrightarrow> 0 < count_char c s" "c \<notin> set s \<Longrightarrow> count_char c s = 0"
  by (auto simp: count_char_def filter_empty_conv)

lemma has_suffix_single: "has_suffix [c] s \<longleftrightarrow> s \<noteq> [] \<and> last s = c"
  by (cases s rule: rev_cases) (auto simp: has_suffix_def)

lemma net_braces_none: "CHR ''{'' \<notin> set s \<Longrightarrow> CHR ''}'' \<notin> set s \<Longrightarrow> net_braces s = 0"
  by (simp add: net_braces_def count_char_pos)

lemma inert_header: "inert ng_header"
proof -
  have "trim_space ng_header = ng_header"
    by (rule trim_space_ends) (simp_all add: ng_header_def is_space_code)
  moreover have "net_braces ng_header = 0"
    by (rule net_braces_none) (simp_all add: ng_header_def)
  moreover have "CHR ''{'' \<notin> set ng_header" "newline \<notin> set ng_header" "last ng_header \<noteq> CHR '';''"
    by (simp_all add: ng_header_def newline_def)
  ultimately show ?thesis by (simp add: inert_def has_suffix_single)
qed

lemma brace_not_space: "\<not> is_space (CHR ''{'')" "\<not> is_space (CHR ''}'')" "\<not> is_space (CHR '';'')"
  by (simp_all add: is_space_def)

text \<open>A closed chunk does not end in a blank line.\<close>

lemma closes_at_nonblank:
  assumes "closes_at (opened \<or> CHR ''{'' \<in> set l) (max 0 (d + net_braces l)) l" and "opened \<longrightarrow> 0 < d"
  shows "trim_space l \<noteq> []"
proof
  assume "trim_space l = []"
  then have sp: "list_all is_space l" by (simp add: not_blank_space)
  then have "CHR ''{'' \<notin> set l" "CHR ''}'' \<notin> set l" using brace_not_space by (auto simp: list_all_iff)
  then have "net_braces l = 0" by (simp add: net_braces_def count_char_pos)
  with assms \<open>CHR ''{'' \<notin> set l\<close> \<open>trim_space l = []\<close> show False
    by (auto simp: closes_at_def has_suffix_def)
qed

lemma closes_last:
  "closes d opened ls \<Longrightarrow> (opened \<longrightarrow> 0 < d) \<Longrightarrow> ls \<noteq> [] \<and> trim_space (last ls) \<noteq> []"
proof (induction ls arbitrary: d opened)
  case (Cons l ls)
  let ?d = "max 0 (d + net_braces l)" and ?o = "opened \<or> CHR ''{'' \<in> set l"
  show ?case
  proof (cases "closes_at ?o ?d l")
    case True
    with Cons.prems closes_at_nonblank [OF True] show ?thesis by (simp add: Let_def)
  next
    case False
    then have "?o \<longrightarrow> 0 < ?d" by (auto simp: closes_at_def)
    with Cons.IH [of ?d ?o] Cons.prems False show ?thesis by (auto simp: Let_def)
  qed
qed simp

text \<open>Every text is its closed chunks and a rest that closes nowhere.\<close>

lemma split_lines_chunks:
  "\<exists>segs rest. ls = concat segs @ rest \<and> (\<forall>s \<in> set segs. closes 0 False s)
     \<and> split_lines [] 0 False ls = concat (map flush segs) @ flush rest"
proof -
  have "(\<exists>seg rest. ls = seg @ rest \<and> closes d opened seg)
      \<or> split_lines buf d opened ls = flush (buf @ ls)" for buf d opened and ls :: "string list"
  proof (induction ls arbitrary: buf d opened)
    case (Cons l ls)
    let ?d = "max 0 (d + net_braces l)" and ?o = "opened \<or> CHR ''{'' \<in> set l"
    show ?case
    proof (cases "closes_at ?o ?d l")
      case True
      then have "closes d opened [l]" by (simp add: Let_def)
      then show ?thesis by (intro disjI1 exI [of _ "[l]"] exI [of _ ls]) simp
    next
      case False
      show ?thesis
      proof (cases "\<exists>seg rest. ls = seg @ rest \<and> closes ?d ?o seg")
        case True
        then obtain seg rest where s: "ls = seg @ rest" "closes ?d ?o seg" by blast
        with False have "closes d opened (l # seg)" by (simp add: Let_def)
        with s(1) show ?thesis by (intro disjI1 exI [of _ "l # seg"] exI [of _ rest]) simp
      next
        case None: False
        from None Cons.IH [of ?d ?o "buf @ [l]"]
        have "split_lines (buf @ [l]) ?d ?o ls = flush ((buf @ [l]) @ ls)" by blast
        with False show ?thesis by (intro disjI2) (simp add: Let_def)
      qed
    qed
  qed simp
  note step = this
  show ?thesis
  proof (induction "length ls" arbitrary: ls rule: less_induct)
    case less
    show ?case
    proof (cases "\<exists>seg rest. ls = seg @ rest \<and> closes 0 False seg")
      case True
      then obtain seg rest where s: "ls = seg @ rest" "closes 0 False seg" by blast
      with closes_last [OF s(2)] have "length rest < length ls" by simp
      from less.hyps [OF this] obtain segs r where r: "rest = concat segs @ r" "\<forall>s \<in> set segs. closes 0 False s"
          "split_lines [] 0 False rest = concat (map flush segs) @ flush r" by blast
      have "split_lines [] 0 False ls = concat (map flush (seg # segs)) @ flush r"
        by (simp add: s(1) split_closed [OF s(2)] r(3))
      with r s show ?thesis by (intro exI [of _ "seg # segs"] exI [of _ r]) auto
    next
      case False
      with step [of ls 0 False "[]"] have "split_lines [] 0 False ls = flush ls" by auto
      then show ?thesis by (intro exI [of _ "[]"] exI [of _ ls]) simp
    qed
  qed
qed

text \<open>A chunk whose own lines close it.\<close>

definition closed_chunk :: "string \<Rightarrow> bool" where
  "closed_chunk raw = closes 0 False (line_list raw)"

lemma flush_closed: "closes 0 False seg \<Longrightarrow> flush seg = [join_with [newline] seg]"
proof -
  assume c: "closes 0 False seg"
  from closes_last [OF this] obtain ls l where seg: "seg = ls @ [l]" and l: "trim_space l \<noteq> []"
    by (cases seg rule: rev_cases) auto
  from l have "\<not> list_all is_space (join_with [newline] seg)"
    by (auto simp: seg join_lines not_blank_space list_all_iff)
  then show ?thesis by (simp add: flush_def Let_def not_blank_space)
qed

section \<open>Cutting what was rendered\<close>

abbreviation strip_blank :: "string list \<Rightarrow> string list" where
  "strip_blank \<equiv> dropWhile (\<lambda>l. l = [])"

lemma closes_strip: "closes 0 False (strip_blank seg) \<longleftrightarrow> closes 0 False seg"
  by (induction seg) (auto simp: closes_inert simp del: closes.simps(2))

lemma join_Cons: "ls \<noteq> [] \<Longrightarrow> join_with [newline] (l # ls) = l @ newline # join_with [newline] ls"
  by (cases ls) auto

lemma last_dropWhile: "dropWhile p xs \<noteq> [] \<Longrightarrow> last (dropWhile p xs) = last xs"
  by (induction xs) auto

lemma trim_newlines_join:
  assumes "seg \<noteq> []" and "last seg \<noteq> []" and "\<forall>l \<in> set seg. newline \<notin> set l"
  shows "trim_newlines (join_with [newline] seg) = join_with [newline] (strip_blank seg)"
proof -
  have front: "dropWhile (\<lambda>c. c = newline) (join_with [newline] seg) = join_with [newline] (strip_blank seg)"
    using assms
  proof (induction seg)
    case (Cons l seg)
    show ?case
    proof (cases seg)
      case Nil
      with Cons.prems show ?thesis by (cases l) auto
    next
      case (Cons k ks)
      with Cons.IH Cons.prems show ?thesis by (cases l) auto
    qed
  qed simp
  have ne: "strip_blank seg \<noteq> []"
    using assms(1,2) last_in_set [OF assms(1)] by (auto simp: dropWhile_eq_Nil_conv)
  then obtain ks l where k: "strip_blank seg = ks @ [l]" by (cases "strip_blank seg" rule: rev_cases) auto
  with last_dropWhile [OF ne] assms last_in_set [OF assms(1)] have l: "l \<noteq> []" "newline \<notin> set l" by auto
  have "dropWhile (\<lambda>c. c = newline) (rev (unlines ks @ l)) = rev (unlines ks @ l)"
    using l by (cases l rule: rev_cases) auto
  then show ?thesis by (simp add: trim_newlines_def front k join_lines)
qed

lemma split_blocks:
  "\<forall>b \<in> set bs. closes 0 False b \<Longrightarrow>
     split_lines [] 0 False (concat bs @ rest) = map (join_with [newline]) bs @ split_lines [] 0 False rest"
proof (induction bs)
  case (Cons b bs)
  then show ?case by (simp add: split_closed flush_closed)
qed simp

text \<open>The chunks of a text that ends where its last chunk closes.\<close>

definition whole :: "string \<Rightarrow> bool" where
  "whole text = (\<forall>raw \<in> set (split_top_level text). closed_chunk raw)"

definition kept_block :: "string \<Rightarrow> string list" where
  "kept_block raw = [] # strip_blank (line_list raw)"

lemma kept_block_closes: "closed_chunk raw \<Longrightarrow> closes 0 False (kept_block raw)"
  by (simp add: kept_block_def closed_chunk_def closes_inert closes_strip del: closes.simps(2))

lemma kept_text:
  assumes "closed_chunk raw"
  shows "[newline] @ trim_newlines raw @ [newline] = unlines (kept_block raw)"
proof -
  let ?seg = "line_list raw"
  have seg: "?seg \<noteq> []" "last ?seg \<noteq> []"
    using closes_last [of 0 False ?seg] assms by (auto simp: closed_chunk_def)
  have "trim_newlines raw = join_with [newline] (strip_blank ?seg)"
    using trim_newlines_join [OF seg] line_list_no_newline by (simp add: line_list_def join_split)
  moreover have "strip_blank ?seg \<noteq> []"
    using seg last_in_set [OF seg(1)] by (auto simp: dropWhile_eq_Nil_conv)
  ultimately show ?thesis by (simp add: kept_block_def unlines_join)
qed

lemma split_rendered:
  assumes "\<forall>raw \<in> set un. closed_chunk raw" and "\<forall>b \<in> set own. closes 0 False b \<and> (\<forall>l \<in> set b. newline \<notin> set l)"
    and "map kept_block un @ own = b # bs"
  shows "split_top_level (ng_header @ [newline] @ concat (map (\<lambda>raw. [newline] @ trim_newlines raw @ [newline]) un)
      @ concat (map unlines own)) = map (join_with [newline]) ((ng_header # b) # bs)"
proof -
  have closes: "\<forall>c \<in> set (b # bs). closes 0 False c"
    using assms(1,2) kept_block_closes by (auto simp flip: assms(3))
  have no_newline: "\<forall>c \<in> set (b # bs). \<forall>l \<in> set c. newline \<notin> set l"
    using assms(2) line_list_no_newline set_dropWhileD by (fastforce simp flip: assms(3) simp: kept_block_def)
  have "concat (map (\<lambda>raw. [newline] @ trim_newlines raw @ [newline]) un) = concat (map (unlines \<circ> kept_block) un)"
    using assms(1) kept_text by (auto intro!: arg_cong [where f = concat])
  then have "ng_header @ [newline] @ concat (map (\<lambda>raw. [newline] @ trim_newlines raw @ [newline]) un) @ concat (map unlines own)
      = unlines (concat ((ng_header # b) # bs)) @ []"
    using arg_cong [where f = "concat \<circ> map unlines", OF assms(3)] by (simp add: comp_def unlines_concat)
  moreover have "line_list (unlines (concat ((ng_header # b) # bs)) @ []) = concat ((ng_header # b) # bs) @ [ [] ]"
    using no_newline inert_header
    by (subst line_list_unlines) (auto simp: line_list_def inert_def)
  moreover have "\<forall>c \<in> set ((ng_header # b) # bs). closes 0 False c"
    using closes inert_header by (auto simp: closes_inert simp del: closes.simps(2))
  ultimately show ?thesis
    by (simp only: split_top_level_def split_blocks) (simp add: flush_def closes_at_def net_braces_none has_suffix_def)
qed

section \<open>A line before a chunk\<close>

text \<open>The lines that come to stand before a kept chunk.\<close>

definition neutral :: "string \<Rightarrow> bool" where
  "neutral l = (l = [] \<or> l = ng_header)"

lemma neutral_no_newline: "neutral l \<Longrightarrow> newline \<notin> set l"
  using inert_header by (auto simp: neutral_def inert_def)

lemma header_starts: "\<exists>u. ng_header = CHR ''#'' # u"
  by (simp add: ng_header_def)

lemma by_line_neutral:
  assumes "neutral l" and "c \<noteq> CHR ''#''"
  shows "by_line (at_word (c # cs) r) (l @ newline # s) = by_line (at_word (c # cs) r) s"
proof (cases "l = []")
  case True
  then show ?thesis using by_line_blank [of "[]"] by simp
next
  case False
  with assms(1) have l: "l = ng_header" by (simp add: neutral_def)
  obtain u where u: "ng_header = CHR ''#'' # u" using header_starts by blast
  have "dropWhile rx_space ng_header = CHR ''#'' # u" by (simp add: u rx_space_def)
  moreover have "at_word (c # cs) r (CHR ''#'' # u @ newline # s) = None"
    using assms(2) by (simp add: at_word_other)
  ultimately show ?thesis
    unfolding l using by_line_other [OF neutral_no_newline [OF assms(1), unfolded l]] by blast
qed

lemma rx_sub_neutral:
  "neutral l \<Longrightarrow> \<not> rx_space c \<Longrightarrow> c \<noteq> CHR ''#'' \<Longrightarrow>
     rx_sub (line_head (c # cs) r) n (l @ newline # s) = rx_sub (line_head (c # cs) r) n s"
  by (simp add: rx_sub_by_line by_line_neutral)

lemma rx_match_neutral:
  "neutral l \<Longrightarrow> \<not> rx_space c \<Longrightarrow> c \<noteq> CHR ''#'' \<Longrightarrow>
     rx_match (line_head (c # cs) r) (l @ newline # s) = rx_match (line_head (c # cs) r) s"
  by (simp add: rx_match_by_line by_line_neutral)

lemma str_contains_skip: "c \<noteq> d \<Longrightarrow> str_contains (c # s) (d # m) = str_contains s (d # m)"
  by (simp add: str_contains_def)

lemma str_contains_Nil: "str_contains [] (d # m) = False"
  by (simp add: str_contains_def)

lemma str_contains_Cons: "str_contains (c # s) m \<longleftrightarrow> has_prefix m (c # s) \<or> str_contains s m"
  by (auto simp: str_contains_def)

lemma contains_neutral:
  assumes "neutral l"
  shows "str_contains (l @ newline # s) managed_marker = str_contains s managed_marker"
    "str_contains (l @ newline # s) deny_marker = str_contains s deny_marker"
    "str_contains (l @ newline # s) ''default_server'' = str_contains s ''default_server''"
  using assms
  by (auto simp: neutral_def str_contains_skip str_contains_Cons newline_def managed_marker_def deny_marker_def ng_header_def)

definition server_line :: "string \<Rightarrow> bool" where
  "server_line l = (let t = trim_space l in t = ''server'' \<or> has_prefix ''server '' t
     \<or> has_prefix (''server'' @ [CHR 0x09]) t)"

lemma take_to_index: "(case str_index s [c] of Some i \<Rightarrow> take i s | None \<Rightarrow> s) = takeWhile (\<lambda>x. x \<noteq> c) s"
  by (induction s) (auto split: option.splits)

lemma is_server_by_line:
  "is_server_text raw = list_ex server_line (line_list (takeWhile (\<lambda>c. c \<noteq> CHR ''{'') raw))"
  unfolding is_server_text_def take_to_index Let_def server_line_def ..

lemma is_server_line:
  "newline \<notin> set l \<Longrightarrow> CHR ''{'' \<notin> set l \<Longrightarrow>
     is_server_text (l @ newline # s) \<longleftrightarrow> server_line l \<or> is_server_text s"
proof -
  assume l: "newline \<notin> set l" "CHR ''{'' \<notin> set l"
  have "takeWhile (\<lambda>c. c \<noteq> CHR ''{'') (l @ newline # s) = l @ newline # takeWhile (\<lambda>c. c \<noteq> CHR ''{'') s"
    using l(2) by (subst takeWhile_append2) (auto simp: newline_def)
  then show ?thesis by (simp add: is_server_by_line line_list_def split_on_join [OF l(1)])
qed

lemma neutral_not_server: "neutral l \<Longrightarrow> \<not> server_line l"
proof -
  have "trim_space ng_header = ng_header"
    by (rule trim_space_ends) (simp_all add: ng_header_def is_space_code)
  then show "neutral l \<Longrightarrow> \<not> server_line l"
    by (auto simp: neutral_def server_line_def Let_def) (simp_all add: ng_header_def)
qed

lemma is_server_neutral: "neutral l \<Longrightarrow> is_server_text (l @ newline # s) = is_server_text s"
  using is_server_line [OF neutral_no_newline, of l s] neutral_not_server [of l] inert_header
  by (auto simp: neutral_def inert_def)

lemma rx_sub_location:
  "rx_sub location_head_rx n l = map_option (group n) (at_word ''location''
     (rx_seq [plus rx_space, Grp 1 (plus_few (\<lambda>c. c \<noteq> newline)), Many rx_space, Lit ''{'']) (dropWhile rx_space l))"
  unfolding location_head_rx_def by (rule rx_sub_text_head) (simp add: rx_space_def)

lemma location_neutral: "neutral l \<Longrightarrow> rx_sub location_head_rx n l = None"
proof -
  have "\<exists>u. dropWhile rx_space ng_header = CHR ''#'' # u" by (simp add: ng_header_def rx_space_def)
  then show "neutral l \<Longrightarrow> rx_sub location_head_rx n l = None"
    by (auto simp: neutral_def rx_sub_location at_word_other)
qed

lemma paths_neutral: "neutral l \<Longrightarrow> proxy_location_paths (l @ newline # s) = proxy_location_paths s"
  by (simp add: proxy_location_paths_def line_list_def split_on_join [OF neutral_no_newline] location_neutral)

lemma listens_neutral: "neutral l \<Longrightarrow> rx_all_subs listen_rx n (l @ newline # s) = rx_all_subs listen_rx n s"
  unfolding listen_rx_def by (rule rx_all_subs_same) (simp_all add: rx_space_def by_line_neutral)

lemma directives_neutral:
  assumes "neutral l"
  shows "rx_sub (directive_rx ''server_name'') n (l @ newline # s) = rx_sub (directive_rx ''server_name'') n s"
    "rx_sub (directive_rx ''proxy_pass'') n (l @ newline # s) = rx_sub (directive_rx ''proxy_pass'') n s"
    "rx_sub (directive_rx ''auth_request'') n (l @ newline # s) = rx_sub (directive_rx ''auth_request'') n s"
    "rx_sub (directive_rx ''auth_basic'') n (l @ newline # s) = rx_sub (directive_rx ''auth_basic'') n s"
    "rx_match listen_default_rx (l @ newline # s) = rx_match listen_default_rx s"
  unfolding directive_rx_def listen_default_rx_def
  by (rule rx_sub_neutral rx_match_neutral; simp add: assms rx_space_def)+

lemma classify_neutral:
  assumes "neutral l"
  shows "classify (l @ newline # s) = (classify s)\<lparr>ch_raw := l @ newline # s\<rparr>"
proof (cases "is_server_text s")
  case True
  have "real_paths u (l @ newline # s) = real_paths u s" for u
    by (simp add: real_paths_def paths_neutral [OF assms])
  with True show ?thesis
    unfolding classify_def is_server_neutral [OF assms] directives_neutral [OF assms] contains_neutral [OF assms]
      listens_neutral [OF assms] by (simp add: Let_def)
next
  case False
  then show ?thesis by (simp add: classify_def is_server_neutral [OF assms] opaque_chunk_def)
qed

text \<open>A kept chunk is classified as before, also behind the header.\<close>

lemma classify_blank_lines: "strip_blank ls \<noteq> [] \<Longrightarrow>
    classify (join_with [newline] ls) = (classify (join_with [newline] (strip_blank ls)))\<lparr>ch_raw := join_with [newline] ls\<rparr>"
proof (induction ls)
  case (Cons l ls)
  show ?case
  proof (cases "l = []")
    case True
    with Cons.prems have ne: "strip_blank ls \<noteq> []" "ls \<noteq> []" by auto
    have "neutral []" by (simp add: neutral_def)
    from classify_neutral [OF this] Cons.IH [OF ne(1)] True ne(2) show ?thesis by (simp add: join_Cons)
  next
    case False
    then show ?thesis by (cases ls) (simp_all add: classify_def opaque_chunk_def Let_def)
  qed
qed simp

lemma strip_blank_closed: "closed_chunk raw \<Longrightarrow> strip_blank (line_list raw) \<noteq> []"
proof -
  assume "closed_chunk raw"
  with closes_last [of 0 False "line_list raw"] have "line_list raw \<noteq> []" "last (line_list raw) \<noteq> []"
    by (auto simp: closed_chunk_def)
  with last_in_set [of "line_list raw"] show ?thesis by (auto simp: dropWhile_eq_Nil_conv)
qed

lemma classify_kept:
  assumes "closed_chunk raw"
  shows "classify (join_with [newline] (kept_block raw)) = (classify raw)\<lparr>ch_raw := join_with [newline] (kept_block raw)\<rparr>"
    "classify (join_with [newline] (ng_header # kept_block raw))
       = (classify raw)\<lparr>ch_raw := join_with [newline] (ng_header # kept_block raw)\<rparr>"
proof -
  note ne = strip_blank_closed [OF assms]
  have n: "neutral []" "neutral ng_header" by (simp_all add: neutral_def)
  have "classify raw = (classify (join_with [newline] (strip_blank (line_list raw))))\<lparr>ch_raw := raw\<rparr>"
    using classify_blank_lines [OF ne] by (simp add: line_list_def join_split)
  moreover have "classify (join_with [newline] (kept_block raw))
      = (classify (join_with [newline] (strip_blank (line_list raw))))\<lparr>ch_raw := join_with [newline] (kept_block raw)\<rparr>"
    using classify_neutral [OF n(1)] by (simp add: kept_block_def join_Cons [OF ne])
  ultimately show *: "classify (join_with [newline] (kept_block raw)) = (classify raw)\<lparr>ch_raw := join_with [newline] (kept_block raw)\<rparr>"
    by simp
  have "kept_block raw \<noteq> []" by (simp add: kept_block_def)
  with classify_neutral [OF n(2)] * show "classify (join_with [newline] (ng_header # kept_block raw))
       = (classify raw)\<lparr>ch_raw := join_with [newline] (ng_header # kept_block raw)\<rparr>"
    by (simp add: join_Cons)
qed

end
