(* ===== verification/Nginx_Render.thy ===== *)
theory Nginx_Render
  imports Nginx_Text
begin

text \<open>
  Crenel's own nginx blocks, read back: a rendered server block is classified as managed, with the
  host, the address and the authentication it was rendered from, on the port it listens on and
  routing by no path; the rendered default server denies on that port.
\<close>

section \<open>Numbers and words\<close>

lemma digit_cases: "0 \<le> k \<Longrightarrow> k < 10 \<Longrightarrow> rx_digit (digit_char k) \<and> (of_char (digit_char k) :: int) = 48 + k"
proof -
  assume "0 \<le> k" "k < 10"
  then have "k \<in> {0, 1, 2, 3, 4, 5, 6, 7, 8, 9}" unfolding insert_iff empty_iff by presburger
  then show ?thesis by (auto simp: digit_char_def rx_digit_def char_of_def bit_Suc_0_iff)
qed

lemma decimal_digits: "0 \<le> n \<Longrightarrow> decimal n \<noteq> [] \<and> (\<forall>c \<in> set (decimal n). rx_digit c) \<and> decimal_value (decimal n) = n"
proof (induction n rule: decimal.induct)
  case (1 n)
  show ?case
  proof (cases "n < 10")
    case True
    with 1 digit_cases [of n] show ?thesis by (simp add: decimal.simps [of n] decimal_value_def)
  next
    case False
    with 1 digit_cases [of "n mod 10"] show ?thesis
      by (auto simp: decimal.simps [of n] decimal_value_def)
  qed
qed

lemma rx_space_is_space: "rx_space c \<Longrightarrow> is_space c"
  by (auto simp: rx_space_def is_space_code)

lemma str_index_here: "has_prefix m s \<Longrightarrow> str_index s m \<noteq> None"
  by (cases s; cases m) auto

lemma contains_iff: "str_contains s m \<longleftrightarrow> (\<exists>a b. s = a @ m @ b)"
proof
  assume "str_contains s m"
  then obtain i where "str_index s m = Some i" by (auto simp: str_contains_def)
  from str_index_split [OF this] show "\<exists>a b. s = a @ m @ b" by metis
next
  assume "\<exists>a b. s = a @ m @ b"
  then obtain a b where "s = a @ m @ b" by blast
  then show "str_contains s m"
  proof (induction a arbitrary: s)
    case Nil
    then show ?case using str_index_here [of m s] by (simp add: str_contains_def)
  next
    case (Cons x a)
    then show ?case by (auto simp: str_contains_Cons)
  qed
qed

text \<open>A word without the separator is found on one side of it.\<close>

lemma contains_sep: "c \<notin> set m \<Longrightarrow> str_contains (s @ c # t) m \<longleftrightarrow> str_contains s m \<or> str_contains t m"
proof
  assume c: "c \<notin> set m" and "str_contains (s @ c # t) m"
  then obtain a b where ab: "s @ c # t = a @ m @ b" by (auto simp: contains_iff)
  then consider u where "s = a @ u" "u @ c # t = m @ b" | u where "s @ u = a" "c # t = u @ m @ b"
    by (auto simp: append_eq_append_conv2)
  then show "str_contains s m \<or> str_contains t m"
  proof cases
    case 1
    then consider v where "u = m @ v" | v where "m = u @ v" "v @ b = c # t"
      unfolding append_eq_append_conv2 by metis
    then show ?thesis
    proof cases
      case (1 v)
      with \<open>s = a @ u\<close> show ?thesis by (auto simp: contains_iff)
    next
      case (2 v)
      with c have "v = []" by (cases v) auto
      with 2 \<open>s = a @ u\<close> have "s = a @ m @ []" by simp
      then show ?thesis unfolding contains_iff by blast
    qed
  next
    case 2
    then show ?thesis by (cases u) (use c in \<open>cases m; auto simp: contains_iff\<close>)+
  qed
next
  assume "str_contains s m \<or> str_contains t m"
  then show "str_contains (s @ c # t) m"
  proof
    assume "str_contains s m"
    then obtain a b where "s = a @ m @ b" by (auto simp: contains_iff)
    then have "s @ c # t = a @ m @ (b @ c # t)" by simp
    then show ?thesis unfolding contains_iff by blast
  next
    assume "str_contains t m"
    then obtain a b where "t = a @ m @ b" by (auto simp: contains_iff)
    then have "s @ c # t = (s @ c # a) @ m @ b" by simp
    then show ?thesis unfolding contains_iff by blast
  qed
qed

lemma contains_join:
  "newline \<notin> set m \<Longrightarrow> ls \<noteq> [] \<Longrightarrow> str_contains (join_with [newline] ls) m \<longleftrightarrow> (\<exists>l \<in> set ls. str_contains l m)"
proof (induction ls)
  case (Cons l ls)
  then show ?case by (cases "ls = []") (auto simp: join_Cons contains_sep)
qed simp

lemma contains_first: "d \<notin> set s \<Longrightarrow> \<not> str_contains s (d # m)"
  by (auto simp: contains_iff)

section \<open>Looking for a directive among lines\<close>

definition starts :: "string \<Rightarrow> string \<Rightarrow> bool" where
  "starts w l = has_prefix w (dropWhile rx_space l)"

lemma prefix_before: "c \<notin> set w \<Longrightarrow> has_prefix w (s @ c # t) = has_prefix w s"
proof (induction w arbitrary: s)
  case (Cons d w)
  then show ?case by (cases s) auto
qed simp

lemma strip_line:
  "dropWhile rx_space l \<noteq> [] \<Longrightarrow> dropWhile rx_space (l @ s) = dropWhile rx_space l @ s"
  by (induction l) auto

lemma by_line_skip:
  assumes "\<not> starts (c # cs) l" and "newline \<notin> set l" and "newline \<notin> set (c # cs)"
  shows "by_line (at_word (c # cs) r) (l @ newline # s) = by_line (at_word (c # cs) r) s"
proof (cases "dropWhile rx_space l")
  case Nil
  then show ?thesis by (intro by_line_blank assms(2)) (auto simp: list_all_iff)
next
  case (Cons t u)
  from prefix_before [OF assms(3), of "t # u" s] assms(1) Cons
  have "\<not> has_prefix (c # cs) (t # u @ newline # s)" by (simp add: starts_def)
  then have "at_word (c # cs) r (t # u @ newline # s) = None" by (rule at_word_other)
  with assms(2) Cons show ?thesis by (intro by_line_other)
qed

lemma by_line_last:
  "newline \<notin> set l \<Longrightarrow> by_line f l = f (dropWhile rx_space l)"
  by (subst by_line.simps) (auto split: option.split list.split dest!: arg_cong [where f = set] simp: dropWhile_eq_Cons_conv)

lemma by_line_join_skip:
  assumes "\<forall>l \<in> set ls. \<not> starts (c # cs) l \<and> newline \<notin> set l" and "newline \<notin> set (c # cs)"
  shows "ks \<noteq> [] \<Longrightarrow> by_line (at_word (c # cs) r) (join_with [newline] (ls @ ks)) = by_line (at_word (c # cs) r) (join_with [newline] ks)"
    and "ls \<noteq> [] \<Longrightarrow> by_line (at_word (c # cs) r) (join_with [newline] ls) = None"
proof -
  show "ks \<noteq> [] \<Longrightarrow> by_line (at_word (c # cs) r) (join_with [newline] (ls @ ks)) = by_line (at_word (c # cs) r) (join_with [newline] ks)"
    using assms(1)
  proof (induction ls)
    case (Cons l ls)
    then show ?case using by_line_skip [of c cs l, OF _ _ assms(2)] by (simp add: join_Cons)
  qed simp
  note skip = this
  show "ls \<noteq> [] \<Longrightarrow> by_line (at_word (c # cs) r) (join_with [newline] ls) = None"
    using assms(1)
  proof (induction ls)
    case (Cons l ls)
    show ?case
    proof (cases "ls = []")
      case True
      with Cons.prems show ?thesis by (simp add: by_line_last at_word_other starts_def)
    next
      case False
      with Cons show ?thesis using by_line_skip [of c cs l, OF _ _ assms(2)] by (simp add: join_Cons)
    qed
  qed simp
qed

text \<open>A directive gives its value.\<close>

abbreviation directive_tail :: rx where
  "directive_tail \<equiv> rx_seq [plus rx_space, Grp 1 (plus not_semi), Lit '';'']"

lemma many_first:
  "first_of (concat (map g (matches (Many q) (p, s, m)))) =
     (case first_of (g (last_of p (takeWhile q s), dropWhile q s, m)) of
        Some x \<Rightarrow> Some x
      | None \<Rightarrow> first_of (concat (map g (tl (matches (Many q) (p, s, m))))))"
proof -
  obtain early where "runs q p s m = early @ [(last_of p (takeWhile q s), dropWhile q s, m)]"
    using runs_last by blast
  then show ?thesis by (simp add: first_of_append split: option.split)
qed

lemma one_then_many:
  assumes "q c" and "takeWhile q s = v" and "dropWhile q s = t"
  shows "\<exists>more. matches (plus q) (p, c # s, m) = (Some (last (c # v)), t, m) # more"
proof -
  obtain early where "runs q (Some c) s m = early @ [(last_of (Some c) (takeWhile q s), dropWhile q s, m)]"
    using runs_last by blast
  moreover have "last_of (Some c) v = Some (last (c # v))" by (simp add: last_of_def)
  ultimately show ?thesis using assms by (simp add: plus_def)
qed

lemma takeWhile_to: "\<forall>c \<in> set v. q c \<Longrightarrow> \<not> q d \<Longrightarrow> takeWhile q (v @ d # t) = v \<and> dropWhile q (v @ d # t) = d # t"
  by (simp add: takeWhile_append2 dropWhile_append2)

lemma first_concat_Cons:
  "first_of (g x) = Some y \<Longrightarrow> first_of (concat (map g (x # xs))) = Some y"
  by (simp add: first_of_append)

lemma space_then_word:
  assumes "\<not> rx_space (hd v)" and "v \<noteq> []"
  shows "matches (plus rx_space) (p, CHR 0x20 # v, m) = [(Some (CHR 0x20), v, m)]"
  using assms by (cases v) (simp_all add: plus_def rx_space_def)

lemma directive_hit:
  assumes "v \<noteq> []" and "\<not> rx_space (hd v)" and "CHR '';'' \<notin> set v"
  shows "\<exists>st. at_word w directive_tail (w @ CHR 0x20 # v @ CHR '';'' # t) = Some st \<and> group 1 st = v"
proof -
  obtain c u where v: "v = c # u" using assms(1) by (cases v) auto
  have c: "not_semi c" "\<forall>d \<in> set u. not_semi d" using assms(3) by (auto simp: v not_semi_def)
  have "\<not> not_semi (CHR '';'')" by (simp add: not_semi_def)
  note tw = takeWhile_to [OF c(2) this, of t]
  let ?p = "last_of None w"
  obtain more where more: "matches (plus not_semi) (Some (CHR 0x20), c # u @ CHR '';'' # t, [])
      = (Some (last (c # u)), CHR '';'' # t, []) # more"
    using one_then_many [OF c(1) conjunct1 [OF tw] conjunct2 [OF tw]] by blast
  let ?st = "(Some (CHR '';''), t, [(1, v)])"
  have "take (length (c # u @ CHR '';'' # t) - length (CHR '';'' # t)) (c # u @ CHR '';'' # t) = v"
    by (simp add: v)
  then have "\<exists>xs. matches (Grp 1 (plus not_semi)) (Some (CHR 0x20), c # u @ CHR '';'' # t, [])
      = (Some (last (c # u)), CHR '';'' # t, [(1, v)]) # xs"
    by (simp only: matches.simps more list.map prod.case) blast
  then obtain xs where xs: "matches (Grp 1 (plus not_semi)) (Some (CHR 0x20), c # u @ CHR '';'' # t, [])
      = (Some (last (c # u)), CHR '';'' # t, [(1, v)]) # xs" by blast
  have semi: "first_of (matches (Lit '';'') (Some (last (c # u)), CHR '';'' # t, [(1, v)])) = Some ?st"
    by (simp add: last_of_def)
  have "first_of (matches (Seq (Grp 1 (plus not_semi)) (Lit '';'')) (Some (CHR 0x20), c # u @ CHR '';'' # t, [])) = Some ?st"
    unfolding matches.simps(10) xs by (rule first_concat_Cons, rule semi)
  moreover have "matches (plus rx_space) (?p, CHR 0x20 # v @ CHR '';'' # t, []) = [(Some (CHR 0x20), c # u @ CHR '';'' # t, [])]"
    using space_then_word [of "v @ CHR '';'' # t" ?p "[]"] assms(1,2) by (simp add: v)
  ultimately have "first_of (matches directive_tail (?p, CHR 0x20 # v @ CHR '';'' # t, [])) = Some ?st"
    by (simp only: rx_seq.simps matches.simps(10) list.map concat.simps append_Nil2)
  then have "at_word w directive_tail (w @ CHR 0x20 # v @ CHR '';'' # t) = Some ?st"
    by (simp only: at_word_def matches.simps(10)) (simp add: has_prefix_append del: rx_seq.simps)
  then show ?thesis by (intro exI [of _ ?st]) (simp add: group_def)
qed

text \<open>The listen directive, with what may follow the port.\<close>

definition listen_extra :: "string \<Rightarrow> bool" where
  "listen_extra x = (x \<in> {[], '' ssl'', '' default_server'', '' ssl default_server''})"

abbreviation listen_tail :: rx where
  "listen_tail \<equiv> rx_seq [plus rx_space, Opt (Seq (Few not_semi) (One (\<lambda>c. c = CHR '':'' \<or> rx_space c))),
     Grp 1 (plus rx_digit), WordEdge]"

lemma few_skip:
  "\<forall>d \<in> set ds. q d \<and> \<not> r d \<Longrightarrow> matches (Seq (Few q) (One r)) (p, ds @ u, m) = matches (Seq (Few q) (One r)) (last_of p ds, u, m)"
proof (induction ds arbitrary: p)
  case (Cons d ds)
  then have "last_of p (d # ds) = last_of (Some d) ds" by (simp add: last_of_def)
  with Cons show ?case by simp
qed (simp add: last_of_def)

lemma rx_digit_plain: "rx_digit d \<Longrightarrow> not_semi d \<and> \<not> (d = CHR '':'' \<or> rx_space d) \<and> rx_word d \<and> d \<noteq> newline"
  by (auto simp: rx_digit_def not_semi_def rx_space_def rx_word_def newline_def)

lemma no_digits: "\<not> rx_digit c \<Longrightarrow> matches (Seq (Grp 1 (plus rx_digit)) r) (p, c # s, m) = []"
  by (simp add: plus_def)

lemma word_chars: "\<not> rx_digit (CHR ''s'')" "\<not> rx_digit (CHR ''d'')" "\<not> rx_digit (CHR '';'')"
  by (simp_all add: rx_digit_def)

lemma extra_no_digit:
  assumes "listen_extra x"
    and "st \<in> set (matches (Seq (Few not_semi) (One (\<lambda>c. c = CHR '':'' \<or> rx_space c))) (p, x @ CHR '';'' # t, m))"
  shows "matches (Seq (Grp 1 (plus rx_digit)) WordEdge) st = []"
proof -
  have "\<exists>p c s m. st = (p, c # s, m) \<and> \<not> rx_digit c"
    using assms unfolding listen_extra_def
    by (elim insertE emptyE; simp add: not_semi_def rx_space_def; (elim disjE)?; simp add: word_chars)
  then show ?thesis using no_digits by blast
qed

lemma listen_hit:
  assumes "ds \<noteq> []" and "\<forall>d \<in> set ds. rx_digit d" and "listen_extra x"
  shows "\<exists>p. at_word ''listen'' listen_tail (''listen '' @ ds @ x @ CHR '';'' # t) = Some (Some p, x @ CHR '';'' # t, [(1, ds)])
    \<and> p \<noteq> newline"
proof -
  obtain c u where ds: "ds = c # u" using assms(1) by (cases ds) auto
  let ?rest = "x @ CHR '';'' # t"
  obtain e y where rest: "?rest = e # y" and e: "\<not> rx_digit e" "\<not> rx_word e"
    using assms(3) by (auto simp: listen_extra_def rx_digit_def rx_word_def)
  have tw: "takeWhile rx_digit (u @ ?rest) = u" "dropWhile rx_digit (u @ ?rest) = ?rest"
    using takeWhile_to [of u rx_digit e y] assms(2) e(1) by (simp_all add: ds rest)
  have c: "rx_digit c" using assms(2) by (simp add: ds)
  obtain more where more: "matches (plus rx_digit) (Some (CHR 0x20), c # u @ ?rest, []) = (Some (last ds), ?rest, []) # more"
    using one_then_many [OF c tw] by (auto simp: ds)
  let ?st = "(Some (last ds), ?rest, [(1, ds)])"
  have "take (length (c # u @ ?rest) - length ?rest) (c # u @ ?rest) = ds" by (simp add: ds)
  then obtain xs where xs: "matches (Grp 1 (plus rx_digit)) (Some (CHR 0x20), c # u @ ?rest, []) = ?st # xs"
    by (simp only: matches.simps more list.map prod.case)
  have "rx_word (last ds)" using rx_digit_plain assms(1,2) by simp
  then have edge: "first_of (matches WordEdge ?st) = Some ?st"
    using e(2) by (simp add: rest word_at_def head_of_def)
  have port: "first_of (matches (Seq (Grp 1 (plus rx_digit)) WordEdge) (Some (CHR 0x20), c # u @ ?rest, [])) = Some ?st"
    unfolding matches.simps(10) xs by (rule first_concat_Cons, rule edge)
  let ?opt = "Seq (Few not_semi) (One (\<lambda>c. c = CHR '':'' \<or> rx_space c))"
  have "matches (Seq (Grp 1 (plus rx_digit)) WordEdge) st = []"
    if "st \<in> set (matches ?opt (Some (CHR 0x20), ds @ ?rest, []))" for st
  proof -
    have "\<forall>d \<in> set ds. not_semi d \<and> \<not> (d = CHR '':'' \<or> rx_space d)"
      using rx_digit_plain assms(2) by blast
    from that [unfolded few_skip [OF this]] show ?thesis by (rule extra_no_digit [OF assms(3)])
  qed
  then have "concat (map (matches (Seq (Grp 1 (plus rx_digit)) WordEdge)) (matches ?opt (Some (CHR 0x20), ds @ ?rest, []))) = []"
    by (rule concat_map_nils)
  with port have "first_of (matches (Seq (Opt ?opt) (Seq (Grp 1 (plus rx_digit)) WordEdge)) (Some (CHR 0x20), ds @ ?rest, [])) = Some ?st"
    by (simp only: matches.simps(10) [of "Opt _"] matches.simps(8) map_append concat_append append_Nil list.map concat.simps
        append_Nil2 ds append_Cons)
  moreover have "matches (plus rx_space) (last_of None ''listen'', CHR 0x20 # ds @ ?rest, []) = [(Some (CHR 0x20), ds @ ?rest, [])]"
    using c by (intro space_then_word) (auto simp: ds dest: rx_digit_plain)
  ultimately have "first_of (matches listen_tail (last_of None ''listen'', CHR 0x20 # ds @ ?rest, [])) = Some ?st"
    by (simp only: rx_seq.simps matches.simps(10) [of "plus _"] list.map concat.simps append_Nil2)
  then have "at_word ''listen'' listen_tail (''listen'' @ CHR 0x20 # ds @ ?rest) = Some ?st"
    by (simp only: at_word_def matches.simps(10) [of "Lit _"]) (simp del: rx_seq.simps matches.simps(1-3,5-10))
  moreover have "last ds \<noteq> newline" using rx_digit_plain assms(1,2) by simp
  ultimately show ?thesis by auto
qed

abbreviation default_tail :: rx where
  "default_tail \<equiv> rx_seq [plus rx_space, Many not_semi, WordEdge, Lit ''default'', Opt (Lit ''_server''), WordEdge]"

lemma runs_texts:
  "st \<in> set (runs q p (ds @ u) m) \<Longrightarrow>
     (\<exists>d s. fst (snd st) = d # s \<and> d \<in> set ds) \<or> (\<exists>p'. st \<in> set (runs q p' u m))"
proof (induction ds arbitrary: p)
  case (Cons d ds)
  from Cons.prems consider "st = (p, d # ds @ u, m)" | "st \<in> set (runs q (Some d) (ds @ u) m)"
    by (auto split: if_splits)
  then show ?case
  proof cases
    case 2
    from Cons.IH [OF this] show ?thesis by auto
  qed auto
qed auto

lemma not_default: "c \<noteq> CHR ''d'' \<Longrightarrow> matches (Seq WordEdge (Seq (Lit ''default'') r)) (p, c # s, m) = []"
  by simp

lemma listen_default_miss:
  assumes "ds \<noteq> []" and "\<forall>d \<in> set ds. rx_digit d" and "x \<in> {[], '' ssl''}"
  shows "at_word ''listen'' default_tail (''listen '' @ ds @ x @ CHR '';'' # t) = None"
proof -
  let ?rest = "x @ CHR '';'' # t" and ?R = "Seq WordEdge (Seq (Lit ''default'') (Seq (Opt (Lit ''_server'')) WordEdge))"
  have "matches ?R st = []" if st: "st \<in> set (runs not_semi (Some (CHR 0x20)) (ds @ ?rest) [])" for st
  proof -
    obtain p c s m where p: "st = (p, c # s, m)" and c: "c \<noteq> CHR ''d''"
    proof -
      obtain p u m where p: "st = (p, u, m)" by (cases st)
      from runs_texts [OF st] consider d s where "u = d # s" "d \<in> set ds"
        | p' where "st \<in> set (runs not_semi p' ?rest [])" by (auto simp: p)
      then have "\<exists>c s. u = c # s \<and> c \<noteq> CHR ''d''"
      proof cases
        case 1
        with assms(2) word_chars show ?thesis by auto
      next
        case 2
        then show ?thesis using assms(3) unfolding insert_iff empty_iff
          by (elim disjE; simp add: p not_semi_def; (elim disjE)?; simp)
      qed
      with p that show thesis by blast
    qed
    then show ?thesis by (simp add: not_default del: matches.simps)
  qed
  then have "concat (map (matches ?R) (rev (runs not_semi (Some (CHR 0x20)) (ds @ ?rest) []))) = []"
    by (intro concat_map_nils) simp
  then have "matches (Seq (Many not_semi) ?R) (Some (CHR 0x20), ds @ ?rest, []) = []"
    by (simp only: matches.simps(10) [of "Many _"] matches.simps(6) prod.case)
  moreover have "matches (plus rx_space) (last_of None ''listen'', CHR 0x20 # ds @ ?rest, []) = [(Some (CHR 0x20), ds @ ?rest, [])]"
  proof (rule space_then_word)
    show "\<not> rx_space (hd (ds @ ?rest))" using rx_digit_plain [of "hd ds"] assms(1,2) by simp
  qed (use assms(1) in simp)
  ultimately have "matches default_tail (last_of None ''listen'', CHR 0x20 # ds @ ?rest, []) = []"
    by (simp only: rx_seq.simps matches.simps(10) [of "plus _"] list.map concat.simps append_Nil2)
  then have "at_word ''listen'' default_tail (''listen'' @ CHR 0x20 # ds @ ?rest) = None"
    by (simp only: at_word_def matches.simps(10) [of "Lit _"]) (simp del: rx_seq.simps matches.simps(1-3,5-10))
  then show ?thesis by simp
qed

section \<open>The lines of a block\<close>

lemma strip_spaces: "\<forall>c \<in> set sp. rx_space c \<Longrightarrow> \<not> rx_space c \<Longrightarrow> dropWhile rx_space (sp @ c # s) = c # s"
  by (induction sp) auto

lemma directive_found:
  assumes "w = c # cs" and "\<not> rx_space c" and "newline \<notin> set w"
    and "\<forall>l \<in> set pre. \<not> starts w l \<and> newline \<notin> set l" and "post \<noteq> []"
    and "\<forall>d \<in> set sp. rx_space d \<and> d \<noteq> newline" and "v \<noteq> []" and "\<forall>d \<in> set v. \<not> is_space d \<and> d \<noteq> CHR '';''"
  shows "rx_sub (directive_rx w) 1 (join_with [newline] (pre @ (sp @ w @ CHR 0x20 # v @ '';'') # post)) = Some v"
proof -
  let ?l = "sp @ w @ CHR 0x20 # v @ '';''" and ?t = "newline # join_with [newline] post"
  have plain: "\<not> rx_space (hd v)" "CHR '';'' \<notin> set v" "newline \<notin> set v"
    using assms(7,8) hd_in_set [OF assms(7)] rx_space_is_space rx_space_is_space [OF newline_space] by blast+
  have l: "newline \<notin> set ?l" using assms(3,6) plain by (auto simp: newline_def)
  obtain st where st: "at_word w directive_tail (w @ CHR 0x20 # v @ CHR '';'' # ?t) = Some st" "group 1 st = v"
    using directive_hit [OF assms(7) plain(1,2)] by blast
  have "dropWhile rx_space (?l @ ?t) = w @ CHR 0x20 # v @ CHR '';'' # ?t"
    using strip_spaces [of sp c] assms(1,2,6) by simp
  with st(1) by_line_Cons [OF l, of "at_word w directive_tail"]
  have "by_line (at_word w directive_tail) (?l @ ?t) = Some st" by simp
  moreover have "by_line (at_word w directive_tail) (join_with [newline] (pre @ ?l # post))
      = by_line (at_word w directive_tail) (join_with [newline] (?l # post))"
    unfolding assms(1) by (rule by_line_join_skip(1)) (use assms(1,3,4) in auto)
  ultimately have "by_line (at_word w directive_tail) (join_with [newline] (pre @ ?l # post)) = Some st"
    by (simp add: join_Cons [OF assms(5)] del: rx_seq.simps)
  with st(2) rx_sub_by_line [OF assms(2)] show ?thesis
    by (simp add: directive_rx_def assms(1) del: rx_seq.simps)
qed

lemma directive_absent:
  assumes "w = c # cs" and "\<not> rx_space c" and "newline \<notin> set w" and "\<forall>l \<in> set ls. \<not> starts w l \<and> newline \<notin> set l" and "ls \<noteq> []"
  shows "rx_sub (directive_rx w) n (join_with [newline] ls) = None"
  using by_line_join_skip(2) [of ls c cs directive_tail] assms rx_sub_by_line [OF assms(2)]
  by (simp add: directive_rx_def del: rx_seq.simps)

section \<open>A managed block\<close>

text \<open>A word that stands alone in a directive.\<close>

definition clean :: "string \<Rightarrow> bool" where
  "clean s = (s \<noteq> [] \<and> (\<forall>c \<in> set s. \<not> is_space c \<and> c \<notin> {CHR '';'', CHR ''{'', CHR ''}'', CHR ''#''})
     \<and> \<not> str_contains s ''default_server'')"

definition tls_ok :: "ng_tls \<Rightarrow> bool" where
  "tls_ok t = (0 < tls_port t \<and> tls_port t \<le> 9223372036854775807
     \<and> (nt_ssl t \<longrightarrow> clean (nt_cert t) \<and> clean (nt_key t)))"

definition auth_uri_of :: "(string \<Rightarrow> string) \<Rightarrow> string \<Rightarrow> string" where
  "auth_uri_of uri_for policy = (if policy \<noteq> [] \<and> policy \<noteq> auth_none then uri_for policy else [])"

definition route_ok :: "(string \<Rightarrow> string) \<Rightarrow> route \<Rightarrow> bool" where
  "route_ok uri_for r = (clean (r_host r) \<and> r_host r \<noteq> ''_'' \<and> r_host r \<noteq> ''*''
     \<and> clean (ng_with_scheme (u_address (r_upstream r)))
     \<and> (u_auth (r_upstream r) \<noteq> [] \<and> u_auth (r_upstream r) \<noteq> auth_none \<longrightarrow> clean (uri_for (u_auth (r_upstream r)))))"

lemma newline_is_space: "is_space newline" by (simp add: is_space_code newline_def)

lemma cleanD:
  assumes "clean s"
  shows "s \<noteq> []" "newline \<notin> set s" "CHR '';'' \<notin> set s" "CHR ''{'' \<notin> set s" "CHR ''}'' \<notin> set s" "CHR ''#'' \<notin> set s"
    "\<not> str_contains s ''default_server''" "trim_space s = s" "\<forall>d \<in> set s. \<not> is_space d \<and> d \<noteq> CHR '';''"
proof -
  have c: "\<not> is_space c \<and> c \<notin> {CHR '';'', CHR ''{'', CHR ''}'', CHR ''#''}" if "c \<in> set s" for c
    using assms that unfolding clean_def by blast
  show "s \<noteq> []" "\<not> str_contains s ''default_server''" using assms by (simp_all add: clean_def)
  show "newline \<notin> set s" using c newline_is_space by blast
  show "CHR '';'' \<notin> set s" "CHR ''{'' \<notin> set s" "CHR ''}'' \<notin> set s" "CHR ''#'' \<notin> set s" using c by blast+
  show "trim_space s = s" using c trim_space_no_space by blast
  show "\<forall>d \<in> set s. \<not> is_space d \<and> d \<noteq> CHR '';''" using c by blast
qed

definition ssl_extra :: "ng_tls \<Rightarrow> string" where "ssl_extra t = (if nt_ssl t then '' ssl'' else [])"

lemma listen_line_parts:
  "0 < tls_port t \<Longrightarrow> listen_line t [] = ''listen '' @ decimal (tls_port t) @ ssl_extra t @ '';''"
  "0 < tls_port t \<Longrightarrow> listen_line t ''default_server'' = ''listen '' @ decimal (tls_port t) @ ssl_extra t @ '' default_server;''"
  unfolding listen_line_def itoa_def ssl_extra_def by (cases "nt_ssl t"; simp)+

lemma ssl_extra_plain: "listen_extra (ssl_extra t)" "listen_extra (ssl_extra t @ '' default_server'')" "ssl_extra t \<in> {[], '' ssl''}"
  by (simp_all add: listen_extra_def ssl_extra_def)

lemma port_digits:
  assumes "tls_ok t"
  shows "decimal (tls_port t) \<noteq> []" "\<forall>c \<in> set (decimal (tls_port t)). rx_digit c"
    "atoi (decimal (tls_port t)) = Some (tls_port t)" "newline \<notin> set (decimal (tls_port t))"
proof -
  have "0 \<le> tls_port t" and le: "tls_port t \<le> 9223372036854775807" using assms by (simp_all add: tls_ok_def)
  note d = decimal_digits [OF this(1)]
  then show "decimal (tls_port t) \<noteq> []" "\<forall>c \<in> set (decimal (tls_port t)). rx_digit c" by blast+
  from d le show "atoi (decimal (tls_port t)) = Some (tls_port t)" by (simp add: atoi_def)
  from d rx_digit_plain show "newline \<notin> set (decimal (tls_port t))" by blast
qed

lemma listens_found:
  assumes "\<forall>l \<in> set (pre @ post). \<not> starts ''listen'' l \<and> newline \<notin> set l" and "post \<noteq> []" and "listen_extra x"
    and "ds \<noteq> []" and "\<forall>d \<in> set ds. rx_digit d" and "newline \<notin> set x"
  shows "rx_all_subs listen_rx 1 (join_with [newline] (pre @ (''    listen '' @ ds @ x @ '';'') # post)) = [ds]"
proof -
  let ?l = "''    listen '' @ ds @ x @ '';''" and ?f = "at_word ''listen'' listen_tail" and ?t = "join_with [newline] post"
  have sp: "\<not> rx_space (CHR ''l'')" by (simp add: rx_space_def)
  have "newline \<notin> set ds" using assms(5) rx_digit_plain by blast
  then have nl: "newline \<notin> set ?l" using assms(6) by (simp add: newline_def)
  obtain p where p: "?f (''listen '' @ ds @ x @ CHR '';'' # newline # ?t) = Some (Some p, x @ CHR '';'' # newline # ?t, [(1, ds)])"
    "p \<noteq> newline"
    using listen_hit [OF assms(4,5,3), of "newline # ?t"] by (elim exE conjE)
  have "dropWhile rx_space (?l @ newline # ?t) = ''listen '' @ ds @ x @ CHR '';'' # newline # ?t"
    by (simp add: rx_space_def)
  with p(1) by_line_Cons [OF nl, of ?f ?t]
  have "by_line ?f (?l @ newline # ?t) = Some (Some p, x @ CHR '';'' # newline # ?t, [(1, ds)])" by (simp del: rx_seq.simps)
  moreover have "by_line ?f (join_with [newline] (pre @ ?l # post)) = by_line ?f (join_with [newline] (?l # post))"
    by (rule by_line_join_skip(1)) (use assms(1) in \<open>auto simp: newline_def\<close>)
  ultimately have hit: "by_line ?f (join_with [newline] (pre @ ?l # post)) = Some (Some p, x @ CHR '';'' # newline # ?t, [(1, ds)])"
    by (simp add: join_Cons [OF assms(2)] del: rx_seq.simps)
  have "by_line ?f ?t = None"
    by (rule by_line_join_skip(2)) (use assms(1,2) in \<open>auto simp: newline_def\<close>)
  then have "map snd (rx_find_all listen_rx (Some newline) ?t) = []"
    using rx_find_all_by_line [OF sp, of "Some newline" "''isten''" listen_tail ?t] by (simp add: listen_rx_def del: rx_seq.simps)
  moreover have "dropWhile (\<lambda>c. c \<noteq> newline) (x @ CHR '';'' # newline # ?t) = newline # ?t"
    using assms(6) by (subst dropWhile_append2) (auto simp: newline_def)
  ultimately have "map snd (rx_find_all listen_rx (Some p) (x @ CHR '';'' # newline # ?t)) = []"
    using rx_find_all_mid_line [OF sp p(2), of "''isten''" listen_tail "x @ CHR '';'' # newline # ?t"]
    by (simp add: listen_rx_def del: rx_seq.simps)
  with hit have "map snd (rx_find_all listen_rx None (join_with [newline] (pre @ ?l # post)))
      = [(Some p, x @ CHR '';'' # newline # ?t, [(1, ds)])]"
    using rx_find_all_by_line [OF sp, of None "''isten''" listen_tail] by (simp add: listen_rx_def del: rx_seq.simps)
  then have "map (group 1) (map snd (rx_find_all listen_rx None (join_with [newline] (pre @ ?l # post)))) = [ds]"
    by (simp add: group_def)
  then show ?thesis by (simp add: rx_all_subs_def comp_def case_prod_beta')
qed

lemma default_absent:
  assumes "\<forall>l \<in> set (pre @ post). \<not> starts ''listen'' l \<and> newline \<notin> set l" and "post \<noteq> []" and "x \<in> {[], '' ssl''}"
    and "ds \<noteq> []" and "\<forall>d \<in> set ds. rx_digit d"
  shows "\<not> rx_match listen_default_rx (join_with [newline] (pre @ (''    listen '' @ ds @ x @ '';'') # post))"
proof -
  let ?l = "''    listen '' @ ds @ x @ '';''" and ?f = "at_word ''listen'' default_tail" and ?t = "join_with [newline] post"
  have sp: "\<not> rx_space (CHR ''l'')" by (simp add: rx_space_def)
  have "newline \<notin> set ds" using assms(5) rx_digit_plain by blast
  then have nl: "newline \<notin> set ?l" using assms(3) by (auto simp: newline_def)
  have "dropWhile rx_space (?l @ newline # ?t) = ''listen '' @ ds @ x @ CHR '';'' # newline # ?t"
    by (simp add: rx_space_def)
  with listen_default_miss [OF assms(4,5,3), of "newline # ?t"] by_line_Cons [OF nl, of ?f ?t]
  have "by_line ?f (?l @ newline # ?t) = by_line ?f ?t" by (simp del: rx_seq.simps)
  moreover have "by_line ?f ?t = None"
    by (rule by_line_join_skip(2)) (use assms(1,2) in \<open>auto simp: newline_def\<close>)
  moreover have "by_line ?f (join_with [newline] (pre @ ?l # post)) = by_line ?f (join_with [newline] (?l # post))"
    by (rule by_line_join_skip(1)) (use assms(1) in \<open>auto simp: newline_def\<close>)
  ultimately show ?thesis
    using rx_match_by_line [OF sp, of "''isten''" default_tail]
    by (simp add: listen_default_rx_def join_Cons [OF assms(2)] del: rx_seq.simps)
qed

text \<open>The parts of a managed block around its listen line.\<close>

definition own_head :: "string \<Rightarrow> string list" where
  "own_head mark = [[], mark, ''server {'']"

definition own_tail :: "(string \<Rightarrow> string) \<Rightarrow> ng_tls \<Rightarrow> route \<Rightarrow> string list" where
  "own_tail uri_for t r = tls_directives t @ [''    server_name '' @ r_host r @ '';'', ''    location / {'']
     @ auth_line uri_for r @ [''        proxy_pass '' @ ng_with_scheme (u_address (r_upstream r)) @ '';'', ''    }'', ''}'']"

definition mark_of :: "route \<Rightarrow> string" where "mark_of r = managed_marker @ '' '' @ r_host r"

lemma managed_lines_parts:
  "tls_ok t \<Longrightarrow> managed_lines uri_for t r = own_head (mark_of r)
     @ (''    listen '' @ decimal (tls_port t) @ ssl_extra t @ '';'') # own_tail uri_for t r"
  by (simp add: managed_lines_def own_head_def mark_of_def own_tail_def listen_line_parts tls_ok_def)

lemma auth_line_if: "auth_line uri_for r =
    (if u_auth (r_upstream r) \<noteq> [] \<and> u_auth (r_upstream r) \<noteq> auth_none
     then [''        auth_request '' @ uri_for (u_auth (r_upstream r)) @ '';''] else [])"
  by (simp add: auth_line_def Let_def)

lemmas line_words = starts_def rx_space_def managed_marker_def deny_marker_def newline_def

lemma own_lines_plain:
  assumes "tls_ok t" and "route_ok uri_for r"
  shows "\<forall>l \<in> set (own_head (mark_of r) @ own_tail uri_for t r). newline \<notin> set l"
    "newline \<notin> set (ssl_extra t)" "own_tail uri_for t r \<noteq> []"
  using assms cleanD(2)
  by (auto simp: own_head_def mark_of_def own_tail_def tls_directives_def auth_line_if tls_ok_def route_ok_def
      ssl_extra_def managed_marker_def newline_def)

text \<open>Which line starts with which word.\<close>

lemma own_words:
  shows "\<forall>l \<in> set (own_head (mark_of r) @ own_tail uri_for t r). \<not> starts ''listen'' l"
    "\<forall>l \<in> set (own_head (mark_of r)). \<not> starts ''server_name'' l"
    "\<forall>l \<in> set (tls_directives t). \<not> starts ''server_name'' l \<and> \<not> starts ''proxy_pass'' l \<and> \<not> starts ''auth_request'' l"
    "\<forall>l \<in> set (own_head (mark_of r) @ own_tail uri_for t r). \<not> starts ''auth_basic'' l"
    "\<forall>l \<in> set (own_head (mark_of r)). \<not> starts ''proxy_pass'' l \<and> \<not> starts ''auth_request'' l \<and> \<not> starts ''location'' l"
    "\<forall>l \<in> set (auth_line uri_for r). \<not> starts ''proxy_pass'' l"
  by (auto simp: own_head_def mark_of_def own_tail_def tls_directives_def auth_line_if line_words)

lemma plain_listen: "newline \<notin> set ds \<Longrightarrow> newline \<notin> set x \<Longrightarrow> newline \<notin> set (''    listen '' @ ds @ x @ '';'')"
  by (simp add: newline_def)

lemma other_line:
  "\<not> starts ''server_name'' (''    listen '' @ s)" "\<not> starts ''proxy_pass'' (''    listen '' @ s)"
  "\<not> starts ''auth_request'' (''    listen '' @ s)" "\<not> starts ''auth_basic'' (''    listen '' @ s)"
  "\<not> starts ''location'' (''    listen '' @ s)"
  "\<not> starts ''proxy_pass'' (''    server_name '' @ s)" "\<not> starts ''auth_request'' (''    server_name '' @ s)"
  "\<not> starts ''location'' (''    server_name '' @ s)"
  "\<not> starts ''auth_request'' (''        proxy_pass '' @ s)"
  "\<not> starts ''proxy_pass'' ''    location / {''" "\<not> starts ''auth_request'' ''    location / {''"
  "\<not> starts ''auth_request'' ''    }''" "\<not> starts ''auth_request'' ''}''"
  "\<not> starts ''location'' ''}''"
  by (simp_all add: line_words)

lemma location_paths_skip: "\<forall>l \<in> set ls. \<not> starts ''location'' l \<Longrightarrow> location_paths (ls @ ks) = location_paths ks"
  by (induction ls) (simp_all add: rx_sub_location at_word_other starts_def del: rx_seq.simps)

lemma root_location: "rx_sub location_head_rx 1 ''    location / {'' = Some ''/''"
  by code_simp

lemma proxy_line:
  assumes "clean v"
  shows "rx_match (directive_rx ''proxy_pass'') (''        proxy_pass '' @ v @ '';'')"
proof -
  let ?l = "''        proxy_pass '' @ v @ '';''"
  have sp: "\<not> rx_space (CHR ''p'')" by (simp add: rx_space_def)
  have v: "v \<noteq> []" "\<not> rx_space (hd v)" "CHR '';'' \<notin> set v" "newline \<notin> set v"
    using cleanD [OF assms] hd_in_set [OF cleanD(1) [OF assms]] rx_space_is_space by blast+
  obtain st where "at_word ''proxy_pass'' directive_tail (''proxy_pass'' @ CHR 0x20 # v @ CHR '';'' # []) = Some st"
    using directive_hit [OF v(1-3), of "''proxy_pass''" "[]"] by blast
  moreover have "dropWhile rx_space ?l = ''proxy_pass'' @ CHR 0x20 # v @ CHR '';'' # []"
    by (simp add: rx_space_def)
  moreover have "newline \<notin> set ?l" using v(4) by (simp add: newline_def)
  ultimately have "by_line (at_word ''proxy_pass'' directive_tail) ?l = Some st"
    by (simp add: by_line_last del: rx_seq.simps)
  then show ?thesis by (simp add: directive_rx_def rx_match_by_line [OF sp] del: rx_seq.simps)
qed

lemma net_braces_append: "net_braces (s @ t) = net_braces s + net_braces t"
  by (simp add: net_braces_def count_char_def)

lemma no_braces: "clean v \<Longrightarrow> net_braces (p @ v @ '';'') = net_braces p"
  using net_braces_none [of v, OF cleanD(4,5)] by (simp add: net_braces_append) (simp add: net_braces_none)

lemma root_path:
  assumes "clean (ng_with_scheme addr)" and "\<forall>l \<in> set au. net_braces l = 0"
  shows "location_paths (''    location / {'' # au
     @ [''        proxy_pass '' @ ng_with_scheme addr @ '';'', ''    }'', ''}'']) = [''/'']"
proof -
  let ?p = "''        proxy_pass '' @ ng_with_scheme addr @ '';''"
  have p: "net_braces ?p = 0" using no_braces [OF assms(1), of "''        proxy_pass ''"] by (simp add: net_braces_none)
  have "location_body 1 h (au @ [?p, ''    }'', ''}'']) = (True, [''}''])" for h
    using assms(2)
  proof (induction au arbitrary: h)
    case Nil
    have "net_braces ''    }'' = -1" by code_simp
    then show ?case by (simp only: append_Nil location_body.simps p proxy_line [OF assms(1)]) simp
  next
    case (Cons a au)
    then show ?case by simp
  qed
  moreover have "net_braces ''    location / {'' = 1" by code_simp
  moreover have "location_paths [''}''] = []" using location_paths_skip [of "[''}'']" "[]"] other_line(14) by simp
  moreover have "normalize_location_uri ''/'' = ''/''" by code_simp
  ultimately show ?thesis by (simp only: location_paths.simps root_location option.case prod.case) simp
qed

text \<open>What the expressions find in a managed block.\<close>

abbreviation block_text :: "(string \<Rightarrow> string) \<Rightarrow> ng_tls \<Rightarrow> route \<Rightarrow> string" where
  "block_text uri_for t r \<equiv> join_with [newline] (managed_lines uri_for t r)"

lemma block_finds:
  assumes tls: "tls_ok t" and route: "route_ok uri_for r"
  shows "rx_sub (directive_rx ''server_name'') 1 (block_text uri_for t r) = Some (r_host r)"
    "rx_sub (directive_rx ''proxy_pass'') 1 (block_text uri_for t r) = Some (ng_with_scheme (u_address (r_upstream r)))"
    "rx_sub (directive_rx ''auth_request'') 1 (block_text uri_for t r)
       = (let u = u_auth (r_upstream r) in if u \<noteq> [] \<and> u \<noteq> auth_none then Some (uri_for u) else None)"
    "rx_sub (directive_rx ''auth_basic'') 1 (block_text uri_for t r) = None"
    "rx_all_subs listen_rx 1 (block_text uri_for t r) = [decimal (tls_port t)]"
    "\<not> rx_match listen_default_rx (block_text uri_for t r)"
    "proxy_location_paths (block_text uri_for t r) = [''/'']"
proof -
  let ?listen = "''    listen '' @ decimal (tls_port t) @ ssl_extra t @ '';''" and ?u = "u_auth (r_upstream r)"
  let ?name = "''    server_name '' @ r_host r @ '';''" and ?addr = "ng_with_scheme (u_address (r_upstream r))"
  let ?proxy = "''        proxy_pass '' @ ?addr @ '';''" and ?ends = "[''    }'', ''}'']" and ?loc = "''    location / {''"
  have block: "managed_lines uri_for t r = own_head (mark_of r) @ ?listen # own_tail uri_for t r"
    by (rule managed_lines_parts [OF tls])
  have parts: "managed_lines uri_for t r = own_head (mark_of r) @ ?listen # tls_directives t @ ?name # ?loc # auth_line uri_for r @ ?proxy # ?ends"
    by (simp add: block own_tail_def)
  note nl = own_lines_plain [OF tls route]
  note words = own_words(2,3,5,6)
  have host: "clean (r_host r)" and addr: "clean ?addr" and uri: "?u \<noteq> [] \<and> ?u \<noteq> auth_none \<Longrightarrow> clean (uri_for ?u)"
    using route by (auto simp: route_ok_def)
  have listen: "newline \<notin> set ?listen" by (rule plain_listen [OF port_digits(4) [OF tls] nl(2)])
  have nls: "newline \<notin> set l" if "l \<in> set (managed_lines uri_for t r)" for l
    using that nl(1) listen by (auto simp: block)
  have pre_ok: "\<forall>l \<in> set pre. \<not> starts w l \<and> newline \<notin> set l"
    if "\<forall>l \<in> set pre. \<not> starts w l" "set pre \<subseteq> set (managed_lines uri_for t r)" for pre w
    using that nls by blast
  have chars: "\<not> rx_space (CHR ''s'')" "\<not> rx_space (CHR ''p'')" "\<not> rx_space (CHR ''a'')" by (simp_all add: rx_space_def)
  show "rx_sub (directive_rx ''server_name'') 1 (block_text uri_for t r) = Some (r_host r)"
  proof -
    have "rx_sub (directive_rx ''server_name'') 1 (join_with [newline]
        ((own_head (mark_of r) @ ?listen # tls_directives t) @ (''    '' @ ''server_name'' @ CHR 0x20 # r_host r @ '';'')
          # (?loc # auth_line uri_for r @ ?proxy # ?ends))) = Some (r_host r)"
    proof (rule directive_found [OF refl chars(1)])
      show "\<forall>l \<in> set (own_head (mark_of r) @ ?listen # tls_directives t). \<not> starts ''server_name'' l \<and> newline \<notin> set l"
        by (rule pre_ok) (use words other_line in \<open>simp add: ball_Un\<close>, simp only: parts set_append list.set, blast)
    qed (use cleanD [OF host] in \<open>simp_all add: newline_def rx_space_def\<close>)
    then show ?thesis by (simp add: parts)
  qed
  show "rx_sub (directive_rx ''proxy_pass'') 1 (block_text uri_for t r) = Some ?addr"
  proof -
    have "rx_sub (directive_rx ''proxy_pass'') 1 (join_with [newline]
        ((own_head (mark_of r) @ ?listen # tls_directives t @ ?name # ?loc # auth_line uri_for r)
          @ (''        '' @ ''proxy_pass'' @ CHR 0x20 # ?addr @ '';'') # ?ends)) = Some ?addr"
    proof (rule directive_found [OF refl chars(2)])
      show "\<forall>l \<in> set (own_head (mark_of r) @ ?listen # tls_directives t @ ?name # ?loc # auth_line uri_for r). \<not> starts ''proxy_pass'' l \<and> newline \<notin> set l"
        by (rule pre_ok) (use words other_line in \<open>simp add: ball_Un\<close>, simp only: parts set_append list.set, blast)
    qed (use cleanD [OF addr] in \<open>simp_all add: newline_def rx_space_def\<close>)
    then show ?thesis by (simp add: parts)
  qed
  show "rx_sub (directive_rx ''auth_request'') 1 (block_text uri_for t r)
       = (let u = ?u in if u \<noteq> [] \<and> u \<noteq> auth_none then Some (uri_for u) else None)"
  proof (cases "?u \<noteq> [] \<and> ?u \<noteq> auth_none")
    case True
    have "rx_sub (directive_rx ''auth_request'') 1 (join_with [newline]
        ((own_head (mark_of r) @ ?listen # tls_directives t @ [?name, ?loc])
          @ (''        '' @ ''auth_request'' @ CHR 0x20 # uri_for ?u @ '';'') # (?proxy # ?ends))) = Some (uri_for ?u)"
    proof (rule directive_found [OF refl chars(3)])
      show "\<forall>l \<in> set (own_head (mark_of r) @ ?listen # tls_directives t @ [?name, ?loc]). \<not> starts ''auth_request'' l \<and> newline \<notin> set l"
        by (rule pre_ok) (use words other_line in \<open>simp add: ball_Un\<close>, simp only: parts set_append list.set, blast)
    qed (use cleanD [OF uri [OF True]] in \<open>simp_all add: newline_def rx_space_def\<close>)
    with True show ?thesis by (simp add: parts auth_line_if Let_def)
  next
    case False
    then have "\<forall>l \<in> set (managed_lines uri_for t r). \<not> starts ''auth_request'' l"
      using words other_line by (auto simp: parts auth_line_if)
    with False nls show ?thesis
      using directive_absent [OF refl chars(3), of "''uth_request''" "managed_lines uri_for t r"]
      by (auto simp: newline_def Let_def parts)
  qed
  show "rx_sub (directive_rx ''auth_basic'') 1 (block_text uri_for t r) = None"
  proof -
    have "\<forall>l \<in> set (managed_lines uri_for t r). \<not> starts ''auth_basic'' l"
      using own_words(4) [of r uri_for t] other_line(4) by (auto simp: block)
    with nls show ?thesis
      using directive_absent [OF refl chars(3), of "''uth_basic''" "managed_lines uri_for t r"] by (auto simp: newline_def parts)
  qed
  have pre: "\<forall>l \<in> set (own_head (mark_of r) @ own_tail uri_for t r). \<not> starts ''listen'' l \<and> newline \<notin> set l"
    using own_words(1) nl(1) by blast
  show "rx_all_subs listen_rx 1 (block_text uri_for t r) = [decimal (tls_port t)]"
    unfolding block by (rule listens_found [OF pre nl(3) ssl_extra_plain(1) port_digits(1,2) [OF tls] nl(2)])
  show "\<not> rx_match listen_default_rx (block_text uri_for t r)"
    unfolding block by (rule default_absent [OF pre nl(3) ssl_extra_plain(3) port_digits(1,2) [OF tls]])
  show "proxy_location_paths (block_text uri_for t r) = [''/'']"
  proof -
    have "\<forall>l \<in> set (auth_line uri_for r). net_braces l = 0"
      using no_braces [OF uri, of "''        auth_request ''"] by (auto simp: auth_line_if net_braces_none)
    note path = root_path [OF addr this]
    have "\<forall>l \<in> set (own_head (mark_of r) @ ?listen # tls_directives t @ [?name]). \<not> starts ''location'' l"
      using words(3) other_line(5,8) by (auto simp: tls_directives_def line_words)
    from location_paths_skip [OF this] path
    have "location_paths (managed_lines uri_for t r) = [''/'']" by (simp add: parts)
    moreover have "line_list (block_text uri_for t r) = managed_lines uri_for t r"
      using nls by (intro line_list_join) (auto simp: parts)
    ultimately show ?thesis by (simp add: proxy_location_paths_def)
  qed
qed

text \<open>The markers of a block, and that it is a server block.\<close>

lemma managed_marker_char: "managed_marker = CHR ''#'' # tl managed_marker" "deny_marker = CHR ''#'' # tl deny_marker"
  by (simp_all add: managed_marker_def deny_marker_def)

lemma block_line_cases:
  assumes "tls_ok t" and "l \<in> set (managed_lines uri_for t r)"
  obtains "l = []" | "l = mark_of r" | "l = ''server {''"
    | "l = ''    listen '' @ decimal (tls_port t) @ ssl_extra t @ '';''"
    | "nt_ssl t" "l = ''    ssl_certificate '' @ nt_cert t @ '';''" | "nt_ssl t" "l = ''    ssl_certificate_key '' @ nt_key t @ '';''"
    | "l = ''    server_name '' @ r_host r @ '';''" | "l = ''    location / {''"
    | "u_auth (r_upstream r) \<noteq> [] \<and> u_auth (r_upstream r) \<noteq> auth_none" "l = ''        auth_request '' @ uri_for (u_auth (r_upstream r)) @ '';''"
    | "l = ''        proxy_pass '' @ ng_with_scheme (u_address (r_upstream r)) @ '';''" | "l = ''    }''" | "l = ''}''"
  using assms(2) unfolding managed_lines_parts [OF assms(1)] own_head_def own_tail_def tls_directives_def auth_line_if
  by (auto simp del: append_Cons split: if_splits)

lemma block_marks:
  assumes tls: "tls_ok t" and route: "route_ok uri_for r"
  shows "str_contains (block_text uri_for t r) managed_marker" "\<not> str_contains (block_text uri_for t r) deny_marker"
    "\<not> str_contains (block_text uri_for t r) ''default_server''" "is_server_text (block_text uri_for t r)"
proof -
  have host: "clean (r_host r)" and addr: "clean (ng_with_scheme (u_address (r_upstream r)))"
    and uri: "u_auth (r_upstream r) \<noteq> [] \<and> u_auth (r_upstream r) \<noteq> auth_none \<Longrightarrow> clean (uri_for (u_auth (r_upstream r)))"
    and certs: "nt_ssl t \<Longrightarrow> clean (nt_cert t) \<and> clean (nt_key t)"
    using route tls by (auto simp: route_ok_def tls_ok_def)
  have ne: "managed_lines uri_for t r \<noteq> []" by (simp add: managed_lines_def)
  have lines: "str_contains (block_text uri_for t r) m \<longleftrightarrow> (\<exists>l \<in> set (managed_lines uri_for t r). str_contains l m)"
    if "newline \<notin> set m" for m by (rule contains_join [OF that ne])
  have "has_prefix managed_marker (mark_of r)" by (simp add: mark_of_def)
  then have "str_contains (mark_of r) managed_marker"
    using str_index_here by (simp add: str_contains_def)
  moreover have "mark_of r \<in> set (managed_lines uri_for t r)" by (simp add: managed_lines_def mark_of_def)
  moreover have "newline \<notin> set managed_marker" "newline \<notin> set deny_marker" "newline \<notin> set ''default_server''"
    by (simp_all add: newline_def managed_marker_def deny_marker_def)
  note nl = this
  ultimately show "str_contains (block_text uri_for t r) managed_marker" using lines by blast
  have "\<not> rx_digit (CHR ''#'')" "\<not> rx_digit (CHR ''d'')" by (simp_all add: rx_digit_def)
  then have digits: "CHR ''#'' \<notin> set (decimal (tls_port t))" "CHR ''d'' \<notin> set (decimal (tls_port t))"
    using port_digits(2) [OF tls] by blast+
  have hash: "CHR ''#'' \<notin> set l" if l: "l \<in> set (managed_lines uri_for t r)" "l \<noteq> mark_of r" for l
    using block_line_cases [OF tls l(1)]
  proof cases
    case 2
    with l(2) show ?thesis by simp
  qed (use digits(1) cleanD(6) [OF host] cleanD(6) [OF addr] cleanD(6) [OF uri] certs cleanD(6) in
      \<open>simp_all add: ssl_extra_def\<close>)
  have "\<not> str_contains (mark_of r) deny_marker"
  proof -
    have "\<not> str_contains (tl (mark_of r)) deny_marker"
      using cleanD(6) [OF host] managed_marker_char(2) contains_first [of "CHR ''#''" "tl (mark_of r)" "tl deny_marker"]
      by (simp add: mark_of_def managed_marker_def)
    moreover have "\<not> has_prefix deny_marker (mark_of r)" by (simp add: mark_of_def managed_marker_def deny_marker_def)
    ultimately show ?thesis
      using str_contains_Cons [of "hd (mark_of r)" "tl (mark_of r)" deny_marker]
      by (simp add: mark_of_def managed_marker_def)
  qed
  then show "\<not> str_contains (block_text uri_for t r) deny_marker"
    using lines [OF nl(2)] hash contains_first managed_marker_char(2) by metis
  have words: "\<not> str_contains (a @ v @ b) ''default_server''"
    if "clean v" "a = a' @ [CHR 0x20]" "\<not> str_contains a' ''default_server''" "b \<in> {[], '';''}" for a a' v b
  proof -
    have "str_contains (a' @ CHR 0x20 # v @ b) ''default_server'' \<longleftrightarrow> str_contains (v @ b) ''default_server''"
      using that(3) by (subst contains_sep) auto
    moreover have "\<not> str_contains (v @ b) ''default_server''"
      using that(4) cleanD(7) [OF that(1)] contains_sep [of "CHR '';''" "''default_server''" v "[]"]
      by (auto simp: str_contains_Nil)
    ultimately show ?thesis by (simp add: that(2))
  qed
  have port: "\<not> str_contains (decimal (tls_port t) @ ssl_extra t @ '';'') ''default_server''"
  proof
    assume "str_contains (decimal (tls_port t) @ ssl_extra t @ '';'') ''default_server''"
    then obtain a b where ab: "decimal (tls_port t) @ ssl_extra t @ '';'' = a @ ''default_server'' @ b"
      unfolding contains_iff by blast
    have "CHR ''d'' \<in> set (a @ ''default_server'' @ b)" by simp
    then have "CHR ''d'' \<in> set (decimal (tls_port t) @ ssl_extra t @ '';'')" by (simp only: ab)
    with digits(2) show False by (auto simp: ssl_extra_def split: if_splits)
  qed
  have "\<not> str_contains l ''default_server''" if l: "l \<in> set (managed_lines uri_for t r)" for l
  proof -
    from block_line_cases [OF tls l] show ?thesis
    proof cases
      case 2
      with words [OF host, of "managed_marker @ '' ''" managed_marker "[]"] show ?thesis
        by (simp add: mark_of_def managed_marker_def str_contains_Cons str_contains_Nil)
    next
      case 4
      with port show ?thesis by (simp add: str_contains_Cons)
    next
      case 5
      with words [of "nt_cert t" "''    ssl_certificate ''" "''    ssl_certificate''" "'';''"] certs show ?thesis
        by (simp add: str_contains_Cons str_contains_Nil)
    next
      case 6
      with words [of "nt_key t" "''    ssl_certificate_key ''" "''    ssl_certificate_key''" "'';''"] certs show ?thesis
        by (simp add: str_contains_Cons str_contains_Nil)
    next
      case 7
      with words [OF host, of "''    server_name ''" "''    server_name''" "'';''"] show ?thesis
        by (simp add: str_contains_Cons str_contains_Nil)
    next
      case 9
      with words [OF uri, of "''        auth_request ''" "''        auth_request''" "'';''"] show ?thesis
        by (simp add: str_contains_Cons str_contains_Nil)
    next
      case 10
      with words [OF addr, of "''        proxy_pass ''" "''        proxy_pass''" "'';''"] show ?thesis
        by (simp add: str_contains_Cons str_contains_Nil)
    qed (simp_all add: str_contains_Cons str_contains_Nil)
  qed
  then show "\<not> str_contains (block_text uri_for t r) ''default_server''" using lines [OF nl(3)] by blast
  have m: "newline \<notin> set (mark_of r)" "CHR ''{'' \<notin> set (mark_of r)"
    using cleanD(2,4) [OF host] by (simp_all add: mark_of_def managed_marker_def newline_def)
  obtain x xs where rest: "managed_lines uri_for t r = [[], mark_of r, ''server {''] @ x # xs"
    by (simp add: managed_lines_def mark_of_def)
  have "is_server_text (''server {'' @ newline # y)" for y
    by (simp add: is_server_by_line line_list_def newline_def server_line_def trim_space_def is_space_code)
  then show "is_server_text (block_text uri_for t r)"
    using is_server_line [of "[]"] is_server_line [OF m] by (simp add: rest join_Cons del: join_with.simps(3))
qed

theorem managed_block_reads:
  assumes "tls_ok t" and "route_ok uri_for r"
  shows "classify (block_text uri_for t r) = \<lparr>ch_raw = block_text uri_for t r, ch_server = True, ch_managed = True,
     ch_deny = False, ch_host = r_host r, ch_addr = ng_strip_scheme (ng_with_scheme (u_address (r_upstream r))),
     ch_catch_all = False, ch_forwards = True, ch_auth_uri = auth_uri_of uri_for (u_auth (r_upstream r)),
     ch_auth_basic = False, ch_ports = [tls_port t], ch_path_scoped = False, ch_extra_paths = []\<rparr>"
proof -
  have host: "clean (r_host r)" "r_host r \<noteq> ''_''" "r_host r \<noteq> ''*''"
    and addr: "clean (ng_with_scheme (u_address (r_upstream r)))"
    and uri: "u_auth (r_upstream r) \<noteq> [] \<and> u_auth (r_upstream r) \<noteq> auth_none \<Longrightarrow> clean (uri_for (u_auth (r_upstream r)))"
    using assms(2) by (auto simp: route_ok_def)
  have "split_space h = [h]" if "\<forall>c \<in> set h. \<not> is_space c" for h
    using that by (induction h) auto
  then have fields: "str_fields (r_host r) = [r_host r]"
    using cleanD(1,9) [OF host(1)] by (simp add: str_fields_def)
  have auth: "(case rx_sub (directive_rx ''auth_request'') 1 (block_text uri_for t r) of None \<Rightarrow> [] | Some v \<Rightarrow> trim_space v)
      = auth_uri_of uri_for (u_auth (r_upstream r))"
    unfolding block_finds(3) [OF assms] using cleanD(8) [OF uri] by (auto simp: auth_uri_of_def Let_def)
  have paths: "real_paths u (block_text uri_for t r) = (if u = ''/'' then [] else [''/''])" for u
    by (simp add: real_paths_def block_finds(7) [OF assms])
  note found = block_finds(1,2,4-6) [OF assms] block_marks [OF assms]
  show ?thesis
    unfolding classify_def Let_def auth paths
    by (simp add: found port_digits(3) [OF assms(1)] fields cleanD(8) [OF host(1)] cleanD(8) [OF addr] host(2,3) del: One_nat_def)
qed

section \<open>The default server\<close>

abbreviation deny_text :: "ng_tls \<Rightarrow> string" where
  "deny_text t \<equiv> join_with [newline] (deny_lines t)"

definition deny_tail :: "ng_tls \<Rightarrow> string list" where
  "deny_tail t = tls_directives t @ [''    server_name _;'', ''    return 444;'', ''}'']"

lemma deny_lines_parts:
  "tls_ok t \<Longrightarrow> deny_lines t = own_head (deny_marker @ '' default-deny catch-all'')
     @ (''    listen '' @ decimal (tls_port t) @ (ssl_extra t @ '' default_server'') @ '';'') # deny_tail t"
  by (simp add: deny_lines_def own_head_def deny_tail_def listen_line_parts tls_ok_def)

theorem deny_block_reads:
  assumes tls: "tls_ok t"
  shows "ch_server (classify (deny_text t))" "ch_deny (classify (deny_text t))" "ch_catch_all (classify (deny_text t))"
    "\<not> ch_forwards (classify (deny_text t))" "ch_ports (classify (deny_text t)) = [tls_port t]"
proof -
  let ?head = "own_head (deny_marker @ '' default-deny catch-all'')"
  let ?listen = "''    listen '' @ decimal (tls_port t) @ (ssl_extra t @ '' default_server'') @ '';''"
  have block: "deny_lines t = ?head @ ?listen # deny_tail t" by (rule deny_lines_parts [OF tls])
  have certs: "nt_ssl t \<Longrightarrow> newline \<notin> set (nt_cert t) \<and> newline \<notin> set (nt_key t)"
    using tls cleanD(2) by (auto simp: tls_ok_def)
  have nl: "\<forall>l \<in> set (?head @ deny_tail t). newline \<notin> set l"
    using certs by (auto simp: own_head_def deny_tail_def tls_directives_def deny_marker_def newline_def)
  have words: "\<forall>l \<in> set (?head @ deny_tail t). \<not> starts ''listen'' l \<and> \<not> starts ''proxy_pass'' l"
    by (auto simp: own_head_def deny_tail_def tls_directives_def line_words)
  have ne: "deny_tail t \<noteq> []" by (simp add: deny_tail_def)
  have xnl: "newline \<notin> set (ssl_extra t @ '' default_server'')" by (simp add: ssl_extra_def newline_def)
  have "rx_all_subs listen_rx 1 (deny_text t) = [decimal (tls_port t)]"
    unfolding block
    by (rule listens_found [OF _ ne ssl_extra_plain(2) port_digits(1,2) [OF tls] xnl]) (use words nl in blast)
  then have ports: "List.map_filter atoi (rx_all_subs listen_rx 1 (deny_text t)) = [tls_port t]"
    by (simp add: List.map_filter_def port_digits(3) [OF tls])
  have "newline \<notin> set ?listen" by (rule plain_listen [OF port_digits(4) [OF tls] xnl])
  then have proxy: "rx_sub (directive_rx ''proxy_pass'') 1 (deny_text t) = None"
    using words nl other_line(2) unfolding block
    by (intro directive_absent [OF refl]) (auto simp: rx_space_def newline_def ball_Un own_head_def)
  have "str_contains ?listen ''default_server''"
    unfolding contains_iff by (intro exI [of _ "''    listen '' @ decimal (tls_port t) @ ssl_extra t @ '' ''"] exI [of _ "'';''"]) simp
  then have default: "str_contains (deny_text t) ''default_server''"
    by (subst contains_join) (auto simp: block newline_def)
  have "str_contains (deny_marker @ '' default-deny catch-all'') deny_marker"
    unfolding contains_iff by (intro exI [of _ "[]"] exI [of _ "'' default-deny catch-all''"]) simp
  then have deny: "str_contains (deny_text t) deny_marker"
    by (subst contains_join) (auto simp: deny_lines_def newline_def deny_marker_def)
  have m: "newline \<notin> set (deny_marker @ '' default-deny catch-all'')" "CHR ''{'' \<notin> set (deny_marker @ '' default-deny catch-all'')"
    by (simp_all add: deny_marker_def newline_def)
  obtain x xs where rest: "deny_lines t = [[], deny_marker @ '' default-deny catch-all'', ''server {''] @ x # xs"
    by (simp add: deny_lines_def)
  have "is_server_text (''server {'' @ newline # y)" for y
    by (simp add: is_server_by_line line_list_def newline_def server_line_def trim_space_def is_space_code)
  then have server: "is_server_text (deny_text t)"
    using is_server_line [of "[]"] is_server_line [OF m] by (simp add: rest join_Cons del: join_with.simps(3))
  show "ch_server (classify (deny_text t))" "ch_deny (classify (deny_text t))" "ch_catch_all (classify (deny_text t))"
    "\<not> ch_forwards (classify (deny_text t))" "ch_ports (classify (deny_text t)) = [tls_port t]"
    by (simp_all add: classify_def Let_def server deny default proxy ports del: One_nat_def)
qed

end
