(* ===== verification/Nginx_Write.thy ===== *)
theory Nginx_Write
  imports Nginx Nginx_Render
begin

text \<open>
  What a write of the nginx driver does to what is read. The text is seen through two things: the
  readings of the chunks that are not crenel's, in order, and the map of crenel's own routes. A write
  leaves the first and edits the second, and the default server it renders denies on the port of
  crenel's own blocks.
\<close>

section \<open>Readings of the kept chunks\<close>

text \<open>A reading up to the excerpt of the configuration it quotes.\<close>

definition bare_read :: "chunk_read \<Rightarrow> chunk_read" where
  "bare_read cr = cr\<lparr>cr_unparsed := map (\<lambda>u. u\<lparr>n_raw_excerpt := []\<rparr>) (cr_unparsed cr)\<rparr>"

lemma bare_read_simps [simp]:
  "cr_routes (bare_read cr) = cr_routes cr" "cr_forwarding (bare_read cr) = cr_forwarding cr"
  "cr_denying (bare_read cr) = cr_denying cr" "cr_permissive (bare_read cr) = cr_permissive cr"
  by (simp_all add: bare_read_def)

lemma neutral_trim: "neutral l \<Longrightarrow> trim_space l = [] \<or> has_prefix ''#'' (trim_space l)"
proof -
  have "trim_space ng_header = ng_header"
    by (rule trim_space_ends) (simp_all add: ng_header_def is_space_code)
  moreover have "has_prefix ''#'' ng_header" by (simp add: ng_header_def)
  ultimately show "neutral l \<Longrightarrow> trim_space l = [] \<or> has_prefix ''#'' (trim_space l)"
    by (auto simp: neutral_def)
qed

lemma neutral_lines: "neutral l \<Longrightarrow> line_list (l @ newline # s) = l # line_list s"
  by (simp add: line_list_def split_on_join [OF neutral_no_newline])

lemma blank_neutral: "neutral l \<Longrightarrow> blank_or_comment (l @ newline # s) = blank_or_comment s"
  using neutral_trim by (auto simp: blank_or_comment_def neutral_lines Let_def)

lemma locator_neutral: "neutral l \<Longrightarrow> non_server_locator (l @ newline # s) = non_server_locator s"
  using neutral_trim by (auto simp: non_server_locator_def first_config_line_def neutral_lines)

lemma ack_neutral: "neutral l \<Longrightarrow> parse_ack_marker (l @ newline # s) = parse_ack_marker s"
  by (auto simp: neutral_def ng_header_def newline_def ack_marker_prefix_def)

definition same_text :: "string \<Rightarrow> string \<Rightarrow> bool" where
  "same_text raw raw' = (blank_or_comment raw' = blank_or_comment raw
     \<and> non_server_locator raw' = non_server_locator raw \<and> parse_ack_marker raw' = parse_ack_marker raw)"

lemma same_neutral: "neutral l \<Longrightarrow> same_text s (l @ newline # s)"
  by (simp add: same_text_def blank_neutral locator_neutral ack_neutral)

lemma same_strip:
  "strip_blank ls \<noteq> [] \<Longrightarrow> same_text (join_with [newline] (strip_blank ls)) (join_with [newline] ls)"
proof (induction ls)
  case (Cons l ls)
  show ?case
  proof (cases "l = []")
    case True
    with Cons.prems have ne: "strip_blank ls \<noteq> []" "ls \<noteq> []" by auto
    have "neutral []" by (simp add: neutral_def)
    from same_neutral [OF this, of "join_with [newline] ls"] Cons.IH [OF ne(1)] True ne(2)
    show ?thesis by (simp add: join_Cons same_text_def)
  next
    case False
    then show ?thesis by (simp add: same_text_def)
  qed
qed simp

lemma same_kept:
  assumes "closed_chunk raw"
  shows "same_text raw (join_with [newline] (kept_block raw))"
    "same_text raw (join_with [newline] (ng_header # kept_block raw))"
proof -
  note ne = strip_blank_closed [OF assms]
  have n: "neutral []" "neutral ng_header" by (simp_all add: neutral_def)
  have "same_text (join_with [newline] (strip_blank (line_list raw))) raw"
    using same_strip [OF ne] by (simp add: line_list_def join_split)
  with same_neutral [OF n(1), of "join_with [newline] (strip_blank (line_list raw))"]
  show *: "same_text raw (join_with [newline] (kept_block raw))"
    by (simp add: kept_block_def join_Cons [OF ne] same_text_def)
  have "kept_block raw \<noteq> []" by (simp add: kept_block_def)
  with same_neutral [OF n(2), of "join_with [newline] (kept_block raw)"] *
  show "same_text raw (join_with [newline] (ng_header # kept_block raw))"
    by (simp add: join_Cons same_text_def)
qed

lemma read_same:
  "same_text (ch_raw c) raw \<Longrightarrow> bare_read (read_chunk d (c\<lparr>ch_raw := raw\<rparr>)) = bare_read (read_chunk d c)"
  by (simp add: read_chunk_def bare_read_def same_text_def nothing_read_def ng_ack_aware_def ports_of_def ng_auth_def
      split: option.split)

lemma classify_raw [simp]: "ch_raw (classify raw) = raw"
  by (simp add: classify_def opaque_chunk_def Let_def)

lemma read_kept:
  assumes "closed_chunk raw"
  shows "bare_read (read_chunk d (classify (join_with [newline] (kept_block raw)))) = bare_read (read_chunk d (classify raw))"
    "bare_read (read_chunk d (classify (join_with [newline] (ng_header # kept_block raw)))) = bare_read (read_chunk d (classify raw))"
  using read_same [of "classify raw"] same_kept [OF assms] by (simp_all add: classify_kept [OF assms])

lemma ours_raw [simp]: "ours (c\<lparr>ch_raw := raw\<rparr>) = ours c"
  by (simp add: ours_def)

section \<open>Crenel's own blocks close\<close>

lemma closes_inside: "0 < d + net_braces l \<Longrightarrow> closes d True (l # ls) = closes (d + net_braces l) True ls"
  by (simp add: closes_at_def)

lemma closes_flat: "\<forall>l \<in> set ks. net_braces l = 0 \<Longrightarrow> 0 < d \<Longrightarrow> closes d True (ks @ ls) = closes d True ls"
  by (induction ks) (simp_all add: closes_inside del: closes.simps(2))

lemma brace_lines: "net_braces ''server {'' = 1" "net_braces ''    location / {'' = 1" "net_braces ''    }'' = -1"
  "net_braces ''}'' = -1" "net_braces ''    return 444;'' = 0" "net_braces ''    server_name _;'' = 0"
  by code_simp+

lemma closes_server:
  assumes "inert mark" and "\<forall>l \<in> set ks. net_braces l = 0"
  shows "closes 0 False ([[], mark, ''server {''] @ ks @ ls) = closes 1 True ls"
proof -
  have "closes 0 False (''server {'' # ks @ ls) = closes 1 True (ks @ ls)"
    by (simp add: brace_lines closes_at_def)
  with assms show ?thesis by (simp add: closes_inert closes_flat del: closes.simps(2))
qed

lemma inert_mark: "clean h \<Longrightarrow> inert (managed_marker @ '' '' @ h)"
proof -
  assume h: "clean h"
  have "\<not> is_space (last h)" "last h \<noteq> CHR '';''" using cleanD(9,1) [OF h] by auto
  then have "trim_space (managed_marker @ '' '' @ h) = managed_marker @ '' '' @ h"
    using cleanD(1) [OF h] by (intro trim_space_ends) (auto simp: managed_marker_def is_space_code)
  with cleanD(1,2,4,5) [OF h] \<open>last h \<noteq> CHR '';''\<close> show ?thesis
    by (simp add: inert_def has_suffix_single net_braces_none managed_marker_def newline_def)
qed

lemma flat_lines:
  assumes "tls_ok t"
  shows "\<forall>l \<in> set (tls_directives t). net_braces l = 0"
    "listen_extra x \<Longrightarrow> net_braces (''    listen '' @ decimal (tls_port t) @ x @ '';'') = 0"
proof -
  show "\<forall>l \<in> set (tls_directives t). net_braces l = 0"
    using assms no_braces [of "nt_cert t" "''    ssl_certificate ''"] no_braces [of "nt_key t" "''    ssl_certificate_key ''"]
    by (auto simp: tls_directives_def tls_ok_def net_braces_none)
  have "\<not> rx_digit (CHR ''{'')" "\<not> rx_digit (CHR ''}'')" by (simp_all add: rx_digit_def)
  then have "net_braces (decimal (tls_port t)) = 0" using port_digits(2) [OF assms] by (intro net_braces_none) blast+
  then show "listen_extra x \<Longrightarrow> net_braces (''    listen '' @ decimal (tls_port t) @ x @ '';'') = 0"
    unfolding net_braces_append by (auto simp: listen_extra_def net_braces_none)
qed

lemma managed_closes:
  assumes "tls_ok t" and "route_ok uri_for r"
  shows "closes 0 False (managed_lines uri_for t r)"
proof -
  have host: "clean (r_host r)" and addr: "clean (ng_with_scheme (u_address (r_upstream r)))"
    and uri: "u_auth (r_upstream r) \<noteq> [] \<and> u_auth (r_upstream r) \<noteq> auth_none \<Longrightarrow> clean (uri_for (u_auth (r_upstream r)))"
    using assms(2) by (auto simp: route_ok_def)
  let ?listen = "''    listen '' @ decimal (tls_port t) @ ssl_extra t @ '';''"
  let ?name = "''    server_name '' @ r_host r @ '';''" and ?proxy = "''        proxy_pass '' @ ng_with_scheme (u_address (r_upstream r)) @ '';''"
  have parts: "managed_lines uri_for t r = [[], mark_of r, ''server {''] @ (?listen # tls_directives t @ [?name])
      @ ''    location / {'' # (auth_line uri_for r @ [?proxy]) @ [''    }'', ''}'']"
    by (simp add: managed_lines_parts [OF assms(1)] own_head_def own_tail_def)
  have name: "net_braces ?name = 0" using no_braces [OF host, of "''    server_name ''"] by (simp add: net_braces_none)
  have proxy: "net_braces ?proxy = 0" using no_braces [OF addr, of "''        proxy_pass ''"] by (simp add: net_braces_none)
  have outer: "\<forall>l \<in> set (?listen # tls_directives t @ [?name]). net_braces l = 0"
    using flat_lines(1) [OF assms(1)] flat_lines(2) [OF assms(1) ssl_extra_plain(1)] name by simp
  have inner: "\<forall>l \<in> set (auth_line uri_for r @ [?proxy]). net_braces l = 0"
    using no_braces [OF uri, of "''        auth_request ''"] proxy by (auto simp: auth_line_if net_braces_none)
  have "closes 1 True (''    location / {'' # (auth_line uri_for r @ [?proxy]) @ [''    }'', ''}''])
      = closes 2 True ((auth_line uri_for r @ [?proxy]) @ [''    }'', ''}''])"
    by (subst closes_inside) (simp_all add: brace_lines)
  also have "\<dots> = closes 2 True [''    }'', ''}'']" by (rule closes_flat [OF inner]) simp
  also have "\<dots>" by (simp add: brace_lines closes_at_def)
  finally show ?thesis
    unfolding parts closes_server [OF inert_mark [OF host, folded mark_of_def] outer] by blast
qed

lemma deny_closes:
  assumes "tls_ok t"
  shows "closes 0 False (deny_lines t)" "\<forall>l \<in> set (deny_lines t). newline \<notin> set l"
proof -
  let ?listen = "''    listen '' @ decimal (tls_port t) @ (ssl_extra t @ '' default_server'') @ '';''"
  let ?mark = "deny_marker @ '' default-deny catch-all''"
  have parts: "deny_lines t = [[], ?mark, ''server {''] @ (?listen # tls_directives t @ [''    server_name _;'', ''    return 444;'']) @ [''}'']"
    by (simp add: deny_lines_parts [OF assms] own_head_def deny_tail_def)
  have "trim_space ?mark = ?mark" by (intro trim_space_ends) (simp_all add: deny_marker_def is_space_code)
  then have "inert ?mark" by (simp add: inert_def has_suffix_single net_braces_none deny_marker_def newline_def)
  moreover have "\<forall>l \<in> set (?listen # tls_directives t @ [''    server_name _;'', ''    return 444;'']). net_braces l = 0"
    using flat_lines(1) [OF assms] flat_lines(2) [OF assms ssl_extra_plain(2)] brace_lines by simp
  moreover have "closes 1 True [''}'']" by (simp add: brace_lines closes_at_def)
  ultimately show "closes 0 False (deny_lines t)" unfolding parts by (simp only: closes_server)
  have "newline \<notin> set ?listen"
    by (rule plain_listen [OF port_digits(4) [OF assms]]) (simp add: ssl_extra_def newline_def)
  moreover have "\<forall>l \<in> set (tls_directives t). newline \<notin> set l"
    using assms cleanD(2) by (auto simp: tls_directives_def tls_ok_def newline_def)
  ultimately show "\<forall>l \<in> set (deny_lines t). newline \<notin> set l"
    unfolding parts by (simp add: ball_Un deny_marker_def newline_def)
qed

section \<open>A write\<close>

text \<open>A chunk without its text, and its reading.\<close>

definition summary :: "nginx_config \<Rightarrow> chunk \<Rightarrow> chunk \<times> chunk_read" where
  "summary d c = (c\<lparr>ch_raw := []\<rparr>, bare_read (read_chunk d c))"

lemma summary_neutral: "neutral l \<Longrightarrow> summary d (classify (l @ newline # s)) = summary d (classify s)"
  using read_same [of "classify s" "l @ newline # s" d] same_neutral [of l s]
  by (simp add: summary_def classify_neutral)

lemma summary_kept:
  "closed_chunk raw \<Longrightarrow> summary d (classify (join_with [newline] (kept_block raw))) = summary d (classify raw)"
  using read_same [of "classify raw" _ d] same_kept(1) by (simp add: summary_def classify_kept(1))

definition own_blocks :: "nginx_config \<Rightarrow> route list \<Rightarrow> string list list" where
  "own_blocks d rs = map (managed_lines (nginx_auth_uri d) (ng_tls_conf d)) rs @ [deny_lines (ng_tls_conf d)]"

definition writable_routes :: "nginx_config \<Rightarrow> route list \<Rightarrow> bool" where
  "writable_routes d rs = (tls_ok (ng_tls_conf d) \<and> (\<forall>r \<in> set rs. route_ok (nginx_auth_uri d) r))"

lemma own_blocks_close:
  assumes "writable_routes d rs"
  shows "\<forall>b \<in> set (own_blocks d rs). closes 0 False b \<and> (\<forall>l \<in> set b. newline \<notin> set l)"
proof -
  have t: "tls_ok (ng_tls_conf d)" using assms by (simp add: writable_routes_def)
  have "closes 0 False (managed_lines (nginx_auth_uri d) (ng_tls_conf d) r)
      \<and> (\<forall>l \<in> set (managed_lines (nginx_auth_uri d) (ng_tls_conf d) r). newline \<notin> set l)" if "r \<in> set rs" for r
  proof -
    have r: "route_ok (nginx_auth_uri d) r" using assms that by (simp add: writable_routes_def)
    have "newline \<notin> set (''    listen '' @ decimal (tls_port (ng_tls_conf d)) @ ssl_extra (ng_tls_conf d) @ '';'')"
      by (rule plain_listen [OF port_digits(4) [OF t] own_lines_plain(2) [OF t r]])
    moreover note own_lines_plain(1) [OF t r]
    ultimately have "\<forall>l \<in> set (managed_lines (nginx_auth_uri d) (ng_tls_conf d) r). newline \<notin> set l"
      unfolding managed_lines_parts [OF t] set_append list.set ball_Un ball_simps by (elim conjE) (intro conjI)
    with managed_closes [OF t r] show ?thesis by (rule conjI)
  qed
  with deny_closes [OF t] show ?thesis by (auto simp: own_blocks_def)
qed

lemma parse_rendered:
  assumes "\<forall>raw \<in> set un. closed_chunk raw" and "writable_routes d rs"
  defines "text \<equiv> render_config un rs (nginx_auth_uri d) (ng_tls_conf d)"
  shows "map (summary d) (parse_chunks text) = map (summary d \<circ> classify) un
       @ map (summary d \<circ> classify \<circ> join_with [newline]) (own_blocks d (sort_key r_host rs))"
    and "whole text"
proof -
  let ?own = "own_blocks d (sort_key r_host rs)"
  have "writable_routes d (sort_key r_host rs)" using assms(2) by (simp add: writable_routes_def)
  note own = own_blocks_close [OF this]
  obtain b bs where b: "map kept_block un @ ?own = b # bs"
    by (cases "map kept_block un @ ?own") (auto simp: own_blocks_def)
  have split: "split_top_level text = map (join_with [newline]) ((ng_header # b) # bs)"
    using split_rendered [OF assms(1) own b]
    by (simp add: text_def render_config_def own_blocks_def comp_def)
  have nonempty: "\<forall>c \<in> set (b # bs). c \<noteq> [] \<and> (\<forall>l \<in> set c. newline \<notin> set l) \<and> closes 0 False c"
  proof -
    have "\<forall>c \<in> set (map kept_block un @ ?own). (\<forall>l \<in> set c. newline \<notin> set l) \<and> closes 0 False c"
      using own assms(1) kept_block_closes line_list_no_newline set_dropWhileD
      by (fastforce simp: kept_block_def)
    then show ?thesis unfolding b by (metis closes.simps(1))
  qed
  have "neutral ng_header" by (simp add: neutral_def)
  from summary_neutral [OF this, of d "join_with [newline] b"] nonempty
  have "summary d (classify (join_with [newline] (ng_header # b))) = summary d (classify (join_with [newline] b))"
    by (simp add: join_Cons)
  then have "map (summary d) (parse_chunks text) = map (summary d \<circ> classify \<circ> join_with [newline]) (b # bs)"
    by (simp add: parse_chunks_def split comp_def)
  moreover have "map (summary d \<circ> classify \<circ> join_with [newline]) (map kept_block un) = map (summary d \<circ> classify) un"
    using assms(1) by (simp add: comp_def summary_kept)
  ultimately show "map (summary d) (parse_chunks text) = map (summary d \<circ> classify) un
       @ map (summary d \<circ> classify \<circ> join_with [newline]) ?own"
    by (simp flip: b)
  have "closed_chunk (join_with [newline] c)" if "c \<in> set ((ng_header # b) # bs)" for c
  proof -
    have "c \<noteq> [] \<and> (\<forall>l \<in> set c. newline \<notin> set l) \<and> closes 0 False c"
      using that nonempty inert_header closes_inert [OF inert_header, of b]
      by (auto simp: inert_def simp del: closes.simps(2))
    then show ?thesis by (simp add: closed_chunk_def line_list_join)
  qed
  then show "whole text" by (auto simp: whole_def split)
qed

text \<open>What crenel's own blocks read as.\<close>

definition canonical :: "nginx_config \<Rightarrow> route \<Rightarrow> route" where
  "canonical d r = http_route (r_host r) (ng_strip_scheme (ng_with_scheme (u_address (r_upstream r))))
     (policy_for_auth_uri d (auth_uri_of (nginx_auth_uri d) (u_auth (r_upstream r))))"

definition own_reading :: "nginx_config \<Rightarrow> route \<Rightarrow> chunk_read" where
  "own_reading d r = nothing_read\<lparr>cr_routes := [(canonical d r)\<lparr>r_managed := True, r_ownership := OwnCrenel\<rparr>],
     cr_forwarding := [tls_port (ng_tls_conf d)]\<rparr>"

definition deny_reading :: "nginx_config \<Rightarrow> chunk_read" where
  "deny_reading d = nothing_read\<lparr>cr_denying := [tls_port (ng_tls_conf d)]\<rparr>"

lemma own_block_reading:
  assumes "writable_routes d [r]"
  shows "bare_read (read_chunk d (classify (block_text (nginx_auth_uri d) (ng_tls_conf d) r))) = own_reading d r"
    and "ours (classify (block_text (nginx_auth_uri d) (ng_tls_conf d) r))"
    and "managed_route d (classify (block_text (nginx_auth_uri d) (ng_tls_conf d) r)) = canonical d r"
proof -
  have t: "tls_ok (ng_tls_conf d)" and r: "route_ok (nginx_auth_uri d) r"
    using assms by (simp_all add: writable_routes_def)
  have "r_host r \<noteq> []" using r cleanD(1) by (simp add: route_ok_def)
  then show "bare_read (read_chunk d (classify (block_text (nginx_auth_uri d) (ng_tls_conf d) r))) = own_reading d r"
    "ours (classify (block_text (nginx_auth_uri d) (ng_tls_conf d) r))"
    "managed_route d (classify (block_text (nginx_auth_uri d) (ng_tls_conf d) r)) = canonical d r"
    by (simp_all add: managed_block_reads [OF t r] read_chunk_def own_reading_def bare_read_def nothing_read_def
        ng_auth_def canonical_def policy_for_auth_uri_def ports_of_def ownership_from_marker_def ours_def managed_route_def Let_def)
qed

lemma deny_block_reading:
  assumes "tls_ok (ng_tls_conf d)"
  shows "bare_read (read_chunk d (classify (deny_text (ng_tls_conf d)))) = deny_reading d"
    and "ours (classify (deny_text (ng_tls_conf d)))"
  using deny_block_reads [OF assms]
  by (simp_all add: read_chunk_def deny_reading_def bare_read_def nothing_read_def ports_of_def ours_def)

end
