(* ===== verification/Nginx_Refine.thy ===== *)
theory Nginx_Refine
  imports Nginx_Write Txn
begin

text \<open>
  The nginx driver as a map of routes. The abstract state is the readings of the chunks that are not
  crenel's together with the map of crenel's own routes; the text of the file implements it, and every
  write of \<open>Apply\<close> is an edit of the map. From that follow what is live after a write, the contract of
  a compensating step, and the place of the default server.
\<close>

section \<open>The abstraction\<close>

definition kept_reads :: "nginx_config \<Rightarrow> string \<Rightarrow> chunk_read list" where
  "kept_reads d text = map (\<lambda>c. bare_read (read_chunk d c)) (filter (\<lambda>c. \<not> ours c) (parse_chunks text))"

definition own_routes :: "nginx_config \<Rightarrow> string \<Rightarrow> string \<Rightarrow> route option" where
  "own_routes d text = map_of (managed_map d (parse_chunks text))"

text \<open>The edit of a change on a map of routes: removals first, then additions by host.\<close>

definition edit_map :: "edge_change \<Rightarrow> (string \<Rightarrow> route option) \<Rightarrow> string \<Rightarrow> route option" where
  "edit_map ec m = fold (\<lambda>r m. m(r_host r \<mapsto> r)) (e_add ec) (m |` (- set (e_remove ec)))"

text \<open>The routes a write renders.\<close>

definition next_routes :: "nginx_config \<Rightarrow> edge_change \<Rightarrow> string \<Rightarrow> route list" where
  "next_routes d ec text = map snd (edit_managed ec (managed_map d (parse_chunks text)))"

section \<open>Maps of routes\<close>

lemma map_of_edit: "map_of (edit_managed ec m) = edit_map ec (map_of m)"
proof -
  have del: "map_of (fold AList.delete ks m) = map_of m |` (- set ks)" for ks and m :: "(string \<times> route) list"
    by (induction ks arbitrary: m) (auto simp: delete_conv restrict_map_def fun_eq_iff)
  have "map_of (fold (\<lambda>r. AList.update (r_host r) r) rs al) = fold (\<lambda>r m. m(r_host r \<mapsto> r)) rs (map_of al)" for rs :: "route list" and al
    by (induction rs arbitrary: al) (simp_all add: update_conv')
  then show ?thesis by (simp add: edit_managed_def edit_map_def del)
qed

definition keyed :: "(string \<times> route) list \<Rightarrow> bool" where
  "keyed m = (distinct (map fst m) \<and> (\<forall>(h, r) \<in> set m. r_host r = h))"

lemma keyed_update: "keyed m \<Longrightarrow> keyed (AList.update (r_host r) r m)"
proof -
  assume m: "keyed m"
  have "set (AList.update (r_host r) r m) \<subseteq> insert (r_host r, r) (set m)" for m
    by (induction m) auto
  with m show ?thesis by (fastforce simp: keyed_def distinct_update)
qed

lemma keyed_delete: "keyed m \<Longrightarrow> keyed (AList.delete k m)"
  by (auto simp: keyed_def distinct_delete) (auto simp: AList.delete_eq)

lemma keyed_edit: "keyed m \<Longrightarrow> keyed (edit_managed ec m)"
proof -
  have del: "keyed m \<Longrightarrow> keyed (fold AList.delete ks m)" for ks :: "string list" and m
    by (induction ks arbitrary: m) (simp_all add: keyed_delete)
  have "keyed m \<Longrightarrow> keyed (fold (\<lambda>r. AList.update (r_host r) r) rs m)" for rs m
    by (induction rs arbitrary: m) (simp_all add: keyed_update)
  with del show "keyed m \<Longrightarrow> keyed (edit_managed ec m)" by (simp add: edit_managed_def)
qed

lemma keyed_managed: "keyed (managed_map d cs)"
proof -
  have host: "r_host (managed_route d c) = ch_host c" for c by (simp add: managed_route_def http_route_def mk_route_def)
  have "keyed m \<Longrightarrow> keyed (fold (\<lambda>c m. if ch_server c \<and> \<not> ch_deny c \<and> ch_managed c \<and> ch_host c \<noteq> []
     then AList.update (ch_host c) (managed_route d c) m else m) cs m)" for m
    by (induction cs arbitrary: m) (auto simp: keyed_update [of _ "managed_route d _", unfolded host])
  moreover have "keyed []" by (simp add: keyed_def)
  ultimately show ?thesis by (simp add: managed_map_def)
qed

lemma keyed_lookup:
  assumes "keyed m"
  shows "map_of (map (\<lambda>r. (r_host r, f r)) (map snd m)) h = map_option f (map_of m h)"
proof -
  have "map (\<lambda>r. (r_host r, f r)) (map snd m) = map (\<lambda>(k, r). (k, f r)) m"
    using assms by (auto simp: keyed_def)
  then show ?thesis by (simp only: map_of_map comp_apply)
qed

lemma keyed_hosts: "keyed m \<Longrightarrow> distinct (map r_host (map snd m))"
proof -
  assume m: "keyed m"
  have "map r_host (map snd m) = map fst m" using m by (auto simp: keyed_def)
  moreover have "distinct (map fst m)" using m by (simp add: keyed_def)
  ultimately show ?thesis by (simp only:)
qed

lemma map_of_updates:
  "map_of (fold (\<lambda>r. AList.update (k r) (g r)) rs al) = map_of al ++ map_of (map (\<lambda>r. (k r, g r)) (rev rs))"
  by (induction rs arbitrary: al) (auto simp: update_conv' map_add_def fun_eq_iff split: option.splits)

section \<open>A write refines an edit of the map\<close>

lemma own_host: "r_host (managed_route d c) = ch_host c" "r_host (canonical d r) = r_host r"
  by (simp_all add: managed_route_def canonical_def http_route_def mk_route_def)

text \<open>Both parts of the abstraction are functions of the chunks without their text.\<close>

lemma kept_of_summaries:
  "map snd (filter (\<lambda>p. \<not> ours (fst p)) (map (summary d) cs))
     = map (\<lambda>c. bare_read (read_chunk d c)) (filter (\<lambda>c. \<not> ours c) cs)"
  by (simp add: filter_map comp_def summary_def)

lemma kept_by_summary:
  "kept_reads d text = map snd (filter (\<lambda>p. \<not> ours (fst p)) (map (summary d) (parse_chunks text)))"
  by (simp only: kept_of_summaries kept_reads_def)

lemma managed_by_summary:
  "managed_map d cs = managed_map d (map fst (map (summary d) cs))"
proof -
  have "managed_route d (c\<lparr>ch_raw := []\<rparr>) = managed_route d c" for c by (simp add: managed_route_def)
  then show ?thesis by (simp add: managed_map_def fold_map comp_def summary_def cong: if_cong)
qed

lemma managed_map_append: "managed_map d (cs @ cs') = fold (\<lambda>c m.
     if ch_server c \<and> \<not> ch_deny c \<and> ch_managed c \<and> ch_host c \<noteq> []
     then AList.update (ch_host c) (managed_route d c) m else m) cs' (managed_map d cs)"
  by (simp add: managed_map_def)

lemma managed_map_foreign: "\<forall>c \<in> set cs. \<not> ours c \<Longrightarrow> managed_map d cs = []"
  by (induction cs) (auto simp: managed_map_def ours_def)

text \<open>The chunks a write keeps.\<close>

lemma kept_chunks:
  "map classify (unmanaged_texts (parse_chunks text)) = filter (\<lambda>c. \<not> ours c) (parse_chunks text)"
  "whole text \<Longrightarrow> \<forall>raw \<in> set (unmanaged_texts (parse_chunks text)). closed_chunk raw"
  by (auto simp: unmanaged_texts_def parse_chunks_def filter_map comp_def whole_def)

lemma own_block_facts:
  assumes "writable_routes d [r]"
  shows "ch_server (classify (block_text (nginx_auth_uri d) (ng_tls_conf d) r))"
    "ch_managed (classify (block_text (nginx_auth_uri d) (ng_tls_conf d) r))"
    "\<not> ch_deny (classify (block_text (nginx_auth_uri d) (ng_tls_conf d) r))"
    "ch_host (classify (block_text (nginx_auth_uri d) (ng_tls_conf d) r)) = r_host r" "r_host r \<noteq> []"
proof -
  have t: "tls_ok (ng_tls_conf d)" and r: "route_ok (nginx_auth_uri d) r"
    using assms by (simp_all add: writable_routes_def)
  show "r_host r \<noteq> []" using r cleanD(1) by (simp add: route_ok_def)
qed (use assms managed_block_reads in \<open>simp_all add: writable_routes_def\<close>)

lemma writable_one: "writable_routes d rs \<Longrightarrow> r \<in> set rs \<Longrightarrow> writable_routes d [r]"
  by (simp add: writable_routes_def)

lemma own_blocks_map:
  assumes "writable_routes d rs"
  shows "managed_map d (map classify (un @ map (join_with [newline]) (own_blocks d rs)))
       = fold (\<lambda>r. AList.update (r_host r) (canonical d r)) rs (managed_map d (map classify un))"
proof -
  have deny: "ch_deny (classify (deny_text (ng_tls_conf d)))"
    using deny_block_reads assms by (simp add: writable_routes_def)
  have "fold (\<lambda>c m. if ch_server c \<and> \<not> ch_deny c \<and> ch_managed c \<and> ch_host c \<noteq> []
     then AList.update (ch_host c) (managed_route d c) m else m)
     (map (\<lambda>r. classify (block_text (nginx_auth_uri d) (ng_tls_conf d) r)) rs) m
     = fold (\<lambda>r. AList.update (r_host r) (canonical d r)) rs m" for m
    using assms
  proof (induction rs arbitrary: m)
    case (Cons r rs)
    have r: "writable_routes d [r]" and rs: "writable_routes d rs" using Cons.prems by (simp_all add: writable_routes_def)
    show ?case
      by (simp add: own_block_facts [OF r] own_block_reading(3) [OF r] Cons.IH [OF rs])
  qed simp
  then show ?thesis by (simp add: own_blocks_def managed_map_append deny comp_def)
qed

lemma own_blocks_ours:
  assumes "writable_routes d rs"
  shows "\<forall>b \<in> set (own_blocks d rs). ours (classify (join_with [newline] b))"
  using own_block_reading(2) [OF writable_one [OF assms]] deny_block_reading(2) assms
  by (auto simp: own_blocks_def writable_routes_def)

lemma write_refines_edit:
  assumes "whole text" and "writable_routes d (next_routes d ec text)"
  shows "kept_reads d (new_text d ec text) = kept_reads d text
     \<and> own_routes d (new_text d ec text) = map_option (canonical d) \<circ> edit_map ec (own_routes d text)
     \<and> whole (new_text d ec text)"
proof -
  let ?un = "unmanaged_texts (parse_chunks text)" and ?rs = "sort_key r_host (next_routes d ec text)"
  have rs: "writable_routes d ?rs" using assms(2) by (simp add: writable_routes_def)
  have new: "new_text d ec text = render_config ?un (next_routes d ec text) (nginx_auth_uri d) (ng_tls_conf d)"
    by (simp add: new_text_def next_routes_def Let_def)
  let ?own = "map (join_with [newline]) (own_blocks d ?rs)"
  have chunks: "map (summary d) (parse_chunks (new_text d ec text)) = map (summary d) (map classify (?un @ ?own))"
    using parse_rendered(1) [OF kept_chunks(2) [OF assms(1)] assms(2)] by (simp add: new comp_def)
  have "filter (\<lambda>c. \<not> ours c) (map classify (?un @ ?own)) = filter (\<lambda>c. \<not> ours c) (parse_chunks text)"
    using own_blocks_ours [OF rs] by (simp add: kept_chunks filter_empty_conv)
  then have kept: "kept_reads d (new_text d ec text) = kept_reads d text"
    unfolding kept_by_summary chunks kept_of_summaries by (simp only: kept_of_summaries)
  have "managed_map d (map classify ?un) = []"
    by (rule managed_map_foreign) (simp add: kept_chunks)
  moreover have "managed_map d (parse_chunks (new_text d ec text)) = managed_map d (map classify (?un @ ?own))"
    by (subst (1 2) managed_by_summary) (simp only: chunks)
  ultimately have "managed_map d (parse_chunks (new_text d ec text)) = fold (\<lambda>r. AList.update (r_host r) (canonical d r)) ?rs []"
    using own_blocks_map [OF rs, of ?un] by simp
  then have "own_routes d (new_text d ec text) = map_of (map (\<lambda>r. (r_host r, canonical d r)) (rev ?rs))"
    by (simp add: own_routes_def map_of_updates)
  moreover have "\<dots> = map_of (map (\<lambda>r. (r_host r, canonical d r)) (next_routes d ec text))"
  proof (rule map_of_inject_set [THEN iffD2])
    have "distinct (map r_host (next_routes d ec text))"
      unfolding next_routes_def by (intro keyed_hosts keyed_edit keyed_managed)
    then show "distinct (map fst (map (\<lambda>r. (r_host r, canonical d r)) (next_routes d ec text)))"
      "distinct (map fst (map (\<lambda>r. (r_host r, canonical d r)) (rev ?rs)))"
      by (simp_all add: comp_def distinct_map rev_map flip: rev_map)
  qed simp
  moreover have "\<dots> = map_option (canonical d) \<circ> edit_map ec (own_routes d text)"
    unfolding next_routes_def own_routes_def
    by (simp add: fun_eq_iff keyed_lookup [OF keyed_edit [OF keyed_managed]] map_of_edit del: map_map)
  moreover have "whole (new_text d ec text)"
    unfolding new by (rule parse_rendered(2) [OF kept_chunks(2) [OF assms(1)] assms(2)])
  ultimately show ?thesis using kept by simp
qed

lemma write_reads:
  assumes "whole text" and "writable_routes d (next_routes d ec text)"
  shows "map (\<lambda>c. bare_read (read_chunk d c)) (parse_chunks (new_text d ec text))
     = kept_reads d text @ map (own_reading d) (sort_key r_host (next_routes d ec text)) @ [deny_reading d]"
proof -
  let ?un = "unmanaged_texts (parse_chunks text)" and ?rs = "sort_key r_host (next_routes d ec text)"
  have rs: "writable_routes d ?rs" using assms(2) by (simp add: writable_routes_def)
  have new: "new_text d ec text = render_config ?un (next_routes d ec text) (nginx_auth_uri d) (ng_tls_conf d)"
    by (simp add: new_text_def next_routes_def Let_def)
  have "map (\<lambda>c. bare_read (read_chunk d c)) cs = map snd (map (summary d) cs)" for cs by (simp add: summary_def)
  moreover have "map snd (map (summary d \<circ> classify) ?un) = kept_reads d text"
    unfolding kept_reads_def by (simp add: summary_def flip: kept_chunks(1))
  moreover have "map snd (map (summary d \<circ> classify \<circ> join_with [newline]) (own_blocks d ?rs))
      = map (own_reading d) ?rs @ [deny_reading d]"
    using own_block_reading(1) [OF writable_one [OF rs]] deny_block_reading(1) rs
    by (simp add: own_blocks_def summary_def writable_routes_def)
  ultimately show ?thesis
    using parse_rendered(1) [OF kept_chunks(2) [OF assms(1)] assms(2)] by (simp only: new map_append)
qed

section \<open>What is live after a write\<close>

lemma normalize_bare:
  "l_routes (ng_normalize d text) = (let routes = concat (map (\<lambda>c. cr_routes (bare_read (read_chunk d c))) (parse_chunks text))
     in if ng_generator text \<noteq> [] then map (\<lambda>r. r\<lparr>r_ownership := OwnForeign, r_managed := False\<rparr>) routes else routes)"
  "l_deny_present (ng_normalize d text) = deny_everywhere (map (\<lambda>c. bare_read (read_chunk d c)) (parse_chunks text))"
  by (simp_all add: ng_normalize_def Let_def comp_def deny_everywhere_def list_all_iff list_ex_iff)

definition file_text :: "nginx_file \<Rightarrow> string" where
  "file_text f = (case nf_text f of None \<Rightarrow> [] | Some t \<Rightarrow> t)"

lemma ng_read_Inr: "ng_read f = Inr t \<Longrightarrow> t = file_text f"
  by (auto simp: ng_read_def file_text_def split: option.splits if_splits)

lemma go_live_same: "go_live d g = (e, g') \<Longrightarrow> g' = g"
  by (auto simp: go_live_def split: option.splits)

lemma ng_apply_done:
  "ng_apply d cs f = (None, f') \<longleftrightarrow> ng_read f = Inr (file_text f) \<and> next_fate (nf_fates f) = WriteThrough
     \<and> f' = f\<lparr>nf_fates := tl (nf_fates f), nf_text := Some (new_text d (cs_edge cs) (file_text f))\<rparr>
     \<and> go_live d f' = (None, f')"
  using ng_read_Inr [of f] go_live_same
  by (cases "ng_read f")
    (auto simp: ng_apply_def then_act_def ng_write_def Let_def split: write_fate.splits)

lemma go_live_failed: "go_live d g = (Some err, g') \<Longrightarrow> g' = g \<and> fst (go_live d g') = Some err"
  using go_live_same [of d g "Some err" g'] by simp

text \<open>A failing apply of a readable file: the write was refused, or cut, or a command did not accept the text.\<close>

lemma ng_apply_failed:
  assumes "ng_apply d cs f = (Some err, f')" and "nf_readable f"
  shows "nf_fates f' = tl (nf_fates f) \<and> nf_readable f' \<and> (case next_fate (nf_fates f) of
      WriteRefused \<Rightarrow> nf_text f' = nf_text f
    | WriteCut n \<Rightarrow> nf_text f' = Some (take n (new_text d (cs_edge cs) (file_text f)))
    | WriteThrough \<Rightarrow> nf_text f' = Some (new_text d (cs_edge cs) (file_text f)) \<and> fst (go_live d f') \<noteq> None)"
proof -
  have "ng_read f = Inr (file_text f)" using assms(2) by (auto simp: ng_read_def file_text_def split: option.split)
  with assms show ?thesis
    by (auto simp: ng_apply_def then_act_def ng_write_def Let_def split: write_fate.splits dest!: go_live_failed)
qed

lemma ng_apply_fates: "ng_apply d cs f = (r, f') \<Longrightarrow> nf_fates f' = nf_fates f \<or> nf_fates f' = tl (nf_fates f)"
  by (auto simp: ng_apply_def then_act_def ng_write_def Let_def split: sum.splits write_fate.splits dest!: go_live_same)

text \<open>After a successful write of the nginx driver, the routes that are live are those of the
  chunks crenel does not own, as they were read before, followed by crenel's own routes as edited,
  by host.\<close>

lemma ng_apply_live_routes:
  assumes "ng_apply d cs f = (None, f')" and "nf_readable f" and "whole (file_text f)"
    and "writable_routes d (next_routes d (cs_edge cs) (file_text f))"
    and "ng_read_live d f' = Inr live" and "l_generator live = []"
  shows "l_routes live = concat (map cr_routes (kept_reads d (file_text f)))
     @ map (\<lambda>r. (canonical d r)\<lparr>r_managed := True, r_ownership := OwnCrenel\<rparr>)
         (sort_key r_host (next_routes d (cs_edge cs) (file_text f)))"
proof -
  let ?new = "new_text d (cs_edge cs) (file_text f)"
  have live: "live = ng_normalize d ?new"
    using assms(1,2,5) by (auto simp: ng_apply_done ng_read_live_def ng_read_def rbind_Inr)
  have "concat (map cr_routes (map (own_reading d) rs))
      = map (\<lambda>r. (canonical d r)\<lparr>r_managed := True, r_ownership := OwnCrenel\<rparr>) rs" for rs
    by (induction rs) (simp_all add: own_reading_def nothing_read_def)
  moreover have "ng_generator ?new = []" using assms(6) by (simp add: live ng_normalize_def Let_def)
  moreover have "map (\<lambda>c. cr_routes (bare_read (read_chunk d c))) cs = map cr_routes (map (\<lambda>c. bare_read (read_chunk d c)) cs)" for cs
    by simp
  ultimately show ?thesis
    unfolding live normalize_bare(1) Let_def
    by (simp only: write_reads [OF assms(3,4)] map_append concat_append) (simp add: deny_reading_def nothing_read_def)
qed

text \<open>After a successful write the default deny is in force exactly when no kept catch-all forwards
  and every port a kept block forwards on has a kept catch-all that denies, or is the port of crenel's
  own default server.\<close>

lemma ng_apply_deny_iff:
  assumes "ng_apply d cs f = (None, f')" and "nf_readable f" and "whole (file_text f)"
    and "writable_routes d (next_routes d (cs_edge cs) (file_text f))" and "ng_read_live d f' = Inr live"
  shows "l_deny_present live \<longleftrightarrow> (\<forall>cr \<in> set (kept_reads d (file_text f)). \<not> cr_permissive cr \<and>
     (\<forall>p \<in> set (cr_forwarding cr). p = tls_port (ng_tls_conf d)
        \<or> (\<exists>cr' \<in> set (kept_reads d (file_text f)). p \<in> set (cr_denying cr'))))"
proof -
  have live: "live = ng_normalize d (new_text d (cs_edge cs) (file_text f))"
    using assms(1,2,5) by (auto simp: ng_apply_done ng_read_live_def ng_read_def rbind_Inr)
  show ?thesis
    unfolding live normalize_bare(2) write_reads [OF assms(3,4)] deny_everywhere_def
    by (auto simp: list_ex_iff list_all_iff own_reading_def deny_reading_def nothing_read_def)
qed

section \<open>The contract of a compensating step\<close>

text \<open>What the transaction sees of the file: the abstraction of its text and whether it answers.\<close>

definition ng_view where
  "ng_view d f = (kept_reads d (file_text f), own_routes d (file_text f), whole (file_text f),
     nf_readable f)"

definition ng_act :: "nginx_config \<Rightarrow> op \<Rightarrow> edge_job \<Rightarrow> nginx_file act" where
  "ng_act d op c = ng_apply d ((mk_change_set op)\<lparr>cs_edge := fst c\<rparr>)"

text \<open>The operator's commands accept every text whose blocks close.\<close>

definition commands_accept :: "nginx_config \<Rightarrow> bool" where
  "commands_accept d = (\<forall>f. whole (file_text f) \<longrightarrow> go_live d f = (None, f))"

text \<open>A route that reads back as it is.\<close>

definition settled :: "nginx_config \<Rightarrow> route \<Rightarrow> bool" where
  "settled d r = (route_ok (nginx_auth_uri d) r \<and> canonical d r = r)"

definition ng_ready :: "nginx_config \<Rightarrow> edge_job \<Rightarrow> nginx_file \<Rightarrow> bool" where
  "ng_ready d c f = (nf_readable f \<and> whole (file_text f) \<and> tls_ok (ng_tls_conf d)
     \<and> (\<forall>r \<in> ran (own_routes d (file_text f)). settled d r)
     \<and> (case (e_add (fst c), e_remove (fst c)) of
          ([r], []) \<Rightarrow> own_routes d (file_text f) (r_host r) = None \<and> route_ok (nginx_auth_uri d) r
        | ([], [h]) \<Rightarrow> (case find (\<lambda>sr. r_host sr = h) (l_routes (snd c)) of
              Some sr \<Rightarrow> route_ok (nginx_auth_uri d) sr \<and> own_routes d (file_text f) h = Some (canonical d sr)
            | None \<Rightarrow> False)
        | _ \<Rightarrow> False))"

lemma ng_ready_cases:
  assumes "ng_ready d c f"
  obtains (add) r where "e_add (fst c) = [r]" "e_remove (fst c) = []"
      "own_routes d (file_text f) (r_host r) = None" "route_ok (nginx_auth_uri d) r"
      "e_add (fst (job_inverse c)) = []" "e_remove (fst (job_inverse c)) = [r_host r]"
    | (remove) h sr where "e_add (fst c) = []" "e_remove (fst c) = [h]" "r_host sr = h"
      "own_routes d (file_text f) h = Some (canonical d sr)" "route_ok (nginx_auth_uri d) sr"
      "e_add (fst (job_inverse c)) = [sr]" "e_remove (fst (job_inverse c)) = []"
  using assms
  by (auto simp: ng_ready_def job_inverse_def invert_edge_def split: list.splits option.splits dest: find_Some_set)

lemma ran_next: "set (next_routes d ec text) = ran (edit_map ec (own_routes d text))"
proof -
  let ?m = "edit_managed ec (managed_map d (parse_chunks text))"
  have "distinct (map fst ?m)" using keyed_edit [OF keyed_managed] by (simp add: keyed_def)
  from ran_distinct [OF this] show ?thesis by (simp add: next_routes_def own_routes_def flip: map_of_edit)
qed

lemma ng_act_performed:
  assumes "ng_act d op c f = (None, f')" and "nf_readable f" and "whole (file_text f)" and "tls_ok (ng_tls_conf d)"
    and "\<forall>r \<in> ran (edit_map (fst c) (own_routes d (file_text f))). route_ok (nginx_auth_uri d) r"
  shows "ng_view d f' = (kept_reads d (file_text f),
     map_option (canonical d) \<circ> edit_map (fst c) (own_routes d (file_text f)), True, True)"
proof -
  have w: "writable_routes d (next_routes d (fst c) (file_text f))"
    using assms(4,5) by (simp add: writable_routes_def ran_next)
  from assms(1,2) write_refines_edit [OF assms(3) w] show "ng_view d f' = (kept_reads d (file_text f),
     map_option (canonical d) \<circ> edit_map (fst c) (own_routes d (file_text f)), True, True)"
    by (auto simp: ng_act_def ng_apply_done ng_view_def file_text_def)
qed

lemma ng_act_works:
  assumes "commands_accept d" and "nf_readable f" and "all_through (nf_fates f)" and "whole (file_text f)" and "tls_ok (ng_tls_conf d)"
    and "\<forall>r \<in> ran (edit_map (fst c) (own_routes d (file_text f))). route_ok (nginx_auth_uri d) r"
  shows "\<exists>f'. ng_act d op c f = (None, f')"
proof -
  have w: "writable_routes d (next_routes d (fst c) (file_text f))"
    using assms(5,6) by (simp add: writable_routes_def ran_next)
  have "ng_read f = Inr (file_text f)" using assms(2) by (auto simp: ng_read_def file_text_def split: option.split)
  with assms(1,3) write_refines_edit [OF assms(4) w] show ?thesis
    by (simp add: ng_act_def ng_apply_done commands_accept_def file_text_def next_fate_through)
qed

lemma ready_routes:
  assumes "ng_ready d c f"
  shows "\<forall>r \<in> ran (edit_map (fst c) (own_routes d (file_text f))). route_ok (nginx_auth_uri d) r"
proof -
  have own: "\<forall>r \<in> ran (own_routes d (file_text f)). route_ok (nginx_auth_uri d) r"
    using assms by (simp add: ng_ready_def settled_def)
  from assms show ?thesis
    by (cases rule: ng_ready_cases) (use own in \<open>auto simp: edit_map_def ran_def restrict_map_def\<close>)
qed

text \<open>The inverse edit of a text that looks like the one a step left: the routes can be written, and the map
  of them is the one the step found.\<close>

lemma ng_inverse_edit:
  assumes "ng_ready d c f" and performed: "ng_act d op c f = (None, f')" and view: "ng_view d v = ng_view d f'"
  shows "nf_readable v" and "whole (file_text v)" and "kept_reads d (file_text v) = kept_reads d (file_text f)"
    and "map_option (canonical d) \<circ> edit_map (fst (job_inverse c)) (own_routes d (file_text v)) = own_routes d (file_text f)"
    and "\<forall>r \<in> ran (edit_map (fst (job_inverse c)) (own_routes d (file_text v))). route_ok (nginx_auth_uri d) r"
proof -
  let ?m = "own_routes d (file_text f)"
  have f: "nf_readable f" "whole (file_text f)" "tls_ok (ng_tls_conf d)" and settled: "\<forall>r \<in> ran ?m. settled d r"
    using assms(1) by (auto simp: ng_ready_def)
  note acted = ng_act_performed [OF performed f ready_routes [OF assms(1)]]
  show v: "nf_readable v" "whole (file_text v)" "kept_reads d (file_text v) = kept_reads d (file_text f)"
    using view acted by (auto simp: ng_view_def)
  have own: "own_routes d (file_text v) = map_option (canonical d) \<circ> edit_map (fst c) ?m"
    using view acted by (auto simp: ng_view_def)
  have fixed: "map_option (canonical d) (?m h) = ?m h" for h
    using settled by (cases "?m h") (auto simp: settled_def ran_def)
  have ok: "route_ok (nginx_auth_uri d) r" if "?m h = Some r" for h r
    using settled that by (auto simp: settled_def ran_def)
  have "map_option (canonical d) \<circ> edit_map (fst (job_inverse c)) (own_routes d (file_text v)) = ?m
      \<and> (\<forall>r \<in> ran (edit_map (fst (job_inverse c)) (own_routes d (file_text v))). route_ok (nginx_auth_uri d) r)"
    using assms(1)
  proof (cases rule: ng_ready_cases)
    case (add r)
    then have "edit_map (fst (job_inverse c)) (own_routes d (file_text v)) = ?m"
      using fixed by (auto simp: own edit_map_def restrict_map_def fun_eq_iff)
    then show ?thesis using fixed ok by (auto simp: fun_eq_iff ran_def)
  next
    case (remove h sr)
    then have "edit_map (fst (job_inverse c)) (own_routes d (file_text v)) = ?m(h \<mapsto> sr)"
      using fixed by (auto simp: own edit_map_def restrict_map_def fun_eq_iff)
    then show ?thesis using fixed ok remove(4,5) by (auto simp: fun_eq_iff ran_def)
  qed
  then show "map_option (canonical d) \<circ> edit_map (fst (job_inverse c)) (own_routes d (file_text v)) = ?m"
    and "\<forall>r \<in> ran (edit_map (fst (job_inverse c)) (own_routes d (file_text v))). route_ok (nginx_auth_uri d) r" by simp_all
qed

lemma ng_inverse_restores:
  assumes "ng_ready d c f" and "ng_act d op c f = (None, f')" and "ng_view d v = ng_view d f'"
    and "ng_act d op (job_inverse c) v = (None, v')"
  shows "ng_view d v' = ng_view d f"
proof -
  note inv = ng_inverse_edit [OF assms(1-3)]
  have "tls_ok (ng_tls_conf d)" "nf_readable f" "whole (file_text f)" using assms(1) by (auto simp: ng_ready_def)
  with ng_act_performed [OF assms(4) inv(1,2) _ inv(5)] inv(3,4) show ?thesis by (simp add: ng_view_def)
qed

lemma ng_inverse_works:
  assumes "ng_ready d c f" and "ng_act d op c f = (None, f')" and "ng_view d v = ng_view d f'"
    and "commands_accept d" and "all_through (nf_fates v)"
  shows "\<exists>v'. ng_act d op (job_inverse c) v = (None, v')"
proof -
  note inv = ng_inverse_edit [OF assms(1-3)]
  have "tls_ok (ng_tls_conf d)" using assms(1) by (simp add: ng_ready_def)
  from ng_act_works [OF assms(4) inv(1) assms(5) inv(2) this inv(5)] show ?thesis .
qed

text \<open>The contract, for commands that accept and writes that are not cut.\<close>

definition ng_sure :: "nginx_config \<Rightarrow> edge_job \<Rightarrow> nginx_file \<Rightarrow> bool" where
  "ng_sure d c f = (ng_ready d c f \<and> commands_accept d \<and> uncut (nf_fates f))"

lemma ng_sure_fails_clean:
  assumes "ng_sure d c f" and failed: "ng_act d op c f = (Some err, f')"
  shows "ng_view d f' = ng_view d f"
proof -
  have f: "ng_ready d c f" "commands_accept d" "uncut (nf_fates f)" "nf_readable f" "whole (file_text f)" "tls_ok (ng_tls_conf d)"
    using assms(1) by (auto simp: ng_sure_def ng_ready_def)
  note cases = ng_apply_failed [OF failed [unfolded ng_act_def] f(4)]
  show ?thesis
  proof (cases "next_fate (nf_fates f)")
    case WriteThrough
    have "writable_routes d (next_routes d (fst c) (file_text f))"
      using f(6) ready_routes [OF f(1)] by (simp add: writable_routes_def ran_next)
    from write_refines_edit [OF f(5) this] WriteThrough cases have "whole (file_text f')"
      by (simp add: file_text_def)
    with f(2) WriteThrough cases show ?thesis by (auto simp: commands_accept_def)
  next
    case WriteRefused
    with cases f(4) show ?thesis by (simp add: ng_view_def file_text_def)
  next
    case (WriteCut n)
    with next_fate_uncut [OF f(3)] show ?thesis by blast
  qed
qed

interpretation ng: revocable "ng_act d op" job_inverse "ng_view d" "ng_sure d" "\<lambda>f. all_through (nf_fates f)" for d op
proof unfold_locales
  show "all_through (nf_fates s')" if "all_through (nf_fates s)" "ng_act d op c s = (r, s')" for c s r s'
    using ng_apply_fates [OF that(2) [unfolded ng_act_def]] that(1) by (auto intro: fates_tl)
  show "ng_view d v' = ng_view d s" if "ng_sure d c s" "ng_act d op c s = (None, s')" "ng_view d v = ng_view d s'"
      "ng_act d op (job_inverse c) v = (None, v')" for c s s' v v'
    using that(1) by (intro ng_inverse_restores [OF _ that(2-4)]) (simp add: ng_sure_def)
  show "\<exists>v'. ng_act d op (job_inverse c) v = (None, v')" if "ng_sure d c s" "ng_act d op c s = (None, s')"
      "ng_view d v = ng_view d s'" "all_through (nf_fates v)" for c s s' v
    using that(1) by (intro ng_inverse_works [OF _ that(2,3) _ that(4)]) (simp_all add: ng_sure_def)
qed (rule ng_sure_fails_clean)

end
