(* ===== verification/Nginx_Live.thy ===== *)
theory Nginx_Live
  imports Nginx_Refine
begin

text \<open>
  Properties of the nginx driver over its refinement: a write as an edit of the map of crenel's
  routes, what is live after it, the place of the default server, undoing a step, a rejected
  configuration, and when the poll of the running daemon confirms a write. The last section
  evaluates readings of configurations where the driver sees less than nginx does.
\<close>

section \<open>The poll of the running daemon\<close>

definition answers :: "bool \<Rightarrow> http_outcome \<Rightarrow> bool" where
  "answers want out = (\<exists>code. probe_host out = Inr (want, code))"

lemma converge_iff:
  "converge probe want interval deadline waited = None \<longleftrightarrow>
     (\<exists>k. (k = 0 \<or> waited + (k - 1) * poll_step interval < deadline)
        \<and> answers want (probe (waited + k * poll_step interval)))" (is "_ \<longleftrightarrow> ?polls waited")
proof (induction probe want interval deadline waited rule: converge.induct)
  case (1 probe want interval deadline waited)
  let ?polls = "\<lambda>waited. \<exists>k. (k = 0 \<or> waited + (k - 1) * poll_step interval < deadline)
        \<and> answers want (probe (waited + k * poll_step interval))"
  have step: "?polls waited \<longleftrightarrow> answers want (probe waited) \<or> waited < deadline \<and> ?polls (waited + poll_step interval)"
    (is "_ \<longleftrightarrow> ?unfolded")
  proof
    assume "?polls waited"
    then obtain k where k: "k = 0 \<or> waited + (k - 1) * poll_step interval < deadline"
      "answers want (probe (waited + k * poll_step interval))" by blast
    show ?unfolded
    proof (cases k)
      case (Suc j)
      with k have "waited < deadline" "j = 0 \<or> waited + poll_step interval + (j - 1) * poll_step interval < deadline"
        "answers want (probe (waited + poll_step interval + j * poll_step interval))"
        by (cases j; auto simp: algebra_simps)+
      then show ?thesis by blast
    qed (use k in simp)
  next
    assume ?unfolded
    then show "?polls waited"
    proof
      assume "answers want (probe waited)"
      then show ?thesis by (intro exI [of _ 0]) simp
    next
      assume a: "waited < deadline \<and> ?polls (waited + poll_step interval)"
      then obtain k where "k = 0 \<or> waited + poll_step interval + (k - 1) * poll_step interval < deadline"
        "answers want (probe (waited + poll_step interval + k * poll_step interval))" by blast
      with a show ?thesis by (intro exI [of _ "Suc k"]) (cases k; auto simp: algebra_simps)
    qed
  qed
  show ?case
  proof (cases "probe_host (probe waited)")
    case (Inl err)
    with 1 step show ?thesis by (subst converge.simps) (auto simp: answers_def)
  next
    case (Inr r)
    with 1 step show ?thesis by (cases r; subst converge.simps) (auto simp: answers_def)
  qed
qed

lemma run_checks_None:
  "run_checks probe interval deadline cs = None \<longleftrightarrow>
     (\<forall>(h, want) \<in> set cs. converge (probe h) want interval deadline 0 = None)"
  by (induction cs) (auto split: option.splits)

text \<open>C28. The verdict of the nginx driver on its running daemon: confirmed exactly when, for every host of the
  change and for the host that must be denied, some poll gave the wanted answer. Polls are one interval
  apart, the first at once, and each further one is made when the one before it was before the deadline:
  the last may come up to one interval after the deadline.\<close>

theorem nginx_confirmed_iff:
  "rv_status (ng_verify_runtime (Some pr) interval deadline op ec w) = RuntimeConfirmed \<longleftrightarrow>
     (\<forall>(h, want) \<in> set (ng_checks op ec). \<exists>k. (k = 0 \<or> (k - 1) * poll_step interval < deadline)
        \<and> answers want (pr w h (k * poll_step interval)))"
  using run_checks_None [of "pr w" interval deadline "ng_checks op ec"]
  by (cases "run_checks (pr w) interval deadline (ng_checks op ec)") (simp_all add: ng_verify_runtime_def converge_iff)

lemma nginx_confirmed_iff_witness:
  "rv_status (ng_verify_runtime (Some (\<lambda>_ h t. if t < 600 then Responded 200 else Closed)) 300 4000 (mk_op Unexpose ''a'' ''a.ex'')
     (no_edge_change\<lparr>e_remove := [''a.ex'']\<rparr>) ()) = RuntimeConfirmed"
proof -
  have "ng_checks (mk_op Unexpose ''a'' ''a.ex'') (no_edge_change\<lparr>e_remove := [''a.ex'']\<rparr>) = [(''a.ex'', False), (deny_probe_host, False)]"
    by code_simp
  moreover have "\<exists>k. (k = 0 \<or> (k - 1) * poll_step 300 < 4000)
      \<and> answers False (if k * poll_step 300 < 600 then Responded 200 else Closed)"
    by (rule exI [of _ 2]) (simp add: poll_step_def answers_def probe_host_def)
  ultimately show ?thesis unfolding nginx_confirmed_iff by simp
qed

section \<open>A concrete file\<close>

definition plain_nginx :: nginx_config where
  "plain_nginx = \<lparr>ng_resolve = (\<lambda>_. Inl ''no backend''), ng_auth_requests = [],
     ng_tls_conf = \<lparr>nt_port = 0, nt_ssl = False, nt_cert = [], nt_key = []\<rparr>, ng_runtime_conf = None\<rparr>"

definition site_file :: "string \<Rightarrow> nginx_file" where
  "site_file t = \<lparr>nf_text = Some t, nf_readable = True, nf_fates = []\<rparr>"

definition add_route :: "string \<Rightarrow> string \<Rightarrow> edge_change" where
  "add_route h addr = no_edge_change\<lparr>e_add := [http_route h addr []]\<rparr>"


definition tiny_site :: string where
  "tiny_site = unlines [''server {'', ''listen 80;'', ''server_name o.ex;'', ''proxy_pass http://b;'', ''}'']"

abbreviation add_a :: edge_change where "add_a \<equiv> add_route ''a.ex'' ''10.0.0.1''"

abbreviation change_of :: "edge_change \<Rightarrow> change_set" where
  "change_of ec \<equiv> (mk_change_set (mk_op Expose ''a'' ''a.ex''))\<lparr>cs_edge := ec\<rparr>"

lemma tiny_whole: "whole tiny_site"
  unfolding whole_def closed_chunk_def by code_simp

lemma tiny_next: "next_routes plain_nginx add_a tiny_site = [http_route ''a.ex'' ''10.0.0.1'' []]"
  by code_simp

lemma plain_route_ok: "route_ok (nginx_auth_uri plain_nginx) (http_route ''a.ex'' ''10.0.0.1'' [])" "tls_ok (ng_tls_conf plain_nginx)"
  by code_simp+

lemma tiny_writable: "writable_routes plain_nginx (next_routes plain_nginx add_a tiny_site)"
  by (simp add: tiny_next writable_routes_def plain_route_ok)

lemma plain_canonical: "canonical plain_nginx (http_route ''a.ex'' ''10.0.0.1'' []) = http_route ''a.ex'' ''10.0.0.1'' []"
  by code_simp

lemma tiny_edit: "edit_map add_a m ''a.ex'' = Some (http_route ''a.ex'' ''10.0.0.1'' [])"
proof -
  have "r_host (http_route ''a.ex'' ''10.0.0.1'' []) = ''a.ex''" by (simp add: http_route_def mk_route_def)
  then show ?thesis by (simp add: edit_map_def add_route_def)
qed

lemma tiny_kept: "map cr_routes (kept_reads plain_nginx tiny_site)
    = [[(http_route ''o.ex'' ''b'' [])\<lparr>r_managed := False, r_ownership := ownership_from_marker False\<rparr>]]"
  by code_simp

lemma tiny_apply: "ng_apply plain_nginx (change_of add_a) (site_file tiny_site)
    = (None, site_file (new_text plain_nginx add_a tiny_site))"
  by (simp add: ng_apply_done ng_read_def file_text_def site_file_def go_live_def plain_nginx_def next_fate_def)

section \<open>The properties\<close>

text \<open>C6. A write of the nginx driver refines an edit of a map: for a text whose blocks close and routes
  that can be written, the chunks that are not crenel's read as before, in their order, and the map
  of crenel's routes is the edited map, each route as it reads back; the new text closes again.\<close>

theorem nginx_write_refines:
  assumes "whole text" and "writable_routes d (next_routes d ec text)"
  shows "kept_reads d (new_text d ec text) = kept_reads d text
     \<and> own_routes d (new_text d ec text) = map_option (canonical d) \<circ> edit_map ec (own_routes d text)
     \<and> whole (new_text d ec text)"
  by (rule write_refines_edit [OF assms])

lemma nginx_write_refines_witness:
  "own_routes plain_nginx (new_text plain_nginx add_a tiny_site) ''a.ex'' = Some (http_route ''a.ex'' ''10.0.0.1'' [])
   \<and> map cr_routes (kept_reads plain_nginx (new_text plain_nginx add_a tiny_site)) \<noteq> [[]]"
  using nginx_write_refines [OF tiny_whole tiny_writable]
  by (simp add: tiny_kept tiny_edit plain_canonical)

text \<open>After a successful write of the nginx driver, the live routes are those of the chunks crenel
  does not own, as they were read before, followed by crenel's own routes as edited, by host.\<close>

theorem nginx_live_after_write:
  assumes "ng_apply d cs f = (None, f')" and "nf_readable f" and "whole (file_text f)"
    and "writable_routes d (next_routes d (cs_edge cs) (file_text f))"
    and "ng_read_live d f' = Inr live" and "l_generator live = []"
  shows "l_routes live = concat (map cr_routes (kept_reads d (file_text f)))
     @ map (\<lambda>r. (canonical d r)\<lparr>r_managed := True, r_ownership := OwnCrenel\<rparr>)
         (sort_key r_host (next_routes d (cs_edge cs) (file_text f)))"
  by (rule ng_apply_live_routes [OF assms])

lemma tiny_file: "nf_readable (site_file t)" "file_text (site_file t) = t"
  "ng_read_live plain_nginx (site_file t) = Inr (ng_normalize plain_nginx t)"
  by (simp_all add: site_file_def file_text_def ng_read_live_def ng_read_def)

lemma nginx_live_after_write_witness:
  "map r_host (l_routes (ng_normalize plain_nginx (new_text plain_nginx add_a tiny_site))) = [''o.ex'', ''a.ex'']"
proof -
  have "ng_generator (new_text plain_nginx add_a tiny_site) = []" by code_simp
  then have "l_generator (ng_normalize plain_nginx (new_text plain_nginx add_a tiny_site)) = []"
    by (simp add: ng_normalize_def Let_def)
  from nginx_live_after_write [OF tiny_apply tiny_file(1) _ _ tiny_file(3) this] tiny_whole tiny_writable
  show ?thesis
    by (simp add: tiny_file(2) tiny_kept tiny_next plain_canonical) (simp add: http_route_def mk_route_def)
qed

text \<open>C7. After a successful write of the nginx driver the default deny is in force exactly when no kept
  catch-all forwards and every port a kept block forwards on has a kept catch-all that denies, or is
  the port of crenel's own default server: crenel's routes never weaken it.\<close>

theorem nginx_deny_after_write:
  assumes "ng_apply d cs f = (None, f')" and "nf_readable f" and "whole (file_text f)"
    and "writable_routes d (next_routes d (cs_edge cs) (file_text f))" and "ng_read_live d f' = Inr live"
  shows "l_deny_present live \<longleftrightarrow> (\<forall>cr \<in> set (kept_reads d (file_text f)). \<not> cr_permissive cr \<and>
     (\<forall>p \<in> set (cr_forwarding cr). p = tls_port (ng_tls_conf d)
        \<or> (\<exists>cr' \<in> set (kept_reads d (file_text f)). p \<in> set (cr_denying cr'))))"
  by (rule ng_apply_deny_iff [OF assms])

lemma nginx_deny_after_write_witness:
  "l_deny_present (ng_normalize plain_nginx (new_text plain_nginx add_a tiny_site))"
proof -
  have "map cr_forwarding (kept_reads plain_nginx tiny_site) = [[80]]" "map cr_permissive (kept_reads plain_nginx tiny_site) = [False]"
    "tls_port (ng_tls_conf plain_nginx) = 80" by code_simp+
  then show ?thesis
    using nginx_deny_after_write [OF tiny_apply tiny_file(1) _ _ tiny_file(3)] tiny_whole tiny_writable
    by (auto simp: tiny_file(2))
qed





text \<open>When the configuration test rejects a write, the driver returns an error and the rejected text
  stays in the file: the step that failed is not one the transaction undoes.\<close>

theorem nginx_rejected_text_stays:
  assumes "ng_runtime_conf d = Some rt" and "rn_test rt = Some run" and "ng_read f = Inr text" and "nf_fates f = []"
    and "run (new_text d (cs_edge cs) text) = Some err"
  shows "ng_apply d cs f = (Some (''nginx apply: config test (nginx -t) failed: '' @ err),
     f\<lparr>nf_text := Some (new_text d (cs_edge cs) text)\<rparr>)"
  using assms by (simp add: ng_apply_def then_act_def ng_write_def go_live_def run_cmd_def next_fate_def)

definition picky :: "string \<Rightarrow> perr option" where
  "picky t = (if t = [] then None else Some ''emerg'')"

definition strict_nginx :: nginx_config where
  "strict_nginx = plain_nginx\<lparr>ng_runtime_conf := Some \<lparr>rn_test = Some picky, rn_reload = None\<rparr>\<rparr>"

lemma nginx_rejected_text_stays_witness:
  "ng_apply strict_nginx (change_of add_a) (site_file [])
     = (Some (''nginx apply: config test (nginx -t) failed: '' @ ''emerg''), site_file (new_text strict_nginx add_a []))"
proof -
  have "new_text strict_nginx add_a [] \<noteq> []" by code_simp
  then have r: "picky (new_text strict_nginx (cs_edge (change_of add_a)) []) = Some ''emerg''"
    by (simp add: picky_def)
  have "ng_runtime_conf strict_nginx = Some \<lparr>rn_test = Some picky, rn_reload = None\<rparr>" by (simp add: strict_nginx_def)
  from nginx_rejected_text_stays [OF this, of picky "site_file []" "[]"] r show ?thesis
    by (simp add: site_file_def ng_read_def)
qed

section \<open>Where the driver sees less than nginx\<close>

text \<open>An IPv6 listener: the port of \<open>[::1]:80\<close> is read from inside the address.\<close>

lemma nginx_ipv6_port: "ch_ports (classify (unlines [''server {'', ''listen [::1]:80;'', ''}''])) = [1]"
  by code_simp

text \<open>Of several names of one block only the first becomes a route, and the others are not declared.\<close>

lemma nginx_second_name_unseen:
  "(let cr = read_chunk plain_nginx (classify (unlines [''server {'', ''server_name a.ex b.ex;'', ''proxy_pass http://b;'', ''}'']))
    in map r_host (cr_routes cr) = [''a.ex''] \<and> cr_unparsed cr = [])"
  by code_simp

text \<open>An adopted block is written again from the model at the next write: its port and its other names go.\<close>

lemma nginx_adopted_block_rewritten:
  "(let t = unlines [managed_marker @ '' a.ex'', ''server {'', ''listen 8443;'', ''server_name a.ex b.ex;'', ''proxy_pass http://b;'', ''}'']
    in str_contains t ''b.ex'' \<and> \<not> str_contains (new_text plain_nginx no_edge_change t) ''b.ex''
       \<and> \<not> str_contains (new_text plain_nginx no_edge_change t) ''8443'')"
  by code_simp

end
