(* ===== verification/Nginx_Tree.thy ===== *)
theory Nginx_Tree
  imports Nginx
begin

text \<open>
  The read-only reader of an Nginx Proxy Manager data directory, \<open>tree_read.go\<close>. The tree is the
  list of the entries of the file system the reader can see, by cleaned absolute path, with the answer
  of reading each one; \<open>filepath.Clean\<close>, \<open>Match\<close> and \<open>Glob\<close> are modelled over it. Includes are
  followed to the code's own depth.
\<close>

section \<open>Paths and patterns\<close>

definition slash :: char where "slash = CHR ''/''"

text \<open>\<open>filepath.Clean\<close> of an absolute path.\<close>

fun clean_parts :: "string list \<Rightarrow> string list \<Rightarrow> string list" where
  "clean_parts acc [] = rev acc"
| "clean_parts acc (p # ps) =
     (if p = [] \<or> p = ''.'' then clean_parts acc ps
      else if p = ''..'' then clean_parts (tl acc) ps
      else clean_parts (p # acc) ps)"

definition path_clean :: "string \<Rightarrow> string" where
  "path_clean p = slash # join_with [slash] (clean_parts [] (split_on slash p))"

text \<open>The patterns of \<open>filepath.Match\<close>; a class is negated or not and lists ranges.\<close>

datatype glob_tok = GStar | GAny | GClass bool "(char \<times> char) list" | GLit char

definition class_char :: "string \<Rightarrow> (char \<times> string) option" where
  "class_char s =
     (case s of [] \<Rightarrow> None
      | c # r \<Rightarrow>
          if c = CHR ''-'' \<or> c = CHR '']'' then None
          else if c = CHR 0x5C then (case r of x # y # r' \<Rightarrow> Some (x, y # r') | _ \<Rightarrow> None)
          else if r = [] then None else Some (c, r))"

lemma class_char_shorter: "class_char s = Some (c, r) \<Longrightarrow> length r < length s"
  by (auto simp: class_char_def split: list.splits if_splits)

function class_ranges :: "(char \<times> char) list \<Rightarrow> string \<Rightarrow> ((char \<times> char) list \<times> string) option" where
  "class_ranges acc s =
     (if s \<noteq> [] \<and> hd s = CHR '']'' \<and> acc \<noteq> [] then Some (rev acc, tl s)
      else case class_char s of
          None \<Rightarrow> None
        | Some (lo, r) \<Rightarrow>
            if r \<noteq> [] \<and> hd r = CHR ''-'' then
              (case class_char (tl r) of None \<Rightarrow> None | Some (hi, r') \<Rightarrow> class_ranges ((lo, hi) # acc) r')
            else class_ranges ((lo, lo) # acc) r)"
  by pat_completeness auto
termination
proof (relation "measure (\<lambda>(_, s). length s)")
  fix acc :: "(char \<times> char) list" and s x lo r y hi r'
  assume "class_char s = Some x" "(lo, r) = x" "class_char (tl r) = Some y" "(hi, r') = y"
  then show "(((lo, hi) # acc, r'), (acc, s)) \<in> measure (\<lambda>(_, s). length s)"
    using class_char_shorter [of s lo r] class_char_shorter [of "tl r" hi r'] by auto
qed (auto dest!: class_char_shorter)

declare class_ranges.simps [simp del]

lemma class_ranges_shorter: "class_ranges acc s = Some (rs, r) \<Longrightarrow> length r < length s"
proof (induction acc s rule: class_ranges.induct)
  case (1 acc s)
  show ?case
  proof (cases "s \<noteq> [] \<and> hd s = CHR '']'' \<and> acc \<noteq> []")
    case True
    then have "class_ranges acc s = Some (rev acc, tl s)" by (subst class_ranges.simps) simp
    with 1(3) have "r = tl s" by simp
    with True show ?thesis by (cases s) simp_all
  next
    case False
    from 1(3) False obtain lo q where q: "class_char s = Some (lo, q)"
      by (subst (asm) class_ranges.simps) (auto split: option.splits if_splits)
    show ?thesis
    proof (cases "q \<noteq> [] \<and> hd q = CHR ''-''")
      case True
      from 1(3) False q True obtain hi q' where q': "class_char (tl q) = Some (hi, q')"
        "class_ranges ((lo, hi) # acc) q' = Some (rs, r)"
        by (subst (asm) class_ranges.simps) (auto split: option.splits if_splits)
      from 1(1) [OF False q refl True q'(1) refl q'(2)] class_char_shorter [OF q] class_char_shorter [OF q'(1)]
      show ?thesis by simp
    next
      case no: False
      from 1(3) False q no have "class_ranges ((lo, lo) # acc) q = Some (rs, r)"
        by (subst (asm) class_ranges.simps) (auto split: if_splits)
      from 1(2) [OF False q refl no this] class_char_shorter [OF q] show ?thesis by simp
    qed
  qed
qed

function glob_parse :: "string \<Rightarrow> glob_tok list option" where
  "glob_parse [] = Some []"
| "glob_parse (c # s) =
     (if c = CHR ''*'' then map_option (Cons GStar) (glob_parse s)
      else if c = CHR ''?'' then map_option (Cons GAny) (glob_parse s)
      else if c = CHR 0x5C then (case s of [] \<Rightarrow> None | x # r \<Rightarrow> map_option (Cons (GLit x)) (glob_parse r))
      else if c = CHR ''['' then
        (let neg = (s \<noteq> [] \<and> hd s = CHR ''^'') in
         case class_ranges [] (if neg then tl s else s) of
             None \<Rightarrow> None
           | Some (rs, r) \<Rightarrow> map_option (Cons (GClass neg rs)) (glob_parse r))
      else map_option (Cons (GLit c)) (glob_parse s))"
  by pat_completeness auto
termination
  by (relation "measure length") (auto dest!: class_ranges_shorter split: if_splits)

definition in_class :: "bool \<Rightarrow> (char \<times> char) list \<Rightarrow> char \<Rightarrow> bool" where
  "in_class neg rs c = (list_ex (\<lambda>(lo, hi). lo \<le> c \<and> c \<le> hi) rs \<noteq> neg)"

function glob_toks :: "glob_tok list \<Rightarrow> string \<Rightarrow> bool" where
  "glob_toks [] s = (s = [])"
| "glob_toks (GStar # ts) s =
     (if glob_toks ts s then True else if s = [] \<or> hd s = slash then False else glob_toks (GStar # ts) (tl s))"
| "glob_toks (GAny # ts) s = (s \<noteq> [] \<and> hd s \<noteq> slash \<and> glob_toks ts (tl s))"
| "glob_toks (GClass neg rs # ts) s = (s \<noteq> [] \<and> hd s \<noteq> slash \<and> in_class neg rs (hd s) \<and> glob_toks ts (tl s))"
| "glob_toks (GLit c # ts) s = (s \<noteq> [] \<and> hd s = c \<and> glob_toks ts (tl s))"
  by pat_completeness auto
termination
  by (relation "measures [\<lambda>(ts, _). length ts, \<lambda>(_, s). length s]") (auto simp: neq_Nil_conv)

section \<open>The tree\<close>

record npm_entry =
  ne_path :: string
  ne_read :: "perr + string"
  ne_mod_time :: "int option"

record npm_tree =
  nt_root :: string
  nt_entries :: "npm_entry list"

text \<open>\<open>filepath.Glob\<close>, its matches in the order \<open>sort.Strings\<close> gives them; a malformed pattern has none.\<close>

definition glob :: "npm_tree \<Rightarrow> string \<Rightarrow> string list" where
  "glob t pat =
     (case glob_parse pat of
        None \<Rightarrow> []
      | Some ts \<Rightarrow> sort (filter (glob_toks ts) (map ne_path (nt_entries t))))"

definition entry_of :: "npm_tree \<Rightarrow> string \<Rightarrow> npm_entry option" where
  "entry_of t p = find (\<lambda>e. ne_path e = p) (nt_entries t)"

definition read_file :: "npm_tree \<Rightarrow> string \<Rightarrow> perr + string" where
  "read_file t p = (case entry_of t p of None \<Rightarrow> Inl ''no such file'' | Some e \<Rightarrow> ne_read e)"

definition conf_files :: "npm_tree \<Rightarrow> string \<Rightarrow> string list" where
  "conf_files t sub = glob t (path_clean (nt_root t @ ''/'' @ sub @ ''/*.conf''))"

definition rel_path :: "npm_tree \<Rightarrow> string \<Rightarrow> string" where
  "rel_path t p = trim_prefix (path_clean (nt_root t) @ ''/'') p"

definition sniff_npm_tree :: "npm_tree \<Rightarrow> bool" where
  "sniff_npm_tree t = (conf_files t ''proxy_host'' \<noteq> [])"

definition tr_validate :: "npm_tree \<Rightarrow> perr option" where
  "tr_validate t = (if sniff_npm_tree t then None else Some ''not an NPM data directory'')"

definition tr_plan :: "op \<Rightarrow> live_edge_state \<Rightarrow> perr + change_set" where
  "tr_plan op live = Inl ''npm tree is READ-ONLY''"

definition tr_apply :: "change_set \<Rightarrow> npm_tree act" where
  "tr_apply cs t = (Some ''npm tree is READ-ONLY: refusing to write'', t)"

definition enumerate :: "npm_tree \<Rightarrow> string list" where
  "enumerate t = sort (concat (map (conf_files t) [''proxy_host'', ''default_host'']))"

definition newest :: "int option list \<Rightarrow> int option" where
  "newest ms = fold (\<lambda>m acc. case m of None \<Rightarrow> acc
     | Some x \<Rightarrow> (case acc of None \<Rightarrow> Some x | Some y \<Rightarrow> Some (max x y))) ms None"

definition tr_evidence :: "npm_tree \<Rightarrow> read_evidence" where
  "tr_evidence t = \<lparr>v_kind = EvidenceConfig,
     v_source = itoa (int (length (enumerate t))) @ '' config file(s) under '' @ nt_root t,
     v_mod_time = newest (map (\<lambda>p. case entry_of t p of None \<Rightarrow> None | Some e \<Rightarrow> ne_mod_time e) (enumerate t))\<rparr>"

section \<open>Includes\<close>

definition include_rx :: rx where
  "include_rx = line_head ''include'' (rx_seq [plus rx_space, Grp 1 (plus not_semi), Lit '';''])"

definition set_value :: "char \<Rightarrow> bool" where
  "set_value c = (c \<noteq> CHR 0x22 \<and> c \<noteq> CHR '';'' \<and> \<not> rx_space c)"

definition set_var_rx :: rx where
  "set_var_rx = line_head ''set'' (rx_seq [plus rx_space, Lit ''$'', Grp 1 (plus rx_word), plus rx_space,
     Opt (Lit [CHR 0x22]), Grp 2 (plus set_value), Opt (Lit [CHR 0x22]), Many rx_space, Lit '';''])"

definition map_head_rx :: rx where
  "map_head_rx = text_head ''map'' (rx_seq [plus rx_space, plus (\<lambda>c. \<not> rx_space c), plus rx_space,
     plus (\<lambda>c. \<not> rx_space c), Many rx_space, Lit ''{''])"

definition npm_stock_includes :: "string list" where
  "npm_stock_includes = map (\<lambda>n. ''conf.d/include/'' @ n @ ''.conf'')
     [''assets'', ''block-exploits'', ''force-ssl'', ''ip_ranges'', ''letsencrypt-acme-challenge'', ''log-proxy'',
      ''log-stream'', ''proxy'', ''resolvers'', ''ssl-cache-stream'', ''ssl-cache'', ''ssl-ciphers'']"

definition set_vars :: "string \<Rightarrow> (string \<times> string) list" where
  "set_vars text = rev (map (\<lambda>(_, st). (group 1 st, group 2 st)) (rx_find_all set_var_rx None text))"

definition var_of :: "(string \<times> string) list \<Rightarrow> string \<Rightarrow> string" where
  "var_of vars n = (case map_of vars n of None \<Rightarrow> [] | Some v \<Rightarrow> v)"

definition npm_proxy_pass :: "(string \<times> string) list \<Rightarrow> string option" where
  "npm_proxy_pass vars =
     (let scheme = var_of vars ''forward_scheme''; server = var_of vars ''server''; port = var_of vars ''port''
      in if scheme = [] \<or> server = [] \<or> port = [] \<or> str_contains (scheme @ server @ port) ''$'' then None
         else Some (''proxy_pass '' @ scheme @ ''://'' @ server @ '':'' @ port @ '';''))"

definition root_relative :: "npm_tree \<Rightarrow> string \<Rightarrow> string option" where
  "root_relative t inc =
     (if \<not> has_prefix ''/'' inc then None
      else let cand = (if has_prefix ''/data/nginx/'' inc
             then path_clean (nt_root t @ ''/'' @ drop (length ''/data/nginx/'') inc) else path_clean inc);
           root = path_clean (nt_root t)
         in if cand \<noteq> root \<and> \<not> has_prefix (root @ ''/'') cand then None else Some cand)"

definition declared_include :: "string \<Rightarrow> string" where
  "declared_include inc = ''# crenel: declared-unknown include '' @ inc"

definition include_unparsed :: "string \<Rightarrow> unknown_kind \<Rightarrow> string \<Rightarrow> unparsed" where
  "include_unparsed rel kind reason = \<lparr>n_locator = rel, n_kind = kind, n_reason = reason, n_raw_excerpt = []\<rparr>"

text \<open>What one include stands for: \<open>nested\<close> resolves a file one level deeper, when the bound allows it.\<close>

definition follow_include :: "npm_tree \<Rightarrow> (string \<Rightarrow> string \<Rightarrow> string \<times> unparsed list) option \<Rightarrow> string
    \<Rightarrow> string \<Rightarrow> string \<Rightarrow> string \<times> unparsed list" where
  "follow_include t nested rel line inc =
     (case root_relative t inc of
        None \<Rightarrow> (declared_include inc,
          [(include_unparsed rel UnknownHandler (''includes '' @ inc @ '' which points OUTSIDE the audited tree''))
             \<lparr>n_raw_excerpt := trim_space line\<rparr>])
      | Some resolved \<Rightarrow>
          (case nested of
             None \<Rightarrow> (declared_include inc,
               [include_unparsed rel UnknownHandler (''include '' @ inc @ '' exceeds the include-nesting bound'')])
           | Some sub \<Rightarrow>
               (let ms = glob t resolved
                in if ms = [] then
                     (if \<not> list_ex (\<lambda>c. c \<in> {CHR ''*'', CHR ''?'', CHR ''[''}) inc
                      then (declared_include inc,
                        [include_unparsed rel UnknownHandler (''includes '' @ inc @ '' which does not exist in the tree'')])
                      else (''# crenel: empty wildcard include '' @ inc, []))
                   else
                     (let parts = map (\<lambda>m. case read_file t m of
                            Inl err \<Rightarrow> (None, [include_unparsed rel UnknownHandler
                              (''include '' @ inc @ '' matched '' @ m @ '' which could not be read: '' @ err)])
                          | Inr text \<Rightarrow> (case sub text (rel_path t m) of (txt, us) \<Rightarrow> (Some txt, us))) ms
                      in (join_with [newline] (List.map_filter fst parts), concat (map snd parts))))))"

definition include_effect :: "npm_tree \<Rightarrow> (string \<Rightarrow> string \<Rightarrow> string \<times> unparsed list) option \<Rightarrow> (string \<times> string) list
    \<Rightarrow> string \<Rightarrow> string \<Rightarrow> string \<times> unparsed list" where
  "include_effect t nested vars rel line =
     (let inc = trim_space (case rx_sub include_rx 1 line of None \<Rightarrow> [] | Some i \<Rightarrow> i)
      in if inc \<in> set npm_stock_includes then
           (if inc = ''conf.d/include/proxy.conf'' then
              (case npm_proxy_pass vars of
                 Some p \<Rightarrow> (p, [])
               | None \<Rightarrow> (declared_include inc,
                   [include_unparsed rel UnknownBackend ''NPM proxy include without resolvable variables'']))
            else (''# crenel: understood NPM template include '' @ inc, []))
         else follow_include t nested rel line inc)"

text \<open>\<open>ReplaceAllStringFunc\<close>, collecting what the function declares.\<close>

fun replace_all :: "(string \<times> rx_state) list \<Rightarrow> (string \<Rightarrow> string \<times> 'u list) \<Rightarrow> string \<Rightarrow> string \<times> 'u list" where
  "replace_all [] f s = (s, [])"
| "replace_all ((before, (_, rest, _)) # ms) f s =
     (let hit = take (length s - length before - length rest) (drop (length before) s);
          (new, us) = f hit; (text, vs) = replace_all ms f rest
      in (before @ new @ text, us @ vs))"

definition tree_include_depth_max :: nat where "tree_include_depth_max = 4"

primrec resolve_includes :: "npm_tree \<Rightarrow> nat \<Rightarrow> string \<Rightarrow> string \<Rightarrow> string \<times> unparsed list" where
  "resolve_includes t 0 = (\<lambda>text rel.
     replace_all (rx_find_all include_rx None text) (include_effect t None (set_vars text) rel) text)"
| "resolve_includes t (Suc n) = (\<lambda>text rel.
     replace_all (rx_find_all include_rx None text)
       (include_effect t (Some (resolve_includes t n)) (set_vars text) rel) text)"

section \<open>Reading the tree\<close>

definition npm_generator :: string where "npm_generator = ''nginx-proxy-manager''"

definition map_block :: "string \<Rightarrow> bool" where
  "map_block raw = rx_match map_head_rx (case first_config_line raw of None \<Rightarrow> [] | Some l \<Rightarrow> l)"

definition tree_unparsed :: "string \<Rightarrow> chunk \<Rightarrow> string \<Rightarrow> unknown_kind \<Rightarrow> string \<Rightarrow> chunk_read" where
  "tree_unparsed rel c loc kind reason = nothing_read\<lparr>cr_unparsed := [\<lparr>n_locator = rel @ '': '' @ loc, n_kind = kind,
     n_reason = reason, n_raw_excerpt = bounded_excerpt (ch_raw c)\<rparr>]\<rparr>"

definition tree_chunk :: "string \<Rightarrow> chunk \<Rightarrow> chunk_read" where
  "tree_chunk rel c =
     (if \<not> ch_server c then
        (if blank_or_comment (ch_raw c) \<or> map_block (ch_raw c) then nothing_read
         else tree_unparsed rel c (non_server_locator (ch_raw c)) UnknownServerBlock
           ''top-level block is not a server{} crenel can model'')
      else if ch_catch_all c then
        (if ch_forwards c then nothing_read\<lparr>cr_forwarding := ports_of c, cr_permissive := True\<rparr>
         else nothing_read\<lparr>cr_denying := ports_of c\<rparr>)
      else if ch_host c = [] then
        (if ch_forwards c then tree_unparsed rel c ''server (no server_name)'' UnknownMatcher
           ''server block proxies traffic but has no server_name'' else nothing_read)
      else if \<not> ch_forwards c then
        tree_unparsed rel c (''server '' @ ch_host c) UnknownHandler
          (''server block for '' @ ch_host c @ '' has no proxy_pass crenel can model'')
      else if ch_path_scoped c then
        tree_unparsed rel c (''server '' @ ch_host c) UnknownMatcher
          (''server block for '' @ ch_host c @ '' routes by location path(s) (''
            @ join_with '', '' (ch_extra_paths c) @ '')'')
      else nothing_read\<lparr>cr_routes := [(http_route (ch_host c) (ch_addr c)
               (if ch_auth_uri c \<noteq> [] \<or> ch_auth_basic c then auth_detected else []))
             \<lparr>r_managed := False, r_ownership := OwnForeign\<rparr>],
           cr_forwarding := ports_of c\<rparr>)"

definition default_server :: "chunk \<Rightarrow> bool" where
  "default_server c = (ch_server c \<and> ch_catch_all c)"

text \<open>What one file contributes: its section of the raw text, what it declares, its chunks.\<close>

record file_read =
  fr_raw :: "string option"
  fr_unparsed :: "unparsed list"
  fr_chunks :: "chunk list"

definition read_tree_file :: "npm_tree \<Rightarrow> string \<Rightarrow> file_read" where
  "read_tree_file t p =
     (let rel = rel_path t p
      in case read_file t p of
           Inl err \<Rightarrow> \<lparr>fr_raw = None, fr_unparsed = [\<lparr>n_locator = rel, n_kind = UnknownServerBlock,
             n_reason = ''file could not be read: '' @ err, n_raw_excerpt = []\<rparr>], fr_chunks = []\<rparr>
         | Inr body \<Rightarrow>
             (let (txt, us) = resolve_includes t tree_include_depth_max body rel; cs = parse_chunks txt
              in \<lparr>fr_raw = Some (''# --- '' @ rel @ '' ---'' @ [newline] @ txt),
                  fr_unparsed = us @ concat (map (cr_unparsed \<circ> tree_chunk rel) cs), fr_chunks = cs\<rparr>))"

definition other_dirs :: "npm_tree \<Rightarrow> unparsed list" where
  "other_dirs t = concat (map (\<lambda>sub. map (\<lambda>p. \<lparr>n_locator = rel_path t p, n_kind = UnknownServerBlock,
     n_reason = ''NPM '' @ sub @ '' config is not modeled by the tree reader'', n_raw_excerpt = []\<rparr>) (conf_files t sub))
     [''redirection_host'', ''dead_host'', ''stream''])"

definition no_default_server :: unparsed where
  "no_default_server = \<lparr>n_locator = ''default server'', n_kind = UnknownServerBlock,
     n_reason = ''no default server in the tree'', n_raw_excerpt = []\<rparr>"

definition tr_read_live :: "npm_tree \<Rightarrow> live_edge_state" where
  "tr_read_live t =
     (let ps = enumerate t; frs = map (\<lambda>p. (rel_path t p, read_tree_file t p)) ps;
          reads = concat (map (\<lambda>(rel, fr). map (tree_chunk rel) (fr_chunks fr)) frs);
          saw = list_ex (\<lambda>(rel, fr). list_ex default_server (fr_chunks fr)) frs;
          raw = join_with [newline] (List.map_filter (fr_raw \<circ> snd) frs)
      in \<lparr>l_routes = concat (map cr_routes reads),
          l_deny_present = (if saw then deny_everywhere reads else True),
          l_unparsed = concat (map (fr_unparsed \<circ> snd) frs) @ other_dirs t @ (if saw then [] else [no_default_server]),
          l_generator = (if ng_generator raw \<noteq> [] then ng_generator raw else npm_generator),
          l_ingress_kind = IngressUnset, l_persistence = PersistDurableConfig, l_raw = raw\<rparr>)"

definition npm_reader :: "('w \<Rightarrow> npm_tree) \<Rightarrow> (npm_tree \<Rightarrow> 'w \<Rightarrow> 'w) \<Rightarrow> npm_tree \<Rightarrow> 'w edge_provider" where
  "npm_reader get put t = \<lparr>ep_name = ''nginx'', ep_read = (\<lambda>w. Inr (tr_read_live (get w))), ep_plan = tr_plan,
     ep_apply = (\<lambda>cs. on_part get put (tr_apply cs)), ep_healthy = None, ep_persist = None, ep_durability = None,
     ep_runtime = None, ep_evidence = Some (tr_evidence t), ep_adopt = None, ep_acker = None, ep_locator_acker = None\<rparr>"

section \<open>What a verdict rests on\<close>





definition acked :: "unparsed list \<Rightarrow> bool" where
  "acked us = (\<forall>u \<in> set us. n_kind u = UnknownAcknowledged)"

lemma acked_simps [simp]:
  "acked []" "acked (u # us) \<longleftrightarrow> n_kind u = UnknownAcknowledged \<and> acked us" "acked (us @ vs) \<longleftrightarrow> acked us \<and> acked vs"
  "acked (concat uss) \<longleftrightarrow> (\<forall>us \<in> set uss. acked us)"
  by (auto simp: acked_def)



















text \<open>The include bound makes a cycle end, declared.\<close>

lemma npm_cycle_declared:
  "(let t = \<lparr>nt_root = ''/t'', nt_entries = [\<lparr>ne_path = ''/t/a'', ne_read = Inr ''include /t/a;'', ne_mod_time = None\<rparr>]\<rparr>
    in map n_kind (snd (resolve_includes t tree_include_depth_max ''include /t/a;'' ''a'')) = [UnknownHandler])"
  by code_simp

end
