(* ===== verification/Pihole.thy ===== *)
theory Pihole
  imports Faults Txn Netip Strconv "HOL-Library.Multiset"
begin

text \<open>
  The internal DNS driver for Pi-hole, \<open>internal/drivers/dns/pihole\<close>: \<open>pihole.go\<close> over an injected
  API channel, the session-keeping client \<open>doer.go\<close>, and the v6 API as the repository's fake states it
  (\<open>piholefake/fake.go\<close>). A request is the value its method and path encode; escaping an entry into a
  path and back is the identity. The canonical text of an address is \<open>IP.String\<close> of the standard
  library.
\<close>

section \<open>The text of an address\<close>

definition hex_char :: "nat \<Rightarrow> char" where
  "hex_char n = (if n < 10 then char_of (48 + n) else char_of (87 + n))"

fun hex_text :: "nat \<Rightarrow> string" where
  "hex_text n = (if n < 16 then [hex_char n] else hex_text (n div 16) @ [hex_char (n mod 16)])"

declare hex_text.simps [simp del]

definition zeros_at :: "nat list \<Rightarrow> nat \<Rightarrow> nat" where
  "zeros_at gs i = length (takeWhile (\<lambda>g. g = 0) (drop i gs))"

text \<open>The first of the longest runs of two or more zero groups.\<close>

definition zero_run :: "nat list \<Rightarrow> (nat \<times> nat) option" where
  "zero_run gs = fold (\<lambda>i best. let n = zeros_at gs i in
     if 2 \<le> n \<and> (case best of None \<Rightarrow> True | Some (_, m) \<Rightarrow> m < n) then Some (i, n) else best) [0..<length gs] None"

definition v6_text :: "nat list \<Rightarrow> string" where
  "v6_text gs =
     (case zero_run gs of
        None \<Rightarrow> join_with '':'' (map hex_text gs)
      | Some (i, n) \<Rightarrow> join_with '':'' (map hex_text (take i gs)) @ ''::'' @ join_with '':'' (map hex_text (drop (i + n) gs)))"

definition v4_text :: "nat list \<Rightarrow> string" where
  "v4_text bs = join_with ''.'' (map (\<lambda>b. decimal (int b)) bs)"

definition ip_string :: "ip \<Rightarrow> string" where
  "ip_string a =
     (case a of
        IPv4 bs \<Rightarrow> v4_text bs
      | IPv6 gs \<Rightarrow>
          if is_v4 a then v4_text (concat (map (\<lambda>g. [g div 256, g mod 256]) (drop 6 gs))) else v6_text gs)"

section \<open>The API\<close>

datatype ph_request = PhList | PhPut string | PhDelete string

datatype ph_body = PhHosts "string list" | PhText string

type_synonym ph_reply = "perr + (nat \<times> ph_body)"

type_synonym 'w ph_doer = "'w \<Rightarrow> ph_request \<Rightarrow> ph_reply \<times> 'w"

record ph_server =
  ph_hosts :: "string list"
  ph_password :: string
  ph_sessions :: "string list"
  ph_seq :: nat
  ph_unauthorized :: bool
  ph_rate_limited :: bool
  ph_puts :: nat
  ph_deletes :: nat
  ph_logins :: nat

text \<open>What the server accepts as an entry that is not there yet.\<close>

definition entry_valid :: "string \<Rightarrow> bool" where
  "entry_valid entry =
     (let fs = str_fields entry
      in 2 \<le> length fs \<and> parse_ip (fs ! 0) \<noteq> None \<and> \<not> list_ex (\<lambda>c. c \<in> {CHR ''*'', CHR ''/''}) (fs ! 1))"

definition ph_handle :: "bool \<Rightarrow> ph_server \<Rightarrow> ph_request \<Rightarrow> (nat \<times> ph_body) \<times> ph_server" where
  "ph_handle authed s rq =
     (if ph_unauthorized s \<or> \<not> authed then ((401, PhText ''unauthorized''), s)
      else if ph_rate_limited s then ((429, PhText ''rate_limited''), s)
      else (case rq of
              PhList \<Rightarrow> ((200, PhHosts (ph_hosts s)), s)
            | PhPut entry \<Rightarrow>
                if entry = [] then ((400, PhText ''could not decode item''), s)
                else if \<not> entry_valid entry then ((400, PhText ''Invalid value''), s)
                else if entry \<in> set (ph_hosts s) then ((400, PhText ''Item already present''), s)
                else ((201, PhText []), s\<lparr>ph_hosts := ph_hosts s @ [entry], ph_puts := ph_puts s + 1\<rparr>)
            | PhDelete entry \<Rightarrow>
                if entry = [] then ((400, PhText ''could not decode item''), s)
                else if entry \<in> set (ph_hosts s)
                then ((204, PhText []), s\<lparr>ph_hosts := remove1 entry (ph_hosts s), ph_deletes := ph_deletes s + 1\<rparr>)
                else ((404, PhText ''absent''), s)))"

definition ph_direct :: "ph_server ph_doer" where
  "ph_direct s rq = (let (reply, s') = ph_handle True s rq in (Inr reply, s'))"

section \<open>The driver\<close>

record ph_config =
  ph_zone :: string
  ph_scope :: "scope option"
  ph_edge_addr :: string
  ph_targets :: "(string \<times> string) list"
  ph_instance :: string
  ph_zone_in_name :: bool

definition ph_scope_of :: "ph_config \<Rightarrow> scope" where
  "ph_scope_of cfg = (case ph_scope cfg of Some sc \<Rightarrow> sc | None \<Rightarrow> ScopeInternal)"

definition ph_name :: "ph_config \<Rightarrow> string" where
  "ph_name cfg =
     (let name = (if ph_instance cfg \<noteq> [] then ''pihole['' @ ph_instance cfg @ '']'' else ''pihole'')
      in if ph_zone_in_name cfg then name @ ''/'' @ ph_zone cfg else name)"

definition ph_residency :: "ph_config \<Rightarrow> string \<Rightarrow> perr + string" where
  "ph_residency cfg cls =
     (if cls = [] then Inr (ph_edge_addr cfg)
      else (case map_of (ph_targets cfg) cls of
              Some addr \<Rightarrow> if addr \<noteq> [] then Inr addr
                           else Inl (ph_name cfg @ '': no target configured for residency class '' @ cls)
            | None \<Rightarrow> Inl (ph_name cfg @ '': no target configured for residency class '' @ cls)))"

definition ph_record_type :: "ph_config \<Rightarrow> string \<Rightarrow> perr + string" where
  "ph_record_type cfg addr =
     (case parse_ip addr of
        None \<Rightarrow> Inl (ph_name cfg @ '': target is not an IP address '' @ addr)
      | Some a \<Rightarrow> Inr (if is_v4 a then ''A'' else ''AAAA''))"

definition ph_record :: "ph_config \<Rightarrow> string \<Rightarrow> string \<Rightarrow> string \<Rightarrow> dns_record" where
  "ph_record cfg name rtype val = \<lparr>d_name = name, d_type = rtype, d_value = val,
     d_scope = ph_scope_of cfg, d_ttl = 0, d_proxied = False\<rparr>"

definition ph_desired :: "ph_config \<Rightarrow> op \<Rightarrow> perr + dns_record list" where
  "ph_desired cfg op =
     (if o_host op = [] then Inl ''pihole: op has no host''
      else rbind (ph_residency cfg (o_residency op)) (\<lambda>target.
        rbind (ph_record_type cfg target) (\<lambda>rtype. Inr [ph_record cfg (o_host op) rtype target])))"

definition ph_http_err :: "string \<Rightarrow> nat \<Rightarrow> perr option" where
  "ph_http_err what status =
     (if 200 \<le> status \<and> status < 300 then None
      else if status = 401 \<or> status = 403 then Some (''pihole '' @ what @ '': authentication failed'')
      else if status = 429 then Some (''pihole '' @ what @ '': rate limited'')
      else Some (''pihole '' @ what @ '': HTTP''))"

text \<open>\<open>parseHostLine\<close>: a line with aliases is its first host.\<close>

definition parse_host_line :: "string \<Rightarrow> (ip \<times> string) option" where
  "parse_host_line line =
     (let fs = str_fields line
      in if length fs < 2 then None
         else (case parse_ip (fs ! 0) of None \<Rightarrow> None | Some a \<Rightarrow> Some (a, fs ! 1)))"

definition host_record :: "ph_config \<Rightarrow> string \<Rightarrow> dns_record option" where
  "host_record cfg line =
     (case parse_host_line line of
        None \<Rightarrow> None
      | Some (a, host) \<Rightarrow>
          if \<not> under_zone host (ph_zone cfg) then None
          else Some (ph_record cfg host (if is_v4 a then ''A'' else ''AAAA'') (ip_string a)))"

definition ph_live :: "ph_config \<Rightarrow> 'w ph_doer \<Rightarrow> 'w \<Rightarrow> perr + dns_record list" where
  "ph_live cfg send w =
     (case fst (send w PhList) of
        Inl err \<Rightarrow> Inl (''pihole hosts list: '' @ err)
      | Inr (status, body) \<Rightarrow>
          (case ph_http_err ''hosts list'' status of
             Some err \<Rightarrow> Inl err
           | None \<Rightarrow>
               (case body of
                  PhText s \<Rightarrow> if s = [] then Inr [] else Inl ''pihole hosts list: decode''
                | PhHosts ls \<Rightarrow> Inr (List.map_filter (host_record cfg) ls))))"

definition ph_guard :: "ph_config \<Rightarrow> string \<Rightarrow> perr option" where
  "ph_guard cfg name =
     (if CHR ''*'' \<in> set name then Some (ph_name cfg @ '': refusing wildcard host '' @ name)
      else if \<not> under_zone name (ph_zone cfg)
      then Some (ph_name cfg @ '': outside the managed zone '' @ name)
      else None)"

definition ph_by_name :: "dns_record list \<Rightarrow> string \<Rightarrow> dns_record option" where
  "ph_by_name live n = map_of (rev (map (\<lambda>r. (norm_name (d_name r), r)) live)) n"

definition ph_diff_expose :: "ph_config \<Rightarrow> dns_record list \<Rightarrow> dns_record \<Rightarrow> perr + dns_record list" where
  "ph_diff_expose cfg live r =
     (case ph_by_name live (norm_name (d_name r)) of
        None \<Rightarrow> Inr [r]
      | Some cur \<Rightarrow>
          if equal_fold (d_value cur) (d_value r) then Inr []
          else Inl (ph_name cfg @ '': conflicting host entry for '' @ d_name r))"

definition ph_diff_unexpose :: "dns_record list \<Rightarrow> dns_record \<Rightarrow> bool" where
  "ph_diff_unexpose live r =
     (case ph_by_name live (norm_name (d_name r)) of
        None \<Rightarrow> False | Some cur \<Rightarrow> equal_fold (d_value cur) (d_value r))"

definition ph_preview :: "dns_change \<Rightarrow> string" where
  "ph_preview ch =
     (if c_add ch = [] \<and> c_remove ch = [] then ''No changes.'' @ [newline]
      else concat (map (\<lambda>r. ''+ ADD host entry '' @ d_name r @ '' -> '' @ d_value r @ [newline]) (c_add ch))
        @ concat (map (\<lambda>r. ''- DELETE host entry '' @ d_name r @ '' -> '' @ d_value r @ [newline]) (c_remove ch)))"

fun ph_first_guard :: "ph_config \<Rightarrow> dns_record list \<Rightarrow> perr option" where
  "ph_first_guard cfg [] = None"
| "ph_first_guard cfg (r # rs) =
     (case ph_guard cfg (d_name r) of Some err \<Rightarrow> Some err | None \<Rightarrow> ph_first_guard cfg rs)"

definition ph_diff :: "ph_config \<Rightarrow> 'w ph_doer \<Rightarrow> op \<Rightarrow> dns_record list \<Rightarrow> 'w \<Rightarrow> perr + dns_change" where
  "ph_diff cfg send op desired w =
     (case ph_first_guard cfg desired of
        Some err \<Rightarrow> Inl err
      | None \<Rightarrow>
          rbind (ph_live cfg send w) (\<lambda>live.
          rbind (case o_verb op of
                   Expose \<Rightarrow> rbind (rmap (ph_diff_expose cfg live) desired) (\<lambda>adds. Inr (concat adds, []))
                 | Unexpose \<Rightarrow> Inr ([], filter (ph_diff_unexpose live) desired)
                 | Rename \<Rightarrow> Inl ''pihole diff: unknown verb'') (\<lambda>ar.
            let ch = (no_dns_change (ph_scope_of cfg))\<lparr>c_add := fst ar, c_remove := snd ar\<rparr>
            in Inr (ch\<lparr>c_rendered := ph_preview ch\<rparr>))))"

definition entry_path :: "dns_record \<Rightarrow> string" where
  "entry_path r = d_value r @ '' '' @ d_name r"

definition ph_call :: "'w ph_doer \<Rightarrow> string \<Rightarrow> bool \<Rightarrow> ph_request \<Rightarrow> 'w act" where
  "ph_call send what absent_ok rq w =
     (case send w rq of
        (Inl err, w') \<Rightarrow> (Some (''pihole '' @ what @ '': '' @ err), w')
      | (Inr (status, _), w') \<Rightarrow>
          (if absent_ok \<and> status = 404 then None else ph_http_err what status, w'))"

fun ph_call_all :: "ph_config \<Rightarrow> 'w ph_doer \<Rightarrow> string \<Rightarrow> bool \<Rightarrow> (string \<Rightarrow> ph_request) \<Rightarrow> dns_record list \<Rightarrow> 'w act" where
  "ph_call_all cfg send what absent_ok mk [] w = (None, w)"
| "ph_call_all cfg send what absent_ok mk (r # rs) w =
     (case ph_guard cfg (d_name r) of
        Some err \<Rightarrow> (Some err, w)
      | None \<Rightarrow> then_act (ph_call send what absent_ok (mk (entry_path r))) (ph_call_all cfg send what absent_ok mk rs) w)"

definition ph_apply :: "ph_config \<Rightarrow> 'w ph_doer \<Rightarrow> dns_change \<Rightarrow> 'w act" where
  "ph_apply cfg send ch =
     then_act (ph_call_all cfg send ''hosts delete'' True PhDelete (c_remove ch))
       (ph_call_all cfg send ''hosts add'' False PhPut (c_add ch))"

definition pihole :: "ph_config \<Rightarrow> 'w ph_doer \<Rightarrow> 'w dns_provider" where
  "pihole cfg send = \<lparr>dp_name = ph_name cfg, dp_scope = ph_scope_of cfg,
     dp_desired = ph_desired cfg, dp_diff = ph_diff cfg send, dp_apply = ph_apply cfg send,
     dp_live = ph_live cfg send, dp_owns_all = None, dp_coverage = None,
     dp_zone = Some (ph_zone cfg), dp_residency = Some (ph_residency cfg)\<rparr>"

section \<open>The session client\<close>

text \<open>A call as it goes over HTTP: a login with a password, or a request with the session it carries.\<close>

datatype ph_http = PhLogin string | PhSession string ph_request

datatype ph_answer = PhGranted "string option" | PhAnswer nat ph_body

type_synonym 'w ph_wire = "'w \<Rightarrow> ph_http \<Rightarrow> (perr + ph_answer) \<times> 'w"

text \<open>The client keeps the session it was granted last; no session is the empty text.\<close>

definition os_session :: "'w ph_wire \<Rightarrow> string \<Rightarrow> string \<times> 'w \<Rightarrow> (perr + string) \<times> string \<times> 'w" where
  "os_session wire password = (\<lambda>(sid, w).
     if sid \<noteq> [] then (Inr sid, sid, w)
     else (case wire w (PhLogin password) of
             (Inl err, w') \<Rightarrow> (Inl (''pihole auth: '' @ err), [], w')
           | (Inr (PhAnswer status body), w') \<Rightarrow> (Inl ''pihole auth: authentication failed'', [], w')
           | (Inr (PhGranted None), w') \<Rightarrow> (Inl ''pihole auth: no session granted'', [], w')
           | (Inr (PhGranted (Some s)), w') \<Rightarrow>
               if s = [] then (Inl ''pihole auth: no session granted'', [], w') else (Inr s, s, w')))"

definition os_raw :: "'w ph_wire \<Rightarrow> string \<Rightarrow> ph_request \<Rightarrow> string \<times> 'w \<Rightarrow> ph_reply \<times> string \<times> 'w" where
  "os_raw wire sid rq = (\<lambda>(kept, w).
     (case wire w (PhSession sid rq) of
        (Inl err, w') \<Rightarrow> (Inl err, kept, w')
      | (Inr (PhAnswer status body), w') \<Rightarrow> (Inr (status, body), kept, w')
      | (Inr (PhGranted s), w') \<Rightarrow> (Inr (200, PhText ''session''), kept, w')))"

definition os_do :: "string \<Rightarrow> string \<Rightarrow> 'w ph_wire \<Rightarrow> (string \<times> 'w) ph_doer" where
  "os_do base password wire st rq =
     (if base = [] then (Inl ''pihole: no API endpoint configured'', st)
      else (case os_session wire password st of
              (Inl err, st') \<Rightarrow> (Inl err, st')
            | (Inr sid, st') \<Rightarrow>
                (case os_raw wire sid rq st' of
                   (Inl err, st'') \<Rightarrow> (Inl err, st'')
                 | (Inr (status, body), st'') \<Rightarrow>
                     if status \<noteq> 401 then (Inr (status, body), st'')
                     else (case os_session wire password ([], snd st'') of
                             (Inl err, st3) \<Rightarrow> (Inl err, st3)
                           | (Inr sid', st3) \<Rightarrow> os_raw wire sid' rq st3))))"

definition fake_sid :: "nat \<Rightarrow> string" where "fake_sid n = ''fake-sid-'' @ decimal (int n)"

text \<open>\<open>Server.ServeHTTP\<close> with \<open>login\<close> and \<open>checkSID\<close>.\<close>

definition ph_serve :: "ph_server ph_wire" where
  "ph_serve s rq =
     (case rq of
        PhLogin p \<Rightarrow>
          if p \<noteq> ph_password s then (Inr (PhAnswer 401 (PhText ''password incorrect'')), s)
          else (let sid = fake_sid (ph_seq s + 1)
                in (Inr (PhGranted (Some sid)), s\<lparr>ph_seq := ph_seq s + 1, ph_sessions := sid # ph_sessions s,
                    ph_logins := ph_logins s + 1\<rparr>))
      | PhSession sid rq' \<Rightarrow>
          (let (reply, s') = ph_handle (ph_password s = [] \<or> sid \<in> set (ph_sessions s)) s rq'
           in (Inr (PhAnswer (fst reply) (snd reply)), s')))"

definition expire_sessions :: "ph_server \<Rightarrow> ph_server" where
  "expire_sessions s = s\<lparr>ph_sessions := []\<rparr>"

section \<open>The session is transparent\<close>

definition relogged :: "ph_server \<Rightarrow> ph_server \<Rightarrow> bool" where
  "relogged s s' = (\<exists>n ids l. s' = s\<lparr>ph_seq := n, ph_sessions := ids, ph_logins := l\<rparr>)"

lemma relogged_refl: "relogged s s"
proof -
  have "s = s\<lparr>ph_seq := ph_seq s, ph_sessions := ph_sessions s, ph_logins := ph_logins s\<rparr>" by simp
  then show ?thesis unfolding relogged_def by blast
qed

lemma relogged_password: "relogged s s' \<Longrightarrow> ph_password s' = ph_password s"
  by (auto simp: relogged_def)

lemma handle_relogged:
  "relogged s s' \<Longrightarrow> fst (ph_handle a s' rq) = fst (ph_handle a s rq)
     \<and> ph_hosts (snd (ph_handle a s' rq)) = ph_hosts (snd (ph_handle a s rq))
     \<and> ph_password (snd (ph_handle a s' rq)) = ph_password s"
  by (cases rq) (auto simp: relogged_def ph_handle_def)

lemma handle_denied: "fst (fst (ph_handle a s rq)) = 401 \<longleftrightarrow> ph_unauthorized s \<or> \<not> a"
  by (cases rq) (auto simp: ph_handle_def Let_def)

lemma handle_401: "fst (fst (ph_handle a s rq)) = 401 \<Longrightarrow> snd (ph_handle a s rq) = s
    \<and> fst (ph_handle a s rq) = (401, PhText ''unauthorized'')"
  by (cases rq) (auto simp: ph_handle_def Let_def split: if_splits)

definition next_sid :: "ph_server \<Rightarrow> string" where
  "next_sid s = fake_sid (ph_seq s + 1)"

definition granted :: "ph_server \<Rightarrow> ph_server" where
  "granted s = s\<lparr>ph_seq := ph_seq s + 1, ph_sessions := next_sid s # ph_sessions s, ph_logins := ph_logins s + 1\<rparr>"

lemma granted_simps [simp]: "ph_password (granted s) = ph_password s" "next_sid s \<in> set (ph_sessions (granted s))"
  by (simp_all add: granted_def)

lemma relogged_granted: "relogged s (granted s)" "relogged s (granted (granted s))"
  unfolding relogged_def by (auto simp: granted_def)

lemma login_ok: "os_session ph_serve (ph_password s) ([], s) = (Inr (next_sid s), next_sid s, granted s)"
proof -
  have "next_sid s \<noteq> []" by (simp add: next_sid_def fake_sid_def)
  moreover have "ph_serve s (PhLogin (ph_password s)) = (Inr (PhGranted (Some (next_sid s))), granted s)"
    by (simp add: ph_serve_def Let_def granted_def next_sid_def)
  ultimately show ?thesis by (simp add: os_session_def)
qed

lemma raw_fake:
  "os_raw ph_serve sid rq (kept, s) =
     (Inr (fst (ph_handle (ph_password s = [] \<or> sid \<in> set (ph_sessions s)) s rq)), kept,
      snd (ph_handle (ph_password s = [] \<or> sid \<in> set (ph_sessions s)) s rq))"
  by (simp add: os_raw_def ph_serve_def Let_def split_beta)

lemma fresh_call:
  "os_raw ph_serve (next_sid s) rq (kept, granted s) =
     (Inr (fst (ph_handle True (granted s) rq)), kept, snd (ph_handle True (granted s) rq))"
  by (simp add: raw_fake)

lemma os_do_login:
  assumes "base \<noteq> []"
  shows "os_do base (ph_password s) ph_serve ([], s) rq =
     (if fst (fst (ph_handle True (granted s) rq)) \<noteq> 401
      then (Inr (fst (ph_handle True (granted s) rq)), next_sid s, snd (ph_handle True (granted s) rq))
      else (Inr (fst (ph_handle True (granted (granted s)) rq)), next_sid (granted s), snd (ph_handle True (granted (granted s)) rq)))"
proof (cases "fst (fst (ph_handle True (granted s) rq)) = 401")
  case True
  with assms login_ok [of "granted s"] show ?thesis
    by (simp add: os_do_def login_ok fresh_call split_beta handle_401 [OF True])
next
  case False
  with assms show ?thesis by (simp add: os_do_def login_ok fresh_call split_beta)
qed

lemma os_do_held:
  fixes s :: ph_server
  assumes "base \<noteq> []" and "sid \<noteq> []"
  defines "a \<equiv> ph_password s = [] \<or> sid \<in> set (ph_sessions s)"
  shows "os_do base (ph_password s) ph_serve (sid, s) rq =
     (if fst (fst (ph_handle a s rq)) \<noteq> 401 then (Inr (fst (ph_handle a s rq)), sid, snd (ph_handle a s rq))
      else (Inr (fst (ph_handle True (granted s) rq)), next_sid s, snd (ph_handle True (granted s) rq)))"
proof -
  have held: "os_session ph_serve (ph_password s) (sid, s) = (Inr sid, sid, s)" using assms(2) by (simp add: os_session_def)
  show ?thesis
  proof (cases "fst (fst (ph_handle a s rq)) = 401")
    case True
    with assms(1) held show ?thesis
      by (simp add: os_do_def raw_fake login_ok fresh_call split_beta handle_401 [OF True] flip: a_def)
  next
    case False
    with assms(1) held show ?thesis by (simp add: os_do_def raw_fake split_beta flip: a_def)
  qed
qed

text \<open>C26. Over the session-keeping client the driver gets the answers it would get without sessions, and the
  server the same entries, whatever session the client still holds: an expired one is renewed.\<close>

theorem pihole_session_transparent:
  assumes "base \<noteq> []" and "os_do base (ph_password s) ph_serve (sid, s) rq = (reply, sid', s')"
  shows "reply = fst (ph_direct s rq) \<and> ph_hosts s' = ph_hosts (snd (ph_direct s rq)) \<and> ph_password s' = ph_password s"
proof -
  have direct: "ph_direct s rq = (Inr (fst (ph_handle True s rq)), snd (ph_handle True s rq))"
    by (simp add: ph_direct_def split_beta)
  note once = handle_relogged [OF relogged_granted(1) [of s], of True rq]
  note twice = handle_relogged [OF relogged_granted(2) [of s], of True rq]
  note same = handle_relogged [OF relogged_refl, of True s rq]
  show ?thesis
  proof (cases "sid = []")
    case True
    with assms os_do_login [OF assms(1), of s rq] once twice show ?thesis
      unfolding direct by (auto split: if_splits)
  next
    case False
    let ?a = "ph_password s = [] \<or> sid \<in> set (ph_sessions s)"
    have "fst (fst (ph_handle ?a s rq)) \<noteq> 401 \<Longrightarrow> ?a = True" unfolding handle_denied by blast
    with assms os_do_held [OF assms(1) False, of s rq] once same show ?thesis
      unfolding direct by (auto split: if_splits)
  qed
qed

section \<open>The driver keeps the contract\<close>

definition ph_view :: "ph_server \<Rightarrow> string multiset \<times> bool \<times> bool" where
  "ph_view s = (mset (ph_hosts s), ph_unauthorized s, ph_rate_limited s)"

text \<open>A change of one entry that is not there yet, or is there once, spelled as the record spells it.\<close>

definition ph_ready :: "dns_change \<Rightarrow> ph_server \<Rightarrow> bool" where
  "ph_ready ch s =
     (case (c_add ch, c_remove ch) of
        ([r], []) \<Rightarrow> True
      | ([], [r]) \<Rightarrow> entry_valid (entry_path r) \<and> count (mset (ph_hosts s)) (entry_path r) = 1
      | _ \<Rightarrow> False)"

lemma put_call:
  "ph_call ph_direct what False (PhPut e) s = (None, s') \<longleftrightarrow>
     \<not> ph_unauthorized s \<and> \<not> ph_rate_limited s \<and> e \<noteq> [] \<and> entry_valid e \<and> e \<notin> set (ph_hosts s)
     \<and> s' = s\<lparr>ph_hosts := ph_hosts s @ [e], ph_puts := ph_puts s + 1\<rparr>"
  by (auto simp: ph_call_def ph_direct_def ph_handle_def ph_http_err_def)

lemma delete_call:
  "e \<in> set (ph_hosts s) \<Longrightarrow> ph_call ph_direct what True (PhDelete e) s = (None, s') \<longleftrightarrow>
     \<not> ph_unauthorized s \<and> \<not> ph_rate_limited s \<and> e \<noteq> []
     \<and> s' = s\<lparr>ph_hosts := remove1 e (ph_hosts s), ph_deletes := ph_deletes s + 1\<rparr>"
  by (auto simp: ph_call_def ph_direct_def ph_handle_def ph_http_err_def)

lemma call_failed: "ph_call ph_direct what ok rq s = (Some err, s') \<Longrightarrow> s' = s"
  by (cases rq) (auto simp: ph_call_def ph_direct_def ph_handle_def ph_http_err_def Let_def split: if_splits)

lemma ph_apply_one:
  "c_remove ch = [] \<Longrightarrow> c_add ch = [r] \<Longrightarrow> ph_apply cfg send ch w =
     (case ph_guard cfg (d_name r) of Some err \<Rightarrow> (Some err, w) | None \<Rightarrow> ph_call send ''hosts add'' False (PhPut (entry_path r)) w)"
  "c_add ch = [] \<Longrightarrow> c_remove ch = [r] \<Longrightarrow> ph_apply cfg send ch w =
     (case ph_guard cfg (d_name r) of Some err \<Rightarrow> (Some err, w) | None \<Rightarrow> ph_call send ''hosts delete'' True (PhDelete (entry_path r)) w)"
  by (auto simp: ph_apply_def then_act_def split: option.splits prod.splits)

lemma ph_ready_cases:
  assumes "ph_ready ch s"
  obtains (add) r where "c_add ch = [r]" "c_remove ch = []"
  | (remove) r where "c_add ch = []" "c_remove ch = [r]" "entry_valid (entry_path r)"
      "count (mset (ph_hosts s)) (entry_path r) = 1"
  using assms by (auto simp: ph_ready_def split: list.splits)

lemma entry_not_empty: "entry_path r \<noteq> []"
  by (simp add: entry_path_def)

lemma ph_taken_back:
  assumes "ph_ready ch s" and "ph_apply cfg ph_direct ch s = (None, s')" and "ph_view v = ph_view s'"
  shows "\<exists>v'. ph_apply cfg ph_direct (invert_dns ch) v = (None, v') \<and> ph_view v' = ph_view s"
  using assms(1)
proof (cases rule: ph_ready_cases)
  case (add r)
  have g: "ph_guard cfg (d_name r) = None" using assms(2) add by (auto simp: ph_apply_one split: option.splits)
  with assms(2) add have put: "ph_call ph_direct ''hosts add'' False (PhPut (entry_path r)) s = (None, s')"
    by (simp add: ph_apply_one)
  note ok = put [unfolded put_call]
  then have v: "mset (ph_hosts v) = add_mset (entry_path r) (mset (ph_hosts s))" "ph_unauthorized v = ph_unauthorized s"
    "ph_rate_limited v = ph_rate_limited s" using assms(3) by (simp_all add: ph_view_def)
  then have "entry_path r \<in># mset (ph_hosts v)" by simp
  then have "entry_path r \<in> set (ph_hosts v)" by simp
  note del = delete_call [OF this]
  show ?thesis using add g ok v entry_not_empty by (simp add: ph_apply_one invert_dns_def del ph_view_def)
next
  case (remove r)
  have member: "entry_path r \<in> set (ph_hosts s)" using remove(4) by (metis count_eq_zero_iff set_mset_mset zero_neq_one)
  note del = delete_call [OF member]
  have g: "ph_guard cfg (d_name r) = None" using assms(2) remove by (auto simp: ph_apply_one split: option.splits)
  with assms(2) remove have "ph_call ph_direct ''hosts delete'' True (PhDelete (entry_path r)) s = (None, s')"
    by (simp add: ph_apply_one)
  note ok = this [unfolded del]
  then have v: "mset (ph_hosts v) = mset (ph_hosts s) - {#entry_path r#}" "ph_unauthorized v = ph_unauthorized s"
    "ph_rate_limited v = ph_rate_limited s" using assms(3) by (simp_all add: ph_view_def)
  then have "count (mset (ph_hosts v)) (entry_path r) = 0" using remove(4) by simp
  then have "entry_path r \<notin># mset (ph_hosts v)" unfolding count_eq_zero_iff .
  then have absent: "entry_path r \<notin> set (ph_hosts v)" unfolding set_mset_mset .
  have "add_mset (entry_path r) (mset (ph_hosts v)) = mset (ph_hosts s)" using v(1) member by simp
  then show ?thesis using remove g ok v(2,3) absent entry_not_empty
    by (simp add: ph_apply_one invert_dns_def put_call ph_view_def)
qed

interpretation ph: compensating "ph_apply cfg ph_direct" invert_dns ph_view ph_ready for cfg
proof unfold_locales
  fix c s err s' assume "ph_ready c s" and f: "ph_apply cfg ph_direct c s = (Some err, s')"
  then show "ph_view s' = ph_view s"
    by (cases rule: ph_ready_cases) (auto simp: ph_apply_one split: option.splits dest!: call_failed)
qed (rule ph_taken_back)

section \<open>Where the text of an address matters\<close>

definition v6_config :: ph_config where
  "v6_config = \<lparr>ph_zone = ''ex'', ph_scope = None, ph_edge_addr = ''0::1'', ph_targets = [],
     ph_instance = [], ph_zone_in_name = False\<rparr>"

definition idle_pihole :: ph_server where
  "idle_pihole = \<lparr>ph_hosts = [], ph_password = [], ph_sessions = [], ph_seq = 0, ph_unauthorized = False,
     ph_rate_limited = False, ph_puts = 0, ph_deletes = 0, ph_logins = 0\<rparr>"

abbreviation pihole_op :: "verb \<Rightarrow> op" where "pihole_op v \<equiv> mk_op v ''a'' ''a.ex''"

text \<open>An edge address that is not written canonically: the entry is read back in another spelling, so the
  same expose planned again refuses crenel's own entry as a conflict.\<close>

lemma pihole_uncanonical_target_conflicts:
  "(case ph_desired v6_config (pihole_op Expose) of
      Inr ds \<Rightarrow> (case ph_diff v6_config ph_direct (pihole_op Expose) ds idle_pihole of
          Inr ch \<Rightarrow> (case ph_apply v6_config ph_direct ch idle_pihole of
              (e, s') \<Rightarrow> e = None \<and> map_sum (\<lambda>_. ()) (map d_value) (ph_live v6_config ph_direct s') = Inr [''::1'']
                \<and> isl (ph_diff v6_config ph_direct (pihole_op Expose) ds s'))
        | Inl _ \<Rightarrow> False)
    | Inl _ \<Rightarrow> False)"
  by code_simp

text \<open>An entry whose host is written in another case: the planned removal is accepted without effect.\<close>

lemma pihole_unexpose_other_case:
  "(let s = idle_pihole\<lparr>ph_hosts := [''10.0.0.5 A.ex'']\<rparr>; cfg = v6_config\<lparr>ph_edge_addr := ''10.0.0.5''\<rparr> in
    case ph_desired cfg (pihole_op Unexpose) of
      Inr ds \<Rightarrow> (case ph_diff cfg ph_direct (pihole_op Unexpose) ds s of
          Inr ch \<Rightarrow> c_remove ch \<noteq> [] \<and> (case ph_apply cfg ph_direct ch s of (e, s') \<Rightarrow> e = None \<and> ph_hosts s' = ph_hosts s)
        | Inl _ \<Rightarrow> False)
    | Inl _ \<Rightarrow> False)"
  by code_simp

lemma pihole_session_transparent_witness:
  "fst (os_do ''http://pi'' (ph_password idle_pihole) ph_serve (''stale'', idle_pihole\<lparr>ph_hosts := [''10.0.0.5 a.ex'']\<rparr>) PhList)
     = fst (ph_direct (idle_pihole\<lparr>ph_hosts := [''10.0.0.5 a.ex'']\<rparr>) PhList)"
proof -
  let ?s = "idle_pihole\<lparr>ph_hosts := [''10.0.0.5 a.ex'']\<rparr>"
  have "''http://pi'' \<noteq> []" by simp
  from pihole_session_transparent [OF this, of ?s "''stale''" PhList] show ?thesis
    by (metis (no_types) idle_pihole_def ph_server.select_convs(2) ph_server.update_convs(1) prod.collapse)
qed

end
