(* ===== verification/Calls.thy ===== *)
theory Calls
  imports Provider_Contract
begin

text \<open>
  A call of a driver that reads as it goes: a function of its state to an error or a value, and the
  state after it. \<open>call_bind\<close> is Go's \<open>if err != nil { return err }\<close> between two calls, \<open>call_each\<close> a loop that
  returns at the first error, \<open>as_act\<close> forgets the value. \<open>gives P m Q\<close> says that the call keeps the property
  \<open>P\<close> of the state and answers, when it answers, with a value of \<open>Q\<close>.
\<close>

type_synonym ('s, 'a) call = "'s \<Rightarrow> (perr + 'a) \<times> 's"

definition call_return :: "'a \<Rightarrow> ('s, 'a) call" where "call_return x st = (Inr x, st)"
definition call_error :: "perr \<Rightarrow> ('s, 'a) call" where "call_error err st = (Inl err, st)"

definition call_bind :: "('s, 'a) call \<Rightarrow> ('a \<Rightarrow> ('s, 'b) call) \<Rightarrow> ('s, 'b) call" where
  "call_bind m k st = (case m st of (Inl err, st') \<Rightarrow> (Inl err, st') | (Inr x, st') \<Rightarrow> k x st')"

text \<open>\<open>fmt.Errorf("...: %w", err)\<close>.\<close>

definition call_wrap :: "string \<Rightarrow> ('s, 'a) call \<Rightarrow> ('s, 'a) call" where
  "call_wrap what m st = (case m st of (Inl err, st') \<Rightarrow> (Inl (what @ err), st') | (Inr x, st') \<Rightarrow> (Inr x, st'))"

definition call_either :: "perr + 'a \<Rightarrow> ('s, 'a) call" where "call_either r st = (r, st)"

fun call_each :: "('a \<Rightarrow> ('s, unit) call) \<Rightarrow> 'a list \<Rightarrow> ('s, unit) call" where
  "call_each f [] = call_return ()"
| "call_each f (x # xs) = call_bind (f x) (\<lambda>_. call_each f xs)"

definition as_act :: "('s, unit) call \<Rightarrow> 's act" where
  "as_act m st = (case m st of (Inl err, st') \<Rightarrow> (Some err, st') | (Inr _, st') \<Rightarrow> (None, st'))"

lemma bind_simps [simp]:
  "m st = (Inl err, st') \<Longrightarrow> call_bind m k st = (Inl err, st')"
  "m st = (Inr x, st') \<Longrightarrow> call_bind m k st = k x st'"
  by (simp_all add: call_bind_def)

lemma bind_Inr:
  "call_bind m k st = (Inr y, st'') \<longleftrightarrow> (\<exists>x st'. m st = (Inr x, st') \<and> k x st' = (Inr y, st''))"
  by (auto simp: call_bind_def split: prod.splits sum.splits)

lemma wrap_Inr: "call_wrap what m st = (Inr y, st') \<longleftrightarrow> m st = (Inr y, st')"
  by (auto simp: call_wrap_def split: prod.splits sum.splits)

section \<open>Invariants of a call\<close>

definition gives :: "('s \<Rightarrow> bool) \<Rightarrow> ('s, 'a) call \<Rightarrow> ('a \<Rightarrow> bool) \<Rightarrow> bool" where
  "gives P m Q = (\<forall>st. P st \<longrightarrow> P (snd (m st)) \<and> (\<forall>x. fst (m st) = Inr x \<longrightarrow> Q x))"

lemma gives_return [intro]: "Q x \<Longrightarrow> gives P (call_return x) Q"
  by (simp add: gives_def call_return_def)

lemma gives_error [intro]: "gives P (call_error err) Q"
  by (simp add: gives_def call_error_def)

lemma gives_either [intro]: "(\<And>x. r = Inr x \<Longrightarrow> Q x) \<Longrightarrow> gives P (call_either r) Q"
  by (auto simp: gives_def call_either_def)

lemma gives_bind:
  assumes "gives P m Q" and "\<And>x. Q x \<Longrightarrow> gives P (k x) R"
  shows "gives P (call_bind m k) R"
  unfolding gives_def
proof (intro allI impI)
  fix st
  assume "P st"
  obtain r st' where m: "m st = (r, st')" by (cases "m st")
  have "P st'" and "\<forall>x. r = Inr x \<longrightarrow> Q x"
    using assms(1) [unfolded gives_def, rule_format, OF \<open>P st\<close>] m by auto
  then show "P (snd (call_bind m k st)) \<and> (\<forall>x. fst (call_bind m k st) = Inr x \<longrightarrow> R x)"
    using assms(2) [unfolded gives_def] m by (cases r) (auto simp: call_bind_def)
qed

lemma gives_wrap: "gives P m Q \<Longrightarrow> gives P (call_wrap what m) Q"
  by (auto simp: gives_def call_wrap_def split: prod.splits sum.splits)

lemma gives_weaken: "gives P m Q \<Longrightarrow> (\<And>x. Q x \<Longrightarrow> R x) \<Longrightarrow> gives P m R"
  by (simp add: gives_def)

lemma gives_each: "(\<And>x. x \<in> set xs \<Longrightarrow> gives P (f x) (\<lambda>_. True)) \<Longrightarrow> gives P (call_each f xs) (\<lambda>_. True)"
  by (induction xs) (auto intro: gives_bind)

lemma gives_act: "gives P m Q \<Longrightarrow> P st \<Longrightarrow> P (snd (as_act m st))"
  by (auto simp: gives_def as_act_def split: prod.splits sum.splits)

end
