(* ===== verification/Cloudflare.thy ===== *)
theory Cloudflare
  imports Calls Txn Netip Strconv
begin

text \<open>
  The surgical driver for Cloudflare, \<open>internal/drivers/dns/cloudflare/cloudflare.go\<close>, over an
  injected API channel, and the API as the repository's fake states it (\<open>cfapifake/fake.go\<close>). A request
  is the value its method, path and body encode; the reply is a status with the decoded envelope. The
  driver keeps the id of its zone once it has resolved it, so a call is a function of that cache and the
  world. Listing a zone asks for page after page: the model bounds the number of pages by a field of the
  configuration, and the listing lemmas say which bound is enough.
\<close>

section \<open>The API\<close>

record cf_record =
  cf_id :: string
  cf_type :: string
  cf_rname :: string
  cf_content :: string
  cf_ttl :: int
  cf_proxied :: bool
  cf_comment :: string

datatype cf_request =
    CfZones string
  | CfList string nat
  | CfCreate string cf_record
  | CfUpdate string string cf_record
  | CfDelete string string

datatype cf_result = ResZones "(string \<times> string) list" | ResRecords "cf_record list" | ResNone

text \<open>The body: nothing, bytes that do not decode, or an envelope with its error codes, its result and the
  number of pages when it carries one. The result of a mutation is not looked at and left out.\<close>

datatype cf_body = CfEmpty | CfText string | CfEnvelope bool "int list" cf_result "nat option"

type_synonym cf_reply = "perr + (nat \<times> cf_body)"

type_synonym 'w cf_doer = "'w \<Rightarrow> cf_request \<Rightarrow> cf_reply \<times> 'w"

definition cf_norm :: "string \<Rightarrow> string" where
  "cf_norm s = to_lower (trim_suffix ''.'' (trim_space s))"

record cf_server =
  cs_zone_id :: string
  cs_zone_name :: string
  cs_records :: "cf_record list"
  cs_next_id :: nat
  cs_unauthorized :: bool
  cs_rate_limited :: bool
  cs_accept_token :: string
  cs_touched :: "string list"

definition cf_fail :: "nat \<Rightarrow> int \<Rightarrow> nat \<times> cf_body" where
  "cf_fail status code = (status, CfEnvelope False [code] ResNone None)"

definition cf_ok :: "cf_result \<Rightarrow> nat option \<Rightarrow> nat \<times> cf_body" where
  "cf_ok result pages = (200, CfEnvelope True [] result pages)"

definition v4_literal :: "string \<Rightarrow> bool" where
  "v4_literal s = (case parse_ip s of None \<Rightarrow> False | Some a \<Rightarrow> is_v4 a)"

definition v6_literal :: "string \<Rightarrow> bool" where
  "v6_literal s = (case parse_ip s of None \<Rightarrow> False | Some a \<Rightarrow> \<not> is_v4 a)"

definition cs_validate :: "cf_record \<Rightarrow> int option" where
  "cs_validate r =
     (if cf_type r = ''A'' \<and> \<not> v4_literal (cf_content r) then Some 9005
      else if cf_type r = ''AAAA'' \<and> \<not> v6_literal (cf_content r) then Some 9005
      else if cf_proxied r \<and> cf_ttl r \<noteq> 0 \<and> cf_ttl r \<noteq> 1 then Some 9207
      else None)"

definition to_upper :: "string \<Rightarrow> string" where
  "to_upper s = map (\<lambda>c. let n = (of_char c :: int) in if 97 \<le> n \<and> n \<le> 122 then char_of (n - 32) else c) s"

definition cs_stored :: "cf_record \<Rightarrow> cf_record" where
  "cs_stored r = r\<lparr>cf_rname := cf_norm (cf_rname r), cf_type := to_upper (cf_type r)\<rparr>"

definition auto_ttl :: "cf_record \<Rightarrow> cf_record" where
  "auto_ttl r = (if cf_ttl r = 0 then r\<lparr>cf_ttl := 1\<rparr> else r)"

definition cs_page :: "cf_server \<Rightarrow> nat \<Rightarrow> nat \<times> cf_body" where
  "cs_page s page =
     (let total = length (cs_records s)
      in cf_ok (ResRecords (take 100 (drop ((page - 1) * 100) (cs_records s)))) (Some (max 1 ((total + 99) div 100))))"

definition cname_clash :: "cf_record \<Rightarrow> cf_record \<Rightarrow> bool" where
  "cname_clash r x = ((cf_type r = ''CNAME'') \<noteq> (cf_type x = ''CNAME''))"

text \<open>What already stands at the name, in the order of the list: a clash or an identical record.\<close>

definition cs_conflict :: "cf_record \<Rightarrow> cf_record list \<Rightarrow> (nat \<times> int) option" where
  "cs_conflict r xs =
     (case find (\<lambda>x. cf_norm (cf_rname x) = cf_rname r
         \<and> (cname_clash r x \<or> cf_type x = cf_type r \<and> equal_fold (cf_content x) (cf_content r))) xs of
        None \<Rightarrow> None
      | Some x \<Rightarrow> Some (if cname_clash r x then (400, 81053) else (409, 81058)))"

definition record_id :: "nat \<Rightarrow> string" where
  "record_id n = (let d = decimal (int n) in ''rec'' @ replicate (3 - length d) (CHR ''0'') @ d)"

definition cs_create :: "cf_server \<Rightarrow> cf_record \<Rightarrow> (nat \<times> cf_body) \<times> cf_server" where
  "cs_create s r0 =
     (if cf_type r0 = [] \<or> cf_rname r0 = [] \<or> cf_content r0 = [] then (cf_fail 400 1004, s)
      else (let r = cs_stored r0 in
        case cs_validate r of
          Some code \<Rightarrow> (cf_fail 400 code, s)
        | None \<Rightarrow>
            (case cs_conflict r (cs_records s) of
               Some (status, code) \<Rightarrow> (cf_fail status code, s)
             | None \<Rightarrow>
                 (let new = auto_ttl (r\<lparr>cf_id := record_id (cs_next_id s + 1)\<rparr>)
                  in (cf_ok ResNone None,
                      s\<lparr>cs_next_id := cs_next_id s + 1, cs_records := cs_records s @ [new]\<rparr>)))))"

fun put_at :: "string \<Rightarrow> cf_record \<Rightarrow> cf_record list \<Rightarrow> cf_record list" where
  "put_at i r [] = []"
| "put_at i r (x # xs) = (if cf_id x = i then r # xs else x # put_at i r xs)"

fun drop_id :: "string \<Rightarrow> cf_record list \<Rightarrow> cf_record list" where
  "drop_id i [] = []"
| "drop_id i (x # xs) = (if cf_id x = i then xs else x # drop_id i xs)"

definition cs_update :: "cf_server \<Rightarrow> string \<Rightarrow> cf_record \<Rightarrow> (nat \<times> cf_body) \<times> cf_server" where
  "cs_update s0 i r0 =
     (let s = s0\<lparr>cs_touched := cs_touched s0 @ [i]\<rparr> in
      if i \<notin> cf_id ` set (cs_records s) then (cf_fail 404 81044, s)
      else if cf_type r0 = [] \<or> cf_content r0 = [] then (cf_fail 400 1004, s)
      else (let r = cs_stored r0 in
        case cs_validate r of
          Some code \<Rightarrow> (cf_fail 400 code, s)
        | None \<Rightarrow>
            (let new = auto_ttl (r\<lparr>cf_id := i\<rparr>)
             in (cf_ok ResNone None, s\<lparr>cs_records := put_at i new (cs_records s)\<rparr>))))"

definition cs_delete :: "cf_server \<Rightarrow> string \<Rightarrow> (nat \<times> cf_body) \<times> cf_server" where
  "cs_delete s0 i =
     (let s = s0\<lparr>cs_touched := cs_touched s0 @ [i]\<rparr>
      in if i \<notin> cf_id ` set (cs_records s) then (cf_fail 404 81044, s)
         else (cf_ok ResNone None, s\<lparr>cs_records := drop_id i (cs_records s)\<rparr>))"

definition cs_zones :: "cf_server \<Rightarrow> string \<Rightarrow> nat \<times> cf_body" where
  "cs_zones s name =
     cf_ok (ResZones (if cf_norm name = cs_zone_name s \<or> name = [] then [(cs_zone_id s, cs_zone_name s)] else [])) (Some 1)"

definition cs_handle :: "bool \<Rightarrow> cf_server \<Rightarrow> cf_request \<Rightarrow> (nat \<times> cf_body) \<times> cf_server" where
  "cs_handle authed s rq =
     (if cs_unauthorized s \<or> \<not> authed then (cf_fail 403 10000, s)
      else if cs_rate_limited s then (cf_fail 429 971, s)
      else (let routed = (\<lambda>z answer. if z \<noteq> cs_zone_id s then (cf_fail 404 7003, s) else answer) in
        case rq of
          CfZones name \<Rightarrow> (cs_zones s name, s)
        | CfList z page \<Rightarrow> routed z (cs_page s page, s)
        | CfCreate z r \<Rightarrow> routed z (cs_create s r)
        | CfUpdate z i r \<Rightarrow> routed z (cs_update s i r)
        | CfDelete z i \<Rightarrow> routed z (cs_delete s i)))"

definition cs_direct :: "cf_server cf_doer" where
  "cs_direct s rq = (let (reply, s') = cs_handle True s rq in (Inr reply, s'))"

text \<open>\<open>OSDoer.Do\<close> over the fake's HTTP front: the bearer token.\<close>

definition check_bearer :: "cf_server \<Rightarrow> string \<Rightarrow> bool" where
  "check_bearer s tok = (if tok = [] then False else if cs_accept_token s = [] then True else tok = cs_accept_token s)"

definition cs_bearer :: "string \<Rightarrow> cf_server cf_doer" where
  "cs_bearer tok s rq =
     (if tok = [] then (Inl ''cloudflare: no API token configured'', s)
      else (let (reply, s') = cs_handle (check_bearer s tok) s rq in (Inr reply, s')))"

section \<open>The driver\<close>

record cf_config =
  cf_zone_name :: string
  cf_zone_id :: string
  cf_scope :: "scope option"
  cf_edge_addr :: string
  cf_proxied_new :: bool
  cf_ttl_new :: int
  cf_zone_in_name :: bool
  cf_page_bound :: nat

text \<open>The state of a new driver: the cache starts as the configured zone id.\<close>

definition cf_new :: "cf_config \<Rightarrow> 'w \<Rightarrow> string \<times> 'w" where
  "cf_new cfg w = (cf_zone_id cfg, w)"

definition marker_prefix :: string where "marker_prefix = ''managed-by:crenel''"

definition cf_scope_of :: "cf_config \<Rightarrow> scope" where
  "cf_scope_of cfg = (case cf_scope cfg of Some sc \<Rightarrow> sc | None \<Rightarrow> ScopePublic)"

definition cf_name :: "cf_config \<Rightarrow> string" where
  "cf_name cfg = (if cf_zone_in_name cfg then ''cloudflare-api/'' @ cf_zone_name cfg else ''cloudflare-api'')"

definition owned :: "cf_record \<Rightarrow> bool" where
  "owned r = (let c = trim_space (cf_comment r) in c = marker_prefix \<or> has_prefix (marker_prefix @ '' '') c)"

definition marker_for :: "string \<Rightarrow> string" where
  "marker_for name = marker_prefix @ '' host='' @ cf_norm name"

definition fqdn :: "string \<Rightarrow> string \<Rightarrow> string" where
  "fqdn name zone =
     (let n = cf_norm name; z = cf_norm zone
      in if z = [] \<or> n = z \<or> has_suffix (''.'' @ z) n then n else n @ ''.'' @ z)"

definition cf_under_zone :: "string \<Rightarrow> string \<Rightarrow> bool" where
  "cf_under_zone name zone =
     (let n = cf_norm name; z = cf_norm zone in if z = [] then False else n = z \<or> has_suffix (''.'' @ z) n)"

definition ttl_or_auto :: "int \<Rightarrow> int" where "ttl_or_auto ttl = (if ttl \<le> 0 then 1 else ttl)"

definition ttl_for_proxied :: "int \<Rightarrow> bool \<Rightarrow> int" where
  "ttl_for_proxied ttl proxied = (if proxied then 1 else ttl_or_auto ttl)"

definition cf_desired :: "cf_config \<Rightarrow> op \<Rightarrow> perr + dns_record list" where
  "cf_desired cfg op =
     (if o_host op = [] then Inl ''cloudflare: op has no host''
      else Inr [\<lparr>d_name = fqdn (o_host op) (cf_zone_name cfg), d_type = ''A'', d_value = cf_edge_addr cfg,
        d_scope = cf_scope_of cfg, d_ttl = 0, d_proxied = False\<rparr>])"

definition cf_to_model :: "cf_config \<Rightarrow> cf_record \<Rightarrow> dns_record" where
  "cf_to_model cfg r = \<lparr>d_name = cf_norm (cf_rname r), d_type = to_upper (cf_type r), d_value = cf_content r,
     d_scope = cf_scope_of cfg, d_ttl = cf_ttl r, d_proxied = cf_proxied r\<rparr>"

text \<open>A call on the cached zone id and the world.\<close>

type_synonym ('w, 'a) cf_call = "(string \<times> 'w, 'a) call"

definition cf_api_error :: "nat \<Rightarrow> int list \<Rightarrow> perr" where
  "cf_api_error status codes =
     (if status = 403 \<or> 10000 \<in> set codes then ''cloudflare: authentication failed''
      else if status = 429 \<or> 971 \<in> set codes then ''cloudflare: rate limited''
      else ''cloudflare: HTTP'')"

definition cf_api :: "'w cf_doer \<Rightarrow> cf_request \<Rightarrow> ('w, cf_result \<times> nat option) cf_call" where
  "cf_api send rq = (\<lambda>(zid, w).
     (case send w rq of
        (Inl err, w') \<Rightarrow> (Inl (''cloudflare: '' @ err), zid, w')
      | (Inr (status, body), w') \<Rightarrow>
          (let good = (200 \<le> status \<and> status < 300) in
           case body of
             CfText t \<Rightarrow> (Inl (if good then ''cloudflare: decode response'' else ''cloudflare: HTTP''), zid, w')
           | CfEmpty \<Rightarrow> (Inl (cf_api_error status []), zid, w')
           | CfEnvelope success codes result pages \<Rightarrow>
               if \<not> good \<or> \<not> success then (Inl (cf_api_error status codes), zid, w')
               else (Inr (result, pages), zid, w'))))"

definition cf_resolve :: "cf_config \<Rightarrow> 'w cf_doer \<Rightarrow> ('w, string) cf_call" where
  "cf_resolve cfg send = (\<lambda>(zid, w).
     if zid \<noteq> [] then (Inr zid, zid, w)
     else if cf_zone_name cfg = [] then (Inl ''cloudflare: no zone configured'', zid, w)
     else call_bind (cf_api send (CfZones (cf_norm (cf_zone_name cfg)))) (\<lambda>(result, _) (zid', w').
       case result of
         ResZones zs \<Rightarrow>
           (case find (\<lambda>(i, n). equal_fold (cf_norm n) (cf_norm (cf_zone_name cfg))) zs of
              Some (i, _) \<Rightarrow> (Inr i, i, w')
            | None \<Rightarrow> (Inl ''cloudflare: zone not found for this token'', zid', w'))
       | _ \<Rightarrow> (Inl ''cloudflare: decode zones'', zid', w')) (zid, w))"

fun cf_pages :: "'w cf_doer \<Rightarrow> string \<Rightarrow> nat \<Rightarrow> nat \<Rightarrow> ('w, cf_record list) cf_call" where
  "cf_pages send zid page 0 = call_error ''cloudflare: page bound''"
| "cf_pages send zid page (Suc bound) =
     call_bind (cf_api send (CfList zid page)) (\<lambda>(result, pages).
       case result of
         ResRecords recs \<Rightarrow>
           (case pages of
              Some n \<Rightarrow>
                if n \<le> page \<or> recs = [] then call_return recs
                else call_bind (cf_pages send zid (page + 1) bound) (\<lambda>more. call_return (recs @ more))
            | None \<Rightarrow> call_return recs)
       | _ \<Rightarrow> call_error ''cloudflare: decode records'')"

definition cf_list_zone :: "cf_config \<Rightarrow> 'w cf_doer \<Rightarrow> ('w, cf_record list) cf_call" where
  "cf_list_zone cfg send = call_bind (cf_resolve cfg send) (\<lambda>zid. cf_pages send zid 1 (cf_page_bound cfg))"

definition cf_live :: "cf_config \<Rightarrow> 'w cf_doer \<Rightarrow> ('w, dns_record list) cf_call" where
  "cf_live cfg send = call_bind (cf_list_zone cfg send) (\<lambda>all. call_return (map (cf_to_model cfg)
     (filter (\<lambda>r. owned r \<and> cf_under_zone (cf_rname r) (cf_zone_name cfg)) all)))"

definition cf_coverage :: "cf_config \<Rightarrow> 'w cf_doer \<Rightarrow> ('w, dns_record list) cf_call" where
  "cf_coverage cfg send = call_bind (cf_list_zone cfg send) (\<lambda>all. call_return (map (cf_to_model cfg)
     (filter (\<lambda>r. cf_under_zone (cf_rname r) (cf_zone_name cfg)) all)))"

definition cf_guard :: "cf_config \<Rightarrow> string \<Rightarrow> perr option" where
  "cf_guard cfg name =
     (if CHR ''*'' \<in> set name then Some ''cloudflare: refusing wildcard record''
      else (let nf = cf_norm name
            in if cf_under_zone nf (cf_zone_name cfg) \<or> CHR ''.'' \<notin> set nf then None
               else Some ''cloudflare: outside the managed zone''))"

definition at_name :: "cf_config \<Rightarrow> string \<Rightarrow> string \<Rightarrow> cf_record \<Rightarrow> bool" where
  "at_name cfg name typ r =
     (fqdn (cf_rname r) (cf_zone_name cfg) = fqdn name (cf_zone_name cfg) \<and> to_upper (cf_type r) = to_upper typ)"

definition cf_ours :: "cf_config \<Rightarrow> cf_record list \<Rightarrow> string \<Rightarrow> string \<Rightarrow> cf_record list" where
  "cf_ours cfg all name typ = filter (\<lambda>r. at_name cfg name typ r \<and> owned r) all"

definition cf_foreign :: "cf_config \<Rightarrow> cf_record list \<Rightarrow> string \<Rightarrow> string \<Rightarrow> cf_record list" where
  "cf_foreign cfg all name typ = filter (\<lambda>r. at_name cfg name typ r \<and> \<not> owned r) all"

definition foreign_conflict :: perr where
  "foreign_conflict = ''cloudflare: refusing to expose: a record crenel does NOT own already exists there''"

definition cf_diff_expose :: "cf_config \<Rightarrow> cf_record list \<Rightarrow> dns_record \<Rightarrow> perr + dns_record list" where
  "cf_diff_expose cfg all want =
     (let ours = cf_ours cfg all (d_name want) (d_type want); foreign = cf_foreign cfg all (d_name want) (d_type want)
      in case ours of
           [] \<Rightarrow> if foreign \<noteq> [] then Inl foreign_conflict else Inr [want]
         | [o'] \<Rightarrow> if equal_fold (cf_content o') (d_value want) then Inr [] else Inr [want]
         | _ \<Rightarrow> Inl ''cloudflare: refusing expose: several crenel-owned records already exist'')"

definition cf_preview :: "dns_change \<Rightarrow> string" where
  "cf_preview ch =
     (if c_add ch = [] \<and> c_remove ch = [] then ''No changes.'' @ [newline]
      else concat (map (\<lambda>r. ''+ CREATE/UPDATE '' @ d_type r @ '' '' @ d_name r @ '' -> '' @ d_value r
             @ '' ['' @ marker_prefix @ '']'' @ [newline]) (c_add ch))
        @ concat (map (\<lambda>r. ''- DELETE '' @ d_type r @ '' '' @ d_name r @ '' -> '' @ d_value r @ '' [owned]'' @ [newline]) (c_remove ch)))"

definition first_some :: "('a \<Rightarrow> 'b option) \<Rightarrow> 'a list \<Rightarrow> 'b option" where
  "first_some f xs = (case List.map_filter f xs of [] \<Rightarrow> None | y # _ \<Rightarrow> Some y)"

definition cf_diff :: "cf_config \<Rightarrow> 'w cf_doer \<Rightarrow> op \<Rightarrow> dns_record list \<Rightarrow> ('w, dns_change) cf_call" where
  "cf_diff cfg send op desired =
     (case first_some (cf_guard cfg \<circ> d_name) desired of
        Some err \<Rightarrow> call_error err
      | None \<Rightarrow>
          call_bind (cf_list_zone cfg send) (\<lambda>all.
            case (case o_verb op of
                Expose \<Rightarrow> rbind (rmap (cf_diff_expose cfg all) desired) (\<lambda>adds. Inr (concat adds, []))
              | Unexpose \<Rightarrow> Inr ([], concat (map (\<lambda>want. map (cf_to_model cfg) (cf_ours cfg all (d_name want) (d_type want))) desired))
              | Rename \<Rightarrow> Inl ''cloudflare diff: unknown verb'') of
              Inl err \<Rightarrow> call_error err
            | Inr (adds, removes) \<Rightarrow>
                (let ch = \<lparr>c_scope = cf_scope_of cfg, c_add = adds, c_remove = removes, c_managed = desired, c_rendered = []\<rparr>
                 in call_return (ch\<lparr>c_rendered := cf_preview ch\<rparr>))))"

definition validate_content :: "dns_record \<Rightarrow> perr option" where
  "validate_content r =
     (if to_upper (d_type r) = ''A'' \<and> \<not> v4_literal (d_value r) then Some ''cloudflare: not a valid IPv4 address''
      else if to_upper (d_type r) = ''AAAA'' \<and> \<not> v6_literal (d_value r) then Some ''cloudflare: not a valid IPv6 address''
      else None)"

definition cf_new_record :: "cf_config \<Rightarrow> dns_record \<Rightarrow> cf_record" where
  "cf_new_record cfg r = \<lparr>cf_id = [], cf_type = to_upper (d_type r), cf_rname = fqdn (d_name r) (cf_zone_name cfg),
     cf_content = d_value r, cf_ttl = ttl_for_proxied (cf_ttl_new cfg) (cf_proxied_new cfg),
     cf_proxied = cf_proxied_new cfg, cf_comment = marker_for (d_name r)\<rparr>"

definition cf_updated_record :: "cf_config \<Rightarrow> cf_record \<Rightarrow> dns_record \<Rightarrow> cf_record" where
  "cf_updated_record cfg target r = \<lparr>cf_id = [], cf_type = to_upper (d_type r), cf_rname = fqdn (d_name r) (cf_zone_name cfg),
     cf_content = d_value r, cf_ttl = ttl_for_proxied (cf_ttl target) (cf_proxied target), cf_proxied = cf_proxied target,
     cf_comment = (if cf_comment target = [] then marker_for (d_name r) else cf_comment target)\<rparr>"

definition create_record :: "cf_config \<Rightarrow> 'w cf_doer \<Rightarrow> dns_record \<Rightarrow> ('w, unit) cf_call" where
  "create_record cfg send r = call_bind (cf_resolve cfg send) (\<lambda>zid.
     case validate_content r of
       Some err \<Rightarrow> call_error err
     | None \<Rightarrow> call_bind (cf_api send (CfCreate zid (cf_new_record cfg r))) (\<lambda>_. call_return ()))"

definition update_record :: "cf_config \<Rightarrow> 'w cf_doer \<Rightarrow> cf_record \<Rightarrow> dns_record \<Rightarrow> ('w, unit) cf_call" where
  "update_record cfg send target r =
     (if \<not> owned target then call_error ''cloudflare: refusing to update: not owned''
      else call_bind (cf_resolve cfg send) (\<lambda>zid.
        case validate_content r of
          Some err \<Rightarrow> call_error err
        | None \<Rightarrow> call_bind (cf_api send (CfUpdate zid (cf_id target) (cf_updated_record cfg target r))) (\<lambda>_. call_return ())))"

definition delete_record :: "cf_config \<Rightarrow> 'w cf_doer \<Rightarrow> cf_record \<Rightarrow> ('w, unit) cf_call" where
  "delete_record cfg send target =
     (if \<not> owned target then call_error ''cloudflare: refusing to delete: not owned''
      else call_bind (cf_resolve cfg send) (\<lambda>zid.
        call_bind (cf_api send (CfDelete zid (cf_id target))) (\<lambda>_. call_return ())))"

definition cf_add_one :: "cf_config \<Rightarrow> 'w cf_doer \<Rightarrow> cf_record list \<Rightarrow> dns_record \<Rightarrow> ('w, unit) cf_call" where
  "cf_add_one cfg send all add =
     (let ours = cf_ours cfg all (d_name add) (d_type add); foreign = cf_foreign cfg all (d_name add) (d_type add)
      in case ours of
           [] \<Rightarrow> if foreign \<noteq> [] then call_error foreign_conflict else create_record cfg send add
         | [o'] \<Rightarrow> update_record cfg send o' add
         | _ \<Rightarrow> call_error ''cloudflare: refusing to update: several crenel-owned records exist'')"

definition cf_apply :: "cf_config \<Rightarrow> 'w cf_doer \<Rightarrow> dns_change \<Rightarrow> ('w, unit) cf_call" where
  "cf_apply cfg send ch = call_bind (cf_list_zone cfg send) (\<lambda>all.
     call_bind (call_each (\<lambda>rem. call_each (delete_record cfg send) (cf_ours cfg all (d_name rem) (d_type rem))) (c_remove ch)) (\<lambda>_.
       call_each (cf_add_one cfg send all) (c_add ch)))"

text \<open>The port: reads forget the cache, an action keeps it.\<close>

definition cloudflare :: "cf_config \<Rightarrow> 'w cf_doer \<Rightarrow> (string \<times> 'w) dns_provider" where
  "cloudflare cfg send = \<lparr>dp_name = cf_name cfg, dp_scope = cf_scope_of cfg, dp_desired = cf_desired cfg,
     dp_diff = (\<lambda>op ds st. fst (cf_diff cfg send op ds st)), dp_apply = (\<lambda>ch. as_act (cf_apply cfg send ch)),
     dp_live = (\<lambda>st. fst (cf_live cfg send st)), dp_owns_all = Some True,
     dp_coverage = Some (\<lambda>st. fst (cf_coverage cfg send st)), dp_zone = Some (cf_zone_name cfg), dp_residency = None\<rparr>"

section \<open>Listing a zone\<close>

definition answering :: "cf_server \<Rightarrow> bool" where
  "answering s = (\<not> cs_unauthorized s \<and> \<not> cs_rate_limited s)"

definition page_count :: "cf_server \<Rightarrow> nat" where
  "page_count s = max 1 ((length (cs_records s) + 99) div 100)"

lemma api_list:
  "answering s \<Longrightarrow> cf_api cs_direct (CfList (cs_zone_id s) page) (zid, s) =
     (Inr (ResRecords (take 100 (drop ((page - 1) * 100) (cs_records s))), Some (page_count s)), zid, s)"
  by (simp add: cf_api_def cs_direct_def cs_handle_def answering_def cs_page_def cf_ok_def page_count_def Let_def)

lemma pages_complete:
  assumes "answering s" and "1 \<le> page" and "page_count s < page + bound" and "0 < bound"
  shows "cf_pages cs_direct (cs_zone_id s) page bound (zid, s) = (Inr (drop ((page - 1) * 100) (cs_records s)), zid, s)"
  using assms(2-)
proof (induction bound arbitrary: page)
  case (Suc bound)
  let ?rest = "drop ((page - 1) * 100) (cs_records s)"
  show ?case
  proof (cases "page_count s \<le> page \<or> take 100 ?rest = []")
    case True
    have "length ?rest \<le> 100"
    proof (cases "take 100 ?rest = []")
      case False
      with True have "(length (cs_records s) + 99) div 100 \<le> page" by (simp add: page_count_def)
      with Suc.prems(1) show ?thesis by simp
    qed simp
    with True show ?thesis by (auto simp: call_bind_def api_list [OF assms(1)] call_return_def)
  next
    case False
    with Suc.prems have "cf_pages cs_direct (cs_zone_id s) (page + 1) bound (zid, s)
        = (Inr (drop (page * 100) (cs_records s)), zid, s)"
      using Suc.IH [of "page + 1"] by simp
    moreover have "take 100 ?rest @ drop (page * 100) (cs_records s) = ?rest"
    proof -
      have "page * 100 = 100 + (page - 1) * 100" using Suc.prems(1) by (simp add: algebra_simps)
      then have "drop (page * 100) (cs_records s) = drop 100 ?rest" by simp
      then show ?thesis by (simp only: append_take_drop_id)
    qed
    ultimately show ?thesis using False
      by (simp add: call_bind_def api_list [OF assms(1)] call_return_def)
  qed
qed simp

text \<open>The cached zone id is the server's, or the zone is found by its name.\<close>

definition knows_zone :: "cf_config \<Rightarrow> string \<times> cf_server \<Rightarrow> bool" where
  "knows_zone cfg st = (fst st = cs_zone_id (snd st) \<and> fst st \<noteq> []
     \<or> fst st = [] \<and> cf_zone_name cfg \<noteq> [] \<and> cf_norm (cf_zone_name cfg) = cs_zone_name (snd st)
       \<and> equal_fold (cf_norm (cs_zone_name (snd st))) (cf_norm (cf_zone_name cfg))
       \<and> cf_norm (cf_norm (cf_zone_name cfg)) = cf_norm (cf_zone_name cfg))"

lemma resolve_known:
  assumes "answering s" and "knows_zone cfg (zid, s)"
  shows "cf_resolve cfg cs_direct (zid, s) = (Inr (cs_zone_id s), cs_zone_id s, s)"
proof (cases "zid = []")
  case True
  with assms have n: "cf_zone_name cfg \<noteq> []" "cf_norm (cf_zone_name cfg) = cs_zone_name s"
    "equal_fold (cf_norm (cs_zone_name s)) (cf_norm (cf_zone_name cfg))"
    "cf_norm (cf_norm (cf_zone_name cfg)) = cf_norm (cf_zone_name cfg)" by (auto simp: knows_zone_def)
  have "cf_api cs_direct (CfZones (cf_norm (cf_zone_name cfg))) ([], s) = (Inr (ResZones [(cs_zone_id s, cs_zone_name s)], Some 1), [], s)"
    using assms(1) n(2,4) by (simp add: cf_api_def cs_direct_def cs_handle_def answering_def cs_zones_def cf_ok_def Let_def)
  with True n show ?thesis by (simp add: cf_resolve_def)
next
  case False
  with assms(2) show ?thesis by (auto simp: cf_resolve_def knows_zone_def)
qed

text \<open>C25. Listing a zone ends with every record of it, in order: as many pages as the zone has hundreds of
  records are enough, and any larger bound gives the same.\<close>

theorem cloudflare_listing_complete:
  assumes "answering s" and "knows_zone cfg (zid, s)" and "max 1 ((length (cs_records s) + 99) div 100) \<le> cf_page_bound cfg"
  shows "cf_list_zone cfg cs_direct (zid, s) = (Inr (cs_records s), cs_zone_id s, s)"
  using pages_complete [OF assms(1), of 1 "cf_page_bound cfg" "cs_zone_id s"] assms(3)
  by (simp add: cf_list_zone_def call_bind_def resolve_known [OF assms(1,2)] page_count_def)

section \<open>Foreign records\<close>

definition foreign_records :: "cf_server \<Rightarrow> cf_record list" where
  "foreign_records s = filter (\<lambda>r. \<not> owned r) (cs_records s)"

text \<open>A call that keeps a property of the server, whatever the cache.\<close>

abbreviation keeping :: "('w \<Rightarrow> bool) \<Rightarrow> ('w, 'a) cf_call \<Rightarrow> ('a \<Rightarrow> bool) \<Rightarrow> bool" where
  "keeping P \<equiv> gives (\<lambda>st. P (snd st))"

lemma keeping_api:
  assumes "\<And>s. P s \<Longrightarrow> P (snd (cs_handle True s rq))"
    and "\<And>s st codes res pages. P s \<Longrightarrow> fst (cs_handle True s rq) = (st, CfEnvelope True codes res pages) \<Longrightarrow> Q (res, pages)"
  shows "keeping P (cf_api cs_direct rq) Q"
  using assms by (auto simp: gives_def cf_api_def cs_direct_def Let_def split: prod.splits cf_body.splits; metis fst_conv snd_conv)

lemma keeping_resolve: "keeping P (cf_resolve cfg cs_direct) (\<lambda>_. True)"
proof -
  have "snd (cs_handle True s (CfZones n)) = s" for s n by (simp add: cs_handle_def Let_def)
  then have "keeping P (cf_api cs_direct (CfZones n)) (\<lambda>_. True)" for n by (intro keeping_api) simp_all
  then show ?thesis
    unfolding gives_def cf_resolve_def call_bind_def
    by (auto split: prod.splits sum.splits cf_result.splits option.splits) (metis snd_conv)+
qed

lemma keeping_pages: "keeping (\<lambda>s. s = s0) (cf_pages cs_direct zid page bound) (\<lambda>rs. set rs \<subseteq> set (cs_records s0))"
proof (induction bound arbitrary: page)
  case (Suc bound)
  have api: "keeping (\<lambda>s. s = s0) (cf_api cs_direct (CfList zid page))
      (\<lambda>(res, _). \<forall>rs. res = ResRecords rs \<longrightarrow> set rs \<subseteq> set (cs_records s0))"
    by (intro keeping_api) (auto simp: cs_handle_def cs_page_def cf_ok_def cf_fail_def Let_def
        split: if_splits dest!: in_set_takeD in_set_dropD)
  show ?case
    by (auto intro!: gives_bind [OF api] gives_bind [OF Suc.IH] gives_return gives_error split: cf_result.splits option.splits; blast)
qed auto

lemma keeping_list: "keeping (\<lambda>s. s = s0) (cf_list_zone cfg cs_direct) (\<lambda>rs. set rs \<subseteq> set (cs_records s0))"
  unfolding cf_list_zone_def by (rule gives_bind [OF keeping_resolve keeping_pages])

text \<open>The foreign records are \<open>F\<close>, and the ids of \<open>I\<close> stand for crenel's own.\<close>

definition guarded :: "cf_record list \<Rightarrow> string set \<Rightarrow> cf_server \<Rightarrow> bool" where
  "guarded F I s = (foreign_records s = F \<and> (\<forall>r \<in> set (cs_records s). cf_id r \<in> I \<longrightarrow> owned r))"

lemma owned_simps [simp]: "owned (r\<lparr>cf_id := i\<rparr>) = owned r" "owned (auto_ttl r) = owned r" "owned (cs_stored r) = owned r"
  "cf_id (auto_ttl r) = cf_id r"
  by (simp_all add: owned_def auto_ttl_def cs_stored_def)

lemma guarded_drop: "\<forall>x \<in> set xs. cf_id x = i \<longrightarrow> owned x \<Longrightarrow>
    filter (\<lambda>r. \<not> owned r) (drop_id i xs) = filter (\<lambda>r. \<not> owned r) xs \<and> set (drop_id i xs) \<subseteq> set xs"
  by (induction xs) auto

lemma guarded_put: "\<forall>x \<in> set xs. cf_id x = i \<longrightarrow> owned x \<Longrightarrow> owned r \<Longrightarrow>
    filter (\<lambda>r. \<not> owned r) (put_at i r xs) = filter (\<lambda>r. \<not> owned r) xs \<and> set (put_at i r xs) \<subseteq> insert r (set xs)"
  by (induction xs) auto

lemma guarded_delete: "guarded F I s \<Longrightarrow> i \<in> I \<Longrightarrow> guarded F I (snd (cs_delete s i))"
  using guarded_drop [of "cs_records s" i] by (auto simp: guarded_def foreign_records_def cs_delete_def Let_def)

lemma guarded_update: "guarded F I s \<Longrightarrow> i \<in> I \<Longrightarrow> owned r \<Longrightarrow> guarded F I (snd (cs_update s i r))"
  using guarded_put [of "cs_records s" i "auto_ttl (cs_stored r\<lparr>cf_id := i\<rparr>)"]
  by (auto simp: guarded_def foreign_records_def cs_update_def Let_def split: option.splits)

lemma guarded_create: "guarded F I s \<Longrightarrow> owned r \<Longrightarrow> guarded F I (snd (cs_create s r))"
  by (auto simp: guarded_def foreign_records_def cs_create_def Let_def split: option.splits)

lemma marker_owned: "cf_comment r = marker_for name \<Longrightarrow> owned r"
proof -
  assume c: "cf_comment r = marker_for name"
  have keep: "\<exists>t. rev (dropWhile is_space (rev (a @ ''='' @ b))) = a @ ''='' @ t" for a b
  proof (cases "\<forall>x \<in> set b. is_space x")
    case True
    then show ?thesis by (auto simp: dropWhile_append is_space_def)
  next
    case False
    then show ?thesis by (auto simp: dropWhile_append)
  qed
  have "trim_space (marker_for name) = rev (dropWhile is_space (rev (''managed-by:crenel host'' @ ''='' @ cf_norm name)))"
    by (simp add: trim_space_def marker_for_def marker_prefix_def is_space_def)
  with keep [of "''managed-by:crenel host''" "cf_norm name"] c show ?thesis
    by (auto simp: owned_def Let_def marker_prefix_def)
qed

lemma owned_comment: "owned r \<Longrightarrow> cf_comment r' = cf_comment r \<Longrightarrow> owned r'"
  by (simp add: owned_def)

lemma keeping_mutation:
  assumes "\<And>s. guarded F I s \<Longrightarrow> guarded F I (snd (cs_handle True s rq))"
  shows "keeping (guarded F I) (call_bind (cf_api cs_direct rq) (\<lambda>_. call_return ())) (\<lambda>_. True)"
  by (rule gives_bind [where Q = "\<lambda>_. True"]) (auto intro: keeping_api assms)

lemma keeping_create: "keeping (guarded F I) (create_record cfg cs_direct r) (\<lambda>_. True)"
proof -
  have "owned (cf_new_record cfg r)" by (rule marker_owned) (simp add: cf_new_record_def)
  then show ?thesis unfolding create_record_def
    by (intro gives_bind [OF keeping_resolve])
      (auto intro!: keeping_mutation simp: cs_handle_def Let_def guarded_create split: option.splits)
qed

lemma keeping_update:
  assumes "cf_id target \<in> I"
  shows "keeping (guarded F I) (update_record cfg cs_direct target r) (\<lambda>_. True)"
proof (cases "owned target")
  case True
  then have "owned (cf_updated_record cfg target r)"
    by (cases "cf_comment target = []") (auto intro: marker_owned owned_comment simp: cf_updated_record_def)
  with assms True show ?thesis unfolding update_record_def
    by (auto intro!: gives_bind [OF keeping_resolve] keeping_mutation simp: cs_handle_def Let_def guarded_update split: option.splits)
qed (auto simp: update_record_def)

lemma keeping_delete:
  assumes "cf_id target \<in> I"
  shows "keeping (guarded F I) (delete_record cfg cs_direct target) (\<lambda>_. True)"
  using assms unfolding delete_record_def
  by (auto intro!: gives_bind [OF keeping_resolve] keeping_mutation simp: cs_handle_def Let_def guarded_delete)

lemma keeping_changes:
  assumes "cf_id ` {r \<in> set all. owned r} \<subseteq> I"
  shows "keeping (guarded F I) (call_bind (call_each (\<lambda>rem. call_each (delete_record cfg cs_direct) (cf_ours cfg all (d_name rem) (d_type rem))) (c_remove ch))
     (\<lambda>_. call_each (cf_add_one cfg cs_direct all) (c_add ch))) (\<lambda>_. True)"
proof -
  have ours: "cf_id r \<in> I" if "r \<in> set (cf_ours cfg all n t)" for r n t
    using that assms by (auto simp: cf_ours_def)
  have "keeping (guarded F I) (cf_add_one cfg cs_direct all add) (\<lambda>_. True)" for add
    unfolding cf_add_one_def Let_def using ours [of _ "d_name add" "d_type add"]
    by (auto split: list.splits intro: keeping_create keeping_update)
  then show ?thesis
    by (intro gives_bind [OF gives_each] gives_each keeping_delete) (auto intro: ours)
qed

text \<open>C24. Whatever change it is handed, an apply leaves every record of the zone that carries no
  marker of crenel's as it was and where it was, also when the zone's listing, an update or a delete fails
  half-way.\<close>

theorem cloudflare_foreign_untouched:
  assumes "distinct (map cf_id (cs_records s))"
  shows "foreign_records (snd (snd (cf_apply cfg cs_direct ch (zid, s)))) = foreign_records s"
proof -
  let ?I = "cf_id ` {r \<in> set (cs_records s). owned r}"
  obtain r zid' s' where list: "cf_list_zone cfg cs_direct (zid, s) = (r, zid', s')" by (metis prod.collapse)
  with keeping_list [of s cfg] have s': "s' = s" and all: "\<forall>rs. r = Inr rs \<longrightarrow> set rs \<subseteq> set (cs_records s)"
    unfolding gives_def by (metis fst_conv snd_conv)+
  have start: "guarded (foreign_records s) ?I s"
    unfolding guarded_def
  proof (intro conjI ballI impI refl)
    fix r
    assume r: "r \<in> set (cs_records s)" and "cf_id r \<in> ?I"
    then obtain r' where r': "r' \<in> set (cs_records s)" "owned r'" "cf_id r = cf_id r'" by blast
    with assms r have "r = r'" by (simp add: distinct_map inj_on_def)
    with r' show "owned r" by simp
  qed
  show ?thesis
  proof (cases r)
    case (Inr rs)
    with all have "cf_id ` {r \<in> set rs. owned r} \<subseteq> ?I" by blast
    from keeping_changes [OF this, of "foreign_records s" cfg ch, unfolded gives_def snd_conv, rule_format, of "(zid', s)", unfolded snd_conv, OF start]
    have "guarded (foreign_records s) ?I (snd (snd (cf_apply cfg cs_direct ch (zid, s))))"
      unfolding cf_apply_def call_bind_def [where m = "cf_list_zone cfg cs_direct"] list [unfolded Inr s'] sum.case prod.case
      by (rule conjunct1)
    then show ?thesis by (simp only: guarded_def)
  qed (use list s' in \<open>simp add: cf_apply_def\<close>)
qed

section \<open>Runs\<close>

definition run_config :: cf_config where
  "run_config = \<lparr>cf_zone_name = ''x.com'', cf_zone_id = [], cf_scope = None, cf_edge_addr = ''1.2.3.4'',
     cf_proxied_new = False, cf_ttl_new = 0, cf_zone_in_name = False, cf_page_bound = 2\<rparr>"

definition run_record :: "string \<Rightarrow> string \<Rightarrow> string \<Rightarrow> string \<Rightarrow> cf_record" where
  "run_record i n v c = \<lparr>cf_id = i, cf_type = ''A'', cf_rname = n, cf_content = v, cf_ttl = 300, cf_proxied = False, cf_comment = c\<rparr>"

definition run_server :: "cf_record list \<Rightarrow> cf_server" where
  "run_server rs = \<lparr>cs_zone_id = ''z'', cs_zone_name = ''x.com'', cs_records = rs, cs_next_id = 7, cs_unauthorized = False,
     cs_rate_limited = False, cs_accept_token = [], cs_touched = []\<rparr>"

definition run_zone :: cf_server where
  "run_zone = run_server [run_record ''f'' ''m.x.com'' ''9.9.9.9'' [], run_record ''o'' ''g.x.com'' ''5.6.7.8'' ''managed-by:crenel'']"

definition run_want :: "string \<Rightarrow> dns_record" where
  "run_want n = \<lparr>d_name = n, d_type = ''A'', d_value = ''1.2.3.4'', d_scope = ScopePublic, d_ttl = 0, d_proxied = False\<rparr>"

definition run_change :: "dns_record list \<Rightarrow> dns_record list \<Rightarrow> dns_change" where
  "run_change adds removes = \<lparr>c_scope = ScopePublic, c_add = adds, c_remove = removes, c_managed = [], c_rendered = []\<rparr>"

theorem cloudflare_listing_complete_witness:
  "cf_list_zone run_config cs_direct ([], run_zone) = (Inr (cs_records run_zone), ''z'', run_zone)"
proof -
  have "answering run_zone" "knows_zone run_config ([], run_zone)"
    "max 1 ((length (cs_records run_zone) + 99) div 100) \<le> cf_page_bound run_config" by code_simp+
  from cloudflare_listing_complete [OF this] show ?thesis by (simp add: run_zone_def run_server_def)
qed

theorem cloudflare_foreign_untouched_witness:
  "foreign_records (snd (snd (cf_apply run_config cs_direct (run_change [run_want ''g.x.com''] []) ([], run_zone))))
     = [run_record ''f'' ''m.x.com'' ''9.9.9.9'' []]
   \<and> fst (cf_apply run_config cs_direct (run_change [run_want ''g.x.com''] []) ([], run_zone)) = Inr ()"
proof
  have "distinct (map cf_id (cs_records run_zone))" by code_simp
  from cloudflare_foreign_untouched [OF this]
  show "foreign_records (snd (snd (cf_apply run_config cs_direct (run_change [run_want ''g.x.com''] []) ([], run_zone))))
     = [run_record ''f'' ''m.x.com'' ''9.9.9.9'' []]"
    by (rule trans) code_simp
  show "fst (cf_apply run_config cs_direct (run_change [run_want ''g.x.com''] []) ([], run_zone)) = Inr ()"
    by code_simp
qed

text \<open>Diff states an update as an addition, with nothing of the old value; the inverse of an addition is a
  removal. Taking back an expose that changed the value of a record of crenel's deletes that record.\<close>

lemma cloudflare_update_not_taken_back:
  "let d = (case fst (cf_diff run_config cs_direct (mk_op Expose ''g'' ''g.x.com'') [run_want ''g.x.com''] ([], run_zone)) of Inr d \<Rightarrow> d | Inl _ \<Rightarrow> run_change [] []);
       (r, st) = cf_apply run_config cs_direct d ([], run_zone); (r', st') = cf_apply run_config cs_direct (invert_dns d) st
   in r = Inr () \<and> r' = Inr () \<and> filter owned (cs_records (snd st')) = []"
  by code_simp

end
