(* ===== verification/Dnscontrol.thy ===== *)
theory Dnscontrol
  imports Txn Strconv
begin

text \<open>
  The driver that delegates to the tool dnscontrol, \<open>internal/drivers/dns/dnscontrol\<close>: \<open>dnscontrol.go\<close>,
  \<open>render.go\<close>, and the tool's shell as the repository's fake states it (\<open>dnscontrolfake\<close>). A shell runs a
  command in a directory, which holds the rendered zone and the credentials; every call has a
  directory of its own. A record of credentials is the value its JSON encodes. In \<open>%q\<close> a byte above 127
  stands for itself, as in a text of printable runes.
\<close>

section \<open>Rendering\<close>

record dc_provider =
  pv_key :: string
  pv_type :: string
  pv_registrar :: string
  pv_creds :: "(string \<times> string) list"

definition dq :: char where "dq = CHR 0x22"

definition hex_digit :: "nat \<Rightarrow> char" where
  "hex_digit n = ''0123456789abcdef'' ! n"

text \<open>The verb \<open>%q\<close>.\<close>

definition quote_char :: "char \<Rightarrow> string" where
  "quote_char c =
     (let n = (of_char c :: nat) in
      if n = 34 \<or> n = 92 then [CHR 0x5C, c]
      else if n = 7 then [CHR 0x5C, CHR ''a''] else if n = 8 then [CHR 0x5C, CHR ''b'']
      else if n = 9 then [CHR 0x5C, CHR ''t''] else if n = 10 then [CHR 0x5C, CHR ''n'']
      else if n = 11 then [CHR 0x5C, CHR ''v''] else if n = 12 then [CHR 0x5C, CHR ''f'']
      else if n = 13 then [CHR 0x5C, CHR ''r'']
      else if n < 32 \<or> n = 127 then [CHR 0x5C, CHR ''x'', hex_digit (n div 16), hex_digit (n mod 16)]
      else [c])"

definition go_quote :: "string \<Rightarrow> string" where
  "go_quote s = dq # concat (map quote_char s) @ [dq]"

definition dc_scope_tag :: "scope \<Rightarrow> string" where
  "dc_scope_tag sc = (if sc = ScopePublic then ''!outside'' else ''!inside'')"

definition rel_name :: "string \<Rightarrow> string \<Rightarrow> string" where
  "rel_name name0 zone0 =
     (let name = trim_suffix ''.'' name0; zone = trim_suffix ''.'' zone0
      in if equal_fold name zone then ''@''
         else if has_suffix (''.'' @ to_lower zone) (to_lower name) then take (length name - length zone - 1) name
         else name)"

definition dc_fqdn :: "string \<Rightarrow> string \<Rightarrow> string" where
  "dc_fqdn name zone0 =
     (let zone = trim_suffix ''.'' zone0 in
      if name = ''@'' \<or> name = [] then zone
      else if to_lower name = to_lower zone \<or> has_suffix (''.'' @ to_lower zone) (to_lower name) then name
      else name @ ''.'' @ zone)"

definition provider_key :: "dc_provider \<Rightarrow> string" where
  "provider_key p = (if pv_key p = [] then ''mock'' else pv_key p)"

definition registrar_key :: "dc_provider \<Rightarrow> string" where
  "registrar_key p = (if pv_registrar p = [] then ''none'' else pv_registrar p)"

definition provider_type_arg :: "dc_provider \<Rightarrow> string" where
  "provider_type_arg p = (if pv_type p = [] then ''-'' else pv_type p)"

definition is_cloudflare :: "dc_provider \<Rightarrow> bool" where
  "is_cloudflare p = (equal_fold (pv_type p) ''CLOUDFLAREAPI'' \<or> equal_fold (pv_key p) ''cloudflare'')"

definition upper_char :: "char \<Rightarrow> char" where
  "upper_char c = (let n = (of_char c :: nat) in if 97 \<le> n \<and> n \<le> 122 then char_of (n - 32) else c)"

definition str_upper :: "string \<Rightarrow> string" where "str_upper s = map upper_char s"

definition proxyable_type :: "string \<Rightarrow> bool" where
  "proxyable_type t = (str_upper t \<in> {''A'', ''AAAA'', ''CNAME''})"

definition apex_managed :: "dns_record \<Rightarrow> string \<Rightarrow> bool" where
  "apex_managed r zone =
     (str_upper (d_type r) \<in> {''NS'', ''SOA''}
      \<and> equal_fold (trim_suffix ''.'' (d_name r)) (trim_suffix ''.'' (to_lower zone)))"

definition record_line :: "string \<Rightarrow> bool \<Rightarrow> dns_record \<Rightarrow> string" where
  "record_line zone cf r =
     ''    '' @ d_type r @ ''('' @ go_quote (rel_name (d_name r) zone) @ '', '' @ go_quote (d_value r) @ '', {''
       @ go_quote ''scope'' @ '':'' @ go_quote (dc_scope_tag (d_scope r)) @ ''}''
       @ (if 1 < d_ttl r then '', TTL('' @ itoa (d_ttl r) @ '')'' else [])
       @ (if cf \<and> d_proxied r \<and> proxyable_type (d_type r) then '', CF_PROXY_ON'' else []) @ ''),'' @ [newline]"

text \<open>The records by name; those of one name in the order they come in.\<close>

definition declared_records :: "string \<Rightarrow> dns_record list \<Rightarrow> dns_record list" where
  "declared_records zone rs = sort_key d_name (filter (\<lambda>r. \<not> apex_managed r zone) rs)"

definition render_config_js :: "string \<Rightarrow> scope \<Rightarrow> dc_provider \<Rightarrow> dns_record list \<Rightarrow> string" where
  "render_config_js zone sc p rs =
     ''// crenel-generated dnsconfig.js '' @ em_dash @ '' scope='' @ scope_string sc @ '' '' @ em_dash @ '' do not hand-edit'' @ [newline]
     @ ''var REG = NewRegistrar('' @ go_quote (registrar_key p) @ '');'' @ [newline]
     @ ''var DSP = NewDnsProvider('' @ go_quote (provider_key p) @ '');'' @ [newline, newline]
     @ ''D('' @ go_quote (trim_suffix ''.'' zone) @ '', REG, DnsProvider(DSP),'' @ [newline]
     @ concat (map (record_line zone (is_cloudflare p)) (declared_records zone rs)) @ '');'' @ [newline]"

section \<open>The driver\<close>

record dc_config =
  dc_zone :: string
  dc_scope_opt :: "scope option"
  dc_edge :: string
  dc_prov :: dc_provider
  dc_dedicated :: bool
  dc_zone_in_name :: bool

text \<open>A directory: the rendered zone and the credentials, when they are there.\<close>

type_synonym dc_creds = "(string \<times> (string \<times> string) list) list"

record dc_dir =
  dd_config :: "string option"
  dd_creds :: "dc_creds option"

type_synonym 'w dc_shell = "'w \<Rightarrow> dc_dir \<Rightarrow> string list \<Rightarrow> (perr + string) \<times> 'w"

definition dc_scope :: "dc_config \<Rightarrow> scope" where
  "dc_scope cfg = (case dc_scope_opt cfg of Some sc \<Rightarrow> sc | None \<Rightarrow> ScopeInternal)"

definition dc_name :: "dc_config \<Rightarrow> string" where
  "dc_name cfg = (if dc_zone_in_name cfg then ''dnscontrol/'' @ dc_zone cfg else ''dnscontrol'')"

definition dc_desired :: "dc_config \<Rightarrow> op \<Rightarrow> perr + dns_record list" where
  "dc_desired cfg op =
     (if o_host op = [] then Inl ''dnscontrol: op has no host''
      else Inr [\<lparr>d_name = o_host op, d_type = ''A'', d_value = dc_edge cfg, d_scope = dc_scope cfg, d_ttl = 0, d_proxied = False\<rparr>])"

definition creds_json :: "dc_provider \<Rightarrow> dc_creds" where
  "creds_json p = (if pv_key p = [] then []
     else [(pv_key p, fold (\<lambda>(k, v). AList.update k v) (pv_creds p) [(''TYPE'', pv_type p)])])"

definition dc_workdir :: "dc_config \<Rightarrow> dns_record list option \<Rightarrow> dc_dir" where
  "dc_workdir cfg rs = \<lparr>dd_config = map_option (render_config_js (dc_zone cfg) (dc_scope cfg) (dc_prov cfg)) rs,
     dd_creds = (if rs \<noteq> None \<or> pv_key (dc_prov cfg) \<noteq> [] then Some (creds_json (dc_prov cfg)) else None)\<rparr>"

text \<open>\<open>strconv.Atoi\<close> with its error ignored: nothing on a text that is no number, the nearest bound
  on one out of range.\<close>

definition atoi_or :: "string \<Rightarrow> int" where
  "atoi_or s =
     (let digits = (case s of c # t \<Rightarrow> if c = CHR ''-'' \<or> c = CHR ''+'' then t else s | [] \<Rightarrow> []);
          n = (if s \<noteq> [] \<and> hd s = CHR ''-'' then - decimal_value digits else decimal_value digits)
      in if digits = [] \<or> \<not> list_all rx_digit digits then 0
         else max (- 9223372036854775808) (min 9223372036854775807 n))"

definition trim_right_cr :: "string \<Rightarrow> string" where
  "trim_right_cr s = rev (dropWhile (\<lambda>c. c = CHR 0x0D) (rev s))"

definition trim_dq :: "string \<Rightarrow> string" where
  "trim_dq s = rev (dropWhile (\<lambda>c. c = dq) (rev (dropWhile (\<lambda>c. c = dq) s)))"

definition parse_row :: "string \<Rightarrow> scope \<Rightarrow> string \<Rightarrow> dns_record option" where
  "parse_row zone sc line0 =
     (let line = trim_right_cr line0; t = trim_space line; f = split_on (CHR 0x09) line in
      if t = [] \<or> has_prefix ''#'' t \<or> length f < 6 then None
      else Some \<lparr>d_name = dc_fqdn (trim_space (f ! 0)) zone, d_type = trim_space (f ! 4),
        d_value = trim_dq (trim_space (f ! 5)), d_scope = sc, d_ttl = atoi_or (trim_space (f ! 2)),
        d_proxied = (7 \<le> length f \<and> str_contains (f ! 6) ''cloudflare_proxy=true'')\<rparr>)"

definition parse_tsv :: "string \<Rightarrow> string \<Rightarrow> scope \<Rightarrow> dns_record list" where
  "parse_tsv out zone sc = List.map_filter (parse_row zone sc) (split_on newline out)"

text \<open>\<open>LiveRecords\<close>, with the world after it.\<close>

definition dc_read :: "dc_config \<Rightarrow> 'w dc_shell \<Rightarrow> 'w \<Rightarrow> (perr + dns_record list) \<times> 'w" where
  "dc_read cfg sh w =
     (case sh w (dc_workdir cfg None) [''get-zones'', ''--format=tsv'', provider_key (dc_prov cfg),
            provider_type_arg (dc_prov cfg), dc_zone cfg] of
        (Inl err, w') \<Rightarrow> (Inl (''dnscontrol get-zones: '' @ err), w')
      | (Inr out, w') \<Rightarrow> (Inr (parse_tsv out (dc_zone cfg) (dc_scope cfg)), w'))"

definition renderable_types :: "string list" where
  "renderable_types = [''A'', ''AAAA'', ''CNAME'', ''TXT'', ''NS'', ''PTR'']"

definition key_count :: "dns_record list \<Rightarrow> dns_record \<Rightarrow> nat" where
  "key_count rs r = length (filter (\<lambda>x. record_key x = record_key r) rs)"

text \<open>What a push would corrupt, in the order of the zone; a set is named once.\<close>

fun unrenderable :: "string \<Rightarrow> dns_record list \<Rightarrow> string list \<Rightarrow> dns_record list \<Rightarrow> string list" where
  "unrenderable zone live flagged [] = []"
| "unrenderable zone live flagged (r # rs) =
     (let k = record_key r; name = d_type r @ '' '' @ d_name r;
          once = (\<lambda>what. if k \<in> set flagged then unrenderable zone live flagged rs
                          else what # unrenderable zone live (k # flagged) rs)
      in if str_upper (d_type r) \<notin> set renderable_types then
           (if apex_managed r zone then unrenderable zone live flagged rs else name # unrenderable zone live flagged rs)
         else if dq \<in> set (d_value r) then once (''quoted '' @ name)
         else if 1 < key_count live r \<and> \<not> apex_managed r zone
         then once (itoa (int (key_count live r)) @ [CHR 0xC3, CHR 0x97] @ name)
         else unrenderable zone live flagged rs)"

definition not_managed :: "string \<Rightarrow> dns_record list \<Rightarrow> dns_record \<Rightarrow> bool" where
  "not_managed zone managed r =
     (\<not> apex_managed r zone
      \<and> (case map_of (rev (map (\<lambda>m. (record_key m, d_value m)) managed)) (record_key r) of
           Some v \<Rightarrow> \<not> equal_fold v (d_value r) | None \<Rightarrow> True))"

definition refuse_push :: "string \<Rightarrow> string list \<Rightarrow> perr" where
  "refuse_push zone what = ''dnscontrol: refusing to push zone '' @ zone @ '': '' @ join_with '', '' what"

definition guard_push :: "string \<Rightarrow> dns_record list \<Rightarrow> dns_record list \<Rightarrow> bool \<Rightarrow> perr option" where
  "guard_push zone live managed dedicated =
     (let bad = unrenderable zone live [] live; foreign = filter (not_managed zone managed) live
      in if bad \<noteq> [] then Some (refuse_push zone bad)
         else if dedicated \<or> foreign = [] then None
         else Some (refuse_push zone (map (\<lambda>r. d_type r @ '' '' @ d_name r) foreign)))"

text \<open>The live zone with a change: a record of an added key is replaced where it stands.\<close>

definition index_by_key :: "dns_record list \<Rightarrow> string \<Rightarrow> dns_record option" where
  "index_by_key rs k = map_of (rev (map (\<lambda>r. (record_key r, r)) rs)) k"

definition apply_change :: "dns_record list \<Rightarrow> dns_change \<Rightarrow> dns_record list" where
  "apply_change live ch =
     (let kept = filter (\<lambda>r. record_key r \<notin> record_key ` set (c_remove ch)) live
      in map (\<lambda>r. case index_by_key (c_add ch) (record_key r) of Some new \<Rightarrow> new | None \<Rightarrow> r) kept
         @ uniq_by record_key (map record_key kept) (c_add ch))"

definition dc_diff_expose :: "dns_record list \<Rightarrow> dns_record \<Rightarrow> dns_record option" where
  "dc_diff_expose live r =
     (case index_by_key live (record_key r) of
        None \<Rightarrow> Some r
      | Some cur \<Rightarrow> if equal_fold (d_value cur) (d_value r) then None
                    else Some (r\<lparr>d_ttl := d_ttl cur, d_proxied := d_proxied cur\<rparr>))"

definition dc_diff :: "dc_config \<Rightarrow> 'w dc_shell \<Rightarrow> op \<Rightarrow> dns_record list \<Rightarrow> 'w \<Rightarrow> perr + dns_change" where
  "dc_diff cfg sh op desired w =
     (case dc_read cfg sh w of
        (Inl err, _) \<Rightarrow> Inl err
      | (Inr live, w') \<Rightarrow>
          (case guard_push (dc_zone cfg) live desired (dc_dedicated cfg) of
             Some err \<Rightarrow> Inl err
           | None \<Rightarrow>
               rbind (case o_verb op of
                   Expose \<Rightarrow> Inr (List.map_filter (dc_diff_expose live) desired, [])
                 | Unexpose \<Rightarrow> Inr ([], filter (\<lambda>r. index_by_key live (record_key r) \<noteq> None) desired)
                 | Rename \<Rightarrow> Inl ''dnscontrol diff: unknown verb'') (\<lambda>(adds, removes).
                 let ch = \<lparr>c_scope = dc_scope cfg, c_add = adds, c_remove = removes, c_managed = desired, c_rendered = []\<rparr>
                 in Inr (case fst (sh w' (dc_workdir cfg (Some (apply_change live ch))) [''preview'', ''--config'', ''dnsconfig.js'']) of
                      Inr shown \<Rightarrow> ch\<lparr>c_rendered := shown\<rparr> | Inl _ \<Rightarrow> ch))))"

definition dc_apply :: "dc_config \<Rightarrow> 'w dc_shell \<Rightarrow> dns_change \<Rightarrow> 'w act" where
  "dc_apply cfg sh ch w =
     (case dc_read cfg sh w of
        (Inl err, w') \<Rightarrow> (Some err, w')
      | (Inr live, w') \<Rightarrow>
          (case guard_push (dc_zone cfg) live (c_managed ch @ c_add ch @ c_remove ch) (dc_dedicated cfg) of
             Some err \<Rightarrow> (Some err, w')
           | None \<Rightarrow>
               (case sh w' (dc_workdir cfg (Some (apply_change live ch))) [''push'', ''--config'', ''dnsconfig.js''] of
                  (Inl err, w'') \<Rightarrow> (Some (''dnscontrol push: '' @ err), w'')
                | (Inr _, w'') \<Rightarrow> (None, w''))))"

definition dnscontrol :: "dc_config \<Rightarrow> 'w dc_shell \<Rightarrow> 'w dns_provider" where
  "dnscontrol cfg sh = \<lparr>dp_name = dc_name cfg, dp_scope = dc_scope cfg, dp_desired = dc_desired cfg,
     dp_diff = dc_diff cfg sh, dp_apply = dc_apply cfg sh, dp_live = (\<lambda>w. fst (dc_read cfg sh w)),
     dp_owns_all = None, dp_coverage = None, dp_zone = Some (dc_zone cfg), dp_residency = None\<rparr>"

section \<open>The tool as the fake states it\<close>











definition tsv_row :: "string \<Rightarrow> dns_record \<Rightarrow> string" where
  "tsv_row zone r = join_with [CHR 0x09]
     ([d_name r, rel_name (d_name r) zone, itoa (if d_ttl r = 0 then 1 else d_ttl r), ''IN'', d_type r, d_value r]
      @ (if d_proxied r then [''cloudflare_proxy=true''] else [])) @ [newline]"





section \<open>What a push rests on\<close>










section \<open>Runs\<close>

definition tiny_dns :: dc_config where
  "tiny_dns = \<lparr>dc_zone = ''x'', dc_scope_opt = Some ScopePublic, dc_edge = ''1.2.3.4'',
     dc_prov = \<lparr>pv_key = ''cloudflare'', pv_type = [], pv_registrar = [], pv_creds = []\<rparr>, dc_dedicated = False, dc_zone_in_name = False\<rparr>"

definition proxied_record :: dns_record where
  "proxied_record = \<lparr>d_name = ''g.x'', d_type = ''A'', d_value = ''1.2.3.4'', d_scope = ScopePublic, d_ttl = 1, d_proxied = True\<rparr>"


definition grey_record :: dns_record where
  "grey_record = proxied_record\<lparr>d_ttl := 0, d_proxied := False\<rparr>"




text \<open>An unexpose removes the record as desired, not as live; the inverse adds it back as desired. Taking back
  the unexpose of a proxied record leaves it unproxied, the address of the edge in the open.\<close>

definition listed :: "string dc_shell" where
  "listed out d args = (if hd args = ''get-zones'' then Inr out else Inr [], out)"

lemma dnscontrol_unexpose_undone_unproxied:
  "let w = tsv_row ''x'' proxied_record
   in fst (dc_read tiny_dns listed w) = Inr [proxied_record]
     \<and> (case rbind (dc_desired tiny_dns (mk_op Unexpose ''g'' ''g.x'')) (\<lambda>rs. dc_diff tiny_dns listed (mk_op Unexpose ''g'' ''g.x'') rs w) of
          Inl err \<Rightarrow> False
        | Inr d \<Rightarrow> apply_change [proxied_record] d = []
            \<and> apply_change [] (invert_dns d) = [grey_record])"
  by code_simp

end
