(* ===== verification/Json.thy ===== *)
theory Json
  imports Strconv
begin

text \<open>
  JSON documents as the standard library's \<open>encoding/json\<close> holds them in Go values, with what the Caddy
  driver uses of the package: the text of a document (\<open>Marshal\<close>, which escapes the bytes of HTML), and
  decoding into a struct, where \<open>null\<close> leaves the zero value and a value of another kind is an error.
  Keys match exactly; numbers are integers; an object has its keys in the order of the list.
\<close>

datatype json = JNull | JBool bool | JNum int | JStr string | JArr "json list" | JObj "(string \<times> json) list"

section \<open>Text\<close>

definition hex_of :: "nat \<Rightarrow> char" where "hex_of n = ''0123456789abcdef'' ! n"

definition json_char :: "char \<Rightarrow> string" where
  "json_char c =
     (let n = (of_char c :: nat) in
      if n = 34 \<or> n = 92 then [CHR 0x5C, c]
      else if n = 8 then [CHR 0x5C, CHR ''b''] else if n = 12 then [CHR 0x5C, CHR ''f'']
      else if n = 10 then [CHR 0x5C, CHR ''n''] else if n = 13 then [CHR 0x5C, CHR ''r'']
      else if n = 9 then [CHR 0x5C, CHR ''t'']
      else if n < 32 \<or> n = 38 \<or> n = 60 \<or> n = 62
      then [CHR 0x5C, CHR ''u'', CHR ''0'', CHR ''0'', hex_of (n div 16), hex_of (n mod 16)]
      else [c])"

definition json_quote :: "string \<Rightarrow> string" where
  "json_quote s = CHR 0x22 # concat (map json_char s) @ [CHR 0x22]"

fun json_text :: "json \<Rightarrow> string" where
  "json_text JNull = ''null''"
| "json_text (JBool b) = (if b then ''true'' else ''false'')"
| "json_text (JNum n) = itoa n"
| "json_text (JStr s) = json_quote s"
| "json_text (JArr xs) = ''['' @ join_with '','' (map json_text xs) @ '']''"
| "json_text (JObj fs) = ''{'' @ join_with '','' (map (\<lambda>(k, v). json_quote k @ '':'' @ json_text v) fs) @ ''}''"

section \<open>Fields\<close>

definition json_field :: "json \<Rightarrow> string \<Rightarrow> json option" where
  "json_field j k = (case j of JObj fs \<Rightarrow> map_of fs k | _ \<Rightarrow> None)"

text \<open>\<open>x, _ := j[k].(T)\<close>: the zero value when the key is not there or of another kind.\<close>

definition str_field :: "json \<Rightarrow> string \<Rightarrow> string" where
  "str_field j k = (case json_field j k of Some (JStr s) \<Rightarrow> s | _ \<Rightarrow> [])"

definition arr_field :: "json \<Rightarrow> string \<Rightarrow> json list" where
  "arr_field j k = (case json_field j k of Some (JArr xs) \<Rightarrow> xs | _ \<Rightarrow> [])"

definition obj_field :: "json \<Rightarrow> string \<Rightarrow> json" where
  "obj_field j k = (case json_field j k of Some (JObj fs) \<Rightarrow> JObj fs | _ \<Rightarrow> JObj [])"

definition is_obj :: "json \<Rightarrow> bool" where "is_obj j = (case j of JObj _ \<Rightarrow> True | _ \<Rightarrow> False)"

definition set_field :: "string \<Rightarrow> json \<Rightarrow> json \<Rightarrow> json" where
  "set_field k v j = (case j of JObj fs \<Rightarrow> JObj (AList.update k v fs) | _ \<Rightarrow> j)"

definition drop_field :: "string \<Rightarrow> json \<Rightarrow> json" where
  "drop_field k j = (case j of JObj fs \<Rightarrow> JObj (AList.delete k fs) | _ \<Rightarrow> j)"

lemma json_field_simps [simp]:
  "json_field (JObj fs) k = map_of fs k" "json_field JNull k = None" "json_field (JBool b) k = None"
  "json_field (JNum n) k = None" "json_field (JStr s) k = None" "json_field (JArr xs) k = None"
  by (simp_all add: json_field_def)

lemma set_field_obj [simp]: "set_field k v (JObj fs) = JObj (AList.update k v fs)"
  by (simp add: set_field_def)

lemma drop_field_obj [simp]: "drop_field k (JObj fs) = JObj (AList.delete k fs)"
  by (simp add: drop_field_def)

lemma json_field_set: "is_obj j \<Longrightarrow> json_field (set_field k v j) i = (if i = k then Some v else json_field j i)"
  by (cases j) (auto simp: is_obj_def update_conv')

lemma size_field: "(k, v) \<in> set fs \<Longrightarrow> size v < size (JObj fs)"
  by (induction fs) auto

lemma size_map_of: "map_of fs k = Some v \<Longrightarrow> size v < size (JObj fs)"
  by (rule size_field) (rule map_of_SomeD)

lemma size_json_field: "json_field j k = Some v \<Longrightarrow> size v < size j"
  by (cases j) (auto dest: size_map_of)

lemma size_element: "x \<in> set xs \<Longrightarrow> size x < size (JArr xs)"
  by (induction xs) auto

lemma size_arr_field: "x \<in> set (arr_field j k) \<Longrightarrow> size x < size j"
proof -
  assume x: "x \<in> set (arr_field j k)"
  then obtain xs where xs: "json_field j k = Some (JArr xs)" "x \<in> set xs"
    by (cases "json_field j k"; cases "the (json_field j k)") (auto simp: arr_field_def)
  from size_element [OF xs(2)] size_json_field [OF xs(1)] show ?thesis by simp
qed

section \<open>Decoding\<close>

type_synonym 'a decoded = "unit + 'a"

definition mismatch :: "'a decoded" where "mismatch = Inl ()"

definition dec_str :: "json \<Rightarrow> string decoded" where
  "dec_str j = (case j of JNull \<Rightarrow> Inr [] | JStr s \<Rightarrow> Inr s | _ \<Rightarrow> mismatch)"

definition dec_int :: "json \<Rightarrow> int decoded" where
  "dec_int j = (case j of JNull \<Rightarrow> Inr 0 | JNum n \<Rightarrow> Inr n | _ \<Rightarrow> mismatch)"

definition dec_bool :: "json \<Rightarrow> bool decoded" where
  "dec_bool j = (case j of JNull \<Rightarrow> Inr False | JBool b \<Rightarrow> Inr b | _ \<Rightarrow> mismatch)"

definition dec_list :: "(json \<Rightarrow> 'a decoded) \<Rightarrow> json \<Rightarrow> 'a list decoded" where
  "dec_list f j = (case j of JNull \<Rightarrow> Inr [] | JArr xs \<Rightarrow> rmap f xs | _ \<Rightarrow> mismatch)"

definition dec_map :: "(json \<Rightarrow> 'a decoded) \<Rightarrow> json \<Rightarrow> (string \<times> 'a) list decoded" where
  "dec_map f j = (case j of JNull \<Rightarrow> Inr [] | JObj fs \<Rightarrow> rmap (\<lambda>(k, v). rbind (f v) (\<lambda>x. Inr (k, x))) fs | _ \<Rightarrow> mismatch)"

text \<open>A pointer: \<open>null\<close> is nil. A struct's own fields are read from the fields of the object.\<close>

definition dec_ptr :: "(json \<Rightarrow> 'a decoded) \<Rightarrow> json \<Rightarrow> 'a option decoded" where
  "dec_ptr f j = (case j of JNull \<Rightarrow> Inr None | _ \<Rightarrow> rbind (f j) (\<lambda>x. Inr (Some x)))"

definition dec_struct :: "((string \<times> json) list \<Rightarrow> 'a decoded) \<Rightarrow> json \<Rightarrow> 'a decoded" where
  "dec_struct f j = (case j of JNull \<Rightarrow> f [] | JObj fs \<Rightarrow> f fs | _ \<Rightarrow> mismatch)"

definition dec_field :: "(string \<times> json) list \<Rightarrow> string \<Rightarrow> (json \<Rightarrow> 'a decoded) \<Rightarrow> 'a \<Rightarrow> 'a decoded" where
  "dec_field fs k f z = (case map_of fs k of None \<Rightarrow> Inr z | Some v \<Rightarrow> f v)"

lemma dec_list_cong [fundef_cong]:
  "i = j \<Longrightarrow> (\<And>x. size x < size j \<Longrightarrow> f x = g x) \<Longrightarrow> dec_list f i = dec_list g j"
  by (auto simp: dec_list_def dest: size_element intro!: rmap_cong split: json.splits)

lemma dec_field_cong [fundef_cong]:
  "fs = gs \<Longrightarrow> k = l \<Longrightarrow> z = y \<Longrightarrow> (\<And>x. size x < size (JObj gs) \<Longrightarrow> f x = g x) \<Longrightarrow> dec_field fs k f z = dec_field gs l g y"
  by (auto simp: dec_field_def dest: size_map_of split: option.splits)

end
