(* ===== verification/Caddy_Config.thy ===== *)
theory Caddy_Config
  imports Json Topology
begin

text \<open>
  The part of Caddy's configuration the driver understands, \<open>internal/drivers/edge/caddy/types.go\<close>: the
  routes of the http servers with their matchers and handlers, nested through subroutes, and the routes of
  the layer-4 app; how they are decoded from the JSON of the admin API, and the questions the driver asks
  of a route. A matcher keeps every key but \<open>host\<close> undecoded.
\<close>

record cd_match =
  cm_host :: "string list"
  cm_extra :: "(string \<times> json) list"

text \<open>A transport has the protocol and, for an upstream over TLS, the settings of TLS.\<close>

record cd_transport =
  ct_protocol :: string
  ct_tls :: "(bool \<times> string) option"

datatype cd_route = CdRoute (cr_id: string) (cr_match: "cd_match list") (cr_handle: "cd_handler list")
  and cd_handler = CdHandler (hd_name: string) (hd_upstreams: "string list") (hd_status: int) (hd_abort: bool)
    (hd_routes: "cd_route list") (hd_response: "json option") (hd_policy: string) (hd_transport: "cd_transport option")

record cd_server =
  sv_listen :: "string list"
  sv_routes :: "cd_route list"

text \<open>A layer-4 route: the SNI names of its matchers and its handlers with the dial lists of their upstreams.\<close>

record l4_route =
  lr_id :: string
  lr_match :: "string list option list"
  lr_handle :: "(string \<times> string list list) list"

record caddy_config =
  cg_servers :: "(string \<times> cd_server) list"
  cg_layer4 :: "(string \<times> l4_route list) list option"

section \<open>Decoding\<close>

definition dec_match :: "json \<Rightarrow> cd_match decoded" where
  "dec_match = dec_struct (\<lambda>fs. rbind (dec_field fs ''host'' (dec_list dec_str) []) (\<lambda>hs.
     Inr \<lparr>cm_host = hs, cm_extra = AList.delete ''host'' fs\<rparr>))"

definition dec_dial :: "json \<Rightarrow> string decoded" where
  "dec_dial = dec_struct (\<lambda>fs. dec_field fs ''dial'' dec_str [])"

definition dec_tls :: "json \<Rightarrow> (bool \<times> string) decoded" where
  "dec_tls = dec_struct (\<lambda>fs. rbind (dec_field fs ''insecure_skip_verify'' dec_bool False) (\<lambda>b.
     rbind (dec_field fs ''server_name'' dec_str []) (\<lambda>n. Inr (b, n))))"

definition dec_transport :: "json \<Rightarrow> cd_transport decoded" where
  "dec_transport = dec_struct (\<lambda>fs. rbind (dec_field fs ''protocol'' dec_str []) (\<lambda>p.
     rbind (dec_field fs ''tls'' (dec_ptr dec_tls) None) (\<lambda>t. Inr \<lparr>ct_protocol = p, ct_tls = t\<rparr>)))"

text \<open>A route and its handlers; \<open>null\<close> is the empty value.\<close>

function dec_route :: "json \<Rightarrow> cd_route decoded" and dec_handler :: "json \<Rightarrow> cd_handler decoded" where
  "dec_route j =
     (case (case j of JNull \<Rightarrow> Some [] | JObj fs \<Rightarrow> Some fs | _ \<Rightarrow> None) of
        None \<Rightarrow> mismatch
      | Some fs \<Rightarrow>
          rbind (dec_field fs ''@id'' dec_str []) (\<lambda>i.
          rbind (dec_field fs ''match'' (dec_list dec_match) []) (\<lambda>ms.
          rbind (case map_of fs ''handle'' of None \<Rightarrow> Inr [] | Some v \<Rightarrow> dec_list dec_handler v) (\<lambda>hs.
          Inr (CdRoute i ms hs)))))"
| "dec_handler j =
     (case (case j of JNull \<Rightarrow> Some [] | JObj fs \<Rightarrow> Some fs | _ \<Rightarrow> None) of
        None \<Rightarrow> mismatch
      | Some fs \<Rightarrow>
          rbind (dec_field fs ''handler'' dec_str []) (\<lambda>n.
          rbind (dec_field fs ''upstreams'' (dec_list dec_dial) []) (\<lambda>us.
          rbind (dec_field fs ''status_code'' dec_int 0) (\<lambda>c.
          rbind (dec_field fs ''abort'' dec_bool False) (\<lambda>a.
          rbind (case map_of fs ''routes'' of None \<Rightarrow> Inr [] | Some v \<Rightarrow> dec_list dec_route v) (\<lambda>rs.
          rbind (dec_field fs ''crenel_policy'' dec_str []) (\<lambda>p.
          rbind (dec_field fs ''transport'' (dec_ptr dec_transport) None) (\<lambda>t.
          Inr (CdHandler n us c a rs (map_of fs ''handle_response'') p t)))))))))"
  by pat_completeness auto
termination
  by (relation "measure (case_sum size size)")
    (auto split: json.splits dest!: size_map_of)

declare dec_route.simps [simp del] dec_handler.simps [simp del]

definition dec_server :: "json \<Rightarrow> cd_server decoded" where
  "dec_server = dec_struct (\<lambda>fs. rbind (dec_field fs ''listen'' (dec_list dec_str) []) (\<lambda>ls.
     rbind (dec_field fs ''routes'' (dec_list dec_route) []) (\<lambda>rs. Inr \<lparr>sv_listen = ls, sv_routes = rs\<rparr>)))"

definition dec_l4_match :: "json \<Rightarrow> string list option decoded" where
  "dec_l4_match = dec_struct (\<lambda>fs. dec_field fs ''tls'' (dec_ptr (dec_struct (\<lambda>ts. dec_field ts ''sni'' (dec_list dec_str) []))) None)"

definition dec_l4_handler :: "json \<Rightarrow> (string \<times> string list list) decoded" where
  "dec_l4_handler = dec_struct (\<lambda>fs. rbind (dec_field fs ''handler'' dec_str []) (\<lambda>n.
     rbind (dec_field fs ''upstreams'' (dec_list (dec_struct (\<lambda>us. dec_field us ''dial'' (dec_list dec_str) []))) []) (\<lambda>us. Inr (n, us))))"

definition dec_l4_route :: "json \<Rightarrow> l4_route decoded" where
  "dec_l4_route = dec_struct (\<lambda>fs. rbind (dec_field fs ''@id'' dec_str []) (\<lambda>i.
     rbind (dec_field fs ''match'' (dec_list dec_l4_match) []) (\<lambda>ms.
     rbind (dec_field fs ''handle'' (dec_list dec_l4_handler) []) (\<lambda>hs. Inr \<lparr>lr_id = i, lr_match = ms, lr_handle = hs\<rparr>))))"

text \<open>The listen addresses of a layer-4 server are decoded and not used.\<close>

definition dec_l4_server :: "json \<Rightarrow> l4_route list decoded" where
  "dec_l4_server = dec_struct (\<lambda>fs. rbind (dec_field fs ''listen'' (dec_list dec_str) []) (\<lambda>_.
     dec_field fs ''routes'' (dec_list dec_l4_route) []))"

definition no_config :: caddy_config where "no_config = \<lparr>cg_servers = [], cg_layer4 = None\<rparr>"

definition dec_http :: "json \<Rightarrow> (string \<times> cd_server) list decoded" where
  "dec_http = dec_struct (\<lambda>fs. dec_field fs ''servers'' (dec_map dec_server) [])"

definition dec_layer4 :: "json \<Rightarrow> (string \<times> l4_route list) list decoded" where
  "dec_layer4 = dec_struct (\<lambda>fs. dec_field fs ''servers'' (dec_map dec_l4_server) [])"

definition dec_apps :: "json \<Rightarrow> caddy_config decoded" where
  "dec_apps = dec_struct (\<lambda>fs. rbind (dec_field fs ''http'' dec_http []) (\<lambda>ss.
     rbind (dec_field fs ''layer4'' (dec_ptr dec_layer4) None) (\<lambda>l. Inr \<lparr>cg_servers = ss, cg_layer4 = l\<rparr>)))"

definition dec_config :: "json \<Rightarrow> caddy_config decoded" where
  "dec_config = dec_struct (\<lambda>fs. dec_field fs ''apps'' dec_apps no_config)"

section \<open>Questions\<close>

definition is_deny :: "cd_handler \<Rightarrow> bool" where
  "is_deny h = (hd_name h = ''static_response'' \<and> (400 \<le> hd_status h \<or> hd_abort h))"

definition is_auth_gate :: "cd_handler \<Rightarrow> bool" where
  "is_auth_gate h = (hd_name h = ''reverse_proxy'' \<and> hd_response h \<noteq> None)"

definition is_backend :: "cd_handler \<Rightarrow> bool" where
  "is_backend h = (hd_name h = ''reverse_proxy'' \<and> \<not> is_auth_gate h \<and> hd_upstreams h \<noteq> [])"

definition first_dial :: "cd_route \<Rightarrow> string option" where
  "first_dial r = map_option (\<lambda>h. hd (hd_upstreams h)) (find is_backend (cr_handle r))"

definition first_dial_tls :: "cd_route \<Rightarrow> bool" where
  "first_dial_tls r = (case find is_backend (cr_handle r) of
     Some h \<Rightarrow> (case hd_transport h of Some t \<Rightarrow> ct_tls t \<noteq> None | None \<Rightarrow> False) | None \<Rightarrow> False)"

definition caddy_auth :: "cd_route \<Rightarrow> string" where
  "caddy_auth r = (case find (\<lambda>h. hd_policy h \<noteq> []) (cr_handle r) of
       Some h \<Rightarrow> hd_policy h
     | None \<Rightarrow> if list_ex (\<lambda>h. is_auth_gate h \<or> hd_name h = ''authentication'' \<or> hd_name h = ''forward_auth'') (cr_handle r)
               then auth_detected else [])"

definition host_matches :: "cd_route \<Rightarrow> string list" where
  "host_matches r = uniq_by id [] (concat (map cm_host (cr_match r)))"

definition extra_matcher_keys :: "cd_route \<Rightarrow> string list" where
  "extra_matcher_keys r = sort (remdups (concat (map (\<lambda>m. map fst (cm_extra m)) (cr_match r))))"

definition has_deny_handler :: "cd_route \<Rightarrow> bool" where
  "has_deny_handler r = list_ex is_deny (cr_handle r)"

definition handler_names :: "cd_route \<Rightarrow> string" where
  "handler_names r = (let ns = filter (\<lambda>n. n \<noteq> []) (map hd_name (cr_handle r))
     in if ns = [] then ''(none)'' else join_with '', '' ns)"

definition is_subroute :: "cd_handler \<Rightarrow> bool" where "is_subroute h = (hd_name h = ''subroute'')"

definition subroutes :: "cd_route \<Rightarrow> cd_route list option" where
  "subroutes r = map_option hd_routes (find is_subroute (cr_handle r))"

fun first_index :: "('a \<Rightarrow> bool) \<Rightarrow> 'a list \<Rightarrow> nat option" where
  "first_index p [] = None"
| "first_index p (x # xs) = (if p x then Some 0 else map_option Suc (first_index p xs))"

definition subroute_index :: "cd_route \<Rightarrow> nat option" where
  "subroute_index r = first_index is_subroute (cr_handle r)"

definition is_wildcard_host :: "string \<Rightarrow> bool" where
  "is_wildcard_host h = (has_prefix ''*.'' h \<and> 2 < length h)"

definition zone_of :: "string \<Rightarrow> string" where
  "zone_of host = (case dropWhile (\<lambda>c. c \<noteq> CHR ''.'') host of [] \<Rightarrow> [] | _ # z \<Rightarrow> to_lower z)"

definition same_zone :: "string \<Rightarrow> string \<Rightarrow> bool" where
  "same_zone a b = (zone_of a \<noteq> [] \<and> zone_of a = zone_of b)"

definition wildcard_covers :: "string \<Rightarrow> string \<Rightarrow> bool" where
  "wildcard_covers matcher host0 =
     (if \<not> is_wildcard_host matcher then False
      else (let suffix = to_lower (tl matcher); host = to_lower host0; label = take (length host - length suffix) host
            in has_suffix suffix host \<and> label \<noteq> [] \<and> CHR ''.'' \<notin> set label))"

definition l4_route_id :: "string \<Rightarrow> string" where "l4_route_id host = ''crenel-l4-'' @ to_lower host"
definition caddy_route_id :: "string \<Rightarrow> string" where "caddy_route_id host = ''crenel-route-'' @ to_lower host"

text \<open>The last matcher with an SNI name, and the last handler that proxies.\<close>

definition first_sni_proxy :: "l4_route \<Rightarrow> (string \<times> string) option" where
  "first_sni_proxy r =
     (let host = fold (\<lambda>m h. case m of Some (n # _) \<Rightarrow> n | _ \<Rightarrow> h) (lr_match r) [];
          dial = fold (\<lambda>(n, us) d. case us of (a # _) # _ \<Rightarrow> if n = ''proxy'' then a else d | _ \<Rightarrow> d) (lr_handle r) []
      in if host \<noteq> [] \<and> dial \<noteq> [] then Some (host, dial) else None)"

section \<open>Excerpts\<close>

text \<open>The JSON of a route as the driver would print it: empty parts are left out, but a route prints its
  handlers (\<open>null\<close> when there are none) and a handler its name.\<close>

definition enc_opt :: "bool \<Rightarrow> string \<Rightarrow> json \<Rightarrow> (string \<times> json) list" where
  "enc_opt there k v = (if there then [(k, v)] else [])"

definition enc_match :: "cd_match \<Rightarrow> json" where
  "enc_match m = JObj (sort_key fst (cm_extra m @ enc_opt (cm_host m \<noteq> []) ''host'' (JArr (map JStr (cm_host m)))))"

definition enc_transport :: "cd_transport \<Rightarrow> json" where
  "enc_transport t = JObj (enc_opt (ct_protocol t \<noteq> []) ''protocol'' (JStr (ct_protocol t))
     @ (case ct_tls t of None \<Rightarrow> [] | Some (b, n) \<Rightarrow> [(''tls'', JObj (enc_opt b ''insecure_skip_verify'' (JBool True)
          @ enc_opt (n \<noteq> []) ''server_name'' (JStr n)))]))"

fun enc_route :: "cd_route \<Rightarrow> json" and enc_handler :: "cd_handler \<Rightarrow> json" where
  "enc_route (CdRoute i ms hs) = JObj (enc_opt (i \<noteq> []) ''@id'' (JStr i)
     @ enc_opt (ms \<noteq> []) ''match'' (JArr (map enc_match ms))
     @ [(''handle'', if hs = [] then JNull else JArr (map enc_handler hs))])"
| "enc_handler (CdHandler n us c a rs resp p t) = JObj ([(''handler'', JStr n)]
     @ enc_opt (us \<noteq> []) ''upstreams'' (JArr (map (\<lambda>u. JObj [(''dial'', JStr u)]) us))
     @ enc_opt (c \<noteq> 0) ''status_code'' (JNum c) @ enc_opt a ''abort'' (JBool True)
     @ enc_opt (rs \<noteq> []) ''routes'' (JArr (map enc_route rs))
     @ (case resp of None \<Rightarrow> [] | Some j \<Rightarrow> [(''handle_response'', j)])
     @ enc_opt (p \<noteq> []) ''crenel_policy'' (JStr p)
     @ (case t of None \<Rightarrow> [] | Some t' \<Rightarrow> [(''transport'', enc_transport t')]))"

definition enc_server :: "cd_server \<Rightarrow> json" where
  "enc_server s = JObj (enc_opt (sv_listen s \<noteq> []) ''listen'' (JArr (map JStr (sv_listen s)))
     @ [(''routes'', if sv_routes s = [] then JNull else JArr (map enc_route (sv_routes s)))])"

definition bounded_json :: "string \<Rightarrow> string" where
  "bounded_json s = (if 240 < length s then take 240 s @ [CHR 0xE2, CHR 0x80, CHR 0xA6] else s)"

definition route_excerpt :: "cd_route \<Rightarrow> string" where "route_excerpt r = bounded_json (json_text (enc_route r))"

definition server_excerpt :: "cd_server \<Rightarrow> string" where "server_excerpt s = bounded_json (json_text (enc_server s))"

section \<open>Facts\<close>

lemma size_subroute:
  assumes "subroutes r = Some rs" and "x \<in> set rs"
  shows "size x < size r"
proof -
  obtain h where h: "h \<in> set (cr_handle r)" "x \<in> set (hd_routes h)"
    using assms by (auto simp: subroutes_def dest: find_Some_set)
  have "size x \<le> size_list size (hd_routes h)" using h(2) by (rule size_list_estimation') simp
  then have "size x < size h" by (cases h) simp
  moreover have "size h \<le> size_list size (cr_handle r)" using h(1) by (rule size_list_estimation') simp
  then have "size h < size r" by (cases r) simp
  ultimately show ?thesis by simp
qed

lemma host_matches_set: "set (host_matches r) = (\<Union>m \<in> set (cr_match r). set (cm_host m))"
  by (simp add: host_matches_def set_uniq_id)

end
