(* ===== verification/Caddy_Read.thy ===== *)
theory Caddy_Read
  imports Caddy_Config
begin

text \<open>
  Reading a Caddy configuration into a live state, \<open>internal/drivers/edge/caddy/caddy.go\<close> from \<open>normalize\<close>
  to \<open>appendLayer4Routes\<close>: every http server is read, a host-scoped route is followed through its
  subroutes to the proxies at the leaves, and what is not understood is declared. The lemmas say what an
  enforced default deny rests on.
\<close>

section \<open>Routes\<close>

definition caddy_ack_aware :: "string \<Rightarrow> string \<Rightarrow> string \<Rightarrow> string \<Rightarrow> unknown_kind \<Rightarrow> unparsed" where
  "caddy_ack_aware loc reason i excerpt kind =
     (case parse_ack_marker i of
        Some slug \<Rightarrow> \<lparr>n_locator = loc, n_kind = UnknownAcknowledged,
          n_reason = ''acknowledged by operator ('' @ slug @ '') '' @ em_dash @ '' '' @ reason, n_raw_excerpt = excerpt\<rparr>
      | None \<Rightarrow> \<lparr>n_locator = loc, n_kind = kind, n_reason = reason, n_raw_excerpt = excerpt\<rparr>)"

definition caddy_declare :: "string \<Rightarrow> cd_route \<Rightarrow> string \<Rightarrow> unknown_kind \<Rightarrow> unparsed" where
  "caddy_declare loc r reason kind = caddy_ack_aware loc reason (cr_id r) (route_excerpt r) kind"

definition leaf_route :: "cd_route \<Rightarrow> string \<Rightarrow> bool \<Rightarrow> string \<Rightarrow> string \<Rightarrow> route" where
  "leaf_route r host managed auth dial =
     \<lparr>r_host = host,
      r_upstream = \<lparr>u_kind = ForwardToOrigin, u_mode = ModeHTTPProxy, u_address = dial, u_tls_passthrough = False,
        u_server_name = host, u_upstream_tls = first_dial_tls r, u_auth = auth\<rparr>,
      r_managed = managed, r_ownership = ownership_from_marker managed, r_chain = None\<rparr>"

definition index_text :: "nat \<Rightarrow> string" where "index_text i = itoa (int i)"

definition child_locator :: "string \<Rightarrow> nat \<Rightarrow> string" where
  "child_locator loc j = loc @ ''.handle[subroute].routes['' @ index_text j @ '']''"

text \<open>The routes of a slice with what is asked of each: its host names, or the host of the parent.\<close>

definition below :: "string \<Rightarrow> string \<Rightarrow> cd_route list \<Rightarrow> (cd_route \<times> string \<times> string) list" where
  "below host loc subs = concat (map (\<lambda>(j, sr). map (\<lambda>h. (sr, h, child_locator loc j))
     (if host_matches sr = [] then [host] else host_matches sr)) (enumerate 0 subs))"

lemma below_mem: "(sr, h, l) \<in> set (below host loc subs) \<Longrightarrow> sr \<in> set subs"
  by (auto simp: below_def in_set_enumerate_eq)

text \<open>\<open>collectLeaves\<close>: the routes, what was declared, and whether the route is accounted for.\<close>

function collect_leaves :: "cd_route \<Rightarrow> string \<Rightarrow> bool \<Rightarrow> string \<Rightarrow> string \<Rightarrow> route list \<times> unparsed list \<times> bool" where
  "collect_leaves r host managed0 auth0 loc =
     (let managed = (managed0 \<or> cr_id r = caddy_route_id host);
          auth = (if caddy_auth r \<noteq> [] then caddy_auth r else auth0);
          keys = extra_matcher_keys r in
      if keys \<noteq> [] then
        ([], [caddy_declare loc r (''route for '' @ host @ '' is scoped by non-host matcher(s) crenel does not model (''
           @ join_with '', '' keys @ '')'') UnknownMatcher], False)
      else case first_dial r of
        Some dial \<Rightarrow> ([leaf_route r host managed auth dial], [], True)
      | None \<Rightarrow>
          (case subroutes r of
             None \<Rightarrow>
               if has_deny_handler r then ([], [], True)
               else ([], [caddy_declare loc r (''route for '' @ host @ '' has no reverse_proxy/subroute crenel can resolve (handlers: ''
                  @ handler_names r @ '')'') UnknownHandler], False)
           | Some subs \<Rightarrow>
               (let parts = map (\<lambda>(sr, h, l). collect_leaves sr h managed auth l) (below host loc subs);
                    routes = concat (map fst parts); un = concat (map (fst \<circ> snd) parts)
                in if \<not> list_ex (snd \<circ> snd) parts \<and> un = []
                   then (routes, [caddy_declare loc r (''subroute under '' @ host @ '' yielded no resolvable leaf route'') UnknownNestedRoute], False)
                   else (routes, un, True))))"
  by pat_completeness auto
termination
  by (relation "measure (\<lambda>(r, _). size r)") (auto dest!: below_mem dest: size_subroute)

declare collect_leaves.simps [simp del]

text \<open>A subroute without a host: whether it only denies, and whether it forwards every host.\<close>

fun hostless_class :: "bool \<Rightarrow> cd_route list \<Rightarrow> bool \<times> bool" where
  "hostless_class all_deny [] = (all_deny, False)"
| "hostless_class all_deny (sr # rs) =
     (if host_matches sr \<noteq> [] then (False, False)
      else if first_dial sr \<noteq> None then (False, True)
      else if subroutes sr \<noteq> None then (False, False)
      else hostless_class (all_deny \<and> has_deny_handler sr) rs)"

definition classify_hostless_subroute :: "cd_route list \<Rightarrow> bool \<times> bool" where
  "classify_hostless_subroute subs = (if subs = [] then (False, False) else hostless_class True subs)"

section \<open>Servers\<close>

record server_read =
  sr_routes :: "route list"
  sr_unparsed :: "unparsed list"
  sr_permissive :: bool

definition none_read :: server_read where "none_read = \<lparr>sr_routes = [], sr_unparsed = [], sr_permissive = False\<rparr>"

definition read_top_route :: "string \<Rightarrow> nat \<Rightarrow> cd_route \<Rightarrow> server_read" where
  "read_top_route key i r =
     (let loc = ''apps.http.servers.'' @ key @ ''.routes['' @ index_text i @ '']''; hs = host_matches r in
      if hs = [] then
        (if first_dial r \<noteq> None then none_read\<lparr>sr_permissive := True\<rparr>
         else if has_deny_handler r then none_read
         else case subroutes r of
           Some subs \<Rightarrow>
             (let (deny_only, permissive) = classify_hostless_subroute subs
              in if permissive then none_read\<lparr>sr_permissive := True\<rparr>
                 else if deny_only then none_read
                 else none_read\<lparr>sr_unparsed := [caddy_declare loc r
                   ''top-level host-less subroute not descended (no host to attribute its leaves to)'' UnknownNestedRoute]\<rparr>)
         | None \<Rightarrow> none_read\<lparr>sr_unparsed := [caddy_declare loc r
             (''top-level host-less route with handler(s) crenel does not model: '' @ handler_names r) UnknownHandler]\<rparr>)
      else (let parts = map (\<lambda>h. collect_leaves r h False [] loc) hs
            in \<lparr>sr_routes = concat (map fst parts), sr_unparsed = concat (map (fst \<circ> snd) parts), sr_permissive = False\<rparr>))"

definition normalize_server :: "cd_server \<Rightarrow> string \<Rightarrow> server_read" where
  "normalize_server srv key =
     (let parts = map (\<lambda>(i, r). read_top_route key i r) (enumerate 0 (sv_routes srv))
      in \<lparr>sr_routes = concat (map sr_routes parts), sr_unparsed = concat (map sr_unparsed parts),
          sr_permissive = list_ex sr_permissive parts\<rparr>)"

definition sibling_keys :: "(string \<times> cd_server) list \<Rightarrow> string \<Rightarrow> string list" where
  "sibling_keys servers configured = sort (filter (\<lambda>k. k \<noteq> configured) (remdups (map fst servers)))"

definition route_forwards :: "cd_route \<Rightarrow> bool" where
  "route_forwards r = (first_dial r \<noteq> None \<or> subroutes r \<noteq> None)"

definition server_forwards :: "cd_server \<Rightarrow> bool" where
  "server_forwards srv = list_ex route_forwards (sv_routes srv)"

definition listen_desc :: "cd_server \<Rightarrow> string" where
  "listen_desc srv = (if sv_listen srv = [] then ''(default)'' else join_with '','' (sv_listen srv))"

definition read_sibling :: "string \<Rightarrow> cd_server \<Rightarrow> route list \<times> unparsed list" where
  "read_sibling key srv =
     (if \<not> server_forwards srv then ([], [])
      else (let s = normalize_server srv key in
        if sr_unparsed s = [] \<and> \<not> sr_permissive s then (sr_routes s, [])
        else ([], [\<lparr>n_locator = ''apps.http.servers.'' @ key, n_kind = UnknownServerBlock,
          n_reason = ''sibling http server '' @ key @ '' (listen '' @ listen_desc srv @ '') forwards traffic but crenel cannot fully model it''
            @ '' '' @ em_dash @ (if sr_permissive s then '' it has a permissive host-less catch-all (fail-open for this listener)''
               else '' '' @ index_text (length (sr_unparsed s)) @ '' route(s) not understood''),
          n_raw_excerpt = server_excerpt srv\<rparr>])))"

definition layer4_route :: "l4_route \<Rightarrow> route option" where
  "layer4_route r =
     (case first_sni_proxy r of
        None \<Rightarrow> None
      | Some (host, dial) \<Rightarrow> (let managed = (lr_id r = l4_route_id host) in
          Some \<lparr>r_host = host,
            r_upstream = \<lparr>u_kind = ForwardToOrigin, u_mode = ModeTCPPassthrough, u_address = dial, u_tls_passthrough = True,
              u_server_name = host, u_upstream_tls = False, u_auth = []\<rparr>,
            r_managed = managed, r_ownership = ownership_from_marker managed, r_chain = None\<rparr>))"

definition layer4_routes :: "caddy_config \<Rightarrow> route list" where
  "layer4_routes cfg =
     (case cg_layer4 cfg of
        None \<Rightarrow> []
      | Some servers \<Rightarrow> concat (map (\<lambda>k. case map_of servers k of
            Some rs \<Rightarrow> List.map_filter layer4_route rs | None \<Rightarrow> []) (sort (remdups (map fst servers)))))"

definition caddy_normalize :: "caddy_config \<Rightarrow> string \<Rightarrow> string \<Rightarrow> live_edge_state" where
  "caddy_normalize cfg key raw =
     (let own = map_option (\<lambda>srv. normalize_server srv key) (map_of (cg_servers cfg) key);
          siblings = map (\<lambda>k. case map_of (cg_servers cfg) k of Some srv \<Rightarrow> read_sibling k srv | None \<Rightarrow> ([], []))
            (sibling_keys (cg_servers cfg) key)
      in (empty_live (case own of Some s \<Rightarrow> \<not> sr_permissive s | None \<Rightarrow> cg_layer4 cfg \<noteq> None))
           \<lparr>l_routes := layer4_routes cfg @ (case own of Some s \<Rightarrow> sr_routes s | None \<Rightarrow> []) @ concat (map fst siblings),
            l_unparsed := (case own of Some s \<Rightarrow> sr_unparsed s | None \<Rightarrow> []) @ concat (map snd siblings),
            l_raw := raw\<rparr>)"

section \<open>What an enforced verdict rests on\<close>

definition is_acked :: "cd_route \<Rightarrow> bool" where "is_acked r = (parse_ack_marker (cr_id r) \<noteq> None)"

lemma declare_kind: "kind \<noteq> UnknownAcknowledged \<Longrightarrow> n_kind (caddy_declare loc r reason kind) = UnknownAcknowledged \<longleftrightarrow> is_acked r"
  by (simp add: caddy_declare_def caddy_ack_aware_def is_acked_def split: option.splits)

text \<open>The routes a route asked for a host leads to through its subroutes, with the host each is asked for. A
  route that forwards, or that is scoped by more than its host, leads no further.\<close>

definition asked :: "string \<Rightarrow> cd_route \<Rightarrow> string list" where
  "asked host sr = (if host_matches sr = [] then [host] else host_matches sr)"

inductive leads :: "cd_route \<Rightarrow> string \<Rightarrow> cd_route \<Rightarrow> string \<Rightarrow> bool" where
  leads_here: "leads r h r h"
| leads_below: "extra_matcher_keys r = [] \<Longrightarrow> first_dial r = None \<Longrightarrow> subroutes r = Some subs \<Longrightarrow> sr \<in> set subs
    \<Longrightarrow> g \<in> set (asked h sr) \<Longrightarrow> leads sr g r' h' \<Longrightarrow> leads r h r' h'"

inductive_cases leads_E: "leads r h r' h'"

text \<open>Where a walk may end: at something acknowledged, at a proxy that is among the routes reported, at a
  deny.\<close>

definition settles :: "route list \<Rightarrow> cd_route \<Rightarrow> string \<Rightarrow> bool" where
  "settles rs r host =
     (is_acked r \<or> extra_matcher_keys r = [] \<and>
       (case first_dial r of
          Some dial \<Rightarrow> list_ex (\<lambda>x. r_host x = host \<and> u_address (r_upstream x) = dial) rs
        | None \<Rightarrow> subroutes r = None \<and> has_deny_handler r))"

text \<open>What has become of a route on the way: it settles, or is nothing but a subroute and leads to one that
  does. A subroute that is empty or leads nowhere is not accounted for.\<close>

definition accounted :: "route list \<Rightarrow> cd_route \<Rightarrow> string \<Rightarrow> bool" where
  "accounted rs r host =
     (settles rs r host \<or> extra_matcher_keys r = [] \<and> first_dial r = None
        \<and> (\<exists>r' h'. leads r host r' h' \<and> r' \<noteq> r \<and> settles rs r' h'))"

lemma settles_mono: "settles rs r h \<Longrightarrow> set rs \<subseteq> set rs' \<Longrightarrow> settles rs' r h"
  by (auto simp: settles_def list_ex_iff split: option.splits)

lemma accounted_mono: "accounted rs r h \<Longrightarrow> set rs \<subseteq> set rs' \<Longrightarrow> accounted rs' r h"
  using settles_mono unfolding accounted_def by metis

lemma leads_size: "leads r h r' h' \<Longrightarrow> size r' \<le> size r"
  by (induction rule: leads.induct) (auto dest: size_subroute)

lemma slot_of: "x \<in> set xs \<Longrightarrow> \<exists>i. (i, x) \<in> set (enumerate 0 xs)"
  by (auto simp: in_set_conv_nth [of x] in_set_enumerate_eq)

lemma below_asked: "sr \<in> set subs \<Longrightarrow> g \<in> set (asked h sr) \<Longrightarrow> \<exists>l. (sr, g, l) \<in> set (below h loc subs)"
proof -
  assume "sr \<in> set subs" and g: "g \<in> set (asked h sr)"
  then obtain j where "(j, sr) \<in> set (enumerate 0 subs)" using slot_of [of sr subs] by auto
  with g have "(sr, g, child_locator loc j) \<in> set (below h loc subs)"
    by (auto simp: below_def asked_def intro!: bexI [of _ "(j, sr)"] split: if_splits)
  then show ?thesis by blast
qed

definition all_acked :: "unparsed list \<Rightarrow> bool" where
  "all_acked us = list_all (\<lambda>u. n_kind u = UnknownAcknowledged) us"

lemma all_acked_simps [simp]:
  "all_acked []" "all_acked (u # us) \<longleftrightarrow> n_kind u = UnknownAcknowledged \<and> all_acked us"
  "all_acked (us @ vs) \<longleftrightarrow> all_acked us \<and> all_acked vs"
  "all_acked (concat uss) \<longleftrightarrow> (\<forall>us \<in> set uss. all_acked us)"
  by (auto simp: all_acked_def list_all_iff)

text \<open>What is collected for a route below is part of what is collected.\<close>

lemma joined_part:
  assumes "p \<in> set parts" and "res = (if \<not> list_ex (snd \<circ> snd) parts \<and> concat (map (fst \<circ> snd) parts) = []
      then (concat (map fst parts), [u], False) else (concat (map fst parts), concat (map (fst \<circ> snd) parts), True))"
    and "all_acked (fst (snd res))"
  shows "set (fst p) \<subseteq> set (fst res) \<and> all_acked (fst (snd p))"
  using assms(1,3) unfolding assms(2) by (auto split: if_splits)

lemma collect_below:
  assumes "extra_matcher_keys r = []" and "first_dial r = None" and "subroutes r = Some subs"
    and "(sr, g, l) \<in> set (below h loc subs)" and "all_acked (fst (snd (collect_leaves r h m a loc)))"
  shows "\<exists>m' a'. set (fst (collect_leaves sr g m' a' l)) \<subseteq> set (fst (collect_leaves r h m a loc))
    \<and> all_acked (fst (snd (collect_leaves sr g m' a' l)))"
proof -
  let ?m = "m \<or> cr_id r = caddy_route_id h" and ?a = "if caddy_auth r \<noteq> [] then caddy_auth r else a"
  let ?parts = "map (\<lambda>(sr, h, l). collect_leaves sr h ?m ?a l) (below h loc subs)"
  have "collect_leaves sr g ?m ?a l \<in> set ?parts" using assms(4) by force
  moreover have "collect_leaves r h m a loc =
     (if \<not> list_ex (snd \<circ> snd) ?parts \<and> concat (map (fst \<circ> snd) ?parts) = []
      then (concat (map fst ?parts), [caddy_declare loc r (''subroute under '' @ h @ '' yielded no resolvable leaf route'') UnknownNestedRoute], False)
      else (concat (map fst ?parts), concat (map (fst \<circ> snd) ?parts), True))"
    using assms(1-3) by (subst collect_leaves.simps) (simp add: Let_def)
  ultimately show ?thesis using joined_part [OF _ _ assms(5)] by blast
qed

lemma collect_end:
  assumes "all_acked (fst (snd (collect_leaves r h m a loc)))"
    and "extra_matcher_keys r \<noteq> [] \<or> first_dial r \<noteq> None \<or> subroutes r = None"
  shows "settles (fst (collect_leaves r h m a loc)) r h"
  using assms(2) by (rule rev_mp; insert assms(1); subst (asm) collect_leaves.simps, subst collect_leaves.simps)
    (auto simp: Let_def declare_kind settles_def leaf_route_def split: option.splits if_splits)

text \<open>A subroute that holds no route is declared.\<close>

lemma collect_empty:
  assumes "extra_matcher_keys r = []" and "first_dial r = None" and "subroutes r = Some subs"
    and "below h loc subs = []" and "all_acked (fst (snd (collect_leaves r h m a loc)))"
  shows "is_acked r"
  using assms(5) by (subst (asm) collect_leaves.simps) (simp add: assms(1-4) declare_kind)

lemma collect_here: "all_acked (fst (snd (collect_leaves r h m a loc))) \<Longrightarrow> accounted (fst (collect_leaves r h m a loc)) r h"
proof (induction r arbitrary: h m a loc rule: measure_induct_rule [of size])
  case (less r)
  show ?case
  proof (cases "extra_matcher_keys r \<noteq> [] \<or> first_dial r \<noteq> None \<or> subroutes r = None")
    case True
    from collect_end [OF less.prems this] show ?thesis by (simp add: accounted_def)
  next
    case False
    then obtain subs where s: "extra_matcher_keys r = []" "first_dial r = None" "subroutes r = Some subs" by auto
    show ?thesis
    proof (cases "below h loc subs")
      case Nil
      from collect_empty [OF s Nil less.prems] show ?thesis by (simp add: accounted_def settles_def)
    next
      case (Cons p ps)
      then obtain sr g l where p: "(sr, g, l) \<in> set (below h loc subs)" by (cases p) auto
      then have sr: "sr \<in> set subs" "g \<in> set (asked h sr)"
        by (auto simp: below_def asked_def in_set_enumerate_eq split: if_splits)
      with s(3) have size: "size sr < size r" by (auto dest: size_subroute)
      from collect_below [OF s p less.prems] obtain m' a' where
        part: "set (fst (collect_leaves sr g m' a' l)) \<subseteq> set (fst (collect_leaves r h m a loc))"
          "all_acked (fst (snd (collect_leaves sr g m' a' l)))" by blast
      from accounted_mono [OF less.IH [OF size part(2)] part(1)] obtain r' h' where
        "leads sr g r' h'" "settles (fst (collect_leaves r h m a loc)) r' h'"
        unfolding accounted_def using leads_here by blast
      moreover from this(1) have "r' \<noteq> r" using leads_size [of sr g r' h'] size by auto
      ultimately show ?thesis
        using leads_below [OF s sr] s by (auto simp: accounted_def)
    qed
  qed
qed

lemma collect_leads:
  "leads r h r' h' \<Longrightarrow> all_acked (fst (snd (collect_leaves r h m a loc))) \<Longrightarrow> accounted (fst (collect_leaves r h m a loc)) r' h'"
proof (induction arbitrary: m a loc rule: leads.induct)
  case (leads_here r h)
  then show ?case by (rule collect_here)
next
  case (leads_below r subs sr g h r' h')
  obtain l where "(sr, g, l) \<in> set (below h loc subs)" using below_asked leads_below.hyps(4,5) by blast
  from collect_below [OF leads_below.hyps(1-3) this leads_below.prems] leads_below.IH
  show ?case using accounted_mono by blast
qed

text \<open>A route without a host at the top: a deny, acknowledged, or a subroute that only denies.\<close>

definition only_denies :: "cd_route \<Rightarrow> bool" where
  "only_denies sr = (host_matches sr = [] \<and> first_dial sr = None \<and> subroutes sr = None \<and> has_deny_handler sr)"

definition hostless_closed :: "cd_route \<Rightarrow> bool" where
  "hostless_closed r = (first_dial r = None \<and> (has_deny_handler r \<or> is_acked r
     \<or> (\<exists>subs. subroutes r = Some subs \<and> subs \<noteq> [] \<and> list_all only_denies subs)))"

lemma hostless_class_deny: "hostless_class b rs = (d, p) \<Longrightarrow> d \<Longrightarrow> b \<and> list_all only_denies rs"
  by (induction b rs rule: hostless_class.induct) (auto simp: only_denies_def split: if_splits)

lemma top_hostless:
  assumes "host_matches r = []" and "\<not> sr_permissive (read_top_route key i r)" and "all_acked (sr_unparsed (read_top_route key i r))"
  shows "hostless_closed r"
proof (cases "subroutes r")
  case None
  then show ?thesis using assms
    by (auto simp: read_top_route_def none_read_def hostless_closed_def Let_def declare_kind split: if_splits)
next
  case (Some subs)
  obtain d p where c: "classify_hostless_subroute subs = (d, p)" by fastforce
  with hostless_class_deny have "d \<Longrightarrow> subs \<noteq> [] \<and> list_all only_denies subs"
    by (auto simp: classify_hostless_subroute_def split: if_splits)
  then show ?thesis using assms Some c
    by (auto simp: read_top_route_def none_read_def hostless_closed_def Let_def declare_kind split: if_splits)
qed

lemma top_hosted:
  assumes "h \<in> set (host_matches r)" and "all_acked (sr_unparsed (read_top_route key i r))" and "leads r h r' h'"
  shows "accounted (sr_routes (read_top_route key i r)) r' h'"
proof -
  let ?loc = "''apps.http.servers.'' @ key @ ''.routes['' @ index_text i @ '']''"
  have ne: "host_matches r \<noteq> []" using assms(1) by auto
  have "all_acked (fst (snd (collect_leaves r h False [] ?loc)))"
    using assms(1,2) ne by (auto simp: read_top_route_def Let_def)
  moreover have "set (fst (collect_leaves r h False [] ?loc)) \<subseteq> set (sr_routes (read_top_route key i r))"
    using assms(1) ne by (auto simp: read_top_route_def Let_def)
  ultimately show ?thesis using collect_leads [OF assms(3)] accounted_mono by blast
qed

text \<open>A server that is read without a permissive route, everything declared acknowledged.\<close>

definition server_accounted :: "route list \<Rightarrow> cd_server \<Rightarrow> bool" where
  "server_accounted rs srv = (\<forall>r \<in> set (sv_routes srv).
     (host_matches r = [] \<longrightarrow> hostless_closed r)
     \<and> (\<forall>h \<in> set (host_matches r). \<forall>r' h'. leads r h r' h' \<longrightarrow> accounted rs r' h'))"

lemma server_accounted_read:
  assumes "\<not> sr_permissive (normalize_server srv key)" and "all_acked (sr_unparsed (normalize_server srv key))"
    and "set (sr_routes (normalize_server srv key)) \<subseteq> set rs"
  shows "server_accounted rs srv"
  unfolding server_accounted_def
proof
  fix r
  assume "r \<in> set (sv_routes srv)"
  then obtain i where "(i, r) \<in> set (enumerate 0 (sv_routes srv))" using slot_of [of r "sv_routes srv"] by auto
  with assms have "\<not> sr_permissive (read_top_route key i r)" "all_acked (sr_unparsed (read_top_route key i r))"
    "set (sr_routes (read_top_route key i r)) \<subseteq> set rs"
    by (auto simp: normalize_server_def Let_def list_ex_iff)
  then show "(host_matches r = [] \<longrightarrow> hostless_closed r)
      \<and> (\<forall>h \<in> set (host_matches r). \<forall>r' h'. leads r h r' h' \<longrightarrow> accounted rs r' h')"
    using top_hostless top_hosted accounted_mono by blast
qed

text \<open>C11. What an enforced default deny of Caddy's http servers rests on. A route without a host on the managed
  server, or on another server that forwards, has no proxy among its handlers, and has a deny among them, is
  acknowledged, or its first subroute is not empty and holds nothing but denies. A route with a host is
  followed through the first subroute of each route, to the first route with a proxy: every route met on the
  way is acknowledged, has its proxy among the routes reported, is a deny without a subroute, or is a bare
  subroute below which such a route is met. An empty subroute, or one that leads to nothing of the kind, is
  met only where it was acknowledged.\<close>

theorem caddy_enforced_sound:
  assumes "deny_verdict (caddy_normalize cfg key raw) = DenyEnforced" and "map_of (cg_servers cfg) k = Some srv"
    and "k = key \<or> server_forwards srv"
  shows "server_accounted (l_routes (caddy_normalize cfg key raw)) srv"
proof -
  let ?live = "caddy_normalize cfg key raw"
  have acked: "all_acked (l_unparsed ?live)" and present: "l_deny_present ?live"
    using assms(1) by (auto simp: deny_verdict_def fully_parsed_def all_acked_def split: if_splits)
  show ?thesis
  proof (cases "k = key")
    case True
    then show ?thesis using acked present assms(2)
      by (intro server_accounted_read [of srv key]) (auto simp: caddy_normalize_def Let_def empty_live_def)
  next
    case False
    with assms(2) have "k \<in> set (sibling_keys (cg_servers cfg) key)" by (force simp: sibling_keys_def dest: map_of_SomeD)
    with assms(2) acked have part: "all_acked (snd (read_sibling k srv))" "set (fst (read_sibling k srv)) \<subseteq> set (l_routes ?live)"
      by (fastforce simp: caddy_normalize_def Let_def)+
    from False assms(3) have "server_forwards srv" by simp
    with part(1) have "sr_unparsed (normalize_server srv k) = []" "\<not> sr_permissive (normalize_server srv k)"
      by (auto simp: read_sibling_def Let_def split: if_splits)
    with part(2) \<open>server_forwards srv\<close> show ?thesis
      by (intro server_accounted_read [of srv k]) (auto simp: read_sibling_def Let_def)
  qed
qed

definition proxy_handler :: "string \<Rightarrow> cd_handler" where
  "proxy_handler a = CdHandler ''reverse_proxy'' [a] 0 False [] None [] None"

definition deny_handler :: cd_handler where
  "deny_handler = CdHandler ''static_response'' [] 403 False [] None [] None"

definition subroute_handler :: "cd_route list \<Rightarrow> cd_handler" where
  "subroute_handler rs = CdHandler ''subroute'' [] 0 False rs None [] None"

definition host_route :: "string \<Rightarrow> cd_handler list \<Rightarrow> cd_route" where
  "host_route h hs = CdRoute [] [\<lparr>cm_host = [h], cm_extra = []\<rparr>] hs"

definition one_server :: "cd_route list \<Rightarrow> caddy_config" where
  "one_server rs = \<lparr>cg_servers = [(''srv0'', \<lparr>sv_listen = ['':443''], sv_routes = rs\<rparr>)], cg_layer4 = None\<rparr>"

definition zone_route :: cd_route where
  "zone_route = host_route ''*.ex'' [subroute_handler [host_route ''a.ex'' [proxy_handler ''h:1'']]]"

lemma caddy_enforced_sound_witness:
  "deny_verdict (caddy_normalize (one_server [zone_route, CdRoute [] [] [deny_handler]]) ''srv0'' []) = DenyEnforced
   \<and> leads zone_route ''*.ex'' (host_route ''a.ex'' [proxy_handler ''h:1'']) ''a.ex''
   \<and> accounted (l_routes (caddy_normalize (one_server [zone_route, CdRoute [] [] [deny_handler]]) ''srv0'' []))
        (host_route ''a.ex'' [proxy_handler ''h:1'']) ''a.ex''"
proof -
  let ?cfg = "one_server [zone_route, CdRoute [] [] [deny_handler]]"
  have v: "deny_verdict (caddy_normalize ?cfg ''srv0'' []) = DenyEnforced" by code_simp
  have "leads zone_route ''*.ex'' (host_route ''a.ex'' [proxy_handler ''h:1'']) ''a.ex''"
  proof (rule leads_below [OF _ _ _ _ _ leads_here])
    show "extra_matcher_keys zone_route = []" "first_dial zone_route = None"
      "subroutes zone_route = Some [host_route ''a.ex'' [proxy_handler ''h:1'']]"
      "''a.ex'' \<in> set (asked ''*.ex'' (host_route ''a.ex'' [proxy_handler ''h:1'']))" by code_simp+
  qed simp
  moreover have "map_of (cg_servers ?cfg) ''srv0'' = Some \<lparr>sv_listen = ['':443''], sv_routes = [zone_route, CdRoute [] [] [deny_handler]]\<rparr>"
    by (simp add: one_server_def)
  from caddy_enforced_sound [OF v this]
  have "server_accounted (l_routes (caddy_normalize ?cfg ''srv0'' [])) \<lparr>sv_listen = ['':443''], sv_routes = [zone_route, CdRoute [] [] [deny_handler]]\<rparr>"
    by simp
  moreover have "''*.ex'' \<in> set (host_matches zone_route)" by code_simp
  ultimately show ?thesis using v by (auto simp: server_accounted_def)
qed

section \<open>What the verdict does not see\<close>

text \<open>A route without a host whose subroute forwards everything and which ends in a deny: the deny is seen
  first, and the verdict is enforced.\<close>

lemma caddy_deny_hides_subroute:
  "(let live = caddy_normalize (one_server [CdRoute [] [] [subroute_handler [CdRoute [] [] [proxy_handler ''h:1'']], deny_handler]]) ''srv0'' []
    in deny_verdict live = DenyEnforced \<and> l_routes live = [] \<and> l_unparsed live = [])"
  by code_simp

text \<open>Of several subroutes of a route only the first is read.\<close>

lemma caddy_second_subroute_unread:
  "(let live = caddy_normalize (one_server [host_route ''a.ex'' [subroute_handler [host_route ''a.ex'' [deny_handler]],
        subroute_handler [host_route ''a.ex'' [proxy_handler ''h:1'']]]]) ''srv0'' []
    in deny_verdict live = DenyEnforced \<and> l_routes live = [] \<and> l_unparsed live = [])"
  by code_simp

text \<open>A layer-4 route without a name forwards every connection, and is not declared.\<close>

lemma caddy_layer4_forward_unread:
  "(let live = caddy_normalize \<lparr>cg_servers = [], cg_layer4 = Some [(''l4'', [\<lparr>lr_id = [], lr_match = [], lr_handle = [(''proxy'', [ [''h:1''] ])]\<rparr>])]\<rparr> ''srv0'' []
    in deny_verdict live = DenyEnforced \<and> l_routes live = [] \<and> l_unparsed live = [])"
  by code_simp

section \<open>The routes that are read\<close>

text \<open>A route that is read is marked as managed exactly when it is owned, and only a layer-4 route passes TLS on.\<close>

definition well_read :: "route \<Rightarrow> bool" where
  "well_read r = (r_managed r = (r_ownership r = OwnCrenel) \<and> r_chain r = None \<and> u_kind (r_upstream r) = ForwardToOrigin
     \<and> u_server_name (r_upstream r) = r_host r \<and> u_tls_passthrough (r_upstream r) = (u_mode (r_upstream r) = ModeTCPPassthrough)
     \<and> (u_tls_passthrough (r_upstream r) \<longrightarrow> r_host r \<noteq> [] \<and> u_address (r_upstream r) \<noteq> []))"

lemma collect_well_read: "x \<in> set (fst (collect_leaves r h m a loc)) \<Longrightarrow> well_read x"
proof (induction r h m a loc rule: collect_leaves.induct)
  case (1 r h m a loc)
  let ?m = "m \<or> cr_id r = caddy_route_id h" and ?a = "if caddy_auth r \<noteq> [] then caddy_auth r else a"
  show ?case
  proof (cases "extra_matcher_keys r = [] \<and> first_dial r = None \<and> subroutes r \<noteq> None")
    case True
    then obtain subs where s: "extra_matcher_keys r = []" "first_dial r = None" "subroutes r = Some subs" by blast
    with 1(2) obtain sr g l where "(sr, g, l) \<in> set (below h loc subs)" "x \<in> set (fst (collect_leaves sr g ?m ?a l))"
      by (subst (asm) collect_leaves.simps) (auto simp: Let_def split: if_splits)
    with 1(1) s show ?thesis by blast
  next
    case False
    with 1(2) show ?thesis
      by (subst (asm) collect_leaves.simps)
        (auto simp: Let_def leaf_route_def well_read_def ownership_from_marker_def split: option.splits if_splits)
  qed
qed

lemma layer4_well_read: "x \<in> set (layer4_routes cfg) \<Longrightarrow> well_read x"
  by (auto simp: layer4_routes_def layer4_route_def first_sni_proxy_def well_read_def ownership_from_marker_def Let_def
      List.map_filter_def split: option.splits if_splits)

lemma top_well_read: "x \<in> set (sr_routes (read_top_route key i r)) \<Longrightarrow> well_read x"
  by (auto simp: read_top_route_def none_read_def Let_def dest: collect_well_read split: option.splits prod.splits if_splits)

lemma server_well_read: "x \<in> set (sr_routes (normalize_server srv key)) \<Longrightarrow> well_read x"
  by (auto simp: normalize_server_def Let_def dest: top_well_read)

lemma normalize_well_read: "x \<in> set (l_routes (caddy_normalize cfg key raw)) \<Longrightarrow> well_read x"
  by (auto simp: caddy_normalize_def read_sibling_def Let_def dest: layer4_well_read server_well_read split: option.splits if_splits)

section \<open>What is declared is bounded\<close>

lemma bounded_json_length: "length (bounded_json s) \<le> 243"
  by (simp add: bounded_json_def)

lemma declare_bounded: "length (n_raw_excerpt (caddy_declare loc r reason kind)) \<le> 243"
  by (simp add: caddy_declare_def caddy_ack_aware_def route_excerpt_def bounded_json_length split: option.split)

lemma collect_bounded: "u \<in> set (fst (snd (collect_leaves r h m a loc))) \<Longrightarrow> length (n_raw_excerpt u) \<le> 243"
proof (induction r h m a loc rule: collect_leaves.induct)
  case (1 r h m a loc)
  let ?m = "m \<or> cr_id r = caddy_route_id h" and ?a = "if caddy_auth r \<noteq> [] then caddy_auth r else a"
  consider reason kind where "u = caddy_declare loc r reason kind"
    | subs sr g l where "extra_matcher_keys r = []" "first_dial r = None" "subroutes r = Some subs"
        "(sr, g, l) \<in> set (below h loc subs)" "u \<in> set (fst (snd (collect_leaves sr g ?m ?a l)))"
    using 1(2) by (subst (asm) collect_leaves.simps) (auto simp: Let_def split: option.splits if_splits)
  then show ?case
  proof cases
    case 2
    with 1(1) show ?thesis by blast
  qed (simp add: declare_bounded)
qed

lemma top_bounded: "u \<in> set (sr_unparsed (read_top_route key i r)) \<Longrightarrow> length (n_raw_excerpt u) \<le> 243"
  by (auto simp: read_top_route_def none_read_def Let_def declare_bounded dest: collect_bounded split: option.splits prod.splits if_splits)

lemma server_bounded: "u \<in> set (sr_unparsed (normalize_server srv key)) \<Longrightarrow> length (n_raw_excerpt u) \<le> 243"
  by (auto simp: normalize_server_def Let_def dest: top_bounded)

lemma sibling_bounded: "u \<in> set (snd (read_sibling key srv)) \<Longrightarrow> length (n_raw_excerpt u) \<le> 243"
  by (auto simp: read_sibling_def Let_def server_excerpt_def bounded_json_length split: if_splits)

text \<open>C17. However large a configuration of Caddy is, what is quoted of a construct that is declared is at most 240 bytes
  and the three of the ellipsis.\<close>

theorem caddy_excerpts_bounded:
  "list_all (\<lambda>u. length (n_raw_excerpt u) \<le> 243) (l_unparsed (caddy_normalize cfg key raw))"
  unfolding list_all_iff
  by (auto simp: caddy_normalize_def Let_def dest!: server_bounded sibling_bounded split: option.splits)

end
