(* ===== verification/Caddy.thy ===== *)
theory Caddy
  imports Caddy_Read Calls
begin

text \<open>
  The Caddy driver, \<open>internal/drivers/edge/caddy\<close>: \<open>caddy.go\<close>, \<open>render.go\<close>, \<open>ack_locator.go\<close>, over the
  admin API as a transport carries it. A request of the admin API is the value of its method, path and
  body, a path being the list of its segments; a call fails on the transport, by a timeout or otherwise, or
  is answered with a status and a body. What reads the running configuration reads it through a call,
  which may change the world. The mirror of the routes on disk (\<open>Persist\<close>) is an argument.
\<close>

datatype wire_error = WireTimeout | WireFail string

datatype adm_body = AdmNone | AdmJson json | AdmText string

datatype adm_request = AdmGet | AdmLoad string | AdmPut "string list" json | AdmPatch "string list" json
  | AdmDelete "string list" | AdmDeleteId string

type_synonym 'w caddy_wire = "'w \<Rightarrow> adm_request \<Rightarrow> (wire_error + (nat \<times> adm_body)) \<times> 'w"

text \<open>An operator's own handler is a document; bytes that are none count as one that is no object.\<close>

record caddy_auth_ref =
  ca_import :: string
  ca_forward :: string
  ca_verify :: string
  ca_copy :: "string list"
  ca_handler :: "json option"

record 'w caddy_driver =
  cy_server :: string
  cy_admin_url :: string
  cy_resolve :: "string \<Rightarrow> perr + string"
  cy_granular :: bool
  cy_layer4 :: bool
  cy_persist_path :: string
  cy_declared :: persistence_model
  cy_auth :: "(string \<times> caddy_auth_ref) list"
  cy_generator :: string
  cy_generator_path :: string
  cy_file :: "'w \<Rightarrow> string \<Rightarrow> string option"

section \<open>Calls of the admin API\<close>

definition do_admin :: "'w caddy_wire \<Rightarrow> adm_request \<Rightarrow> ('w, nat \<times> adm_body) call" where
  "do_admin wire rq w =
     (case wire w rq of
        (Inl WireTimeout, w') \<Rightarrow> (Inl ''caddy admin API unresponsive (bounded timeout exceeded)'', w')
      | (Inl (WireFail err), w') \<Rightarrow> (Inl err, w')
      | (Inr reply, w') \<Rightarrow> (Inr reply, w'))"

definition success_status :: "nat \<Rightarrow> bool" where "success_status st = (200 \<le> st \<and> st < 300)"

definition admin_write :: "'w caddy_wire \<Rightarrow> adm_request \<Rightarrow> ('w, unit) call" where
  "admin_write wire rq = call_bind (do_admin wire rq) (\<lambda>(st, _).
     if success_status st then call_return () else call_error ''admin returned an error status'')"

definition caddy_load :: "'w caddy_wire \<Rightarrow> string \<Rightarrow> ('w, unit) call" where
  "caddy_load wire text = call_bind (do_admin wire (AdmLoad text)) (\<lambda>(st, _).
     if success_status st then call_return () else call_error ''admin /load returned an error status'')"

definition caddy_healthy :: "'w caddy_wire \<Rightarrow> ('w, unit) call" where
  "caddy_healthy wire = call_bind (call_wrap ''caddy health probe: '' (do_admin wire AdmGet)) (\<lambda>(st, _).
     if st = 200 then call_return () else call_error ''caddy health probe: GET /config/ returned an error status'')"

text \<open>\<open>DELETE /id/<id>\<close>: whether a route was there to delete.\<close>

definition delete_by_id :: "'w caddy_wire \<Rightarrow> string \<Rightarrow> ('w, bool) call" where
  "delete_by_id wire i = call_bind (do_admin wire (AdmDeleteId i)) (\<lambda>(st, _).
     if st = 404 then call_return False
     else if success_status st then call_return True else call_error ''admin DELETE /id returned an error status'')"

definition delete_by_path :: "'w caddy_wire \<Rightarrow> string list \<Rightarrow> ('w, unit) call" where
  "delete_by_path wire p = call_bind (do_admin wire (AdmDelete p)) (\<lambda>(st, _).
     if st = 404 \<or> success_status st then call_return () else call_error ''admin DELETE returned an error status'')"

definition decode_body :: "adm_body \<Rightarrow> perr + caddy_config" where
  "decode_body body =
     (case body of
        AdmNone \<Rightarrow> Inr no_config
      | AdmText t \<Rightarrow> if trim_space t = [] \<or> trim_space t = ''null'' then Inr no_config else Inl ''caddy admin GET /config/: parse''
      | AdmJson j \<Rightarrow> (case dec_config j of Inl _ \<Rightarrow> Inl ''caddy admin GET /config/: parse'' | Inr cfg \<Rightarrow> Inr cfg))"

definition fetch_config_raw :: "'w caddy_wire \<Rightarrow> ('w, caddy_config \<times> adm_body) call" where
  "fetch_config_raw wire = call_bind (call_wrap ''caddy admin GET /config/: '' (do_admin wire AdmGet)) (\<lambda>(st, body).
     if st \<noteq> 200 then call_error ''caddy admin GET /config/ returned an error status''
     else call_bind (call_either (decode_body body)) (\<lambda>cfg. call_return (cfg, body)))"

definition fetch_config :: "'w caddy_wire \<Rightarrow> ('w, caddy_config) call" where
  "fetch_config wire = call_bind (fetch_config_raw wire) (\<lambda>(cfg, _). call_return cfg)"

definition raw_text :: "adm_body \<Rightarrow> string" where
  "raw_text body = (case body of AdmNone \<Rightarrow> [] | AdmText t \<Rightarrow> t | AdmJson j \<Rightarrow> json_text j)"

text \<open>The document as a generic object.\<close>

definition raw_object :: "adm_body \<Rightarrow> perr + json" where
  "raw_object body =
     (case body of AdmJson (JObj fs) \<Rightarrow> Inr (JObj fs) | AdmJson JNull \<Rightarrow> Inr (JObj [])
      | AdmText t \<Rightarrow> if trim_space t = ''null'' then Inr (JObj []) else Inl ''parse config'' | _ \<Rightarrow> Inl ''parse config'')"

section \<open>Reading\<close>

definition caddy_persistence :: "'w caddy_driver \<Rightarrow> persistence_model" where
  "caddy_persistence d =
     (if cy_declared d \<noteq> PersistUnset then cy_declared d
      else if cy_persist_path d \<noteq> [] then PersistDurableFile else PersistEphemeralAdmin)"

definition path_base :: "string \<Rightarrow> string" where
  "path_base p = rev (takeWhile (\<lambda>c. c \<noteq> CHR ''/'') (dropWhile (\<lambda>c. c = CHR ''/'') (rev p)))"

definition generator_of_file :: "string \<Rightarrow> string option \<Rightarrow> string" where
  "generator_of_file p content =
     (case content of
        None \<Rightarrow> []
      | Some t \<Rightarrow> if path_base p = ''Caddyfile.autosave'' \<or> str_contains t ''caddy-docker-proxy'' then ''caddy-docker-proxy'' else [])"

definition caddy_generator :: "'w caddy_driver \<Rightarrow> 'w \<Rightarrow> string" where
  "caddy_generator d w =
     (if cy_generator d \<noteq> [] then cy_generator d
      else if cy_generator_path d \<noteq> [] then generator_of_file (cy_generator_path d) (cy_file d w (cy_generator_path d))
      else [])"

definition mark_foreign :: "string \<Rightarrow> live_edge_state \<Rightarrow> live_edge_state" where
  "mark_foreign g s =
     (if g = [] then s
      else s\<lparr>l_generator := g, l_routes := map (\<lambda>r. r\<lparr>r_ownership := OwnForeign, r_managed := False\<rparr>) (l_routes s)\<rparr>)"

definition caddy_read_live :: "'w caddy_driver \<Rightarrow> 'w caddy_wire \<Rightarrow> ('w, live_edge_state) call" where
  "caddy_read_live d wire = call_bind (fetch_config_raw wire) (\<lambda>(cfg, body) w.
     (Inr ((mark_foreign (caddy_generator d w) (caddy_normalize cfg (cy_server d) (raw_text body)))\<lparr>l_persistence := caddy_persistence d\<rparr>), w))"

text \<open>C16. What a read returns: every route is managed exactly when it is owned, passes TLS on exactly when it is a
  layer-4 route and then has a host and an address; the persistence is known; and when the configuration
  belongs to a generator, every route is foreign to the program.\<close>

theorem caddy_read_typed:
  assumes "fst (caddy_read_live d wire w) = Inr live"
  shows "list_all well_read (l_routes live) \<and> classified (l_persistence live)
    \<and> (l_generator live \<noteq> [] \<longrightarrow> list_all (\<lambda>r. r_ownership r = OwnForeign) (l_routes live))"
proof -
  obtain cfg body w' where live: "live = (mark_foreign (caddy_generator d w')
      (caddy_normalize cfg (cy_server d) (raw_text body)))\<lparr>l_persistence := caddy_persistence d\<rparr>"
    using assms by (auto simp: caddy_read_live_def call_bind_def split: prod.splits sum.splits)
  have "classified (l_persistence live)" by (auto simp: live caddy_persistence_def classified_def)
  moreover have "l_generator (caddy_normalize cfg (cy_server d) (raw_text body)) = []"
    by (simp add: caddy_normalize_def empty_live_def Let_def)
  moreover have "list_all well_read (l_routes (caddy_normalize cfg (cy_server d) (raw_text body)))"
    using normalize_well_read by (auto simp: list_all_iff)
  ultimately show ?thesis by (auto simp: live mark_foreign_def list_all_iff well_read_def)
qed

lemma caddy_read_typed_witness:
  "(let d = \<lparr>cy_server = ''srv0'', cy_admin_url = [], cy_resolve = (\<lambda>_. Inl []), cy_granular = True, cy_layer4 = False,
        cy_persist_path = [], cy_declared = PersistUnset, cy_auth = [], cy_generator = ''gen'', cy_generator_path = [], cy_file = (\<lambda>_ _. None)\<rparr>;
      wire = (\<lambda>w rq. (Inr (200, AdmJson (JObj [(''apps'', JObj [(''http'', JObj [(''servers'', JObj [(''srv0'', JObj [(''routes'', JArr [
         JObj [(''match'', JArr [JObj [(''host'', JArr [JStr ''a.ex''])]]),
               (''handle'', JArr [JObj [(''handler'', JStr ''reverse_proxy''), (''upstreams'', JArr [JObj [(''dial'', JStr ''h:1'')]])]])]])])])])])])), w))
    in \<exists>live. fst (caddy_read_live d wire ()) = Inr live \<and> l_routes live \<noteq> [] \<and> list_all (\<lambda>r. r_ownership r = OwnForeign) (l_routes live))"
proof -
  let ?d = "\<lparr>cy_server = ''srv0'', cy_admin_url = [], cy_resolve = (\<lambda>_. Inl []), cy_granular = True, cy_layer4 = False,
        cy_persist_path = [], cy_declared = PersistUnset, cy_auth = [], cy_generator = ''gen'', cy_generator_path = [], cy_file = (\<lambda>_ _. None)\<rparr>"
  let ?wire = "\<lambda>w rq. (Inr (200, AdmJson (JObj [(''apps'', JObj [(''http'', JObj [(''servers'', JObj [(''srv0'', JObj [(''routes'', JArr [
         JObj [(''match'', JArr [JObj [(''host'', JArr [JStr ''a.ex''])]]),
               (''handle'', JArr [JObj [(''handler'', JStr ''reverse_proxy''), (''upstreams'', JArr [JObj [(''dial'', JStr ''h:1'')]])]])]])])])])])])), w)"
  have "case fst (caddy_read_live ?d ?wire ()) of Inr live \<Rightarrow> l_routes live \<noteq> [] \<and> l_generator live \<noteq> [] | Inl _ \<Rightarrow> False"
    by code_simp
  then obtain live where live: "fst (caddy_read_live ?d ?wire ()) = Inr live" "l_routes live \<noteq> []" "l_generator live \<noteq> []"
    by (cases "fst (caddy_read_live ?d ?wire ())") auto
  with caddy_read_typed [OF live(1)] show ?thesis unfolding Let_def by blast
qed

section \<open>Authentication\<close>

definition auth_ref :: "'w caddy_driver \<Rightarrow> string \<Rightarrow> caddy_auth_ref" where
  "auth_ref d policy =
     (let ref = (case map_of (cy_auth d) policy of Some r \<Rightarrow> r
         | None \<Rightarrow> \<lparr>ca_import = [], ca_forward = [], ca_verify = [], ca_copy = [], ca_handler = None\<rparr>)
      in if ca_import ref = [] \<and> ca_forward ref = [] then ref\<lparr>ca_import := policy\<rparr> else ref)"

definition auth_marker :: "string \<Rightarrow> json" where
  "auth_marker policy = JObj [(''crenel_policy'', JStr policy), (''handler'', JStr ''vars'')]"

definition headers_route :: "(string \<times> json) list \<Rightarrow> (string \<times> json) list \<Rightarrow> json" where
  "headers_route request matcher = JObj ([(''handle'', JArr [JObj [(''handler'', JStr ''headers''), (''request'', JObj request)]])] @ matcher)"

definition copy_header_delete :: "string \<Rightarrow> json" where
  "copy_header_delete h = headers_route [(''delete'', JArr [JStr h])] []"

definition copy_header_set :: "string \<Rightarrow> json" where
  "copy_header_set h = (let var = ''{http.reverse_proxy.header.'' @ h @ ''}''
     in headers_route [(''set'', JObj [(h, JArr [JStr var])])]
          [(''match'', JArr [JObj [(''not'', JArr [JObj [(''vars'', JObj [(var, JArr [JStr []])])]])]])])"

definition dial_list :: "string \<Rightarrow> json" where "dial_list a = JArr [JObj [(''dial'', JStr a)]]"

definition canonical_forward_auth :: "caddy_auth_ref \<Rightarrow> json" where
  "canonical_forward_auth ref = JObj
     [(''handle_response'', JArr [JObj
         [(''match'', JObj [(''status_code'', JArr [JNum 2])]),
          (''routes'', JArr (JObj [(''handle'', JArr [JObj [(''handler'', JStr ''vars'')]])]
             # concat (map (\<lambda>h. [copy_header_delete h, copy_header_set h]) (ca_copy ref))))]]),
      (''handler'', JStr ''reverse_proxy''),
      (''headers'', JObj [(''request'', JObj [(''set'', JObj
         [(''X-Forwarded-Method'', JArr [JStr ''{http.request.method}'']),
          (''X-Forwarded-Uri'', JArr [JStr ''{http.request.uri}''])])])]),
      (''rewrite'', JObj ([(''method'', JStr ''GET'')] @ (if ca_verify ref \<noteq> [] then [(''uri'', JStr (ca_verify ref))] else []))),
      (''upstreams'', dial_list (ca_forward ref))]"

definition auth_gate :: "'w caddy_driver \<Rightarrow> string \<Rightarrow> json option" where
  "auth_gate d policy =
     (let ref = auth_ref d policy;
          verbatim = (case ca_handler ref of
            Some j \<Rightarrow> if is_obj j \<and> json_field j ''handler'' \<notin> {None, Some JNull} then Some j else None | None \<Rightarrow> None)
      in case verbatim of
           Some j \<Rightarrow> Some j
         | None \<Rightarrow> if ca_forward ref \<noteq> [] \<and> ca_verify ref \<noteq> [] then Some (canonical_forward_auth ref) else None)"

definition auth_gate_error :: "'w caddy_driver \<Rightarrow> string \<Rightarrow> perr" where
  "auth_gate_error d policy =
     (let ref = auth_ref d policy in
      if ca_forward ref \<noteq> [] \<and> ca_verify ref = [] \<and> ca_handler ref = None
      then ''caddy auth: forward-auth policy '' @ policy @ '' sets an authorizer but no verify URI''
      else ''caddy auth: granular forward-auth for policy '' @ policy @ '' has no renderable Caddy reference'')"

definition real_auth :: "string \<Rightarrow> bool" where "real_auth auth = (auth \<noteq> [] \<and> auth \<noteq> auth_none)"

section \<open>Planning\<close>

definition caddy_mode_error :: "'w caddy_driver \<Rightarrow> op \<Rightarrow> perr option" where
  "caddy_mode_error d op =
     (case o_mode op of
        ModeHTTPProxy \<Rightarrow> None
      | ModeTCPPassthrough \<Rightarrow>
          if \<not> cy_layer4 d then Some ''mode unsupported: caddy does not render SNI passthrough without the layer4 plugin''
          else if \<not> cy_granular d then Some ''mode unsupported: caddy layer4 passthrough requires additive granular apply''
          else None
      | _ \<Rightarrow> Some (''mode unsupported: '' @ mode_string (o_mode op)))"

definition caddy_auth_error :: "'w caddy_driver \<Rightarrow> op \<Rightarrow> perr option" where
  "caddy_auth_error d op =
     (if \<not> has_auth_policy op then None
      else if \<not> cy_granular d then Some (''caddy auth: attaching forward-auth policy '' @ o_auth op @ '' requires additive granular apply'')
      else if auth_gate d (o_auth op) = None then Some (auth_gate_error d (o_auth op)) else None)"

definition caddy_plan :: "'w caddy_driver \<Rightarrow> op \<Rightarrow> live_edge_state \<Rightarrow> perr + change_set" where
  "caddy_plan d op live =
     (let cs = (mk_change_set op)\<lparr>cs_edge := no_edge_change\<rparr> in
      case caddy_mode_error d op of
        Some err \<Rightarrow> Inl err
      | None \<Rightarrow>
        (case caddy_auth_error d op of
           Some err \<Rightarrow> Inl err
         | None \<Rightarrow>
           (case o_verb op of
              Expose \<Rightarrow>
                if o_host op = [] then Inl ''caddy plan: expose requires a host''
                else if has_host live (o_host op) then Inr cs
                else (case (if o_to op \<noteq> [] then Inr (o_to op) else cy_resolve d (o_service op)) of
                        Inl err \<Rightarrow> Inl (''caddy plan: '' @ err)
                      | Inr addr \<Rightarrow> Inr (cs\<lparr>cs_edge := no_edge_change\<lparr>e_add := [mk_route (o_host op)
                          \<lparr>u_kind = ForwardToOrigin, u_mode = o_mode op, u_address = addr,
                           u_tls_passthrough = (o_mode op = ModeTCPPassthrough), u_server_name = o_host op,
                           u_upstream_tls = False, u_auth = o_auth op\<rparr>]\<rparr>, cs_new_public := [o_host op]\<rparr>))
            | Unexpose \<Rightarrow>
                if o_host op = [] then Inl ''caddy plan: unexpose requires a host''
                else if \<not> has_host live (o_host op) then Inr cs
                else Inr (cs\<lparr>cs_edge := no_edge_change\<lparr>e_remove := [o_host op]\<rparr>\<rparr>)
            | Rename \<Rightarrow> Inl ''caddy plan: unknown verb'')))"

section \<open>Full load\<close>

definition caddy_block :: "string \<Rightarrow> string \<Rightarrow> string" where
  "caddy_block head body = head @ '' {'' @ [newline, CHR 0x09] @ body @ [newline] @ ''}'' @ [newline]"

definition target_routes :: "live_edge_state \<Rightarrow> edge_change \<Rightarrow> route list" where
  "target_routes live ec =
     filter (\<lambda>r. u_mode (r_upstream r) \<noteq> ModeTCPPassthrough \<and> to_lower (r_host r) \<notin> to_lower ` set (e_remove ec)) (l_routes live)
     @ e_add ec"

text \<open>The routes by host, those of one host in the order they come in.\<close>

definition render_caddyfile :: "route list \<Rightarrow> string \<Rightarrow> string" where
  "render_caddyfile routes admin_listen =
     ''# crenel-managed v1 '' @ em_dash @ '' do not hand-edit'' @ [newline]
     @ (if admin_listen \<noteq> [] then ''{'' @ [newline, CHR 0x09] @ ''admin '' @ admin_listen @ [newline] @ ''}'' @ [newline] else [])
     @ concat (map (\<lambda>r. caddy_block (r_host r) (''reverse_proxy '' @ u_address (r_upstream r))) (sort_key r_host routes))
     @ caddy_block '':443'' ''respond 403''"

definition route_unsafe :: "edge_change \<Rightarrow> route \<Rightarrow> perr option" where
  "route_unsafe ec r =
     (if to_lower (r_host r) \<in> to_lower ` set (e_remove ec) then None
      else if real_auth (u_auth (r_upstream r))
      then Some (''caddy apply: refusing full-config load: route '' @ r_host r @ '' carries forward-auth'')
      else if u_mode (r_upstream r) = ModeTCPPassthrough
      then Some (''caddy apply: refusing full-config load: route '' @ r_host r @ '' is TCP passthrough'')
      else None)"

definition full_load_safe :: "live_edge_state \<Rightarrow> edge_change \<Rightarrow> perr option" where
  "full_load_safe live ec =
     (if l_unparsed live \<noteq> [] then Some ''caddy apply: refusing full-config load on an edge with unparsed constructs''
      else case List.map_filter (route_unsafe ec) (l_routes live) of
        err # _ \<Rightarrow> Some err
      | [] \<Rightarrow>
          (case find (\<lambda>r. real_auth (u_auth (r_upstream r))) (e_add ec) of
             Some r \<Rightarrow> Some (''caddy apply: exposing '' @ r_host r @ '' with forward-auth requires --granular'')
           | None \<Rightarrow> None))"

definition multi_server_safe :: "caddy_config \<Rightarrow> string \<Rightarrow> perr option" where
  "multi_server_safe cfg key =
     (case find (\<lambda>k. case map_of (cg_servers cfg) k of Some srv \<Rightarrow> server_forwards srv | None \<Rightarrow> False) (sibling_keys (cg_servers cfg) key) of
        Some k \<Rightarrow> Some (''caddy apply: refusing full-config load: another forwarding http server '' @ k)
      | None \<Rightarrow> None)"

definition default_admin :: string where "default_admin = ''localhost:2019''"

text \<open>The listen address of a custom admin block a full load has to carry, or a refusal.\<close>

definition admin_carry_listen :: "adm_body \<Rightarrow> perr + string" where
  "admin_carry_listen body =
     (case body of
        AdmNone \<Rightarrow> Inr []
      | AdmText t \<Rightarrow> if trim_space t = [] \<or> trim_space t = ''null'' then Inr [] else Inl ''caddy apply: cannot parse live config''
      | AdmJson JNull \<Rightarrow> Inr []
      | AdmJson (JObj fs) \<Rightarrow>
          (case map_of fs ''admin'' of
             None \<Rightarrow> Inr []
           | Some JNull \<Rightarrow> Inr []
           | Some (JObj afs) \<Rightarrow>
               (if set (map fst afs) \<subseteq> {''listen''} then
                  (case map_of afs ''listen'' of
                     None \<Rightarrow> Inr []
                   | Some v \<Rightarrow> (case dec_str v of Inl _ \<Rightarrow> Inl ''caddy apply: live admin.listen is not a string''
                                | Inr l \<Rightarrow> Inr (if l = default_admin then [] else l)))
                else Inl ''caddy apply: refusing full-config load: the live admin block carries more than a listen address'')
           | Some _ \<Rightarrow> Inl ''caddy apply: live config has an admin block crenel cannot parse'')
      | AdmJson _ \<Rightarrow> Inl ''caddy apply: cannot parse live config'')"

definition refuse :: "perr option \<Rightarrow> ('w, unit) call" where
  "refuse r = (case r of Some err \<Rightarrow> call_error err | None \<Rightarrow> call_return ())"

definition verify_admin :: "'w caddy_wire \<Rightarrow> string \<Rightarrow> ('w, unit) call" where
  "verify_admin wire listen =
     (if listen = [] then call_return ()
      else call_bind (call_wrap ''caddy apply: post-load admin verify: '' (fetch_config_raw wire)) (\<lambda>(_, body).
        if admin_carry_listen body = Inr listen then call_return ()
        else call_error ''caddy apply: full-config load did NOT preserve the custom admin listener''))"

definition apply_full :: "'w caddy_driver \<Rightarrow> 'w caddy_wire \<Rightarrow> edge_change \<Rightarrow> ('w, unit) call" where
  "apply_full d wire ec =
     call_bind (call_wrap ''caddy apply: read live: '' (fetch_config_raw wire)) (\<lambda>(cfg, body).
       let live = caddy_normalize cfg (cy_server d) (raw_text body) in
       call_bind (refuse (full_load_safe live ec)) (\<lambda>_.
       call_bind (refuse (multi_server_safe cfg (cy_server d))) (\<lambda>_.
       call_bind (call_either (admin_carry_listen body)) (\<lambda>listen.
       call_bind (call_wrap ''caddy apply: load: '' (caddy_load wire (render_caddyfile (target_routes live ec) listen))) (\<lambda>_.
       call_bind (call_wrap ''caddy apply: post-load health: '' (caddy_healthy wire)) (\<lambda>_.
       verify_admin wire listen))))))"

section \<open>Granular apply\<close>

definition request_host :: string where "request_host = ''{http.request.host}''"

definition backend_handler :: "upstream \<Rightarrow> json" where
  "backend_handler u = JObj ([(''handler'', JStr ''reverse_proxy'')]
     @ (if u_upstream_tls u then [(''headers'', JObj [(''request'', JObj [(''set'', JObj [(''Host'', JArr [JStr request_host])])])])] else [])
     @ (if u_upstream_tls u then [(''transport'', JObj [(''protocol'', JStr ''http''),
          (''tls'', JObj [(''insecure_skip_verify'', JBool True), (''server_name'', JStr request_host)])])] else [])
     @ [(''upstreams'', dial_list (u_address u))])"

definition route_handlers :: "'w caddy_driver \<Rightarrow> route \<Rightarrow> perr + json list" where
  "route_handlers d r =
     (let policy = u_auth (r_upstream r) in
      if real_auth policy then
        (case auth_gate d policy of
           None \<Rightarrow> Inl (auth_gate_error d policy)
         | Some gate \<Rightarrow> Inr [auth_marker policy, gate, backend_handler (r_upstream r)])
      else Inr [backend_handler (r_upstream r)])"

definition caddy_route_json :: "string \<Rightarrow> json list \<Rightarrow> json" where
  "caddy_route_json host hs = JObj [(''@id'', JStr (caddy_route_id host)), (''handle'', JArr hs),
     (''match'', JArr [JObj [(''host'', JArr [JStr host])]])]"

definition server_path :: "string \<Rightarrow> string list" where
  "server_path key = [''apps'', ''http'', ''servers'', key, ''routes'']"

definition nested_path :: "string \<Rightarrow> nat \<Rightarrow> nat \<Rightarrow> string list" where
  "nested_path key w h = server_path key @ [index_text w, ''handle'', index_text h, ''routes'']"

text \<open>The wildcard routes that lead into a subroute, and those of them that cover the host.\<close>

definition wildcard_subroutes :: "cd_route list \<Rightarrow> (nat \<times> nat \<times> string) list" where
  "wildcard_subroutes rs = concat (map (\<lambda>(i, r). case subroute_index r of
       None \<Rightarrow> []
     | Some h \<Rightarrow> map (\<lambda>m. (i, h, m)) (filter is_wildcard_host (concat (map cm_host (cr_match r))))) (enumerate 0 rs))"

definition flat_sibling :: "cd_route list \<Rightarrow> string \<Rightarrow> bool" where
  "flat_sibling rs host = list_ex (\<lambda>r. list_ex (\<lambda>h. \<not> is_wildcard_host h \<and> same_zone h host) (concat (map cm_host (cr_match r)))) rs"

definition insert_location :: "string \<Rightarrow> cd_route list \<Rightarrow> string \<Rightarrow> perr + string list" where
  "insert_location key rs host =
     (let wild = wildcard_subroutes rs; covering = filter (\<lambda>(i, h, m). wildcard_covers m host) wild
      in case covering of
           [(i, h, m)] \<Rightarrow> Inr (nested_path key i h @ [index_text 0])
         | [] \<Rightarrow> if wild = [] \<or> flat_sibling rs host then Inr (server_path key @ [index_text 0])
                 else Inl (''caddy insert '' @ host @ '': neither a wildcard nor a flat route covers this zone'')
         | _ \<Rightarrow> Inl (''caddy insert '' @ host @ '': several wildcard subroutes cover this zone''))"

definition insert_path :: "'w caddy_driver \<Rightarrow> 'w caddy_wire \<Rightarrow> string \<Rightarrow> ('w, string list) call" where
  "insert_path d wire host = call_bind (fetch_config wire) (\<lambda>cfg.
     case map_of (cg_servers cfg) (cy_server d) of
       None \<Rightarrow> call_return (server_path (cy_server d) @ [index_text 0])
     | Some srv \<Rightarrow> call_either (insert_location (cy_server d) (sv_routes srv) host))"

definition insert_route :: "'w caddy_driver \<Rightarrow> 'w caddy_wire \<Rightarrow> route \<Rightarrow> ('w, unit) call" where
  "insert_route d wire r = call_bind (call_either (route_handlers d r)) (\<lambda>hs.
     call_bind (insert_path d wire (r_host r)) (\<lambda>p. admin_write wire (AdmPut p (caddy_route_json (r_host r) hs))))"

definition l4_route_json :: "route \<Rightarrow> json" where
  "l4_route_json r = JObj [(''@id'', JStr (l4_route_id (r_host r))),
     (''handle'', JArr [JObj [(''handler'', JStr ''proxy''),
        (''upstreams'', JArr [JObj [(''dial'', JArr [JStr (u_address (r_upstream r))])]])]]),
     (''match'', JArr [JObj [(''tls'', JObj [(''sni'', JArr [JStr (r_host r)])])]])]"

definition insert_layer4_route :: "'w caddy_wire \<Rightarrow> route \<Rightarrow> ('w, unit) call" where
  "insert_layer4_route wire r =
     admin_write wire (AdmPut [''apps'', ''layer4'', ''servers'', ''crenel-l4'', ''routes'', index_text 0] (l4_route_json r))"

definition insert_one :: "'w caddy_driver \<Rightarrow> 'w caddy_wire \<Rightarrow> route \<Rightarrow> ('w, unit) call" where
  "insert_one d wire r =
     call_bind (call_wrap (''caddy apply (granular): insert '' @ r_host r @ '': '')
        (if u_mode (r_upstream r) = ModeTCPPassthrough then insert_layer4_route wire r else insert_route d wire r)) (\<lambda>_.
      call_wrap (''caddy apply (granular): after insert '' @ r_host r @ '': '') (caddy_healthy wire))"

definition has_exact_host :: "cd_route \<Rightarrow> string \<Rightarrow> bool" where
  "has_exact_host r host = list_ex (\<lambda>h. \<not> is_wildcard_host h \<and> to_lower h = to_lower host) (concat (map cm_host (cr_match r)))"

definition route_wildcard_covers :: "cd_route \<Rightarrow> string \<Rightarrow> bool" where
  "route_wildcard_covers r host = list_ex (\<lambda>h. is_wildcard_host h \<and> wildcard_covers h host) (concat (map cm_host (cr_match r)))"

definition nested_host_path :: "string \<Rightarrow> string \<Rightarrow> nat \<times> cd_route \<Rightarrow> string list option" where
  "nested_host_path key host = (\<lambda>(i, r).
     case subroute_index r of
       None \<Rightarrow> None
     | Some h \<Rightarrow>
         if \<not> route_wildcard_covers r host then None
         else map_option (\<lambda>j. nested_path key i h @ [index_text j]) (first_index (\<lambda>x. has_exact_host x host) (hd_routes (cr_handle r ! h))))"

definition find_host_path :: "string \<Rightarrow> cd_route list \<Rightarrow> string \<Rightarrow> string list option" where
  "find_host_path key rs host =
     (case first_index (\<lambda>r. has_exact_host r host) rs of
        Some i \<Rightarrow> Some (server_path key @ [index_text i])
      | None \<Rightarrow> (case List.map_filter (nested_host_path key host) (enumerate 0 rs) of [] \<Rightarrow> None | p # _ \<Rightarrow> Some p))"

text \<open>The sweep of routes without an id: at most eight deletions.\<close>

fun sweep_host :: "'w caddy_driver \<Rightarrow> 'w caddy_wire \<Rightarrow> string \<Rightarrow> nat \<Rightarrow> ('w, unit) call" where
  "sweep_host d wire host 0 = call_error (''caddy delete '' @ host @ '': route still present after 8 host-match deletes'')"
| "sweep_host d wire host (Suc n) = call_bind (fetch_config wire) (\<lambda>cfg.
     case (case map_of (cg_servers cfg) (cy_server d) of None \<Rightarrow> None | Some srv \<Rightarrow> find_host_path (cy_server d) (sv_routes srv) host) of
       None \<Rightarrow> call_return ()
     | Some p \<Rightarrow> call_bind (delete_by_path wire p) (\<lambda>_. sweep_host d wire host n))"

definition delete_route :: "'w caddy_driver \<Rightarrow> 'w caddy_wire \<Rightarrow> string \<Rightarrow> ('w, unit) call" where
  "delete_route d wire host = call_bind (delete_by_id wire (caddy_route_id host)) (\<lambda>removed.
     if removed \<or> cy_persist_path d = [] then call_return () else sweep_host d wire host 8)"

definition delete_host :: "'w caddy_driver \<Rightarrow> 'w caddy_wire \<Rightarrow> string \<Rightarrow> ('w, unit) call" where
  "delete_host d wire host =
     call_bind (call_wrap (''caddy apply (granular): delete '' @ host @ '': '') (delete_route d wire host)) (\<lambda>_.
     call_bind (if cy_layer4 d then call_wrap (''caddy apply (granular): delete l4 '' @ host @ '': '')
          (call_bind (delete_by_id wire (l4_route_id host)) (\<lambda>_. call_return ())) else call_return ()) (\<lambda>_.
       call_wrap (''caddy apply (granular): after delete '' @ host @ '': '') (caddy_healthy wire)))"

definition apply_granular :: "'w caddy_driver \<Rightarrow> 'w caddy_wire \<Rightarrow> edge_change \<Rightarrow> ('w, unit) call" where
  "apply_granular d wire ec =
     (let removing = (\<lambda>r. to_lower (r_host r) \<in> to_lower ` set (e_remove ec)) in
      call_bind (call_each (insert_one d wire) (filter (\<lambda>r. \<not> removing r) (e_add ec))) (\<lambda>_.
      call_bind (call_each (delete_host d wire) (e_remove ec)) (\<lambda>_.
      call_each (insert_one d wire) (filter removing (e_add ec)))))"

definition caddy_apply :: "'w caddy_driver \<Rightarrow> 'w caddy_wire \<Rightarrow> change_set \<Rightarrow> ('w, unit) call" where
  "caddy_apply d wire cs = (if cy_granular d then apply_granular d wire (cs_edge cs) else apply_full d wire (cs_edge cs))"

section \<open>Adoption and acknowledgement\<close>

text \<open>The generic document, where no field is lost.\<close>

definition raw_routes :: "json \<Rightarrow> string \<Rightarrow> json list" where
  "raw_routes cfg key = arr_field (obj_field (obj_field (obj_field (obj_field cfg ''apps'') ''http'') ''servers'') key) ''routes''"

definition raw_match_host :: "json \<Rightarrow> string option" where
  "raw_match_host m = (case arr_field m ''host'' of JStr h # _ \<Rightarrow> Some h | _ \<Rightarrow> None)"

definition raw_route_host :: "json \<Rightarrow> string" where
  "raw_route_host r = (case List.map_filter raw_match_host (arr_field r ''match'') of h # _ \<Rightarrow> h | [] \<Rightarrow> [])"

text \<open>The subroute handlers of a route with something in them, with their positions.\<close>

definition raw_subroutes :: "json \<Rightarrow> (nat \<times> json list) list" where
  "raw_subroutes r = List.map_filter (\<lambda>(i, h). if is_obj h \<and> json_field h ''handler'' = Some (JStr ''subroute'')
       \<and> arr_field h ''routes'' \<noteq> [] then Some (i, arr_field h ''routes'') else None) (enumerate 0 (arr_field r ''handle''))"

lemma raw_subroutes_size: "(i, sub) \<in> set (raw_subroutes r) \<Longrightarrow> x \<in> set sub \<Longrightarrow> size x < size r"
proof -
  assume "(i, sub) \<in> set (raw_subroutes r)" and x: "x \<in> set sub"
  then obtain h where h: "h \<in> set (arr_field r ''handle'')" "sub = arr_field h ''routes''"
    by (fastforce simp: raw_subroutes_def List.map_filter_def in_set_enumerate_eq split: if_splits dest: nth_mem)
  with x have "size x < size h" using size_arr_field by blast
  with size_arr_field [OF h(1)] show ?thesis by simp
qed

definition raw_slots :: "string list \<Rightarrow> json list \<Rightarrow> (string list \<times> json) list" where
  "raw_slots p rs = map (\<lambda>(i, r). (p @ [index_text i], r)) (enumerate 0 rs)"

lemma raw_slots_mem: "(q, r) \<in> set (raw_slots p rs) \<Longrightarrow> r \<in> set rs"
  by (auto simp: raw_slots_def in_set_enumerate_eq)

text \<open>\<open>adoptWalk\<close>: what is stamped, with its path, in order.\<close>

function adopt_stamps :: "string list \<Rightarrow> string list \<times> json \<Rightarrow> (string list \<times> json) list" where
  "adopt_stamps want (p, r) =
     (if \<not> is_obj r then []
      else let host = raw_route_host r in
        if host \<noteq> [] \<and> to_lower host \<in> to_lower ` set want then
          (if str_field r ''@id'' = caddy_route_id host then []
           else [(p, set_field ''@id'' (JStr (caddy_route_id host)) r)])
        else concat (map (\<lambda>(i, sub). concat (map (adopt_stamps want) (raw_slots (p @ [''handle'', index_text i, ''routes'']) sub)))
               (raw_subroutes r)))"
  by pat_completeness auto
termination
  by (relation "measure (\<lambda>(_, _, r). size r)") (auto dest!: raw_slots_mem dest: raw_subroutes_size)

declare adopt_stamps.simps [simp del]

definition stamp :: "'w caddy_wire \<Rightarrow> string list \<times> json \<Rightarrow> ('w, unit) call" where
  "stamp wire = (\<lambda>(p, r). call_bind (call_wrap ''caddy adopt: stamp: '' (admin_write wire (AdmPatch p r)))
     (\<lambda>_. call_wrap ''caddy adopt: after stamp: '' (caddy_healthy wire)))"

definition read_raw :: "string \<Rightarrow> 'w caddy_wire \<Rightarrow> ('w, json) call" where
  "read_raw what wire = call_bind (call_wrap (what @ '': read live: '') (fetch_config_raw wire))
     (\<lambda>(_, body). call_wrap (what @ '': '') (call_either (raw_object body)))"

definition caddy_adopt :: "'w caddy_driver \<Rightarrow> 'w caddy_wire \<Rightarrow> string list \<Rightarrow> ('w, unit) call" where
  "caddy_adopt d wire hs = call_bind (read_raw ''caddy adopt'' wire) (\<lambda>cfg.
     call_each (stamp wire) (concat (map (adopt_stamps hs) (raw_slots (server_path (cy_server d)) (raw_routes cfg (cy_server d))))))"

text \<open>\<open>ackWalk\<close>: nothing found, a refusal, nothing to do, or a patch.\<close>

datatype ack_step = AckRefused perr | AckDone | AckPatch "string list" json

definition ack_at :: "string \<Rightarrow> string \<Rightarrow> string list \<Rightarrow> json \<Rightarrow> ack_step" where
  "ack_at host marker p r =
     (let i = str_field r ''@id'' in
      if i = caddy_route_id host then AckRefused (''route for '' @ host @ '' is crenel-managed, ack does not apply'')
      else if i = marker then AckDone
      else if marker = [] then
        (if \<not> has_prefix ack_marker_prefix i then AckDone else AckPatch p (drop_field ''@id'' r))
      else AckPatch p (set_field ''@id'' (JStr marker) r))"

function ack_walk :: "string \<Rightarrow> string \<Rightarrow> string list \<times> json \<Rightarrow> ack_step option" where
  "ack_walk host marker (p, r) =
     (if \<not> is_obj r then None
      else if raw_route_host r \<noteq> [] \<and> equal_fold (raw_route_host r) host then Some (ack_at host marker p r)
      else first_of (List.map_filter id (concat (map (\<lambda>(i, sub).
             map (ack_walk host marker) (raw_slots (p @ [''handle'', index_text i, ''routes'']) sub)) (raw_subroutes r)))))"
  by pat_completeness auto
termination
  by (relation "measure (\<lambda>(_, _, _, r). size r)") (auto dest!: raw_slots_mem dest: raw_subroutes_size)

declare ack_walk.simps [simp del]

definition ack_find :: "'w caddy_driver \<Rightarrow> json \<Rightarrow> string \<Rightarrow> string \<Rightarrow> ack_step option" where
  "ack_find d cfg host marker =
     first_of (List.map_filter (ack_walk host marker) (raw_slots (server_path (cy_server d)) (raw_routes cfg (cy_server d))))"

definition do_ack :: "'w caddy_wire \<Rightarrow> ack_step \<Rightarrow> ('w, unit) call" where
  "do_ack wire st =
     (case st of
        AckRefused err \<Rightarrow> call_error err
      | AckDone \<Rightarrow> call_return ()
      | AckPatch p r \<Rightarrow> call_bind (call_wrap ''stamp: '' (admin_write wire (AdmPatch p r))) (\<lambda>_. caddy_healthy wire))"

definition caddy_ack :: "'w caddy_driver \<Rightarrow> 'w caddy_wire \<Rightarrow> string \<Rightarrow> string \<Rightarrow> ('w, unit) call" where
  "caddy_ack d wire host reason = call_bind (read_raw ''caddy ack'' wire) (\<lambda>cfg.
     case ack_find d cfg host (ack_marker_for host reason) of
       None \<Rightarrow> call_error (''caddy ack '' @ host @ '': no route found for this host'')
     | Some st \<Rightarrow> call_wrap (''caddy ack '' @ host @ '': '') (do_ack wire st))"

definition caddy_unack :: "'w caddy_driver \<Rightarrow> 'w caddy_wire \<Rightarrow> string \<Rightarrow> ('w, unit) call" where
  "caddy_unack d wire host = call_bind (read_raw ''caddy unack'' wire) (\<lambda>cfg.
     case ack_find d cfg host [] of
       None \<Rightarrow> call_return ()
     | Some st \<Rightarrow> call_wrap (''caddy unack '' @ host @ '': '') (do_ack wire st))"

section \<open>Acknowledgement by locator\<close>

text \<open>\<open>strings.Cut\<close>.\<close>

definition str_cut :: "string \<Rightarrow> string \<Rightarrow> (string \<times> string) option" where
  "str_cut s sep = (case str_index s sep of None \<Rightarrow> None | Some i \<Rightarrow> Some (take i s, drop (i + length sep) s))"

lemma str_cut_shorter: "str_cut s sep = Some (a, b) \<Longrightarrow> sep \<noteq> [] \<Longrightarrow> length b < length s"
  by (cases sep) (fastforce simp: str_cut_def split: option.splits dest: str_index_bound)+

text \<open>\<open>strconv.Atoi\<close>: an optional sign and digits in the range of a machine word.\<close>

definition go_atoi :: "string \<Rightarrow> int option" where
  "go_atoi s =
     (let digits = (case s of c # t \<Rightarrow> if c = CHR ''-'' \<or> c = CHR ''+'' then t else s | [] \<Rightarrow> []);
          n = (if s \<noteq> [] \<and> hd s = CHR ''-'' then - decimal_value digits else decimal_value digits)
      in if digits = [] \<or> \<not> list_all rx_digit digits \<or> n < - 9223372036854775808 \<or> 9223372036854775807 < n then None else Some n)"

definition locator_prefix :: string where "locator_prefix = ''apps.http.servers.''"
definition descent_step :: string where "descent_step = ''.handle[subroute].routes[''"

text \<open>The indexes from inside the first bracket on.\<close>

function locator_indexes :: "string \<Rightarrow> nat list option" where
  "locator_indexes rest =
     (case str_cut rest '']'' of
        None \<Rightarrow> None
      | Some (num, tail) \<Rightarrow>
          (case go_atoi num of
             None \<Rightarrow> None
           | Some n \<Rightarrow>
               if n < 0 then None
               else if tail = [] then Some [nat n]
               else if has_prefix descent_step tail
               then map_option (\<lambda>is. nat n # is) (locator_indexes (drop (length descent_step) tail)) else None))"
  by pat_completeness auto
termination
  by (relation "measure length") (auto dest!: str_cut_shorter)

declare locator_indexes.simps [simp del]

definition parse_locator :: "string \<Rightarrow> perr + (string \<times> nat list)" where
  "parse_locator locator =
     (if \<not> has_prefix locator_prefix locator then Inl ''not a caddy route locator''
      else case str_cut (drop (length locator_prefix) locator) ''.routes['' of
        None \<Rightarrow> Inl ''locator addresses a whole server block''
      | Some (server, rest) \<Rightarrow>
          if server = [] then Inl ''locator addresses a whole server block''
          else (case locator_indexes rest of None \<Rightarrow> Inl ''bad locator'' | Some is \<Rightarrow> Inr (server, is)))"

definition qualifier_char :: "char \<Rightarrow> bool" where
  "qualifier_char c = (c \<in> set ''abcdefghijklmnopqrstuvwxyz0123456789.-*'')"

text \<open>Every byte outside the grammar becomes a dash; a multi-byte character becomes one.\<close>

definition utf8_tail :: "char \<Rightarrow> bool" where "utf8_tail c = (let n = (of_char c :: nat) in 128 \<le> n \<and> n < 192)"

definition locator_qualifier :: "string \<Rightarrow> string" where
  "locator_qualifier locator = concat (map (\<lambda>c. if qualifier_char c then [c] else if c = CHR '']'' \<or> utf8_tail c then [] else ''-'')
     (to_lower (trim_prefix locator_prefix locator)))"

definition locator_marker :: "string \<Rightarrow> string \<Rightarrow> string" where
  "locator_marker locator reason = ack_marker_prefix @ locator_qualifier locator @ '':'' @ reason"

text \<open>Every level goes through the first subroute handler, at its own position.\<close>

definition first_raw_subroute :: "json \<Rightarrow> (nat \<times> json list) option" where
  "first_raw_subroute r = first_of (List.map_filter (\<lambda>(i, h). if is_obj h \<and> json_field h ''handler'' = Some (JStr ''subroute'')
     then Some (i, arr_field h ''routes'') else None) (enumerate 0 (arr_field r ''handle'')))"

fun resolve_indexes :: "string list \<Rightarrow> json list \<Rightarrow> nat list \<Rightarrow> perr + (json \<times> string list)" where
  "resolve_indexes p rs [] = Inl ''no index''"
| "resolve_indexes p rs (i # is) =
     (if length rs \<le> i then Inl ''locator: route does not exist in the live config''
      else if \<not> is_obj (rs ! i) then Inl ''locator: not a route object''
      else let q = p @ [index_text i] in
        if is = [] then Inr (rs ! i, q)
        else case first_raw_subroute (rs ! i) of
          None \<Rightarrow> Inl ''locator: no subroute handler to descend into''
        | Some (h, sub) \<Rightarrow> resolve_indexes (q @ [''handle'', index_text h, ''routes'']) sub is)"

definition resolve_locator :: "json \<Rightarrow> string \<Rightarrow> perr + (json \<times> string list)" where
  "resolve_locator cfg locator = rbind (parse_locator locator) (\<lambda>(server, is).
     resolve_indexes (server_path server) (raw_routes cfg server) is)"

definition locator_step :: "string \<Rightarrow> string \<Rightarrow> json \<Rightarrow> string list \<Rightarrow> ack_step" where
  "locator_step locator marker r p =
     (let i = str_field r ''@id'' in
      if has_prefix ''crenel-route-'' i then AckRefused (''route at '' @ locator @ '' is crenel-managed, ack does not apply'')
      else if i = marker then AckDone
      else if marker = [] then
        (if \<not> has_prefix ack_marker_prefix i then AckDone else AckPatch p (drop_field ''@id'' r))
      else AckPatch p (set_field ''@id'' (JStr marker) r))"

definition patch_locator_id :: "'w caddy_wire \<Rightarrow> string \<Rightarrow> string \<Rightarrow> ('w, unit) call" where
  "patch_locator_id wire locator marker = call_bind (read_raw ''caddy ack --route'' wire) (\<lambda>cfg.
     call_bind (call_either (resolve_locator cfg locator)) (\<lambda>(r, p). do_ack wire (locator_step locator marker r p)))"

text \<open>The text of a route; the indentation is left out.\<close>

definition route_raw_json :: "'w caddy_wire \<Rightarrow> string \<Rightarrow> ('w, string) call" where
  "route_raw_json wire locator = call_bind (read_raw ''caddy route json'' wire) (\<lambda>cfg.
     call_bind (call_either (resolve_locator cfg locator)) (\<lambda>(r, _). call_return (json_text r)))"

section \<open>The provider\<close>

definition caddy :: "'w caddy_driver \<Rightarrow> 'w caddy_wire \<Rightarrow> 'w act \<Rightarrow> 'w edge_provider" where
  "caddy d wire persist = \<lparr>ep_name = ''caddy'', ep_read = (\<lambda>w. fst (caddy_read_live d wire w)), ep_plan = caddy_plan d,
     ep_apply = (\<lambda>cs. as_act (caddy_apply d wire cs)),
     ep_healthy = Some (\<lambda>w. case fst (caddy_healthy wire w) of Inl err \<Rightarrow> Some err | Inr _ \<Rightarrow> None),
     ep_persist = Some persist, ep_durability = Some (caddy_persistence d), ep_runtime = None,
     ep_evidence = Some \<lparr>v_kind = EvidenceRuntime, v_source = cy_admin_url d @ '' (Caddy admin API)'', v_mod_time = None\<rparr>,
     ep_adopt = Some (\<lambda>hs. as_act (caddy_adopt d wire hs)),
     ep_acker = Some \<lparr>ak_ack = (\<lambda>h reason. as_act (caddy_ack d wire h reason)), ak_unack = (\<lambda>h. as_act (caddy_unack d wire h))\<rparr>,
     ep_locator_acker = Some \<lparr>la_ack = (\<lambda>l reason. as_act (patch_locator_id wire l (locator_marker l reason))),
        la_unack = (\<lambda>l. as_act (patch_locator_id wire l [])), la_raw = (\<lambda>l w. fst (route_raw_json wire l w))\<rparr>\<rparr>"

end
