(* ===== verification/Caddy_Api.thy ===== *)
theory Caddy_Api
  imports Caddy
begin

text \<open>
  The admin API as the repository's fake states it, \<open>internal/drivers/edge/caddy/caddyfake/fake.go\<close>: the
  running configuration as a document, which a path reads or changes at any depth, and a full load of the
  small Caddyfile dialect the driver writes. The documents of the fake share no structure, so a change in
  place is an update along the path. A delay the client does not outlast is a flag: the request times out
  and nothing happens. The servers are searched for an id in their order in the document. A path is the
  list of its segments, none of them empty or with a slash in it.
\<close>

record caddy_fake =
  fa_config :: json
  fa_server :: string
  fa_silent :: bool
  fa_reject :: string
  fa_drop_admin :: bool
  fa_read_stuck :: bool
  fa_write_stuck :: bool
  fa_loads :: "string list"

section \<open>Paths\<close>

text \<open>The position a segment names in an array.\<close>

definition slot_at :: "json list \<Rightarrow> string \<Rightarrow> nat option" where
  "slot_at xs t = (case go_atoi t of
     Some n \<Rightarrow> if 0 \<le> n \<and> nat n < length xs then Some (nat n) else None | None \<Rightarrow> None)"

definition json_child :: "json \<Rightarrow> string \<Rightarrow> json option" where
  "json_child j t = (case (case j of JObj fs \<Rightarrow> map_of fs t
        | JArr xs \<Rightarrow> map_option ((!) xs) (slot_at xs t) | _ \<Rightarrow> None) of
     Some JNull \<Rightarrow> None | r \<Rightarrow> r)"

definition set_child :: "string \<Rightarrow> json \<Rightarrow> json \<Rightarrow> json option" where
  "set_child t v j = (case j of JObj fs \<Rightarrow> Some (JObj (AList.update t v fs))
     | JArr xs \<Rightarrow> map_option (\<lambda>i. JArr (xs[i := v])) (slot_at xs t) | _ \<Rightarrow> None)"

fun navigate :: "json \<Rightarrow> string list \<Rightarrow> json option" where
  "navigate j [] = Some j"
| "navigate j (t # ts) = (case json_child j t of None \<Rightarrow> None | Some x \<Rightarrow> navigate x ts)"

text \<open>A change of the node a path leads to.\<close>

fun change_at :: "string list \<Rightarrow> (json \<Rightarrow> json option) \<Rightarrow> json \<Rightarrow> json option" where
  "change_at [] f j = f j"
| "change_at (t # ts) f j =
     (case json_child j t of
        None \<Rightarrow> None
      | Some x \<Rightarrow> (case change_at ts f x of None \<Rightarrow> None | Some y \<Rightarrow> set_child t y j))"

definition set_by_path :: "string list \<Rightarrow> json \<Rightarrow> json \<Rightarrow> json option" where
  "set_by_path p v = change_at (butlast p) (set_child (last p) v)"

definition insert_at :: "json option \<Rightarrow> int \<Rightarrow> json \<Rightarrow> json" where
  "insert_at slot idx v =
     (let rs = (case slot of Some (JArr xs) \<Rightarrow> xs | _ \<Rightarrow> []);
          n = (if idx < 0 \<or> int (length rs) < idx then length rs else nat idx)
      in JArr (take n rs @ [v] @ drop n rs))"

definition insert_into :: "string \<Rightarrow> int \<Rightarrow> json \<Rightarrow> json \<Rightarrow> json option" where
  "insert_into key idx v j = (case j of JObj fs \<Rightarrow> Some (JObj (AList.update key (insert_at (map_of fs key) idx v) fs)) | _ \<Rightarrow> None)"

definition insert_by_path :: "string list \<Rightarrow> json \<Rightarrow> json \<Rightarrow> json option" where
  "insert_by_path p v j =
     (case go_atoi (last p) of
        None \<Rightarrow> None
      | Some idx \<Rightarrow> change_at (butlast (butlast p)) (insert_into (last (butlast p)) idx v) j)"

text \<open>An array element by its index, or else the named key.\<close>

definition drop_key :: "string \<Rightarrow> json \<Rightarrow> json option" where
  "drop_key k j = (case j of JObj fs \<Rightarrow> if map_of fs k \<noteq> None then Some (JObj (AList.delete k fs)) else None | _ \<Rightarrow> None)"

definition delete_by_tokens :: "string list \<Rightarrow> json \<Rightarrow> json option" where
  "delete_by_tokens p j =
     (let key = last (butlast p);
          slice = (case navigate j (butlast (butlast p)) of Some (JObj fs) \<Rightarrow> (case map_of fs key of Some (JArr xs) \<Rightarrow> Some xs | _ \<Rightarrow> None) | _ \<Rightarrow> None)
      in case (go_atoi (last p), slice) of
           (Some idx, Some xs) \<Rightarrow>
             if idx < 0 \<or> int (length xs) \<le> idx then None
             else change_at (butlast (butlast p)) (set_child key (JArr (take (nat idx) xs @ drop (Suc (nat idx)) xs))) j
         | _ \<Rightarrow> change_at (butlast p) (drop_key (last p)) j)"

definition route_path :: "string list \<Rightarrow> bool" where
  "route_path p = (6 \<le> length p \<and> p ! 0 = ''apps'' \<and> p ! 2 = ''servers'' \<and> p ! 4 = ''routes'')"

section \<open>Identifiers\<close>

fun count_ids :: "json \<Rightarrow> string \<Rightarrow> nat" where
  "count_ids (JObj fs) i = (if map_of fs ''@id'' = Some (JStr i) then 1 else 0) + sum_list (map (\<lambda>(_, v). count_ids v i) fs)"
| "count_ids (JArr xs) i = sum_list (map (\<lambda>x. count_ids x i) xs)"
| "count_ids _ i = 0"

lemma size_list_arr_field: "size_list size (arr_field j k) \<le> size j"
proof (cases "json_field j k")
  case None
  then show ?thesis by (simp add: arr_field_def)
next
  case (Some v)
  then show ?thesis using size_json_field [OF Some] by (cases v) (auto simp: arr_field_def)
qed

function delete_id :: "string \<Rightarrow> json list \<Rightarrow> json list option"
  and delete_id_handlers :: "string \<Rightarrow> json list \<Rightarrow> json list option" where
  "delete_id i [] = None"
| "delete_id i (r # rs) =
     (if is_obj r \<and> json_field r ''@id'' = Some (JStr i) then Some rs
      else case (if is_obj r then delete_id_handlers i (arr_field r ''handle'') else None) of
        Some hs \<Rightarrow> Some (set_field ''handle'' (JArr hs) r # rs)
      | None \<Rightarrow> map_option ((#) r) (delete_id i rs))"
| "delete_id_handlers i [] = None"
| "delete_id_handlers i (h # hs) =
     (case (if is_obj h \<and> json_field h ''handler'' = Some (JStr ''subroute'') then delete_id i (arr_field h ''routes'') else None) of
        Some sub \<Rightarrow> Some (set_field ''routes'' (JArr sub) h # hs)
      | None \<Rightarrow> map_option ((#) h) (delete_id_handlers i hs))"
  by pat_completeness auto
termination
  by (relation "measure (case_sum (\<lambda>(_, rs). size_list size rs) (\<lambda>(_, hs). size_list size hs))")
    (auto intro: le_less_trans [OF size_list_arr_field])

text \<open>\<open>DELETE /id/\<close>: the first of the servers that has the id.\<close>

fun delete_in_servers :: "string \<Rightarrow> (string \<times> json) list \<Rightarrow> (string \<times> json) list option" where
  "delete_in_servers i [] = None"
| "delete_in_servers i ((k, sv) # rest) =
     (case (if is_obj sv then delete_id i (arr_field sv ''routes'') else None) of
        Some rs \<Rightarrow> Some ((k, set_field ''routes'' (JArr rs) sv) # rest)
      | None \<Rightarrow> map_option ((#) (k, sv)) (delete_in_servers i rest))"

definition app_servers :: "json \<Rightarrow> string \<Rightarrow> (string \<times> json) list" where
  "app_servers cfg app = (case obj_field (obj_field (obj_field cfg ''apps'') app) ''servers'' of JObj fs \<Rightarrow> fs | _ \<Rightarrow> [])"

definition set_servers :: "json \<Rightarrow> string \<Rightarrow> (string \<times> json) list \<Rightarrow> json" where
  "set_servers cfg app ss = (let apps = obj_field cfg ''apps'' in
     set_field ''apps'' (set_field app (set_field ''servers'' (JObj ss) (obj_field apps app)) apps) cfg)"

definition delete_anywhere :: "string \<Rightarrow> json \<Rightarrow> json option" where
  "delete_anywhere i cfg =
     (case delete_in_servers i (app_servers cfg ''http'') of
        Some ss \<Rightarrow> Some (set_servers cfg ''http'' ss)
      | None \<Rightarrow> map_option (set_servers cfg ''layer4'') (delete_in_servers i (app_servers cfg ''layer4'')))"

section \<open>Modules\<close>

fun handler_modules :: "json \<Rightarrow> string list" where
  "handler_modules (JObj fs) = (case map_of fs ''handler'' of Some (JStr h) \<Rightarrow> [h] | _ \<Rightarrow> []) @ concat (map (\<lambda>(_, v). handler_modules v) fs)"
| "handler_modules (JArr xs) = concat (map handler_modules xs)"
| "handler_modules _ = []"

definition known_http_handlers :: "string list" where
  "known_http_handlers = [''reverse_proxy'', ''static_response'', ''subroute'', ''vars'', ''headers'', ''encode'', ''file_server'',
     ''authentication'', ''rewrite'', ''handle'', ''error'', ''templates'', ''map'', ''request_body'', ''push'', ''intercept'', ''acme_server'']"

definition known_layer4_handlers :: "string list" where
  "known_layer4_handlers = [''proxy'', ''subroute'', ''tls'', ''echo'']"

definition modules_known :: "string \<Rightarrow> json \<Rightarrow> bool" where
  "modules_known app r = (set (handler_modules r) \<subseteq> set (if app = ''layer4'' then known_layer4_handlers else known_http_handlers))"

section \<open>Requests\<close>

text \<open>The server of a top-level insertion; one of the layer-4 app is created.\<close>

definition server_for :: "json \<Rightarrow> string \<Rightarrow> string \<Rightarrow> json option" where
  "server_for cfg app srv =
     (case map_of (app_servers cfg app) srv of
        Some (JObj fs) \<Rightarrow> Some (JObj fs)
      | _ \<Rightarrow> if app = ''layer4'' then Some (JObj [(''listen'', JArr [JStr '':443'']), (''routes'', JArr [])]) else None)"

definition put_route :: "string list \<Rightarrow> json \<Rightarrow> json \<Rightarrow> nat \<times> json" where
  "put_route p v cfg =
     (if \<not> route_path p \<or> last (butlast p) \<noteq> ''routes'' \<or> \<not> is_obj v then (400, cfg)
      else if \<not> modules_known (p ! 1) v then (500, cfg)
      else if length p = 6 then
        (case go_atoi (p ! 5) of
           None \<Rightarrow> (400, cfg)
         | Some idx \<Rightarrow>
             (case server_for cfg (p ! 1) (p ! 3) of
                None \<Rightarrow> (404, cfg)
              | Some server \<Rightarrow> (200, set_servers cfg (p ! 1) (AList.update (p ! 3)
                  (set_field ''routes'' (insert_at (json_field server ''routes'') idx v) server) (app_servers cfg (p ! 1))))))
      else case insert_by_path p v cfg of None \<Rightarrow> (404, cfg) | Some cfg' \<Rightarrow> (200, cfg'))"

text \<open>An id is unique in the whole document; the node that is replaced may have it already.\<close>

definition patch_route :: "string list \<Rightarrow> json \<Rightarrow> json \<Rightarrow> nat \<times> json" where
  "patch_route p v cfg =
     (let i = str_field v ''@id''; held = (case navigate cfg p of Some cur \<Rightarrow> str_field cur ''@id'' | None \<Rightarrow> []) in
      if \<not> route_path p \<or> \<not> is_obj v \<or> (i \<noteq> [] \<and> held \<noteq> i \<and> 0 < count_ids cfg i) then (400, cfg)
      else case set_by_path p v cfg of None \<Rightarrow> (404, cfg) | Some cfg' \<Rightarrow> (200, cfg'))"

definition delete_route_path :: "string list \<Rightarrow> json \<Rightarrow> nat \<times> json" where
  "delete_route_path p cfg =
     (if \<not> route_path p then (400, cfg)
      else case delete_by_tokens p cfg of None \<Rightarrow> (404, cfg) | Some cfg' \<Rightarrow> (200, cfg'))"

definition delete_route_id :: "string \<Rightarrow> json \<Rightarrow> nat \<times> json" where
  "delete_route_id i cfg = (case delete_anywhere i cfg of None \<Rightarrow> (404, cfg) | Some cfg' \<Rightarrow> (200, cfg'))"

section \<open>The Caddyfile adapter\<close>

fun build_route :: "string \<Rightarrow> string list \<Rightarrow> json option" where
  "build_route addr [] = None"
| "build_route addr (dir # dirs) =
     (case str_fields dir of
        [] \<Rightarrow> build_route addr dirs
      | f # args \<Rightarrow>
          if f = ''reverse_proxy'' then
            (case args of
               [] \<Rightarrow> build_route addr dirs
             | a # _ \<Rightarrow> (let proxy = (''handle'', JArr [JObj [(''handler'', JStr ''reverse_proxy''), (''upstreams'', dial_list a)]])
                 in Some (JObj (if has_prefix '':'' addr then [proxy] else [proxy, (''match'', JArr [JObj [(''host'', JArr [JStr addr])]])]))))
          else if f = ''respond'' then
            (let code = (case args of a # _ \<Rightarrow> (case go_atoi a of Some n \<Rightarrow> n | None \<Rightarrow> 403) | [] \<Rightarrow> 403)
             in Some (JObj [(''handle'', JArr [JObj [(''handler'', JStr ''static_response''), (''status_code'', JNum code)]])]))
          else build_route addr dirs)"

record adapt_state =
  as_addr :: string
  as_block :: bool
  as_dirs :: "string list"
  as_admin :: string
  as_routes :: "json list"

definition adapt_flush :: "adapt_state \<Rightarrow> adapt_state" where
  "adapt_flush s =
     (if as_addr s = [] then s
      else s\<lparr>as_addr := [], as_dirs := [],
        as_routes := as_routes s @ (case build_route (as_addr s) (as_dirs s) of Some r \<Rightarrow> [r] | None \<Rightarrow> [])\<rparr>)"

definition adapt_line :: "string \<Rightarrow> adapt_state \<Rightarrow> adapt_state" where
  "adapt_line raw s =
     (let line = trim_space raw in
      if line = [] \<or> has_prefix ''#'' line then s
      else if has_suffix ''{'' line then s\<lparr>as_addr := trim_space (trim_suffix ''{'' line), as_block := True\<rparr>
      else if line = ''}'' then (adapt_flush s)\<lparr>as_block := False\<rparr>
      else if \<not> as_block s then s
      else if as_addr s = [] then
        (if has_prefix ''admin '' line then s\<lparr>as_admin := trim_space (trim_prefix ''admin '' line)\<rparr> else s)
      else s\<lparr>as_dirs := as_dirs s @ [line]\<rparr>)"

definition adapt :: "string \<Rightarrow> string \<Rightarrow> json" where
  "adapt caddyfile server =
     (let s = adapt_flush (fold adapt_line (line_list caddyfile) \<lparr>as_addr = [], as_block = False, as_dirs = [], as_admin = [], as_routes = []\<rparr>)
      in JObj ([(''apps'', JObj [(''http'', JObj [(''servers'', JObj [(server,
           JObj [(''listen'', JArr [JStr '':443'']), (''routes'', JArr (as_routes s))])])])])]
         @ (if as_admin s \<noteq> [] then [(''admin'', JObj [(''listen'', JStr (as_admin s))])] else [])))"

section \<open>The API\<close>

definition fake_load :: "string \<Rightarrow> caddy_fake \<Rightarrow> nat \<times> caddy_fake" where
  "fake_load body s0 =
     (let s = s0\<lparr>fa_loads := fa_loads s0 @ [body]\<rparr> in
      if fa_reject s \<noteq> [] then (400, s)
      else if fa_silent s then (200, s)
      else (let cfg = adapt body (fa_server s)
            in (200, s\<lparr>fa_config := (if fa_drop_admin s then drop_field ''admin'' cfg else cfg)\<rparr>)))"

text \<open>The texts of the answers to a write are left out.\<close>

definition fake_write :: "(json \<Rightarrow> nat \<times> json) \<Rightarrow> caddy_fake \<Rightarrow> nat \<times> caddy_fake" where
  "fake_write f s = (let (st, cfg) = f (fa_config s) in (st, s\<lparr>fa_config := cfg\<rparr>))"

definition fake_change :: "adm_request \<Rightarrow> caddy_fake \<Rightarrow> nat \<times> caddy_fake" where
  "fake_change rq =
     (case rq of
        AdmGet \<Rightarrow> Pair 200
      | AdmLoad t \<Rightarrow> fake_load t
      | AdmPut p v \<Rightarrow> fake_write (put_route p v)
      | AdmPatch p v \<Rightarrow> fake_write (patch_route p v)
      | AdmDelete p \<Rightarrow> fake_write (delete_route_path p)
      | AdmDeleteId i \<Rightarrow> fake_write (delete_route_id i))"

definition fake_admin :: "caddy_fake caddy_wire" where
  "fake_admin s rq =
     (case rq of
        AdmGet \<Rightarrow> if fa_read_stuck s then (Inl WireTimeout, s) else (Inr (200, AdmJson (fa_config s)), s)
      | _ \<Rightarrow> if fa_write_stuck s then (Inl WireTimeout, s)
             else (let (st, s') = fake_change rq s in (Inr (st, AdmNone), s')))"

end
