(* ===== verification/Caddy_Full.thy ===== *)
theory Caddy_Full
  imports Caddy_Api
begin

text \<open>
  The full load of the Caddy driver against the admin API: it is sent only to a configuration that was
  understood whole, and what it sends is read back as the routes it was to have. A full load writes a
  Caddyfile, so hosts and addresses are words of that language: \<open>plain_word\<close>.
\<close>

section \<open>The guard\<close>

definition load_passed :: "'w caddy_driver \<Rightarrow> json \<Rightarrow> edge_change \<Rightarrow> caddy_config \<Rightarrow> string \<Rightarrow> bool" where
  "load_passed d j ec cfg listen =
     (dec_config j = Inr cfg \<and> full_load_safe (caddy_normalize cfg (cy_server d) (json_text j)) ec = None
      \<and> multi_server_safe cfg (cy_server d) = None \<and> admin_carry_listen (AdmJson j) = Inr listen)"

text \<open>What the guards come to.\<close>

definition load_guard :: "'w caddy_driver \<Rightarrow> json \<Rightarrow> edge_change \<Rightarrow> caddy_config \<Rightarrow> string \<Rightarrow> bool" where
  "load_guard d j ec cfg listen =
     (let live = caddy_normalize cfg (cy_server d) (json_text j) in
      dec_config j = Inr cfg \<and> l_unparsed live = []
      \<and> list_all (\<lambda>r. to_lower (r_host r) \<in> to_lower ` set (e_remove ec)
          \<or> \<not> real_auth (u_auth (r_upstream r)) \<and> u_mode (r_upstream r) \<noteq> ModeTCPPassthrough) (l_routes live)
      \<and> list_all (\<lambda>r. \<not> real_auth (u_auth (r_upstream r))) (e_add ec)
      \<and> list_all (\<lambda>k. k = cy_server d \<or> (case map_of (cg_servers cfg) k of Some srv \<Rightarrow> \<not> server_forwards srv | None \<Rightarrow> True)) (map fst (cg_servers cfg))
      \<and> admin_carry_listen (AdmJson j) = Inr listen)"

lemma map_filter_Nil: "List.map_filter f xs = [] \<longleftrightarrow> (\<forall>x \<in> set xs. f x = None)"
  by (induction xs) (auto simp: List.map_filter_simps split: option.split)

lemma full_load_safe_iff:
  "full_load_safe live ec = None \<longleftrightarrow> l_unparsed live = []
    \<and> list_all (\<lambda>r. to_lower (r_host r) \<in> to_lower ` set (e_remove ec)
          \<or> \<not> real_auth (u_auth (r_upstream r)) \<and> u_mode (r_upstream r) \<noteq> ModeTCPPassthrough) (l_routes live)
    \<and> list_all (\<lambda>r. \<not> real_auth (u_auth (r_upstream r))) (e_add ec)"
proof -
  have "List.map_filter (route_unsafe ec) (l_routes live) = [] \<longleftrightarrow>
      list_all (\<lambda>r. to_lower (r_host r) \<in> to_lower ` set (e_remove ec)
          \<or> \<not> real_auth (u_auth (r_upstream r)) \<and> u_mode (r_upstream r) \<noteq> ModeTCPPassthrough) (l_routes live)"
    by (auto simp: map_filter_Nil list_all_iff route_unsafe_def)
  then show ?thesis
    by (auto simp: full_load_safe_def find_None_iff' list_all_iff split: list.splits option.splits dest: find_Some_set)
qed

lemma multi_server_safe_iff:
  "multi_server_safe cfg key = None \<longleftrightarrow>
     list_all (\<lambda>k. k = key \<or> (case map_of (cg_servers cfg) k of Some srv \<Rightarrow> \<not> server_forwards srv | None \<Rightarrow> True)) (map fst (cg_servers cfg))"
proof -
  let ?p = "\<lambda>k. case map_of (cg_servers cfg) k of Some srv \<Rightarrow> server_forwards srv | None \<Rightarrow> False"
  have "multi_server_safe cfg key = None \<longleftrightarrow> find ?p (sibling_keys (cg_servers cfg) key) = None"
    by (simp add: multi_server_safe_def split: option.split)
  also have "\<dots> \<longleftrightarrow> (\<forall>k \<in> set (sibling_keys (cg_servers cfg) key). \<not> ?p k)" by (rule find_None_iff')
  finally show ?thesis by (auto simp: sibling_keys_def list_all_iff split: option.splits)
qed

lemma load_guard_passed: "load_passed d j ec cfg listen = load_guard d j ec cfg listen"
  by (simp add: load_passed_def load_guard_def full_load_safe_iff multi_server_safe_iff Let_def)

lemma fetch_fake:
  "fetch_config_raw fake_admin s =
     (if fa_read_stuck s then (Inl (''caddy admin GET /config/: '' @ ''caddy admin API unresponsive (bounded timeout exceeded)''), s)
      else (case dec_config (fa_config s) of
        Inl _ \<Rightarrow> (Inl ''caddy admin GET /config/: parse'', s) | Inr cfg \<Rightarrow> (Inr (cfg, AdmJson (fa_config s)), s)))"
  by (simp add: fetch_config_raw_def call_bind_def call_wrap_def do_admin_def fake_admin_def call_either_def decode_body_def
      call_return_def split: sum.split)

lemma healthy_fake: "snd (caddy_healthy fake_admin s) = s"
  by (simp add: caddy_healthy_def call_bind_def call_wrap_def do_admin_def fake_admin_def call_return_def)

lemma load_fake:
  "caddy_load fake_admin t s =
     (if fa_write_stuck s then (Inl ''caddy admin API unresponsive (bounded timeout exceeded)'', s)
      else (if fst (fake_load t s) = 200 then Inr () else Inl ''admin /load returned an error status'', snd (fake_load t s)))"
  by (auto simp: caddy_load_def call_bind_def do_admin_def fake_admin_def fake_change_def call_return_def call_error_def
      success_status_def fake_load_def Let_def split: prod.split)

lemma verify_admin_fake:
  "snd (verify_admin fake_admin listen s) = s"
  "fst (verify_admin fake_admin listen s) = Inr () \<Longrightarrow> listen \<noteq> [] \<Longrightarrow> admin_carry_listen (AdmJson (fa_config s)) = Inr listen"
  by (auto simp: verify_admin_def call_bind_def call_wrap_def fetch_fake call_return_def call_error_def
      split: if_splits sum.splits)

lemma send_fake:
  assumes "call_bind (call_wrap a (caddy_load fake_admin t)) (\<lambda>_. call_bind (call_wrap b (caddy_healthy fake_admin))
      (\<lambda>_. verify_admin fake_admin listen)) s = (res, s')"
  shows "(s' = s \<and> (\<exists>err. res = Inl err)) \<or> (s' = snd (fake_load t s)
    \<and> (res = Inr () \<longrightarrow> fst (fake_load t s) = 200 \<and> (listen \<noteq> [] \<longrightarrow> admin_carry_listen (AdmJson (fa_config s')) = Inr listen)))"
proof (cases "fa_write_stuck s")
  case True
  then show ?thesis using assms by (auto simp: call_bind_def call_wrap_def load_fake)
next
  case False
  let ?s = "snd (fake_load t s)"
  show ?thesis
  proof (cases "fst (fake_load t s) = 200 \<and> (\<exists>u. fst (caddy_healthy fake_admin ?s) = Inr u)")
    case True
    then have "verify_admin fake_admin listen ?s = (res, s')"
      using assms False healthy_fake [of ?s]
      by (cases "caddy_healthy fake_admin ?s") (auto simp: call_bind_def call_wrap_def load_fake)
    with True verify_admin_fake [of listen ?s] show ?thesis by auto
  next
    case no: False
    then show ?thesis
      using assms False healthy_fake [of ?s]
      by (cases "caddy_healthy fake_admin ?s") (auto simp: call_bind_def call_wrap_def load_fake split: sum.splits if_splits)
  qed
qed

lemma apply_full_fake:
  assumes "apply_full d fake_admin ec s = (res, s')"
  shows "s' = s \<and> (\<exists>err. res = Inl err)
    \<or> (\<exists>cfg listen t. load_passed d (fa_config s) ec cfg listen
        \<and> t = render_caddyfile (target_routes (caddy_normalize cfg (cy_server d) (json_text (fa_config s))) ec) listen
        \<and> s' = snd (fake_load t s) \<and> (res = Inr () \<longrightarrow> fst (fake_load t s) = 200
          \<and> (listen \<noteq> [] \<longrightarrow> admin_carry_listen (AdmJson (fa_config s')) = Inr listen)))"
proof -
  let ?live = "\<lambda>cfg. caddy_normalize cfg (cy_server d) (json_text (fa_config s))"
  let ?send = "\<lambda>cfg listen. call_bind (call_wrap ''caddy apply: load: ''
       (caddy_load fake_admin (render_caddyfile (target_routes (?live cfg) ec) listen)))
     (\<lambda>_. call_bind (call_wrap ''caddy apply: post-load health: '' (caddy_healthy fake_admin)) (\<lambda>_. verify_admin fake_admin listen))"
  consider "s' = s \<and> (\<exists>err. res = Inl err)"
    | cfg listen where "load_passed d (fa_config s) ec cfg listen" "?send cfg listen s = (res, s')"
    using assms unfolding apply_full_def call_bind_def [of "call_wrap ''caddy apply: read live: '' (fetch_config_raw fake_admin)"]
      call_wrap_def fetch_fake
    by (auto simp: call_bind_def [of "refuse _"] call_bind_def [of "call_either _"] refuse_def call_either_def
        call_error_def call_return_def load_passed_def raw_text_def Let_def split: if_splits sum.splits option.splits)
  then show ?thesis
  proof cases
    case 2
    from send_fake [OF this(2)] this(1) show ?thesis by blast
  qed blast
qed

text \<open>C12. A full load is sent only to a configuration that decodes and whose normalized reading declares nothing as
  not understood, where no route that stays, and none that is added, needs authentication, none that stays
  passes TLS on, no other server forwards, and the admin block is one that the load can carry. In every
  other case the driver fails and the edge stays as it is. A load that succeeds kept the admin listener.
  Other servers that do not forward are not looked at (see caddy_full_load_drops_sibling).\<close>

theorem caddy_full_load_guarded:
  assumes "apply_full d fake_admin ec s = (res, s')"
  shows "s' = s \<and> (\<exists>err. res = Inl err)
    \<or> (\<exists>cfg listen. load_guard d (fa_config s) ec cfg listen
        \<and> s' = snd (fake_load (render_caddyfile (target_routes (caddy_normalize cfg (cy_server d) (json_text (fa_config s))) ec) listen) s)
        \<and> (res = Inr () \<longrightarrow> listen \<noteq> [] \<longrightarrow> admin_carry_listen (AdmJson (fa_config s')) = Inr listen))"
  using apply_full_fake [OF assms] unfolding load_guard_passed by blast

section \<open>What a full load is read as\<close>

definition plain_char :: "char \<Rightarrow> bool" where
  "plain_char c = (\<not> is_space c \<and> c \<noteq> CHR ''{'' \<and> c \<noteq> CHR ''}'' \<and> c \<noteq> CHR ''#'')"

definition plain_word :: "string \<Rightarrow> bool" where
  "plain_word w = (w \<noteq> [] \<and> list_all plain_char w)"

definition plain_route :: "route \<Rightarrow> bool" where
  "plain_route r = (plain_word (r_host r) \<and> hd (r_host r) \<noteq> CHR '':'' \<and> plain_word (u_address (r_upstream r)))"

definition tab :: char where "tab = CHR 0x09"

definition block_lines :: "string \<Rightarrow> string \<Rightarrow> string list" where
  "block_lines head body = [head @ '' {'', tab # body, ''}'']"

lemma caddy_block_lines: "caddy_block head body = unlines (block_lines head body)"
  by (simp add: caddy_block_def block_lines_def tab_def)

definition caddyfile_lines :: "route list \<Rightarrow> string \<Rightarrow> string list" where
  "caddyfile_lines routes listen =
     [''# crenel-managed v1 '' @ em_dash @ '' do not hand-edit'']
     @ (if listen \<noteq> [] then [''{'', tab # ''admin '' @ listen, ''}''] else [])
     @ concat (map (\<lambda>r. block_lines (r_host r) (''reverse_proxy '' @ u_address (r_upstream r))) routes)
     @ block_lines '':443'' ''respond 403''"

lemma render_lines: "render_caddyfile routes listen = unlines (caddyfile_lines (sort_key r_host routes) listen)"
  by (simp add: render_caddyfile_def caddyfile_lines_def caddy_block_lines tab_def unlines_concat comp_def)

lemma space_facts [simp]: "is_space CHR '' ''" "is_space tab" "\<not> is_space CHR ''{''" "\<not> is_space CHR ''}''" "\<not> is_space CHR '':''"
  "is_space newline"
  by (simp_all add: is_space_code tab_def newline_def)

lemma plain_in: "plain_word w \<Longrightarrow> c \<in> set w \<Longrightarrow> plain_char c"
  by (simp add: plain_word_def list_all_iff)

lemma plain_no_newline: "plain_word w \<Longrightarrow> newline \<notin> set w"
  using plain_in [of w newline] by (auto simp: plain_char_def)

lemma plain_ends: "plain_word w \<Longrightarrow> w \<noteq> [] \<and> plain_char (hd w) \<and> plain_char (last w)"
  by (simp add: plain_word_def list_all_iff)

lemma plain_trim: "plain_word w \<Longrightarrow> trim_space w = w"
  by (rule trim_space_no_space) (simp add: plain_word_def list_all_iff plain_char_def)

text \<open>The three lines of a block.\<close>

lemma trim_space_left [simp]: "is_space c \<Longrightarrow> trim_space (c # s) = trim_space s"
  by (simp add: trim_space_def)

lemma trim_space_right: "is_space c \<Longrightarrow> trim_space (s @ [c]) = trim_space s"
proof (cases "\<forall>x \<in> set s. is_space x")
  case True
  moreover assume "is_space c"
  ultimately show ?thesis by (auto simp: trim_space_def dropWhile_append dest: set_dropWhileD)
next
  case False
  moreover assume "is_space c"
  ultimately show ?thesis by (auto simp: trim_space_def dropWhile_append)
qed

lemma adapt_open:
  "plain_word w \<Longrightarrow> adapt_line (w @ '' {'') s = s\<lparr>as_addr := w, as_block := True\<rparr>"
proof -
  assume w: "plain_word w"
  let ?l = "w @ '' {''"
  have t: "trim_space ?l = ?l" using plain_ends [OF w] by (intro trim_space_ends) (auto simp: plain_char_def)
  have "\<not> has_prefix ''#'' ?l" using plain_ends [OF w] by (cases w) (auto simp: plain_char_def)
  moreover have suf: "?l = (w @ '' '') @ ''{''" by simp
  then have "has_suffix ''{'' ?l" "trim_suffix ''{'' ?l = w @ '' ''" by (metis has_suffix_append, metis trim_suffix_append)
  moreover have "trim_space (w @ '' '') = w" using trim_space_right [of "CHR '' ''" w] plain_trim [OF w] by simp
  ultimately show ?thesis by (simp add: adapt_line_def Let_def t)
qed

lemma adapt_close:
  "adapt_line ''}'' s = (adapt_flush s)\<lparr>as_block := False\<rparr>"
proof -
  have "trim_space ''}'' = ''}''" by (rule trim_space_ends) simp_all
  then show ?thesis by (simp add: adapt_line_def Let_def has_suffix_def)
qed

text \<open>A directive inside a block with an address is kept; one without is a global option.\<close>

lemma word_line_trim:
  assumes "\<not> is_space (hd a)" "a \<noteq> []" "plain_word w"
  shows "trim_space (tab # a @ '' '' @ w) = a @ '' '' @ w"
proof -
  have "trim_space (a @ '' '' @ w) = a @ '' '' @ w"
    using assms plain_ends [OF assms(3)] by (intro trim_space_ends) (auto simp: plain_char_def)
  then show ?thesis by simp
qed

lemma word_line_suffix: "plain_word w \<Longrightarrow> \<not> has_suffix ''{'' (a @ '' '' @ w) \<and> a @ '' '' @ w \<noteq> ''}''"
proof -
  assume "plain_word w"
  with plain_ends [of w] have l: "last (a @ '' '' @ w) \<noteq> CHR ''{''" "last (a @ '' '' @ w) \<noteq> CHR ''}''"
    by (auto simp: plain_char_def)
  have "has_suffix ''{'' x \<Longrightarrow> last x = CHR ''{''" for x by (auto simp: has_suffix_iff)
  with l(1) have "\<not> has_suffix ''{'' (a @ '' '' @ w)" by blast
  moreover have "x = ''}'' \<Longrightarrow> last x = CHR ''}''" for x :: string by simp
  with l(2) have "a @ '' '' @ w \<noteq> ''}''" by blast
  ultimately show ?thesis by blast
qed

lemma adapt_word_line:
  assumes "\<not> is_space (hd a)" "a \<noteq> []" "hd a \<noteq> CHR ''#''" "plain_word w" "as_block s" "as_addr s \<noteq> []"
  shows "adapt_line (tab # a @ '' '' @ w) s = s\<lparr>as_dirs := as_dirs s @ [a @ '' '' @ w]\<rparr>"
proof -
  have "\<not> has_prefix ''#'' (a @ '' '' @ w)" using assms(2,3) by (cases a) auto
  then show ?thesis
    using assms(2,5,6) word_line_suffix [OF assms(4), of a]
    by (simp add: adapt_line_def word_line_trim [OF assms(1,2,4)] del: append_Cons)
qed

lemma adapt_admin_line:
  assumes "plain_word w" "as_block s" "as_addr s = []"
  shows "adapt_line (tab # ''admin'' @ '' '' @ w) s = s\<lparr>as_admin := w\<rparr>"
proof -
  have "''admin'' @ '' '' @ w = ''admin '' @ w" by simp
  then have "has_prefix ''admin '' (''admin'' @ '' '' @ w)" "trim_prefix ''admin '' (''admin'' @ '' '' @ w) = w"
    by (metis has_prefix_append, metis trim_prefix_append)
  moreover have "trim_space (tab # ''admin'' @ '' '' @ w) = ''admin'' @ '' '' @ w"
    by (rule word_line_trim) (simp_all add: is_space_code assms(1))
  moreover have "\<not> has_prefix ''#'' (''admin'' @ '' '' @ w)" by simp
  ultimately show ?thesis
    using assms(2,3) word_line_suffix [OF assms(1), of "''admin''"] plain_trim [OF assms(1)]
    unfolding adapt_line_def Let_def by (simp del: append_Cons has_prefix.simps)
qed

text \<open>A block of a host, and the whole file.\<close>

definition forward_json :: "string \<Rightarrow> string \<Rightarrow> json" where
  "forward_json host addr = JObj [(''handle'', JArr [JObj [(''handler'', JStr ''reverse_proxy''), (''upstreams'', dial_list addr)]]),
     (''match'', JArr [JObj [(''host'', JArr [JStr host])]])]"

definition deny_json :: json where
  "deny_json = JObj [(''handle'', JArr [JObj [(''handler'', JStr ''static_response''), (''status_code'', JNum 403)]])]"

lemma split_space_words:
  "list_all (\<lambda>c. \<not> is_space c) a \<Longrightarrow> list_all (\<lambda>c. \<not> is_space c) w \<Longrightarrow> split_space (a @ '' '' @ w) = [a, w]"
proof (induction a)
  case Nil
  then have "split_space w = [w]" by (induction w) auto
  then show ?case by simp
qed auto

lemma proxy_fields: "plain_word w \<Longrightarrow> str_fields (''reverse_proxy'' @ '' '' @ w) = [''reverse_proxy'', w]"
proof -
  assume w: "plain_word w"
  have "split_space (''reverse_proxy'' @ '' '' @ w) = [''reverse_proxy'', w]"
    by (rule split_space_words) (use w in \<open>simp_all add: is_space_code plain_word_def list_all_iff plain_char_def\<close>)
  with plain_ends [OF w] show ?thesis unfolding str_fields_def by (simp del: append_Cons)
qed

lemma build_forward:
  assumes "plain_word h" "hd h \<noteq> CHR '':''" "plain_word w"
  shows "build_route h [''reverse_proxy'' @ '' '' @ w] = Some (forward_json h w)"
proof -
  have "\<not> has_prefix '':'' h" using assms(2) by (cases h) auto
  then show ?thesis unfolding build_route.simps(2) proxy_fields [OF assms(3)] by (simp add: forward_json_def Let_def)
qed

lemma adapt_block:
  assumes "plain_route r" "as_dirs s = []"
  shows "fold adapt_line (block_lines (r_host r) (''reverse_proxy '' @ u_address (r_upstream r))) s =
    s\<lparr>as_addr := [], as_block := False, as_routes := as_routes s @ [forward_json (r_host r) (u_address (r_upstream r))]\<rparr>"
proof -
  let ?h = "r_host r" and ?a = "u_address (r_upstream r)"
  have p: "plain_word ?h" "hd ?h \<noteq> CHR '':''" "plain_word ?a" "?h \<noteq> []"
    using assms(1) plain_ends by (auto simp: plain_route_def)
  let ?s = "s\<lparr>as_addr := ?h, as_block := True\<rparr>"
  have e: "''reverse_proxy '' @ ?a = ''reverse_proxy'' @ '' '' @ ?a" by simp
  have "adapt_line (tab # ''reverse_proxy'' @ '' '' @ ?a) ?s = ?s\<lparr>as_dirs := as_dirs ?s @ [''reverse_proxy'' @ '' '' @ ?a]\<rparr>"
    by (rule adapt_word_line) (simp_all add: is_space_code p)
  then have line: "adapt_line (tab # ''reverse_proxy '' @ ?a) ?s = ?s\<lparr>as_dirs := [''reverse_proxy'' @ '' '' @ ?a]\<rparr>"
    unfolding e using assms(2) by simp
  show ?thesis
    unfolding block_lines_def fold_simps comp_def adapt_open [OF p(1)] line adapt_close adapt_flush_def
    using p(4) assms(2) by (cases s) (simp add: build_forward [OF p(1-3)] del: append_Cons build_route.simps)
qed

lemma adapt_blocks:
  "list_all plain_route rs \<Longrightarrow> as_dirs s = [] \<Longrightarrow> as_addr s = [] \<Longrightarrow> \<not> as_block s \<Longrightarrow>
   fold adapt_line (concat (map (\<lambda>r. block_lines (r_host r) (''reverse_proxy '' @ u_address (r_upstream r))) rs)) s =
     s\<lparr>as_routes := as_routes s @ map (\<lambda>r. forward_json (r_host r) (u_address (r_upstream r))) rs\<rparr>"
proof (induction rs arbitrary: s)
  case (Cons r rs)
  let ?s = "s\<lparr>as_addr := [], as_block := False, as_routes := as_routes s @ [forward_json (r_host r) (u_address (r_upstream r))]\<rparr>"
  have "fold adapt_line (block_lines (r_host r) (''reverse_proxy '' @ u_address (r_upstream r))) s = ?s"
    using Cons.prems by (intro adapt_block) simp_all
  moreover have "?s = s\<lparr>as_routes := as_routes s @ [forward_json (r_host r) (u_address (r_upstream r))]\<rparr>" using Cons.prems by simp
  ultimately show ?case using Cons by simp
qed simp

definition loaded_json :: "string \<Rightarrow> route list \<Rightarrow> string \<Rightarrow> json" where
  "loaded_json key rs listen = JObj ([(''apps'', JObj [(''http'', JObj [(''servers'', JObj [(key,
       JObj [(''listen'', JArr [JStr '':443'']),
         (''routes'', JArr (map (\<lambda>r. forward_json (r_host r) (u_address (r_upstream r))) rs @ [deny_json]))])])])])]
     @ (if listen \<noteq> [] then [(''admin'', JObj [(''listen'', JStr listen)])] else []))"

lemma adapt_header: "adapt_line (''# crenel-managed v1 '' @ em_dash @ '' do not hand-edit'') s = s"
proof -
  let ?l = "''# crenel-managed v1 '' @ em_dash @ '' do not hand-edit''"
  have "trim_space ?l = ?l" by (rule trim_space_ends) (simp_all add: is_space_code em_dash_def)
  moreover have "has_prefix ''#'' ?l" "?l \<noteq> []" by simp_all
  ultimately show ?thesis unfolding adapt_line_def Let_def by presburger
qed

lemma adapt_admin_block:
  assumes "plain_word listen"
  shows "fold adapt_line [''{'', tab # ''admin '' @ listen, ''}''] s = s\<lparr>as_addr := [], as_block := False, as_admin := listen\<rparr>"
proof -
  have "trim_space ''{'' = ''{''" by (rule trim_space_ends) simp_all
  then have "adapt_line ''{'' s = s\<lparr>as_addr := [], as_block := True\<rparr>"
    by (simp add: adapt_line_def Let_def has_suffix_def trim_suffix_def)
  moreover have "adapt_line (tab # ''admin '' @ listen) (s\<lparr>as_addr := [], as_block := True\<rparr>)
      = s\<lparr>as_addr := [], as_block := True, as_admin := listen\<rparr>"
    using adapt_admin_line [OF assms, of "s\<lparr>as_addr := [], as_block := True\<rparr>"] by simp
  ultimately show ?thesis by (simp add: adapt_close adapt_flush_def del: append_Cons)
qed

lemma adapt_deny_block:
  assumes "as_dirs s = []"
  shows "fold adapt_line (block_lines '':443'' ''respond 403'') s
    = s\<lparr>as_addr := [], as_block := False, as_routes := as_routes s @ [deny_json]\<rparr>"
proof -
  have w: "plain_word '':443''" "plain_word ''403''" by (simp_all add: plain_word_def plain_char_def is_space_code)
  let ?s = "s\<lparr>as_addr := '':443'', as_block := True\<rparr>"
  have "adapt_line (tab # ''respond'' @ '' '' @ ''403'') ?s = ?s\<lparr>as_dirs := as_dirs ?s @ [''respond'' @ '' '' @ ''403'']\<rparr>"
    by (rule adapt_word_line) (simp_all add: is_space_code w)
  then have line: "adapt_line (tab # ''respond 403'') ?s = ?s\<lparr>as_dirs := [''respond 403'']\<rparr>" using assms by simp
  have "build_route '':443'' [''respond 403''] = Some deny_json" by code_simp
  then show ?thesis
    unfolding block_lines_def fold_simps comp_def adapt_open [OF w(1)] line adapt_close adapt_flush_def
    using assms by (cases s) (simp del: append_Cons build_route.simps)
qed

lemma caddyfile_lines_no_newline:
  assumes "list_all plain_route rs" "listen = [] \<or> plain_word listen" "l \<in> set (caddyfile_lines rs listen)"
  shows "newline \<notin> set l"
proof -
  have "r \<in> set rs \<Longrightarrow> newline \<notin> set (r_host r) \<and> newline \<notin> set (u_address (r_upstream r))" for r
    using assms(1) plain_no_newline by (auto simp: list_all_iff plain_route_def)
  moreover have "listen \<noteq> [] \<Longrightarrow> newline \<notin> set listen" using assms(2) plain_no_newline by blast
  ultimately show ?thesis
    using assms(3) by (auto simp: caddyfile_lines_def block_lines_def newline_def tab_def em_dash_def split: if_splits)
qed

text \<open>The adapter makes of the file what it was written from.\<close>

lemma adapt_render:
  assumes "list_all plain_route rs" "listen = [] \<or> plain_word listen"
  shows "adapt (render_caddyfile rs listen) key = loaded_json key (sort_key r_host rs) listen"
proof -
  let ?rs = "sort_key r_host rs"
  let ?s0 = "\<lparr>as_addr = [], as_block = False, as_dirs = [], as_admin = [], as_routes = []\<rparr>"
  let ?js = "map (\<lambda>r. forward_json (r_host r) (u_address (r_upstream r))) ?rs"
  have plain: "list_all plain_route ?rs" using assms(1) by (simp add: list_all_iff)
  have "line_list (render_caddyfile rs listen) = caddyfile_lines ?rs listen @ [ [] ]"
    using line_list_unlines [of "caddyfile_lines ?rs listen" "[]"] caddyfile_lines_no_newline [OF plain assms(2)]
    by (simp add: render_lines line_list_def)
  moreover have "fold adapt_line (caddyfile_lines ?rs listen) ?s0 = ?s0\<lparr>as_admin := listen, as_routes := ?js @ [deny_json]\<rparr>"
  proof (cases "listen = []")
    case True
    then show ?thesis
      by (simp add: caddyfile_lines_def adapt_header adapt_blocks [OF plain] adapt_deny_block del: append_Cons)
  next
    case False
    with assms(2) have "plain_word listen" by simp
    from adapt_admin_block [OF this]
    have "adapt_line ''}'' (adapt_line (tab # ''admin '' @ listen) (adapt_line ''{'' s)) = s\<lparr>as_addr := [], as_block := False, as_admin := listen\<rparr>" for s
      by (simp del: append_Cons)
    with False show ?thesis
      by (simp add: caddyfile_lines_def adapt_header adapt_blocks [OF plain] adapt_deny_block del: append_Cons)
  qed
  moreover have "adapt_line [] s = s" for s by (simp add: adapt_line_def Let_def)
  ultimately show ?thesis by (simp add: adapt_def adapt_flush_def loaded_json_def Let_def)
qed

section \<open>Reading it back\<close>

definition loaded_route :: "route \<Rightarrow> cd_route" where
  "loaded_route r = host_route (r_host r) [proxy_handler (u_address (r_upstream r))]"

lemma dec_forward: "dec_route (forward_json h a) = Inr (host_route h [proxy_handler a])"
  by (simp add: dec_route.simps dec_handler.simps dec_field_def dec_list_def dec_match_def dec_struct_def dec_str_def dec_dial_def
      forward_json_def dial_list_def host_route_def proxy_handler_def)

lemma dec_deny: "dec_route deny_json = Inr (CdRoute [] [] [deny_handler])"
  by (simp add: dec_route.simps dec_handler.simps dec_field_def dec_list_def dec_struct_def dec_str_def dec_int_def
      deny_json_def deny_handler_def)

lemma rmap_append: "rmap f (xs @ ys) = rbind (rmap f xs) (\<lambda>as. rbind (rmap f ys) (\<lambda>bs. Inr (as @ bs)))"
  by (induction xs) (auto simp: rbind_def split: sum.splits)

lemma dec_loaded:
  assumes "JObj fs = loaded_json key rs listen"
  shows "dec_config (JObj (if drop_admin then AList.delete ''admin'' fs else fs)) = Inr \<lparr>cg_servers =
     [(key, \<lparr>sv_listen = ['':443''], sv_routes = map loaded_route rs @ [CdRoute [] [] [deny_handler]]\<rparr>)], cg_layer4 = None\<rparr>"
proof -
  have "rmap dec_route (map (\<lambda>r. forward_json (r_host r) (u_address (r_upstream r))) rs) = Inr (map loaded_route rs)"
    by (induction rs) (simp_all add: dec_forward loaded_route_def)
  then have "rmap dec_route (map (\<lambda>r. forward_json (r_host r) (u_address (r_upstream r))) rs @ [deny_json])
      = Inr (map loaded_route rs @ [CdRoute [] [] [deny_handler]])"
    by (simp add: rmap_append dec_deny)
  then show ?thesis
    using assms by (simp add: loaded_json_def dec_config_def dec_struct_def dec_field_def dec_apps_def dec_http_def dec_map_def dec_server_def
        dec_list_def dec_str_def dec_ptr_def)
qed

lemma read_loaded_route:
  "read_top_route key i (loaded_route r) = \<lparr>sr_routes = [leaf_route (loaded_route r) (r_host r) False [] (u_address (r_upstream r))],
     sr_unparsed = [], sr_permissive = False\<rparr>"
proof -
  have h: "host_matches (loaded_route r) = [r_host r]" "extra_matcher_keys (loaded_route r) = []"
    "first_dial (loaded_route r) = Some (u_address (r_upstream r))" "cr_id (loaded_route r) = []" "caddy_auth (loaded_route r) = []"
    by (simp_all add: loaded_route_def host_route_def host_matches_def extra_matcher_keys_def first_dial_def proxy_handler_def
        is_backend_def is_auth_gate_def caddy_auth_def)
  moreover have "[] \<noteq> caddy_route_id (r_host r)" by (simp add: caddy_route_id_def)
  ultimately show ?thesis
    by (simp add: read_top_route_def collect_leaves.simps Let_def)
qed

lemma normalize_loaded:
  "let s = normalize_server \<lparr>sv_listen = ls, sv_routes = map loaded_route rs @ [CdRoute [] [] [deny_handler]]\<rparr> key
   in map (\<lambda>r. (r_host r, u_address (r_upstream r))) (sr_routes s) = map (\<lambda>r. (r_host r, u_address (r_upstream r))) rs
     \<and> sr_unparsed s = [] \<and> \<not> sr_permissive s"
proof -
  let ?f = "\<lambda>(i, r). read_top_route key i r"
  have deny: "read_top_route key i (CdRoute [] [] [deny_handler]) = none_read" for i
    by (simp add: read_top_route_def host_matches_def first_dial_def has_deny_handler_def deny_handler_def is_backend_def is_deny_def Let_def)
  have "map (\<lambda>r. (r_host r, u_address (r_upstream r))) (concat (map sr_routes (map ?f (enumerate i (map loaded_route rs)))))
      = map (\<lambda>r. (r_host r, u_address (r_upstream r))) rs
    \<and> concat (map sr_unparsed (map ?f (enumerate i (map loaded_route rs)))) = []
    \<and> \<not> list_ex sr_permissive (map ?f (enumerate i (map loaded_route rs)))" for i
    by (induction rs arbitrary: i) (simp_all add: read_loaded_route leaf_route_def)
  from this [of 0] show ?thesis
    by (simp add: normalize_server_def Let_def enumerate_append_eq deny none_read_def)
qed

lemma normalize_loaded_config:
  fixes rs key raw ls
  defines "live \<equiv> caddy_normalize \<lparr>cg_servers = [(key, \<lparr>sv_listen = ls, sv_routes = map loaded_route rs @ [CdRoute [] [] [deny_handler]]\<rparr>)],
      cg_layer4 = None\<rparr> key raw"
  shows "deny_verdict live = DenyEnforced"
    and "map (\<lambda>r. (r_host r, u_address (r_upstream r))) (l_routes live) = map (\<lambda>r. (r_host r, u_address (r_upstream r))) rs"
  using normalize_loaded [of ls rs key]
  by (simp_all add: live_def caddy_normalize_def empty_live_def sibling_keys_def layer4_routes_def Let_def deny_verdict_def fully_parsed_def)

definition served_pairs :: "live_edge_state \<Rightarrow> (string \<times> string) list" where
  "served_pairs live = map (\<lambda>r. (r_host r, u_address (r_upstream r))) (l_routes live)"

lemma read_loaded:
  assumes "fa_config s = JObj (if drop_admin then AList.delete ''admin'' fs else fs)" "JObj fs = loaded_json (cy_server d) rs listen"
    and "\<not> fa_read_stuck s"
  shows "\<exists>live. fst (caddy_read_live d fake_admin s) = Inr live \<and> deny_verdict live = DenyEnforced
    \<and> served_pairs live = map (\<lambda>r. (r_host r, u_address (r_upstream r))) rs"
proof -
  let ?cfg = "\<lparr>cg_servers = [(cy_server d, \<lparr>sv_listen = ['':443''], sv_routes = map loaded_route rs @ [CdRoute [] [] [deny_handler]]\<rparr>)],
      cg_layer4 = None\<rparr>"
  have "dec_config (fa_config s) = Inr ?cfg"
    unfolding assms(1) by (rule dec_loaded [OF assms(2)])
  then have "fst (caddy_read_live d fake_admin s) = Inr ((mark_foreign (caddy_generator d s)
      (caddy_normalize ?cfg (cy_server d) (json_text (fa_config s))))\<lparr>l_persistence := caddy_persistence d\<rparr>)"
    using assms(3) by (simp add: caddy_read_live_def call_bind_def fetch_fake raw_text_def)
  moreover have "deny_verdict ((mark_foreign g live)\<lparr>l_persistence := p\<rparr>) = deny_verdict live"
    "served_pairs ((mark_foreign g live)\<lparr>l_persistence := p\<rparr>) = served_pairs live" for g live p
    by (simp_all add: mark_foreign_def deny_verdict_def fully_parsed_def served_pairs_def comp_def)
  ultimately show ?thesis
    using normalize_loaded_config [of "cy_server d" "['':443'']" rs "json_text (fa_config s)"] by (simp add: served_pairs_def)
qed

text \<open>C13. What a full load that succeeds is worth. The hypotheses: the fake adapts for the driver's server, and
  hosts, addresses and a carried admin listener are words of the Caddyfile language. Unless the server
  accepts without acting, the edge is read back as what the load was to bring about: the default deny is
  enforced, and the routes are the ones there were, without those removed and those that pass TLS on, and
  the ones added, by host, each with its address. A server that accepts without acting gives the same
  success and the configuration it had: the success alone proves nothing.\<close>

theorem caddy_full_load_read_back:
  assumes "apply_full d fake_admin ec s = (Inr (), s')" and "fa_server s = cy_server d"
    and "dec_config (fa_config s) = Inr cfg" and "list_all plain_route (target_routes (caddy_normalize cfg (cy_server d) []) ec)"
    and "admin_carry_listen (AdmJson (fa_config s)) = Inr listen" and "listen = [] \<or> plain_word listen"
  shows "if fa_silent s then fa_config s' = fa_config s
    else \<exists>live. fst (caddy_read_live d fake_admin s') = Inr live \<and> deny_verdict live = DenyEnforced
      \<and> served_pairs live = map (\<lambda>r. (r_host r, u_address (r_upstream r)))
          (sort_key r_host (target_routes (caddy_normalize cfg (cy_server d) []) ec))"
proof -
  let ?rs = "target_routes (caddy_normalize cfg (cy_server d) []) ec"
  have raw: "target_routes (caddy_normalize cfg (cy_server d) raw) ec = ?rs" for raw
    by (simp add: target_routes_def caddy_normalize_def Let_def)
  let ?t = "render_caddyfile ?rs listen"
  obtain cfg' listen' t where g: "load_passed d (fa_config s) ec cfg' listen'"
      "t = render_caddyfile (target_routes (caddy_normalize cfg' (cy_server d) (json_text (fa_config s))) ec) listen'"
      "s' = snd (fake_load t s)" "fst (fake_load t s) = 200"
    using apply_full_fake [OF assms(1)] by (elim disjE exE conjE) simp_all
  have "cfg' = cfg" "listen' = listen" using g(1) assms(3,5) by (simp_all add: load_passed_def)
  with g(2) have "t = ?t" by (simp only: raw [of "json_text (fa_config s)"])
  with g(3,4) have load: "s' = snd (fake_load ?t s)" "fst (fake_load ?t s) = 200" by simp_all
  show ?thesis
  proof (cases "fa_silent s")
    case True
    with load show ?thesis by (auto simp: fake_load_def Let_def split: if_splits)
  next
    case False
    have awake: "\<not> fa_read_stuck s" using assms(1) by (auto simp: apply_full_def call_bind_def call_wrap_def fetch_fake)
    obtain fs where fs: "adapt ?t (fa_server s) = JObj fs" by (simp add: adapt_def Let_def)
    then have loaded: "JObj fs = loaded_json (cy_server d) (sort_key r_host ?rs) listen"
      using adapt_render [OF assms(4,6), of "cy_server d"] assms(2) by simp
    have "fa_config s' = JObj (if fa_drop_admin s then AList.delete ''admin'' fs else fs)" "\<not> fa_read_stuck s'"
      using load awake False fs by (auto simp: fake_load_def Let_def split: if_splits)
    from read_loaded [OF this(1) loaded this(2)] False show ?thesis by simp
  qed
qed

section \<open>An example\<close>

definition plain_caddy :: "caddy_fake caddy_driver" where
  "plain_caddy = \<lparr>cy_server = ''srv0'', cy_admin_url = ''http://a'', cy_resolve = (\<lambda>_. Inr ''h:2''), cy_granular = False, cy_layer4 = False,
     cy_persist_path = [], cy_declared = PersistUnset, cy_auth = [], cy_generator = [], cy_generator_path = [], cy_file = (\<lambda>_ _. None)\<rparr>"

definition caddy_with :: "json list \<Rightarrow> caddy_fake" where
  "caddy_with rs = \<lparr>fa_config = JObj [(''apps'', JObj [(''http'', JObj [(''servers'', JObj [(''srv0'', JObj [(''routes'', JArr rs)])])])])],
     fa_server = ''srv0'', fa_silent = False, fa_reject = [], fa_drop_admin = False, fa_read_stuck = False, fa_write_stuck = False, fa_loads = []\<rparr>"

definition add_b :: edge_change where
  "add_b = no_edge_change\<lparr>e_add := [mk_route ''b.ex'' \<lparr>u_kind = ForwardToOrigin, u_mode = ModeHTTPProxy, u_address = ''h:2'',
     u_tls_passthrough = False, u_server_name = ''b.ex'', u_upstream_tls = False, u_auth = []\<rparr>]\<rparr>"

definition file_server :: json where
  "file_server = JObj [(''match'', JArr [JObj [(''host'', JArr [JStr ''f.ex''])]]), (''handle'', JArr [JObj [(''handler'', JStr ''file_server'')]])]"

lemma caddy_full_load_guarded_witness:
  "snd (apply_full plain_caddy fake_admin add_b (caddy_with [file_server])) = caddy_with [file_server]"
proof -
  obtain res s' where a: "apply_full plain_caddy fake_admin add_b (caddy_with [file_server]) = (res, s')" by fastforce
  let ?cfg = "\<lparr>cg_servers = [(''srv0'', \<lparr>sv_listen = [], sv_routes = [host_route ''f.ex'' [CdHandler ''file_server'' [] 0 False [] None [] None]]\<rparr>)],
      cg_layer4 = None\<rparr>"
  have d: "dec_config (fa_config (caddy_with [file_server])) = Inr ?cfg" by code_simp
  have "l_unparsed (caddy_normalize ?cfg ''srv0'' []) \<noteq> []" by code_simp
  then have "l_unparsed (caddy_normalize ?cfg (cy_server plain_caddy) raw) \<noteq> []" for raw
    by (simp add: plain_caddy_def caddy_normalize_def Let_def)
  with d have "\<not> load_guard plain_caddy (fa_config (caddy_with [file_server])) add_b cfg listen" for cfg listen
    by (auto simp: load_guard_def Let_def)
  with caddy_full_load_guarded [OF a] have "s' = caddy_with [file_server]" by blast
  with a show ?thesis by simp
qed

lemma caddy_full_load_read_back_witness:
  "(\<exists>live. fst (caddy_read_live plain_caddy fake_admin (snd (apply_full plain_caddy fake_admin add_b (caddy_with [forward_json ''a.ex'' ''h:1''])))) = Inr live
     \<and> deny_verdict live = DenyEnforced \<and> served_pairs live = [(''a.ex'', ''h:1''), (''b.ex'', ''h:2'')])"
proof -
  let ?s = "caddy_with [forward_json ''a.ex'' ''h:1'']"
  let ?cfg = "\<lparr>cg_servers = [(''srv0'', \<lparr>sv_listen = [], sv_routes = [host_route ''a.ex'' [proxy_handler ''h:1'']]\<rparr>)], cg_layer4 = None\<rparr>"
  have d: "dec_config (fa_config ?s) = Inr ?cfg" by code_simp
  have "fst (apply_full plain_caddy fake_admin add_b ?s) = Inr ()" by code_simp
  then obtain s' where a: "apply_full plain_caddy fake_admin add_b ?s = (Inr (), s')" by (cases "apply_full plain_caddy fake_admin add_b ?s") auto
  have "list_all plain_route (target_routes (caddy_normalize ?cfg (cy_server plain_caddy) []) add_b)" by code_simp
  moreover have "admin_carry_listen (AdmJson (fa_config ?s)) = Inr []" by code_simp
  moreover have "map (\<lambda>r. (r_host r, u_address (r_upstream r)))
      (sort_key r_host (target_routes (caddy_normalize ?cfg (cy_server plain_caddy) []) add_b)) = [(''a.ex'', ''h:1''), (''b.ex'', ''h:2'')]" by code_simp
  moreover have "fa_server ?s = cy_server plain_caddy" "\<not> fa_silent ?s" by code_simp+
  ultimately show ?thesis using caddy_full_load_read_back [OF a _ d] a by simp
qed

section \<open>What a full load loses\<close>

text \<open>The guards look at other servers only when they forward: a full load beside a server of files passes them,
  and that server is gone.\<close>

definition caddy_with_files :: caddy_fake where
  "caddy_with_files = (caddy_with [])\<lparr>fa_config := JObj [(''apps'', JObj [(''http'', JObj [(''servers'', JObj
     [(''srv0'', JObj [(''routes'', JArr [])]),
      (''files'', JObj [(''listen'', JArr [JStr '':8080'']), (''routes'', JArr [file_server])])])])])]\<rparr>"

definition server_keys :: "caddy_fake \<Rightarrow> string list" where
  "server_keys s = (case dec_config (fa_config s) of Inr cfg \<Rightarrow> map fst (cg_servers cfg) | Inl _ \<Rightarrow> [])"

lemma caddy_full_load_drops_sibling:
  "server_keys caddy_with_files = [''srv0'', ''files'']
   \<and> fst (apply_full plain_caddy fake_admin add_b caddy_with_files) = Inr ()
   \<and> server_keys (snd (apply_full plain_caddy fake_admin add_b caddy_with_files)) = [''srv0'']"
  by code_simp

text \<open>The guards do not look at TLS to the origin: a full load of another host passes them and writes the route
  without it.\<close>

definition tls_json :: json where
  "tls_json = JObj [(''match'', JArr [JObj [(''host'', JArr [JStr ''a.ex''])]]),
     (''handle'', JArr [JObj [(''handler'', JStr ''reverse_proxy''), (''upstreams'', dial_list ''h:1''),
        (''transport'', JObj [(''protocol'', JStr ''http''), (''tls'', JObj [])])]])]"

definition tls_read :: "caddy_fake \<Rightarrow> (string \<times> bool) list" where
  "tls_read s = (case fst (caddy_read_live plain_caddy fake_admin s) of
     Inr live \<Rightarrow> map (\<lambda>r. (r_host r, u_upstream_tls (r_upstream r))) (l_routes live) | Inl _ \<Rightarrow> [])"

lemma caddy_full_load_drops_upstream_tls:
  "tls_read (caddy_with [tls_json]) = [(''a.ex'', True)]
   \<and> fst (apply_full plain_caddy fake_admin add_b (caddy_with [tls_json])) = Inr ()
   \<and> tls_read (snd (apply_full plain_caddy fake_admin add_b (caddy_with [tls_json]))) = [(''a.ex'', False), (''b.ex'', False)]"
  by code_simp

end
