(* ===== verification/Caddy_Granular.thy ===== *)
theory Caddy_Granular
  imports Caddy_Full
begin

text \<open>
  The additive path of the Caddy driver against the admin API. A route that is inserted at the front of the
  managed server is read back as one more route, with every other route and the verdict as they were; the
  deletion of its id gives back the very document there was. The last part is about the sweep of routes
  without an id.
\<close>

section \<open>What is read does not depend on where it is\<close>

definition leaf_summary :: "route list \<times> unparsed list \<times> bool \<Rightarrow> route list \<times> unknown_kind list \<times> bool" where
  "leaf_summary res = (fst res, map n_kind (fst (snd res)), snd (snd res))"

lemma summary_eq:
  "leaf_summary res = leaf_summary res' \<longleftrightarrow> fst res = fst res' \<and> map n_kind (fst (snd res)) = map n_kind (fst (snd res')) \<and> snd (snd res) = snd (snd res')"
  by (simp add: leaf_summary_def)

lemma summary_join:
  assumes "map leaf_summary ps = map leaf_summary qs"
  shows "concat (map fst ps) = concat (map fst qs)" "list_ex (snd \<circ> snd) ps = list_ex (snd \<circ> snd) qs"
    "map n_kind (concat (map (fst \<circ> snd) ps)) = map n_kind (concat (map (fst \<circ> snd) qs))"
proof -
  have "list_all2 (\<lambda>p q. leaf_summary p = leaf_summary q) ps qs"
    using assms by (simp add: list_all2_conv_all_nth list_eq_iff_nth_eq)
  then show "concat (map fst ps) = concat (map fst qs)" "list_ex (snd \<circ> snd) ps = list_ex (snd \<circ> snd) qs"
    "map n_kind (concat (map (fst \<circ> snd) ps)) = map n_kind (concat (map (fst \<circ> snd) qs))"
    by (induction ps qs rule: list_all2_induct) (auto simp: summary_eq)
qed

lemma declare_kind_locator: "n_kind (caddy_declare l r s k) = n_kind (caddy_declare l' r s k)"
  by (simp add: caddy_declare_def caddy_ack_aware_def split: option.splits)

lemma map_below:
  "map F (below h l subs) = concat (map (\<lambda>(j, sr). map (\<lambda>g. F (sr, g, child_locator l j)) (asked h sr)) (enumerate 0 subs))"
  by (simp add: below_def asked_def map_concat comp_def case_prod_beta')

lemma below_summary:
  assumes "\<And>sr g k k'. sr \<in> set subs \<Longrightarrow> g \<in> set (asked h sr) \<Longrightarrow> leaf_summary (f sr g k) = leaf_summary (f sr g k')"
  shows "map leaf_summary (map (\<lambda>(sr, g, k). f sr g k) (below h l subs)) = map leaf_summary (map (\<lambda>(sr, g, k). f sr g k) (below h l' subs))"
proof -
  have "map (\<lambda>(j, sr). map (\<lambda>g. leaf_summary (f sr g (child_locator l j))) (asked h sr)) (enumerate 0 subs)
      = map (\<lambda>(j, sr). map (\<lambda>g. leaf_summary (f sr g (child_locator l' j))) (asked h sr)) (enumerate 0 subs)"
    using assms by (intro map_cong) (auto simp: in_set_enumerate_eq intro!: assms)
  from arg_cong [OF this, of concat] show ?thesis by (simp add: comp_def case_prod_beta' map_below map_concat)
qed

lemma collect_locator: "leaf_summary (collect_leaves r h m a l) = leaf_summary (collect_leaves r h m a l')"
proof (induction r h m a l arbitrary: l' rule: collect_leaves.induct)
  case (1 r h m a l)
  let ?m = "m \<or> cr_id r = caddy_route_id h" and ?a = "if caddy_auth r \<noteq> [] then caddy_auth r else a"
  show ?case
  proof (cases "extra_matcher_keys r = [] \<and> first_dial r = None \<and> subroutes r \<noteq> None")
    case False
    then show ?thesis using declare_kind_locator [of l r _ _ l']
      by (auto simp: collect_leaves.simps [of r] Let_def leaf_summary_def split: option.splits)
  next
    case True
    then obtain subs where s: "extra_matcher_keys r = []" "first_dial r = None" "subroutes r = Some subs" by blast
    let ?parts = "\<lambda>l. map (\<lambda>(sr, g, k). collect_leaves sr g ?m ?a k) (below h l subs)"
    have "leaf_summary (collect_leaves sr g ?m ?a k) = leaf_summary (collect_leaves sr g ?m ?a k')" if g: "sr \<in> set subs" "g \<in> set (asked h sr)" for sr g k k'
    proof -
      obtain k0 where "(sr, g, k0) \<in> set (below h l subs)" using below_asked [OF g] by blast
      with 1 s have "leaf_summary (collect_leaves sr g ?m ?a k0) = leaf_summary (collect_leaves sr g ?m ?a l')" for l' by blast
      then show ?thesis by metis
    qed
    then have p: "map leaf_summary (?parts l) = map leaf_summary (?parts l')" by (rule below_summary)
    have unfold: "collect_leaves r h m a k =
       (if \<not> list_ex (snd \<circ> snd) (?parts k) \<and> concat (map (fst \<circ> snd) (?parts k)) = []
        then (concat (map fst (?parts k)), [caddy_declare k r (''subroute under '' @ h @ '' yielded no resolvable leaf route'') UnknownNestedRoute], False)
        else (concat (map fst (?parts k)), concat (map (fst \<circ> snd) (?parts k)), True))" for k
      using s by (subst collect_leaves.simps) (simp add: Let_def)
    have "concat (map (fst \<circ> snd) (?parts l)) = [] \<longleftrightarrow> concat (map (fst \<circ> snd) (?parts l')) = []"
      using summary_join(3) [OF p] by (metis map_is_Nil_conv)
    then show ?thesis
      unfolding unfold leaf_summary_def using summary_join [OF p] declare_kind_locator [of l r _ _ l'] by simp
  qed
qed

lemma top_locator:
  "sr_routes (read_top_route key i r) = sr_routes (read_top_route key j r)"
  "map n_kind (sr_unparsed (read_top_route key i r)) = map n_kind (sr_unparsed (read_top_route key j r))"
  "sr_permissive (read_top_route key i r) = sr_permissive (read_top_route key j r)"
proof -
  let ?loc = "\<lambda>i. ''apps.http.servers.'' @ key @ ''.routes['' @ index_text i @ '']''"
  have "map leaf_summary (map (\<lambda>h. collect_leaves r h False [] (?loc i)) (host_matches r))
      = map leaf_summary (map (\<lambda>h. collect_leaves r h False [] (?loc j)) (host_matches r))"
    using collect_locator by (simp add: comp_def)
  from summary_join [OF this] declare_kind_locator [of "?loc i" r _ _ "?loc j"]
  show "sr_routes (read_top_route key i r) = sr_routes (read_top_route key j r)"
    "map n_kind (sr_unparsed (read_top_route key i r)) = map n_kind (sr_unparsed (read_top_route key j r))"
    "sr_permissive (read_top_route key i r) = sr_permissive (read_top_route key j r)"
    by (simp_all add: read_top_route_def Let_def none_read_def split: option.splits prod.splits)
qed

lemma tops_locator:
  "concat (map (\<lambda>(i, r). sr_routes (read_top_route key i r)) (enumerate i rs)) = concat (map (\<lambda>(i, r). sr_routes (read_top_route key i r)) (enumerate j rs))"
  "map n_kind (concat (map (\<lambda>(i, r). sr_unparsed (read_top_route key i r)) (enumerate i rs)))
     = map n_kind (concat (map (\<lambda>(i, r). sr_unparsed (read_top_route key i r)) (enumerate j rs)))"
  "list_ex (\<lambda>(i, r). sr_permissive (read_top_route key i r)) (enumerate i rs) = list_ex (\<lambda>(i, r). sr_permissive (read_top_route key i r)) (enumerate j rs)"
proof (induction rs arbitrary: i j)
  case (Cons r rs)
  case 1
  show ?case using Cons(1) [of "Suc i" "Suc j"] top_locator(1) [of key i r j] by simp
next
  case (Cons r rs)
  case 2
  show ?case using Cons(2) [of "Suc i" "Suc j"] top_locator(2) [of key i r j] by simp
next
  case (Cons r rs)
  case 3
  show ?case using Cons(3) [of "Suc i" "Suc j"] top_locator(3) [of key i r j] by simp
qed simp_all

lemma normalize_server_alt:
  "normalize_server srv key = \<lparr>sr_routes = concat (map (\<lambda>(i, r). sr_routes (read_top_route key i r)) (enumerate 0 (sv_routes srv))),
     sr_unparsed = concat (map (\<lambda>(i, r). sr_unparsed (read_top_route key i r)) (enumerate 0 (sv_routes srv))),
     sr_permissive = list_ex (\<lambda>(i, r). sr_permissive (read_top_route key i r)) (enumerate 0 (sv_routes srv))\<rparr>"
  by (simp add: normalize_server_def Let_def comp_def case_prod_beta' list_ex_iff image_iff)

text \<open>A route at the front of a server is read first, and the rest as before.\<close>

lemma normalize_server_front:
  fixes srv r key
  defines "s \<equiv> normalize_server srv key" and "s' \<equiv> normalize_server (srv\<lparr>sv_routes := r # sv_routes srv\<rparr>) key"
    and "t \<equiv> read_top_route key 0 r"
  shows "sr_routes s' = sr_routes t @ sr_routes s" "map n_kind (sr_unparsed s') = map n_kind (sr_unparsed t) @ map n_kind (sr_unparsed s)"
    "sr_permissive s' = (sr_permissive t \<or> sr_permissive s)"
  using tops_locator [of key "Suc 0" "sv_routes srv" 0] by (simp_all add: assms normalize_server_alt)

section \<open>A configuration with one more route\<close>

definition front_route :: "string \<Rightarrow> cd_route \<Rightarrow> caddy_config \<Rightarrow> caddy_config" where
  "front_route key r cfg = (case map_of (cg_servers cfg) key of
     Some srv \<Rightarrow> cfg\<lparr>cg_servers := AList.update key (srv\<lparr>sv_routes := r # sv_routes srv\<rparr>) (cg_servers cfg)\<rparr> | None \<Rightarrow> cfg)"

lemma update_keys: "map_of xs k \<noteq> None \<Longrightarrow> map fst (AList.update k v xs) = map fst xs"
  by (induction xs) (auto split: if_splits)

lemma update_again: "map_of xs k = Some u \<Longrightarrow> AList.update k u (AList.update k v xs) = xs"
  by (induction xs) (auto split: if_splits)

lemma normalize_front:
  fixes cfg key r raw raw' srv
  defines "live \<equiv> caddy_normalize cfg key raw" and "live' \<equiv> caddy_normalize (front_route key r cfg) key raw'"
    and "t \<equiv> read_top_route key 0 r"
  assumes srv: "map_of (cg_servers cfg) key = Some srv"
  shows "\<exists>as bs. l_routes live = as @ bs \<and> l_routes live' = as @ sr_routes t @ bs"
    and "map n_kind (l_unparsed live') = map n_kind (sr_unparsed t) @ map n_kind (l_unparsed live)"
    and "l_deny_present live' = (\<not> sr_permissive t \<and> l_deny_present live)"
proof -
  let ?srv = "srv\<lparr>sv_routes := r # sv_routes srv\<rparr>"
  let ?ss = "cg_servers cfg" and ?ss' = "AList.update key ?srv (cg_servers cfg)"
  have cfg': "front_route key r cfg = cfg\<lparr>cg_servers := ?ss'\<rparr>" by (simp add: front_route_def srv)
  have keys: "sibling_keys ?ss' key = sibling_keys ?ss key"
    using update_keys [of ?ss key ?srv] srv by (simp add: sibling_keys_def)
  let ?sib = "\<lambda>ss. map (\<lambda>k. case map_of ss k of Some srv \<Rightarrow> read_sibling k srv | None \<Rightarrow> ([], [])) (sibling_keys ss key)"
  have sib: "?sib ?ss' = ?sib ?ss"
    unfolding keys by (rule map_cong [OF refl]) (simp add: sibling_keys_def update_conv')
  have l4: "layer4_routes (cfg\<lparr>cg_servers := ?ss'\<rparr>) = layer4_routes cfg" by (simp add: layer4_routes_def)
  have live: "live = (empty_live (\<not> sr_permissive (normalize_server srv key)))
      \<lparr>l_routes := layer4_routes cfg @ sr_routes (normalize_server srv key) @ concat (map fst (?sib ?ss)),
       l_unparsed := sr_unparsed (normalize_server srv key) @ concat (map snd (?sib ?ss)), l_raw := raw\<rparr>"
    by (simp add: live_def caddy_normalize_def Let_def srv)
  have live': "live' = (empty_live (\<not> sr_permissive (normalize_server ?srv key)))
      \<lparr>l_routes := layer4_routes cfg @ sr_routes (normalize_server ?srv key) @ concat (map fst (?sib ?ss)),
       l_unparsed := sr_unparsed (normalize_server ?srv key) @ concat (map snd (?sib ?ss)), l_raw := raw'\<rparr>"
    unfolding live'_def caddy_normalize_def cfg' Let_def l4 by (simp add: update_conv' flip: sib)
  note front = normalize_server_front [where srv = srv and r = r and key = key]
  show "\<exists>as bs. l_routes live = as @ bs \<and> l_routes live' = as @ sr_routes t @ bs"
    unfolding live live' by (rule exI [of _ "layer4_routes cfg"]) (simp add: front(1) t_def)
  show "map n_kind (l_unparsed live') = map n_kind (sr_unparsed t) @ map n_kind (l_unparsed live)"
    unfolding live live' by (simp add: front(2) t_def)
  show "l_deny_present live' = (\<not> sr_permissive t \<and> l_deny_present live)"
    unfolding live live' by (simp add: front(3) t_def empty_live_def)
qed

lemma fully_parsed_kinds: "fully_parsed s = list_all (\<lambda>k. k = UnknownAcknowledged) (map n_kind (l_unparsed s))"
  by (simp add: fully_parsed_def list_all_iff)

section \<open>The document with one more route\<close>

lemma dec_field_update:
  "dec_field (AList.update k v fs) k' f z = (if k' = k then f v else dec_field fs k' f z)"
  by (simp add: dec_field_def update_conv')

lemma dec_server_front:
  assumes "dec_server (JObj fs) = Inr srv" and "dec_route v = Inr r"
  shows "dec_server (JObj (AList.update ''routes'' (JArr (v # arr_field (JObj fs) ''routes'')) fs)) = Inr (srv\<lparr>sv_routes := r # sv_routes srv\<rparr>)"
proof -
  obtain ls where ls: "dec_field fs ''listen'' (dec_list dec_str) [] = Inr ls" "sv_listen srv = ls"
    and rs: "dec_field fs ''routes'' (dec_list dec_route) [] = Inr (sv_routes srv)"
    using assms(1) by (auto simp: dec_server_def dec_struct_def rbind_Inr)
  have "rmap dec_route (arr_field (JObj fs) ''routes'') = Inr (sv_routes srv)"
    using rs by (auto simp: dec_field_def arr_field_def dec_list_def mismatch_def split: option.splits json.splits)
  then have "dec_list dec_route (JArr (v # arr_field (JObj fs) ''routes'')) = Inr (r # sv_routes srv)"
    using assms(2) by (simp add: dec_list_def)
  with ls show ?thesis
    by (cases srv) (simp add: dec_server_def dec_struct_def dec_field_update)
qed

lemma rmap_Cons_Inr:
  "rmap f (x # xs) = Inr ys \<longleftrightarrow> (\<exists>y zs. f x = Inr y \<and> rmap f xs = Inr zs \<and> ys = y # zs)"
  by (auto split: sum.splits)

lemma dec_map_update:
  assumes "dec_map f (JObj ss) = Inr xs" and "map_of ss k \<noteq> None" and "f v = Inr y"
  shows "dec_map f (JObj (AList.update k v ss)) = Inr (AList.update k y xs)"
proof -
  have "rmap (\<lambda>(k, v). rbind (f v) (\<lambda>x. Inr (k, x))) ss = Inr xs" using assms(1) by (simp add: dec_map_def)
  then have "rmap (\<lambda>(k, v). rbind (f v) (\<lambda>x. Inr (k, x))) (AList.update k v ss) = Inr (AList.update k y xs)"
    using assms(2)
  proof (induction ss arbitrary: xs)
    case (Cons e ss)
    then show ?case using assms(3)
      by (cases e) (auto simp: rbind_Inr rmap_Cons_Inr simp del: rmap.simps split: if_splits)
  qed simp
  then show ?thesis by (simp add: dec_map_def)
qed

lemma dec_map_of:
  assumes "dec_map f (JObj ss) = Inr xs"
  shows "map_of xs k = (case map_of ss k of None \<Rightarrow> None | Some v \<Rightarrow> (case f v of Inl _ \<Rightarrow> None | Inr y \<Rightarrow> Some y))"
proof -
  have "rmap (\<lambda>(k, v). rbind (f v) (\<lambda>x. Inr (k, x))) ss = Inr xs" using assms by (simp add: dec_map_def)
  then show ?thesis
  proof (induction ss arbitrary: xs)
    case (Cons e ss)
    then show ?case by (cases e) (auto simp: rbind_Inr rmap_Cons_Inr simp del: rmap.simps)
  qed simp
qed

lemma dec_map_each:
  assumes "dec_map f (JObj ss) = Inr xs" and "map_of ss k = Some v"
  shows "\<exists>y. f v = Inr y"
proof -
  have "rmap (\<lambda>(k, v). rbind (f v) (\<lambda>x. Inr (k, x))) ss = Inr xs" using assms(1) by (simp add: dec_map_def)
  then have "\<forall>e \<in> set ss. \<exists>y. f (snd e) = Inr y"
    by (induction ss arbitrary: xs) (auto simp: rbind_Inr rmap_Cons_Inr simp del: rmap.simps)
  with map_of_SomeD [OF assms(2)] show ?thesis by fastforce
qed

lemma obj_field_shape:
  "obj_field j k = JObj fs \<Longrightarrow> fs \<noteq> [] \<Longrightarrow> \<exists>gs. j = JObj gs \<and> gs \<noteq> [] \<and> map_of gs k = Some (JObj fs)"
  by (cases j) (auto simp: obj_field_def split: option.splits json.splits)

lemma app_servers_shape:
  assumes "app_servers cfg app \<noteq> []"
  obtains fs as hs where "cfg = JObj fs" "map_of fs ''apps'' = Some (JObj as)" "map_of as app = Some (JObj hs)"
    "map_of hs ''servers'' = Some (JObj (app_servers cfg app))"
proof -
  have "obj_field (obj_field (obj_field cfg ''apps'') app) ''servers'' = JObj (app_servers cfg app)"
    using assms by (simp add: app_servers_def split: json.splits)
  from obj_field_shape [OF this assms] obtain hs where hs: "obj_field (obj_field cfg ''apps'') app = JObj hs" "hs \<noteq> []"
    "map_of hs ''servers'' = Some (JObj (app_servers cfg app))" by blast
  from obj_field_shape [OF hs(1,2)] obtain as where as: "obj_field cfg ''apps'' = JObj as" "as \<noteq> []" "map_of as app = Some (JObj hs)" by blast
  from obj_field_shape [OF as(1,2)] as(3) hs(3) that show ?thesis by blast
qed

lemma set_servers_shape:
  assumes "cfg = JObj fs" "map_of fs ''apps'' = Some (JObj as)" "map_of as app = Some (JObj hs)"
  shows "set_servers cfg app ss = JObj (AList.update ''apps'' (JObj (AList.update app (JObj (AList.update ''servers'' (JObj ss) hs)) as)) fs)"
  using assms by (simp add: set_servers_def obj_field_def Let_def)

lemma dec_http_servers:
  assumes "map_of hs ''servers'' = Some (JObj ss)" "dec_http (JObj hs) = Inr xs"
  shows "dec_map dec_server (JObj ss) = Inr xs"
  using assms by (simp add: dec_http_def dec_struct_def dec_field_def)

text \<open>The http servers of a configuration that is decoded.\<close>

lemma dec_config_servers:
  assumes "dec_config j = Inr cfg" and "app_servers j ''http'' = ss" and "ss \<noteq> []"
  shows "dec_map dec_server (JObj ss) = Inr (cg_servers cfg)"
    and "dec_map dec_server (JObj ss') = Inr xs \<Longrightarrow> dec_config (set_servers j ''http'' ss') = Inr (cfg\<lparr>cg_servers := xs\<rparr>)"
proof -
  have "app_servers j ''http'' \<noteq> []" using assms(2,3) by simp
  then obtain fs as hs where sh: "j = JObj fs" "map_of fs ''apps'' = Some (JObj as)" "map_of as ''http'' = Some (JObj hs)"
    "map_of hs ''servers'' = Some (JObj ss)" by (rule app_servers_shape) (use assms(2) in simp)
  have apps: "dec_apps (JObj as) = Inr cfg"
    using assms(1) sh(2) unfolding sh(1) by (simp add: dec_config_def dec_struct_def dec_field_def)
  then obtain ys l where ys: "dec_http (JObj hs) = Inr ys" "dec_field as ''layer4'' (dec_ptr dec_layer4) None = Inr l"
    "cfg = \<lparr>cg_servers = ys, cg_layer4 = l\<rparr>"
    using sh(3) by (auto simp: dec_apps_def dec_struct_def dec_field_def [of as "''http''"] rbind_Inr)
  show "dec_map dec_server (JObj ss) = Inr (cg_servers cfg)" using dec_http_servers [OF sh(4) ys(1)] ys(3) by simp
  assume xs: "dec_map dec_server (JObj ss') = Inr xs"
  have "dec_http (JObj (AList.update ''servers'' (JObj ss') hs)) = Inr xs"
    using xs by (simp add: dec_http_def dec_struct_def dec_field_update)
  then have "dec_apps (JObj (AList.update ''http'' (JObj (AList.update ''servers'' (JObj ss') hs)) as)) = Inr (cfg\<lparr>cg_servers := xs\<rparr>)"
    using ys(2,3) by (simp add: dec_apps_def dec_struct_def dec_field_update)
  then show "dec_config (set_servers j ''http'' ss') = Inr (cfg\<lparr>cg_servers := xs\<rparr>)"
    unfolding set_servers_shape [OF sh(1-3)] by (simp add: dec_config_def dec_struct_def dec_field_update)
qed

text \<open>The document after a route was put at the front of a server.\<close>

definition put_front :: "string \<Rightarrow> json \<Rightarrow> json \<Rightarrow> json" where
  "put_front key v j = (let server = (case map_of (app_servers j ''http'') key of Some sv \<Rightarrow> sv | None \<Rightarrow> JObj []) in
     set_servers j ''http'' (AList.update key (set_field ''routes'' (JArr (v # arr_field server ''routes'')) server) (app_servers j ''http'')))"

lemma dec_put_front:
  assumes "dec_config j = Inr cfg" and "map_of (app_servers j ''http'') key = Some (JObj fs)" and "dec_route v = Inr r"
  shows "dec_config (put_front key v j) = Inr (front_route key r cfg) \<and> map_of (cg_servers cfg) key \<noteq> None"
proof -
  let ?ss = "app_servers j ''http''"
  have ne: "?ss \<noteq> []" using assms(2) by auto
  note servers = dec_config_servers [OF assms(1) refl ne]
  obtain srv :: cd_server where srv: "dec_server (JObj fs) = Inr srv"
    using dec_map_each [OF servers(1) assms(2)] by blast
  have at: "map_of (cg_servers cfg) key = Some srv" using dec_map_of [OF servers(1), of key] assms(2) srv by simp
  have "map_of ?ss key \<noteq> None" using assms(2) by simp
  from servers(2) [OF dec_map_update [OF servers(1) this dec_server_front [OF srv assms(3)]]]
  have "dec_config (put_front key v j) = Inr (cfg\<lparr>cg_servers := AList.update key (srv\<lparr>sv_routes := r # sv_routes srv\<rparr>) (cg_servers cfg)\<rparr>)"
    by (simp add: put_front_def assms(2))
  then show ?thesis by (simp add: front_route_def at)
qed

section \<open>Exposing\<close>

lemma index_zero: "index_text 0 = ''0''" "go_atoi ''0'' = Some 0" by code_simp+

lemma insert_at_front: "insert_at slot 0 v = JArr (v # (case slot of Some (JArr xs) \<Rightarrow> xs | _ \<Rightarrow> []))"
  by (auto simp: insert_at_def Let_def)

lemma put_route_front:
  assumes "put_route (server_path key @ [index_text 0]) v j = (st, j')" and "success_status st"
  shows "\<exists>fs. map_of (app_servers j ''http'') key = Some (JObj fs) \<and> j' = put_front key v j"
proof -
  have l4: "''http'' \<noteq> ''layer4''" by simp
  have "\<exists>fs. map_of (app_servers j ''http'') key = Some (JObj fs)"
    using assms by (auto simp: put_route_def server_path_def index_zero server_for_def success_status_def Let_def
        split: if_splits option.splits json.splits)
  then obtain fs where fs: "map_of (app_servers j ''http'') key = Some (JObj fs)" by blast
  then have "j' = put_front key v j"
    using assms by (auto simp: put_route_def server_path_def index_zero server_for_def success_status_def Let_def
        insert_at_front put_front_def arr_field_def split: if_splits)
  with fs show ?thesis by blast
qed

definition plain_upstream :: "upstream \<Rightarrow> bool" where
  "plain_upstream u = (u_mode u = ModeHTTPProxy \<and> \<not> real_auth (u_auth u))"

definition granular_read :: "route \<Rightarrow> route" where
  "granular_read r = \<lparr>r_host = r_host r, r_upstream = \<lparr>u_kind = ForwardToOrigin, u_mode = ModeHTTPProxy,
     u_address = u_address (r_upstream r), u_tls_passthrough = False, u_server_name = r_host r,
     u_upstream_tls = u_upstream_tls (r_upstream r), u_auth = []\<rparr>, r_managed = True, r_ownership = OwnCrenel, r_chain = None\<rparr>"

definition granular_route :: "route \<Rightarrow> cd_route" where
  "granular_route r = CdRoute (caddy_route_id (r_host r)) [\<lparr>cm_host = [r_host r], cm_extra = []\<rparr>]
     [CdHandler ''reverse_proxy'' [u_address (r_upstream r)] 0 False [] None []
        (if u_upstream_tls (r_upstream r) then Some \<lparr>ct_protocol = ''http'', ct_tls = Some (True, request_host)\<rparr> else None)]"

lemma dec_granular:
  "dec_route (caddy_route_json (r_host r) [backend_handler (r_upstream r)]) = Inr (granular_route r)"
  by (simp add: dec_route.simps dec_handler.simps dec_field_def dec_list_def dec_match_def dec_struct_def dec_str_def dec_dial_def dec_ptr_def
      dec_transport_def dec_tls_def dec_bool_def caddy_route_json_def backend_handler_def dial_list_def granular_route_def)

lemma read_granular:
  "read_top_route key i (granular_route r) = \<lparr>sr_routes = [granular_read r], sr_unparsed = [], sr_permissive = False\<rparr>"
  by (simp add: read_top_route_def collect_leaves.simps Let_def granular_route_def granular_read_def host_matches_def extra_matcher_keys_def
      first_dial_def is_backend_def is_auth_gate_def caddy_auth_def leaf_route_def first_dial_tls_def ownership_from_marker_def)

lemma insert_front:
  assumes "insert_route d fake_admin r s = (Inr (), s')" and "plain_upstream (r_upstream r)"
    and "dec_config (fa_config s) = Inr cfg" and "map_of (cg_servers cfg) (cy_server d) = Some srv"
    and "insert_location (cy_server d) (sv_routes srv) (r_host r) = Inr (server_path (cy_server d) @ [index_text 0])"
  shows "s' = s\<lparr>fa_config := put_front (cy_server d) (caddy_route_json (r_host r) [backend_handler (r_upstream r)]) (fa_config s)\<rparr>
    \<and> (\<exists>fs. map_of (app_servers (fa_config s) ''http'') (cy_server d) = Some (JObj fs)) \<and> \<not> fa_read_stuck s \<and> \<not> fa_write_stuck s"
proof -
  let ?v = "caddy_route_json (r_host r) [backend_handler (r_upstream r)]"
  have hs: "route_handlers d r = Inr [backend_handler (r_upstream r)]"
    using assms(2) by (simp add: route_handlers_def plain_upstream_def Let_def)
  have awake: "\<not> fa_read_stuck s"
    using assms(1) by (auto simp: insert_route_def call_bind_def hs call_either_def insert_path_def fetch_config_def fetch_fake)
  have path: "insert_path d fake_admin (r_host r) s = (Inr (server_path (cy_server d) @ [index_text 0]), s)"
    using awake assms(3-5) by (simp add: insert_path_def fetch_config_def call_bind_def fetch_fake call_return_def call_either_def)
  have written: "admin_write fake_admin (AdmPut (server_path (cy_server d) @ [index_text 0]) ?v) s = (Inr (), s')"
    using assms(1) by (simp add: insert_route_def call_bind_def hs call_either_def path)
  then have "\<not> fa_write_stuck s" by (auto simp: admin_write_def call_bind_def do_admin_def fake_admin_def)
  from written obtain st j' where "put_route (server_path (cy_server d) @ [index_text 0]) ?v (fa_config s) = (st, j')" "success_status st"
    "s' = s\<lparr>fa_config := j'\<rparr>"
    by (auto simp: admin_write_def call_bind_def do_admin_def fake_admin_def fake_change_def fake_write_def call_return_def call_error_def
        split: if_splits prod.splits)
  with put_route_front [OF this(1,2)] awake \<open>\<not> fa_write_stuck s\<close> show ?thesis by blast
qed

text \<open>C14. A route that is inserted at the front of the managed server of Caddy is read back as exactly one more
  route, owned, with its host and address, whatever else the configuration has in it; every other route
  stays where it was, and the verdict on the default deny stays what it was.\<close>

theorem caddy_expose_adds_one:
  assumes "insert_route d fake_admin r s = (Inr (), s')" and "plain_upstream (r_upstream r)"
    and "dec_config (fa_config s) = Inr cfg" and "map_of (cg_servers cfg) (cy_server d) = Some srv"
    and "insert_location (cy_server d) (sv_routes srv) (r_host r) = Inr (server_path (cy_server d) @ [index_text 0])"
    and "cy_generator d = []" and "cy_generator_path d = []"
  shows "\<exists>live live' as bs. fst (caddy_read_live d fake_admin s) = Inr live \<and> fst (caddy_read_live d fake_admin s') = Inr live'
    \<and> l_routes live = as @ bs \<and> l_routes live' = as @ granular_read r # bs \<and> deny_verdict live' = deny_verdict live"
proof -
  let ?key = "cy_server d" and ?v = "caddy_route_json (r_host r) [backend_handler (r_upstream r)]"
  obtain fs where s': "s' = s\<lparr>fa_config := put_front ?key ?v (fa_config s)\<rparr>"
    and fs: "map_of (app_servers (fa_config s) ''http'') ?key = Some (JObj fs)" and awake: "\<not> fa_read_stuck s"
    using insert_front [OF assms(1-5)] by blast
  have dec': "dec_config (fa_config s') = Inr (front_route ?key (granular_route r) cfg)"
    using dec_put_front [OF assms(3) fs dec_granular] by (simp add: s')
  have gen: "caddy_generator d w = []" for w using assms(6,7) by (simp add: caddy_generator_def)
  let ?live = "caddy_normalize cfg ?key (json_text (fa_config s))"
  let ?live' = "caddy_normalize (front_route ?key (granular_route r) cfg) ?key (json_text (fa_config s'))"
  have reads: "fst (caddy_read_live d fake_admin s) = Inr (?live\<lparr>l_persistence := caddy_persistence d\<rparr>)"
    "fst (caddy_read_live d fake_admin s') = Inr (?live'\<lparr>l_persistence := caddy_persistence d\<rparr>)"
    using awake assms(3) dec' by (simp_all add: caddy_read_live_def call_bind_def fetch_fake raw_text_def mark_foreign_def gen s')
  note front = normalize_front [OF assms(4), where raw = "json_text (fa_config s)" and r = "granular_route r" and raw' = "json_text (fa_config s')",
    unfolded read_granular]
  have "fully_parsed ?live' = fully_parsed ?live" using front(2) by (simp add: fully_parsed_kinds del: map_map)
  with front(3) have "deny_verdict ?live' = deny_verdict ?live" by (simp add: deny_verdict_def)
  moreover have "deny_verdict (l\<lparr>l_persistence := p\<rparr>) = deny_verdict l" for l p by (simp add: deny_verdict_def fully_parsed_def)
  ultimately show ?thesis using front(1) reads by auto
qed

definition granular_caddy :: "caddy_fake caddy_driver" where "granular_caddy = plain_caddy\<lparr>cy_granular := True\<rparr>"

definition route_b :: route where
  "route_b = mk_route ''b.ex'' \<lparr>u_kind = ForwardToOrigin, u_mode = ModeHTTPProxy, u_address = ''h:2'',
     u_tls_passthrough = False, u_server_name = ''b.ex'', u_upstream_tls = False, u_auth = []\<rparr>"

definition server_config :: "cd_route list \<Rightarrow> caddy_config" where
  "server_config rs = \<lparr>cg_servers = [(''srv0'', \<lparr>sv_listen = [], sv_routes = rs\<rparr>)], cg_layer4 = None\<rparr>"

lemma example_insert:
  "\<exists>s'. insert_route granular_caddy fake_admin route_b (caddy_with [file_server]) = (Inr (), s')"
  "plain_upstream (r_upstream route_b)"
  "\<exists>rs. dec_config (fa_config (caddy_with [file_server])) = Inr (server_config rs)
     \<and> insert_location ''srv0'' rs ''b.ex'' = Inr (server_path ''srv0'' @ [index_text 0])"
proof -
  have "fst (insert_route granular_caddy fake_admin route_b (caddy_with [file_server])) = Inr ()" by code_simp
  then show "\<exists>s'. insert_route granular_caddy fake_admin route_b (caddy_with [file_server]) = (Inr (), s')"
    by (cases "insert_route granular_caddy fake_admin route_b (caddy_with [file_server])") auto
  show "plain_upstream (r_upstream route_b)" by code_simp
  have "dec_config (fa_config (caddy_with [file_server])) = Inr (server_config [host_route ''f.ex'' [CdHandler ''file_server'' [] 0 False [] None [] None]])"
    by code_simp
  moreover have "insert_location ''srv0'' [host_route ''f.ex'' [CdHandler ''file_server'' [] 0 False [] None [] None]] ''b.ex''
      = Inr (server_path ''srv0'' @ [index_text 0])" by code_simp
  ultimately show "\<exists>rs. dec_config (fa_config (caddy_with [file_server])) = Inr (server_config rs)
     \<and> insert_location ''srv0'' rs ''b.ex'' = Inr (server_path ''srv0'' @ [index_text 0])" by blast
qed

lemma example_fields [simp]:
  "cy_server granular_caddy = ''srv0''" "cy_generator granular_caddy = []" "cy_generator_path granular_caddy = []" "r_host route_b = ''b.ex''"
  by (simp_all add: granular_caddy_def plain_caddy_def route_b_def mk_route_def)

lemma caddy_expose_adds_one_witness:
  "\<exists>live live' as bs. fst (caddy_read_live granular_caddy fake_admin (caddy_with [file_server])) = Inr live
    \<and> fst (caddy_read_live granular_caddy fake_admin (snd (insert_route granular_caddy fake_admin route_b (caddy_with [file_server])))) = Inr live'
    \<and> l_routes live = as @ bs \<and> l_routes live' = as @ granular_read route_b # bs \<and> deny_verdict live' = deny_verdict live"
proof -
  obtain s' where ins: "insert_route granular_caddy fake_admin route_b (caddy_with [file_server]) = (Inr (), s')" using example_insert(1) by blast
  obtain rs where rs: "dec_config (fa_config (caddy_with [file_server])) = Inr (server_config rs)"
    "insert_location ''srv0'' rs ''b.ex'' = Inr (server_path ''srv0'' @ [index_text 0])" using example_insert(3) by blast
  have at: "map_of (cg_servers (server_config rs)) (cy_server granular_caddy) = Some \<lparr>sv_listen = [], sv_routes = rs\<rparr>"
    by (simp add: server_config_def)
  from caddy_expose_adds_one [OF ins example_insert(2) rs(1) at] rs(2) show ?thesis by (simp add: ins)
qed

section \<open>Taking it back\<close>

lemma count_ids_field: "map_of fs k = Some v \<Longrightarrow> count_ids v i \<le> count_ids (JObj fs) i"
proof -
  assume "map_of fs k = Some v"
  then have "(k, v) \<in> set fs" by (rule map_of_SomeD)
  then have "count_ids v i \<le> sum_list (map (\<lambda>(_, v). count_ids v i) fs)" by (force intro: member_le_sum_list)
  then show ?thesis by simp
qed

lemma arr_field_mem: "x \<in> set (arr_field j k) \<Longrightarrow> \<exists>xs. json_field j k = Some (JArr xs) \<and> x \<in> set xs"
  by (simp add: arr_field_def split: option.splits json.splits) metis

lemma count_ids_arr: "x \<in> set (arr_field j k) \<Longrightarrow> count_ids x i \<le> count_ids j i"
proof -
  assume "x \<in> set (arr_field j k)"
  then obtain xs where xs: "json_field j k = Some (JArr xs)" "x \<in> set xs" using arr_field_mem by blast
  then have "count_ids x i \<le> count_ids (JArr xs) i" by (force intro: member_le_sum_list)
  moreover obtain fs where "j = JObj fs" "map_of fs k = Some (JArr xs)" using xs(1) by (cases j) simp_all
  ultimately show ?thesis using count_ids_field [of fs k "JArr xs" i] by simp
qed

text \<open>An id that is nowhere is not deleted.\<close>

lemma delete_id_None:
  "\<forall>r \<in> set rs. count_ids r i = 0 \<Longrightarrow> delete_id i rs = None"
  "\<forall>h \<in> set hs. count_ids h i = 0 \<Longrightarrow> delete_id_handlers i hs = None"
proof (induction i rs and i hs rule: delete_id_delete_id_handlers.induct)
  case (2 i r rs)
  have "\<forall>h \<in> set (arr_field r ''handle''). count_ids h i = 0" using 2(3) count_ids_arr [of _ r "''handle''" i] by fastforce
  moreover have "\<not> (is_obj r \<and> json_field r ''@id'' = Some (JStr i))" using 2(3) by (cases r) (auto simp: is_obj_def)
  ultimately show ?case using 2 by auto
next
  case (4 i h hs)
  have "\<forall>r \<in> set (arr_field h ''routes''). count_ids r i = 0" using 4(3) count_ids_arr [of _ h "''routes''" i] by fastforce
  with 4 show ?case by auto
qed simp_all

lemma delete_new_id:
  assumes "map_of ss key = Some server" and "is_obj server" and "json_field server ''routes'' = Some (JArr rs)"
    and "is_obj v" and "json_field v ''@id'' = Some (JStr i)" and "\<forall>(k, sv) \<in> set ss. count_ids sv i = 0"
  shows "delete_in_servers i (AList.update key (set_field ''routes'' (JArr (v # rs)) server) ss) = Some ss"
  using assms(1,6)
proof (induction ss)
  case (Cons e ss)
  obtain k sv where e: "e = (k, sv)" by fastforce
  show ?case
  proof (cases "k = key")
    case True
    with Cons(2) e have sv: "sv = server" by simp
    obtain fs where fs: "server = JObj fs" using assms(2) by (cases server) (auto simp: is_obj_def)
    have "delete_id i (v # rs) = Some rs" using assms(4,5) by simp
    moreover have "AList.update ''routes'' (JArr rs) (AList.update ''routes'' (JArr (v # rs)) fs) = fs"
      using assms(3) fs by (simp add: AList.update_triv)
    ultimately show ?thesis using True e sv fs by (simp add: arr_field_def update_conv' is_obj_def)
  next
    case False
    have "delete_id i (arr_field sv ''routes'') = None"
      using Cons(3) e count_ids_arr [of _ sv "''routes''" i] by (intro delete_id_None) fastforce
    then show ?thesis using False e Cons by simp
  qed
qed simp

lemma set_servers_twice:
  assumes "app_servers j app = ss" and "ss \<noteq> []" and "ss' \<noteq> []"
  shows "app_servers (set_servers j app ss') app = ss'" and "set_servers (set_servers j app ss') app ss = j"
proof -
  have "app_servers j app \<noteq> []" using assms by simp
  then obtain fs as hs where sh: "j = JObj fs" "map_of fs ''apps'' = Some (JObj as)" "map_of as app = Some (JObj hs)"
    "map_of hs ''servers'' = Some (JObj ss)" by (rule app_servers_shape) (use assms(1) in simp)
  let ?hs = "AList.update ''servers'' (JObj ss') hs"
  let ?as = "AList.update app (JObj ?hs) as"
  let ?fs = "AList.update ''apps'' (JObj ?as) fs"
  have one: "set_servers j app ss' = JObj ?fs" by (rule set_servers_shape [OF sh(1-3)])
  show "app_servers (set_servers j app ss') app = ss'"
    unfolding one by (simp add: app_servers_def obj_field_def update_conv')
  have "set_servers (JObj ?fs) app ss
      = JObj (AList.update ''apps'' (JObj (AList.update app (JObj (AList.update ''servers'' (JObj ss) ?hs)) ?as)) ?fs)"
    by (rule set_servers_shape [OF refl]) (simp_all add: update_conv')
  also have "\<dots> = JObj fs"
    using update_again [OF sh(4)] update_again [OF sh(3)] update_again [OF sh(2)] by simp
  finally show "set_servers (set_servers j app ss') app ss = j" unfolding one by (simp only: sh(1))
qed

lemma count_servers:
  assumes "count_ids j i = 0" and "(k, sv) \<in> set (app_servers j app)"
  shows "count_ids sv i = 0"
proof -
  have "app_servers j app \<noteq> []" using assms(2) by auto
  then obtain fs as hs where sh: "j = JObj fs" "map_of fs ''apps'' = Some (JObj as)" "map_of as app = Some (JObj hs)"
    "map_of hs ''servers'' = Some (JObj (app_servers j app))" by (rule app_servers_shape)
  have "count_ids (JObj (app_servers j app)) i = 0"
    using count_ids_field [OF sh(4), of i] count_ids_field [OF sh(3), of i] count_ids_field [OF sh(2), of i] assms(1)
    unfolding sh(1) by linarith
  then have "sum_list (map (\<lambda>(_, v). count_ids v i) (app_servers j app)) = 0" by simp
  with assms(2) show ?thesis by fastforce
qed

lemma navigate_routes:
  assumes "navigate j (server_path key) = Some (JArr rs)" and "map_of (app_servers j ''http'') key = Some (JObj fs)"
  shows "map_of fs ''routes'' = Some (JArr rs)"
proof -
  have "app_servers j ''http'' \<noteq> []" using assms(2) by auto
  then obtain gs as hs where sh: "j = JObj gs" "map_of gs ''apps'' = Some (JObj as)" "map_of as ''http'' = Some (JObj hs)"
    "map_of hs ''servers'' = Some (JObj (app_servers j ''http''))" by (rule app_servers_shape)
  have child: "map_of xs k = Some (JObj ys) \<Longrightarrow> json_child (JObj xs) k = Some (JObj ys)" for xs k ys by (simp add: json_child_def)
  have "json_child (JObj fs) ''routes'' = Some (JArr rs)"
    using assms(1) child [OF sh(2)] child [OF sh(3)] child [OF sh(4)] child [OF assms(2)] unfolding sh(1)
    by (auto simp: server_path_def split: option.splits)
  then show ?thesis by (auto simp: json_child_def split: option.splits json.splits)
qed

text \<open>C15. Unexposing takes back exactly what exposing did: when no node of the document has the id of the host, deleting
  by that id after the insertion gives back the very document there was before it.\<close>

theorem caddy_insert_delete:
  assumes "insert_route d fake_admin r s = (Inr (), s')" and "plain_upstream (r_upstream r)"
    and "dec_config (fa_config s) = Inr cfg" and "map_of (cg_servers cfg) (cy_server d) = Some srv"
    and "insert_location (cy_server d) (sv_routes srv) (r_host r) = Inr (server_path (cy_server d) @ [index_text 0])"
    and "count_ids (fa_config s) (caddy_route_id (r_host r)) = 0"
    and "navigate (fa_config s) (server_path (cy_server d)) = Some (JArr rs)"
  shows "delete_by_id fake_admin (caddy_route_id (r_host r)) s' = (Inr True, s)"
proof -
  let ?key = "cy_server d" and ?v = "caddy_route_json (r_host r) [backend_handler (r_upstream r)]" and ?j = "fa_config s"
  let ?i = "caddy_route_id (r_host r)" and ?ss = "app_servers (fa_config s) ''http''"
  obtain fs where s': "s' = s\<lparr>fa_config := put_front ?key ?v ?j\<rparr>" and fs: "map_of ?ss ?key = Some (JObj fs)"
    and awake: "\<not> fa_write_stuck s"
    using insert_front [OF assms(1-5)] by blast
  have at: "map_of fs ''routes'' = Some (JArr rs)" by (rule navigate_routes [OF assms(7) fs])
  have ne: "?ss \<noteq> []" using fs by auto
  let ?new = "AList.update ?key (set_field ''routes'' (JArr (?v # rs)) (JObj fs)) ?ss"
  have ne': "?new \<noteq> []" by (cases ?ss) auto
  have put: "put_front ?key ?v ?j = set_servers ?j ''http'' ?new" using at by (simp add: put_front_def fs arr_field_def Let_def)
  have "delete_in_servers ?i ?new = Some ?ss"
    using at count_servers [OF assms(6)] by (intro delete_new_id [OF fs]) (auto simp: is_obj_def caddy_route_json_def)
  then have "delete_anywhere ?i (put_front ?key ?v ?j) = Some ?j"
    using set_servers_twice [OF refl ne ne'] by (simp add: delete_anywhere_def put)
  then show ?thesis using awake
    by (simp add: delete_by_id_def call_bind_def do_admin_def fake_admin_def fake_change_def fake_write_def delete_route_id_def
        success_status_def call_return_def s')
qed

lemma caddy_insert_delete_witness:
  "delete_by_id fake_admin ''crenel-route-b.ex'' (snd (insert_route granular_caddy fake_admin route_b (caddy_with [file_server])))
     = (Inr True, caddy_with [file_server])"
proof -
  obtain s' where ins: "insert_route granular_caddy fake_admin route_b (caddy_with [file_server]) = (Inr (), s')" using example_insert(1) by blast
  obtain rs where rs: "dec_config (fa_config (caddy_with [file_server])) = Inr (server_config rs)"
    "insert_location ''srv0'' rs ''b.ex'' = Inr (server_path ''srv0'' @ [index_text 0])" using example_insert(3) by blast
  have at: "map_of (cg_servers (server_config rs)) (cy_server granular_caddy) = Some \<lparr>sv_listen = [], sv_routes = rs\<rparr>"
    by (simp add: server_config_def)
  have i: "caddy_route_id ''b.ex'' = ''crenel-route-b.ex''" by code_simp
  have c: "count_ids (fa_config (caddy_with [file_server])) ''crenel-route-b.ex'' = 0" by code_simp
  have n: "navigate (fa_config (caddy_with [file_server])) (server_path ''srv0'') = Some (JArr [file_server])" by code_simp
  from caddy_insert_delete [OF ins example_insert(2) rs(1) at] rs(2) c n show ?thesis by (simp add: ins i)
qed

section \<open>The sweep of a durable edge\<close>

definition durable_caddy :: "caddy_fake caddy_driver" where "durable_caddy = granular_caddy\<lparr>cy_persist_path := ''/c''\<rparr>"

definition hosts_json :: "string list \<Rightarrow> json list \<Rightarrow> json" where
  "hosts_json hs handlers = JObj [(''match'', JArr [JObj [(''host'', JArr (map JStr hs))]]), (''handle'', JArr handlers)]"

definition proxy_json :: "string \<Rightarrow> json" where
  "proxy_json a = JObj [(''handler'', JStr ''reverse_proxy''), (''upstreams'', dial_list a)]"

text \<open>A route that serves two hosts goes with the removal of one of them.\<close>

lemma caddy_sweep_takes_another_host:
  "(let s = caddy_with [hosts_json [''a.ex'', ''b.ex''] [proxy_json ''h:1'']] in
    delete_route durable_caddy fake_admin ''a.ex'' s = (Inr (), caddy_with []))"
  by code_simp

text \<open>A wildcard route that names the host as well goes with all of its zone.\<close>

lemma caddy_sweep_takes_the_zone:
  "(let s = caddy_with [hosts_json [''a.ex'', ''*.ex''] [JObj [(''handler'', JStr ''subroute''), (''routes'', JArr [forward_json ''b.ex'' ''h:1''])]]] in
    delete_route durable_caddy fake_admin ''a.ex'' s = (Inr (), caddy_with []))"
  by code_simp

text \<open>Eight routes for a host are all deleted, and the deletion is reported as failed.\<close>

lemma caddy_sweep_eighth_reported:
  "delete_route durable_caddy fake_admin ''a.ex'' (caddy_with (replicate 8 (forward_json ''a.ex'' ''h:1'')))
     = (Inl ''caddy delete a.ex: route still present after 8 host-match deletes'', caddy_with [])"
  by code_simp

end
