(* ===== verification/Spec2Isabelle.thy ===== *)
theory Spec2Isabelle
  imports Fleet Status Nginx_Live Nginx_Tree Pihole Cloudflare Dnscontrol Caddy_Granular
begin

text \<open>
  Crenel exposes internal services through reverse proxies (edges) and DNS providers. Its core
  (Go, \<open>internal/core\<close>) keeps no state of its own: each command reads the live state of every
  provider, plans a change, passes it through gates and the operator's confirmation, applies it
  step by step, reads everything back, and takes all of it back when anything is wrong. This
  development models that core, the data model and ports it is written against, and drivers
  behind the ports, and composes them into a whole.

  Theories, with the code each follows.

  \<^item> \<open>Prelude\<close>: generic facts on strings (case folding, trimming, splitting), lists, sorting and
    the error sum; no repository code.
  \<^item> \<open>Model\<close>: \<open>internal/model\<close>. Enumerations are datatypes, structs records, their pure methods
    definitions; the verdict on the default deny is \<open>deny_verdict\<close>.
  \<^item> \<open>Ports\<close>: \<open>internal/ports/ports.go\<close>. A provider is a record of functions over a type of worlds;
    a capability the Go code finds by a type assertion is a field of option type.
  \<^item> \<open>Topology\<close>, \<open>Chain\<close>, \<open>Planning\<close>, \<open>Gate\<close>: \<open>engine.go\<close>, \<open>dns_zone.go\<close>, \<open>chain.go\<close>,
    \<open>chain_write.go\<close>, \<open>gate.go\<close>, \<open>readonly.go\<close>: the engine and its bindings, roles and depths in a chain of
    edges, the plan of one operation, the gates before it is written.
  \<^item> \<open>Txn\<close>, \<open>Verify\<close>, \<open>Apply\<close>: \<open>apply.go\<close>, \<open>report.go\<close>, \<open>resume.go\<close>, \<open>rename.go\<close>: the steps in exposure
    order, their execution and rollback, the read-back, and the single-service writes.
  \<^item> \<open>Reconcile\<close>, \<open>Adoption\<close>, \<open>Declarative\<close>: \<open>reconcile.go\<close>, \<open>dns_coverage.go\<close>, \<open>import.go\<close>,
    \<open>declarative.go\<close>: the writes over many services, with their own verifications.
  \<^item> \<open>Ack\<close>, \<open>Ingress\<close>, \<open>Auditing\<close>, \<open>Status\<close>: \<open>ack.go\<close>, \<open>triage.go\<close>, \<open>ingress.go\<close>, \<open>audit.go\<close>, \<open>status.go\<close>,
    \<open>export.go\<close>: the acknowledgement of what is not understood, what a tunnel's own configuration
    publishes, the audit with every finding as a constructor of \<open>audit_code\<close>, the read-only views.
  \<^item> \<open>Netip\<close>, \<open>AdGuard\<close>: the standard library's parsing of an address, the AdGuard driver
    (\<open>drivers/dns/adguard\<close>) over its control channel, and the control API as the repository's fake
    states it.
  \<^item> \<open>Strconv\<close>, \<open>Pihole\<close>: the Pi-hole driver (\<open>drivers/dns/pihole\<close>) and its session client, with the API
    as the repository's fake states it. \<open>Cloudflare\<close>: the surgical Cloudflare driver
    (\<open>drivers/dns/cloudflare\<close>), likewise. \<open>Dnscontrol\<close>: the driver that
    delegates to the tool dnscontrol (\<open>drivers/dns/dnscontrol\<close>) and the tool's shell.
  \<^item> \<open>Traefik_Codec\<close>, \<open>Traefik\<close>: the Traefik driver (\<open>drivers/edge/traefik\<close>) on its file: rules,
    generator detection, normalization, plan, additive edit, adoption, runtime probe; and the static
    origin resolver.
  \<^item> \<open>Regexp\<close>: the regular expressions of the standard library, as the drivers use them.
  \<^item> \<open>Nginx_Codec\<close>, \<open>Nginx\<close>: the nginx driver (\<open>drivers/edge/nginx\<close>): \<open>codec.go\<close>, \<open>nginx.go\<close>, \<open>runtime.go\<close>.
    \<open>Nginx_Text\<close>, \<open>Nginx_Render\<close>, \<open>Nginx_Write\<close> prove how a text splits again into the blocks it was
    rendered from and what each reads as; \<open>Nginx_Refine\<close> states the driver as a map of routes and
    \<open>Nginx_Live\<close> its properties. \<open>Nginx_Tree\<close>: the reader of an Nginx Proxy Manager tree, \<open>tree_read.go\<close>.
  \<^item> \<open>Calls\<close>: calls that thread the state of a driver and its session, with the rules for their invariants.
  \<^item> \<open>Json\<close>, \<open>Caddy_Config\<close>, \<open>Caddy_Read\<close>, \<open>Caddy\<close>: the Caddy driver (\<open>drivers/edge/caddy\<close>) over the admin API:
    \<open>types.go\<close>, the reading, planning, full load, additive path, adoption and acknowledgement of \<open>caddy.go\<close>,
    \<open>render.go\<close>, \<open>ack_locator.go\<close>. \<open>Caddy_Api\<close>: the API as \<open>caddyfake/fake.go\<close> states it, on the document.
    \<open>Caddy_Full\<close> shows when a full load is sent and that it is read back as its target, \<open>Caddy_Granular\<close> that
    an insertion is read back as one more route and is taken back exactly; both end with what goes wrong.
  \<^item> \<open>Provider_Contract\<close>: what the transaction relies on, as locales. \<open>compensating\<close>, the contract of a driver whose
    calls are all answered, is interpreted on the drivers of an API; \<open>part\<close> on the files and resolvers of a fleet.
  \<^item> \<open>Faults\<close>, \<open>Flaky\<close>: accidents. A file carries what becomes of each coming \<open>os.WriteFile\<close> (through, refused
    before it is opened, cut after it was truncated), a resolver what becomes of each coming call (answered, not
    reached, made with the answer lost). \<open>revocable\<close>, which follows from \<open>compensating\<close>, is the contract under
    accidents: a failure leaves the view, and an inverse restores it when it goes through; it is interpreted on the
    Traefik and the nginx driver over such files and on the AdGuard driver over such a resolver.
  \<^item> \<open>Fleet\<close>: the core over Traefik files and AdGuard resolvers with their accidents; it discharges the locale
    \<open>step_contract\<close> of \<open>Txn\<close>, for the view of any set of targets.

  State and errors. A world is a type parameter of core; an action is a function from a world to
  an optional error and a new world, so that a failing call may still have changed something. Reads
  are functions of the world. An error of core is a constructor of \<open>core_error\<close> with the data its
  message prints; the text of a provider's error is a string and drops what only formats.

  What the lemmas show. The safety of a write is split as the code splits it: nothing happens
  before the gates and the confirmation (\<open>apply_op_untouched\<close>, \<open>gate_ownership_passes\<close>); the steps run in exposure order
  (\<open>build_steps_exposure_order\<close>, \<open>downstream_before_front\<close>); a success has been read back
  (\<open>apply_success_edges\<close>, \<open>apply_success_dns\<close>, and the same for reconcile, import and the declarative apply); a
  failure is taken back, over any provider that keeps the contract (the locale \<open>step_contract\<close>) and over the
  program's own drivers (\<open>fleet_expose_all_or_nothing\<close>): an expose that fails, and reports no failed undo, has
  restored every edge and resolver but those where an accident took half effect (a write cut after the
  truncation, a change made with its answer lost) or that held a leftover of crenel's. The step that fails is
  not undone by the code, so these exceptions are real: \<open>fleet_lost_answer_leaves_record\<close>,
  \<open>traefik_cut_write_empties\<close>, \<open>nginx_rejected_text_stays\<close>.

  Bounds. \<open>relax_loop\<close> has the code's own bound, one pass per edge; that it is enough on an
  acyclic topology, in whatever order the edges are listed, is \<open>chain_depth_downstream_deeper\<close>.
  \<open>downstream_participates\<close> terminates by the measure of the edges not yet seen. The runtime probe
  polls once and then once per interval until its deadline, 15 times. The listing of a Cloudflare zone
  runs on a bound of pages; \<open>cloudflare_listing_complete\<close> says that one page per hundred records is enough.
  Go's integers count edges, hosts and seconds here and are natural numbers or integers; no width is reached.

  Not modelled: contexts and cancellation, concurrency (one operator process runs one command),
  formatting of reports, redaction, the command line, the terminal interface, the configuration
  files, SSH transport; the NetBird edge; of the Caddy driver the mirror of its routes on disk (\<open>persist*.go\<close>,
  \<open>caddyfile_*.go\<close>: an argument of the provider) and the reader of a directory of generated files
  (\<open>cdp_dir.go\<close>); of the Traefik driver the decoders of its file and its API read source; the second fake of
  dnscontrol. The HTTP clients and the running daemons are arguments of the definitions that use them. A
  theorem on an insertion into Caddy is about the front of the managed server; where a wildcard route covers
  the host the code inserts into its subroute, which is modelled and has no theorem.
\<close>

end
